(* ===== verification/Cpp_Prelude.thy ===== *)
theory Cpp_Prelude
  imports Complex_Main "HOL-Library.Word"
begin

text \<open>
  The shared ground of the development: the fixed-width integers the C++ sources use, the ways a
  C++ operation can fail (undefined behaviour that the model refuses to guess at, exceptions of the
  standard library, failed \<open>NS_ASSERT\<close>s), the error monad that threads those failures, checked
  vector access, the ordered map behind \<open>std::map\<close>, little-endian byte encoding of integers, and
  \<open>std::to_string\<close>. Every component theory imports this one.
\<close>

section \<open>Integers and failures\<close>

type_synonym u8 = "8 word"
type_synonym u16 = "16 word"
type_synonym u32 = "32 word"
type_synonym u64 = "64 word"

text \<open>
  \<^item> \<open>OutOfRange\<close>: an index or iterator outside its container, which C++ leaves undefined;
  \<^item> \<open>KeyNotFound\<close>: \<open>std::out_of_range\<close> thrown by \<open>map::at\<close>;
  \<^item> \<open>DivideByZero\<close>: integer division or remainder by zero;
  \<^item> \<open>LengthError\<close>: \<open>std::length_error\<close> thrown by \<open>vector::reserve\<close>;
  \<^item> \<open>AssertFail\<close>: a failed \<open>NS_ASSERT\<close>;
  \<^item> \<open>DuplicateTag\<close>: a second packet tag of a type the packet already carries;
  \<^item> \<open>BadHeader\<close>: \<open>RemoveHeader\<close> of a type that is not the packet's outermost header;
  \<^item> \<open>InvalidArgument\<close>: \<open>std::invalid_argument\<close> thrown by \<open>stoi\<close> or \<open>stoull\<close>;
  \<^item> \<open>ValueRange\<close>: \<open>std::out_of_range\<close> thrown by \<open>stoi\<close> or \<open>stoull\<close>;
  \<^item> \<open>SystemError\<close>: \<open>std::system_error\<close>, a file that cannot be opened;
  \<^item> \<open>FatalError\<close>: \<open>NS_FATAL_ERROR\<close>.
\<close>

datatype cpp_error = OutOfRange | KeyNotFound | DivideByZero | LengthError | AssertFail
  | DuplicateTag | BadHeader | InvalidArgument | ValueRange | SystemError | FatalError

type_synonym 'a res = "cpp_error + 'a"

named_theorems monad_simps "equations and inversions of the error monad"
named_theorems wf_intros "preservation of a component's well-formedness by its operations"

definition bindE :: "'a res \<Rightarrow> ('a \<Rightarrow> 'b res) \<Rightarrow> 'b res" where
  "bindE m f = (case m of Inl e \<Rightarrow> Inl e | Inr x \<Rightarrow> f x)"

definition assertE :: "cpp_error \<Rightarrow> bool \<Rightarrow> unit res" where
  "assertE e b = (if b then Inr () else Inl e)"

lemma bindE_Inl [simp, monad_simps]: "bindE (Inl e) f = Inl e"
  by (simp add: bindE_def)

lemma bindE_Inr [simp, monad_simps]: "bindE (Inr x) f = f x"
  by (simp add: bindE_def)

lemma bindE_eq_Inr [monad_simps]: "bindE m f = Inr y \<longleftrightarrow> (\<exists>x. m = Inr x \<and> f x = Inr y)"
  by (cases m) auto

lemma bindE_eq_Inl [monad_simps]:
  "bindE m f = Inl e \<longleftrightarrow> m = Inl e \<or> (\<exists>x. m = Inr x \<and> f x = Inl e)"
  by (cases m) auto

lemma bindE_InrE: "bindE m f = Inr y \<Longrightarrow> (\<And>x. m = Inr x \<Longrightarrow> f x = Inr y \<Longrightarrow> P) \<Longrightarrow> P"
  by (cases m) auto

lemma bindE_assoc: "bindE (bindE m f) g = bindE m (\<lambda>x. bindE (f x) g)"
  by (cases m) auto

lemma assertE_True [simp]: "assertE e True = Inr ()"
  by (simp add: assertE_def)

lemma assertE_False [simp]: "assertE e False = Inl e"
  by (simp add: assertE_def)

lemma assertE_eq_Inr [monad_simps]: "assertE e b = Inr u \<longleftrightarrow> b"
  by (simp add: assertE_def)

lemma assertE_eq_Inl [monad_simps]: "assertE e b = Inl e' \<longleftrightarrow> \<not> b \<and> e' = e"
  by (auto simp: assertE_def)

text \<open>Total correctness of a computation: it does not fail, and its result satisfies \<open>P\<close>. The
  rules walk through a handler one \<open>bindE\<close> at a time.\<close>

definition returns :: "'a res \<Rightarrow> ('a \<Rightarrow> bool) \<Rightarrow> bool" where
  "returns m P \<longleftrightarrow> (\<exists>x. m = Inr x \<and> P x)"

lemma returns_Inr [simp]: "returns (Inr x) P \<longleftrightarrow> P x"
  by (simp add: returns_def)

lemma returns_Inl [simp]: "\<not> returns (Inl e) P"
  by (simp add: returns_def)

lemma returns_bind: "returns m Q \<Longrightarrow> (\<And>x. Q x \<Longrightarrow> returns (f x) P) \<Longrightarrow> returns (bindE m f) P"
  by (auto simp: returns_def)

lemma returns_bind_iff: "returns (bindE m f) P \<longleftrightarrow> returns m (\<lambda>x. returns (f x) P)"
  by (cases m) (auto simp: returns_def)

lemma returns_mono: "returns m Q \<Longrightarrow> (\<And>x. Q x \<Longrightarrow> P x) \<Longrightarrow> returns m P"
  by (auto simp: returns_def)

lemma returnsD: "returns m P \<Longrightarrow> m = Inr x \<Longrightarrow> P x"
  by (simp add: returns_def)

section \<open>Vectors\<close>

text \<open>\<open>operator[]\<close> of a vector, with the access outside it made visible.\<close>

definition vec_at :: "'a list \<Rightarrow> nat \<Rightarrow> 'a res" where
  "vec_at xs i = (if i < length xs then Inr (xs ! i) else Inl OutOfRange)"

definition vec_set :: "'a list \<Rightarrow> nat \<Rightarrow> 'a \<Rightarrow> 'a list res" where
  "vec_set xs i v = (if i < length xs then Inr (xs[i := v]) else Inl OutOfRange)"

lemma vec_at_ok [simp]: "i < length xs \<Longrightarrow> vec_at xs i = Inr (xs ! i)"
  by (simp add: vec_at_def)

lemma vec_set_ok [simp]: "i < length xs \<Longrightarrow> vec_set xs i v = Inr (xs[i := v])"
  by (simp add: vec_set_def)

lemma vec_at_eq_Inr [monad_simps]: "vec_at xs i = Inr x \<longleftrightarrow> i < length xs \<and> x = xs ! i"
  by (auto simp: vec_at_def)

lemma vec_set_eq_Inr [monad_simps]: "vec_set xs i v = Inr ys \<longleftrightarrow> i < length xs \<and> ys = xs[i := v]"
  by (auto simp: vec_set_def)

section \<open>Associative containers\<close>

text \<open>
  \<open>std::map\<close> is an association list kept strictly increasing in its keys, the order in which
  the C++ container is iterated. \<open>map_of\<close> reads it as a partial function.
\<close>

fun omap_insert :: "('k::linorder \<times> 'v) list \<Rightarrow> 'k \<Rightarrow> 'v \<Rightarrow> ('k \<times> 'v) list" where
  "omap_insert [] k v = [(k, v)]"
| "omap_insert ((a, b) # m) k v =
     (if k < a then (k, v) # (a, b) # m
      else if k = a then (k, v) # m
      else (a, b) # omap_insert m k v)"

definition omap_erase :: "('k \<times> 'v) list \<Rightarrow> 'k \<Rightarrow> ('k \<times> 'v) list" where
  "omap_erase m k = filter (\<lambda>e. fst e \<noteq> k) m"

definition omap_wf :: "('k::linorder \<times> 'v) list \<Rightarrow> bool" where
  "omap_wf m \<longleftrightarrow> sorted_wrt (<) (map fst m)"

definition omap_at :: "('k \<times> 'v) list \<Rightarrow> 'k \<Rightarrow> 'v res" where
  "omap_at m k = (case map_of m k of None \<Rightarrow> Inl KeyNotFound | Some v \<Rightarrow> Inr v)"

lemma omap_insert_keys: "fst ` set (omap_insert m k v) = insert k (fst ` set m)"
  by (induction m k v rule: omap_insert.induct) auto

lemma omap_insert_map_of [simp]: "omap_wf m \<Longrightarrow> map_of (omap_insert m k v) = (map_of m)(k \<mapsto> v)"
  by (induction m k v rule: omap_insert.induct) (auto simp: omap_wf_def fun_eq_iff)

lemma omap_insert_wf [wf_intros]: "omap_wf m \<Longrightarrow> omap_wf (omap_insert m k v)"
proof (induction m k v rule: omap_insert.induct)
  case (2 a b m k v)
  have "\<forall>x \<in> fst ` set (omap_insert m k v). a < x" if "a < k"
    using that 2(2) by (auto simp: omap_insert_keys omap_wf_def)
  with 2 show ?case by (auto simp: omap_wf_def)
qed (simp add: omap_wf_def)

lemma omap_erase_map_of [simp]: "map_of (omap_erase m k) = (map_of m)(k := None)"
  by (induction m) (auto simp: omap_erase_def)

lemma omap_erase_wf [wf_intros]: "omap_wf m \<Longrightarrow> omap_wf (omap_erase m k)"
  by (induction m) (auto simp: omap_wf_def omap_erase_def)

lemma omap_wf_distinct: "omap_wf m \<Longrightarrow> distinct (map fst m)"
  by (simp add: omap_wf_def strict_sorted_iff)

lemma omap_wf_Nil [simp]: "omap_wf []"
  by (simp add: omap_wf_def)

section \<open>Bytes of integers\<close>

text \<open>The bytes of an integer in memory, least significant first, as on the little-endian hosts
  the simulator runs on: what a cast of an integer array to \<open>uint8_t *\<close> reads.\<close>

definition le_bytes32 :: "u32 \<Rightarrow> u8 list" where
  "le_bytes32 w = map (\<lambda>i. ucast (drop_bit (8 * i) w)) [0, 1, 2, 3]"

fun le_word32 :: "u8 list \<Rightarrow> u32" where
  "le_word32 [] = 0"
| "le_word32 (b # bs) = ucast b + 256 * le_word32 bs"

lemma length_le_bytes32 [simp]: "length (le_bytes32 w) = 4"
  by (simp add: le_bytes32_def)

lemma split_low_byte: "ucast (ucast w :: u8) + 256 * drop_bit 8 w = (w :: u32)"
proof -
  have "ucast (ucast w :: u8) = take_bit 8 w"
    by (rule bit_word_eqI) (auto simp: bit_simps)
  moreover have "256 * drop_bit 8 w = push_bit 8 (drop_bit 8 w)"
    by (simp add: push_bit_eq_mult)
  ultimately show ?thesis
    by (metis add.commute bits_ident)
qed

lemma drop_bit_32 [simp]: "drop_bit 32 (w :: u32) = 0"
  by (rule bit_word_eqI) (auto simp: bit_simps dest: bit_imp_le_length)

lemma le_word32_bytes [simp]: "le_word32 (le_bytes32 w) = w"
proof -
  have step: "ucast (ucast (drop_bit i w) :: u8) + 256 * drop_bit (8 + i) w = drop_bit i w" for i
    using split_low_byte [of "drop_bit i w"] by simp
  show ?thesis
    using step [of 0] step [of 8] step [of 16] step [of 24]
    by (simp add: le_bytes32_def)
qed

lemma unat_word_of_nat [simp]: "n < 4294967296 \<Longrightarrow> unat (word_of_nat n :: u32) = n"
  by (simp add: unat_of_nat)

lemma unat_shiftr: "unat (drop_bit n w) = unat w div 2 ^ n"
  unfolding unat_drop_bit_eq by (rule drop_bit_eq_div)

lemma unat_low_bits: "unat (take_bit n w) = unat w mod 2 ^ n"
  unfolding unsigned_take_bit_eq by (rule take_bit_eq_mod)

section \<open>Decimal numerals\<close>

definition digit :: "nat \<Rightarrow> char" where
  "digit n = char_of (48 + n)"

fun to_string :: "nat \<Rightarrow> string" where
  "to_string n = (if n < 10 then [digit n] else to_string (n div 10) @ [digit (n mod 10)])"

declare to_string.simps [simp del]

definition digit_val :: "char \<Rightarrow> nat" where
  "digit_val c = of_char c - 48"

definition is_digit :: "char \<Rightarrow> bool" where
  "is_digit c \<longleftrightarrow> 48 \<le> (of_char c :: nat) \<and> (of_char c :: nat) \<le> 57"

definition parse_dec :: "string \<Rightarrow> nat" where
  "parse_dec = foldl (\<lambda>n c. 10 * n + digit_val c) 0"

lemma digit_code: "n < 10 \<Longrightarrow> (of_char (digit n) :: nat) = 48 + n"
  by (simp add: digit_def)

lemma digit_is_digit: "n < 10 \<Longrightarrow> is_digit (digit n)"
  by (simp add: is_digit_def digit_code)

lemma to_string_nonempty [simp]: "to_string n \<noteq> []"
  by (subst to_string.simps) simp

lemma to_string_digits: "\<forall>c \<in> set (to_string n). is_digit c"
proof (induction n rule: to_string.induct)
  case (1 n)
  then show ?case
    by (cases "n < 10") (auto simp: to_string.simps [of n] digit_is_digit)
qed

lemma parse_dec_snoc: "parse_dec (s @ [c]) = 10 * parse_dec s + digit_val c"
  by (simp add: parse_dec_def)

lemma parse_dec_to_string [simp]: "parse_dec (to_string n) = n"
proof (induction n rule: to_string.induct)
  case (1 n)
  show ?case
  proof (cases "n < 10")
    case True
    then show ?thesis
      by (simp add: to_string.simps [of n] parse_dec_def digit_val_def digit_code)
  next
    case False
    with 1 show ?thesis
      by (simp add: to_string.simps [of n] parse_dec_snoc digit_val_def digit_code)
  qed
qed

lemma to_string_inject [simp]: "to_string m = to_string n \<longleftrightarrow> m = n"
  by (metis parse_dec_to_string)

end
