(* ===== verification/Cache_Interface.thy ===== *)
theory Cache_Interface
  imports Cpp_Prelude
begin

text \<open>
  What the switches rely on when they use a cache, independently of how it is built. A cache is a
  lossy partial map: it may forget an entry at any insertion, but it never invents or alters one.
  The locale \<open>lossy_cache\<close> states that contract for \<open>Get\<close>, \<open>Put\<close> and \<open>Remove\<close>;
  \<open>evicting_cache\<close> adds the insertion that reports what it threw out. Coherence with an
  authoritative address table is \<open>\<subseteq>\<^sub>m\<close> of the library's partial maps. Both caches of the
  program, the direct-mapped \<open>P4Cache\<close> and the \<open>LRUCache\<close>, interpret these locales.
\<close>

datatype ('k, 'v) cache_op = OpGet 'k | OpPut 'k 'v | OpInvalidate 'k 'v

text \<open>The ways the switches drive a cache: look an address up, learn a mapping, and drop a mapping
  if it still holds the stale address (the pattern of \<open>HandleProtocolPacket\<close>).\<close>

fun cache_step ::
  "('k \<Rightarrow> 'c \<Rightarrow> ('v option \<times> 'c) res) \<Rightarrow> ('k \<Rightarrow> 'v \<Rightarrow> 'c \<Rightarrow> 'c res) \<Rightarrow> ('k \<Rightarrow> 'c \<Rightarrow> 'c res) \<Rightarrow>
   ('k, 'v) cache_op \<Rightarrow> 'c \<Rightarrow> 'c res" where
  "cache_step get put remove (OpGet k) c = bindE (get k c) (\<lambda>r. Inr (snd r))"
| "cache_step get put remove (OpPut k v) c = put k v c"
| "cache_step get put remove (OpInvalidate k v) c =
     bindE (get k c) (\<lambda>r. if fst r = Some v then remove k (snd r) else Inr (snd r))"

fun cache_run ::
  "('k \<Rightarrow> 'c \<Rightarrow> ('v option \<times> 'c) res) \<Rightarrow> ('k \<Rightarrow> 'v \<Rightarrow> 'c \<Rightarrow> 'c res) \<Rightarrow> ('k \<Rightarrow> 'c \<Rightarrow> 'c res) \<Rightarrow>
   ('k, 'v) cache_op list \<Rightarrow> 'c \<Rightarrow> 'c res" where
  "cache_run get put remove [] c = Inr c"
| "cache_run get put remove (x # xs) c =
     bindE (cache_step get put remove x c) (cache_run get put remove xs)"

text \<open>An operation is truthful for a table when what it inserts is in the table.\<close>

fun op_truthful :: "('k \<rightharpoonup> 'v) \<Rightarrow> ('v \<Rightarrow> bool) \<Rightarrow> ('k, 'v) cache_op \<Rightarrow> bool" where
  "op_truthful M storable (OpPut k v) \<longleftrightarrow> storable v \<and> M k = Some v"
| "op_truthful M storable _ \<longleftrightarrow> True"

locale lossy_cache =
  fixes lookup :: "'c \<Rightarrow> 'k \<Rightarrow> 'v option"
    and get :: "'k \<Rightarrow> 'c \<Rightarrow> ('v option \<times> 'c) res"
    and put :: "'k \<Rightarrow> 'v \<Rightarrow> 'c \<Rightarrow> 'c res"
    and remove :: "'k \<Rightarrow> 'c \<Rightarrow> 'c res"
    and invar :: "'c \<Rightarrow> bool"
    and storable :: "'v \<Rightarrow> bool"
  assumes get_spec: "invar c \<Longrightarrow>
      \<exists>c'. get k c = Inr (lookup c k, c') \<and> invar c' \<and> lookup c' = lookup c"
    and put_spec: "invar c \<Longrightarrow> storable v \<Longrightarrow>
      \<exists>c'. put k v c = Inr c' \<and> invar c' \<and> lookup c' k = Some v \<and>
           (\<forall>k'. k' \<noteq> k \<longrightarrow> lookup c' k' = None \<or> lookup c' k' = lookup c k')"
    and remove_spec: "invar c \<Longrightarrow> lookup c k \<noteq> None \<Longrightarrow>
      \<exists>c'. remove k c = Inr c' \<and> invar c' \<and> lookup c' = (lookup c)(k := None)"
begin

lemma put_map_le:
  assumes "invar c" and "storable v" and "put k v c = Inr c'"
  shows "lookup c' \<subseteq>\<^sub>m (lookup c)(k \<mapsto> v)"
  using put_spec [OF assms(1,2), of k] assms(3) by (auto simp: map_le_def)

lemma put_coherent:
  assumes "invar c" and "storable v" and "lookup c \<subseteq>\<^sub>m M" and "M k = Some v"
  shows "\<exists>c'. put k v c = Inr c' \<and> invar c' \<and> lookup c' \<subseteq>\<^sub>m M"
proof -
  obtain c' where c': "put k v c = Inr c'" "invar c'"
    using put_spec [OF assms(1,2)] by blast
  have "(lookup c)(k \<mapsto> v) \<subseteq>\<^sub>m M"
    using assms(3,4) by (auto simp: map_le_def split: if_splits)
  with c' put_map_le [OF assms(1,2) c'(1)] show ?thesis
    by (blast intro: map_le_trans)
qed

lemma invalidate_spec:
  assumes "invar c"
  shows "\<exists>c'. cache_step get put remove (OpInvalidate k v) c = Inr c' \<and> invar c' \<and>
              lookup c' = (if lookup c k = Some v then (lookup c)(k := None) else lookup c)"
proof -
  obtain c1 where c1: "get k c = Inr (lookup c k, c1)" "invar c1" "lookup c1 = lookup c"
    using get_spec [OF assms] by blast
  show ?thesis
    using c1 remove_spec [OF c1(2), of k] by (auto simp: c1)
qed

lemma invalidated: "\<lbrakk>invar c; cache_step get put remove (OpInvalidate k v) c = Inr c'\<rbrakk> \<Longrightarrow>
    lookup c' k \<noteq> Some v"
  using invalidate_spec [of c k v] by auto

lemma step_coherent:
  assumes "invar c" and "lookup c \<subseteq>\<^sub>m M" and "op_truthful M storable x"
  shows "\<exists>c'. cache_step get put remove x c = Inr c' \<and> invar c' \<and> lookup c' \<subseteq>\<^sub>m M"
proof (cases x)
  case (OpGet k)
  then show ?thesis using get_spec [OF assms(1), of k] assms(2) by auto
next
  case (OpPut k v)
  then show ?thesis using put_coherent assms by simp
next
  case (OpInvalidate k v)
  have "(lookup c)(k := None) \<subseteq>\<^sub>m M"
    using assms(2) by (auto simp: map_le_def)
  with OpInvalidate show ?thesis
    using invalidate_spec [OF assms(1), of k v] assms(2) by (auto split: if_splits)
qed

theorem run_coherent:
  "\<lbrakk>invar c; lookup c \<subseteq>\<^sub>m M; \<forall>x \<in> set xs. op_truthful M storable x\<rbrakk> \<Longrightarrow>
   \<exists>c'. cache_run get put remove xs c = Inr c' \<and> invar c' \<and> lookup c' \<subseteq>\<^sub>m M"
proof (induction xs arbitrary: c)
  case (Cons x xs)
  then obtain c1 where "cache_step get put remove x c = Inr c1" "invar c1" "lookup c1 \<subseteq>\<^sub>m M"
    using step_coherent [of c M x] by auto
  with Cons show ?case by auto
qed simp

end

text \<open>
  The insertion that hands back what it evicted. \<open>tracked\<close> are the keys whose loss is always
  reported: every key for the LRU cache, every key but the free-slot marker for the P4 cache.
\<close>

locale evicting_cache = lossy_cache +
  fixes put_evict :: "'k \<Rightarrow> 'v \<Rightarrow> 'c \<Rightarrow> (('k \<times> 'v) option \<times> 'c) res"
    and tracked :: "'k \<Rightarrow> bool"
  assumes put_evict_put: "put k v c = bindE (put_evict k v c) (\<lambda>r. Inr (snd r))"
    and evict_spec: "\<lbrakk>invar c; storable v; put_evict k v c = Inr (ev, c')\<rbrakk> \<Longrightarrow>
      (\<forall>a b. ev = Some (a, b) \<longrightarrow> a \<noteq> k \<and> tracked a \<and> lookup c' a = None \<and>
             (storable b \<longrightarrow> lookup c a = Some b)) \<and>
      (\<forall>a. tracked a \<and> a \<noteq> k \<and> lookup c a \<noteq> lookup c' a \<longrightarrow>
             (\<exists>b. ev = Some (a, b) \<and> lookup c a = Some b))"
begin

lemma put_evict_ok:
  assumes "invar c" and "storable v"
  shows "\<exists>ev c'. put_evict k v c = Inr (ev, c') \<and> invar c' \<and> lookup c' k = Some v \<and>
           (\<forall>k'. k' \<noteq> k \<longrightarrow> lookup c' k' = None \<or> lookup c' k' = lookup c k')"
  using put_spec [OF assms, of k] put_evict_put [of k v c]
  by (auto simp: bindE_eq_Inr)

text \<open>Nothing tracked is lost: what was known is still known, or was handed to the caller.\<close>

lemma no_silent_loss:
  assumes "invar c" and "storable v" and "put_evict k v c = Inr (ev, c')"
    and "tracked a" and "a \<noteq> k" and "lookup c a = Some b"
  shows "lookup c' a = Some b \<or> ev = Some (a, b)"
  using evict_spec [OF assms(1-3)] assms(4-6) by fastforce

lemma evicted_coherent:
  assumes "invar c" and "storable v" and "put_evict k v c = Inr (Some (a, b), c')"
    and "lookup c \<subseteq>\<^sub>m M" and "storable b"
  shows "M a = Some b"
proof -
  have "lookup c a = Some b"
    using evict_spec [OF assms(1-3)] assms(5) by simp
  with assms(4) show ?thesis
    by (auto simp: map_le_def dom_def)
qed

end

end
