(* ===== verification/P4_Cache.thy ===== *)
theory P4_Cache
  imports Cache_Interface
begin

text \<open>
  \<^verbatim>\<open>include/p4-cache.h\<close>: the direct-mapped cache of a P4 switch, an array of key/value pairs
  indexed by a CRC of the key, with one access bit per slot. A slot whose key is 0 is free. The CRC
  (ns-3's \<open>CRC32Calculate\<close>) is a parameter of every operation, a function of the bytes it reads.
  \<open>Setup\<close> reserves storage for the vectors and then indexes it; the model's lists are that
  storage. \<open>m_buffer[0]\<close> is overwritten with the key right before its only use, so the model
  passes the key instead of storing it.
\<close>

section \<open>Data and operations\<close>

type_synonym crc32 = "u8 list \<Rightarrow> u32"

record P4Cache =
  p4_cacheSize :: nat
  p4_array :: "(u32 \<times> u32) list"
  p4_bits :: "u8 list"
  p4_buffer1 :: u32

definition P4Cache_new :: P4Cache where
  "P4Cache_new = \<lparr>p4_cacheSize = 0, p4_array = [], p4_bits = [], p4_buffer1 = 0\<rparr>"

text \<open>\<open>rnd\<close> is what \<open>m_random->GetInteger (0, (K) -1)\<close> returns. A negative capacity becomes a
  \<open>size_t\<close> beyond \<open>max_size\<close>, for which \<open>reserve\<close> throws.\<close>

definition P4Cache_Setup :: "int \<Rightarrow> bool \<Rightarrow> u32 \<Rightarrow> P4Cache \<Rightarrow> P4Cache res" where
  "P4Cache_Setup capacity randomHash rnd c =
     (if capacity < 0 then Inl LengthError
      else Inr (c\<lparr>p4_cacheSize := nat capacity,
                  p4_array := replicate (nat capacity) (0, 0),
                  p4_bits := replicate (nat capacity) 0,
                  p4_buffer1 := if randomHash then rnd else p4_buffer1 c\<rparr>))"

definition P4Cache_GetIndex :: "crc32 \<Rightarrow> u32 \<Rightarrow> P4Cache \<Rightarrow> nat res" where
  "P4Cache_GetIndex crc key c =
     (if p4_cacheSize c = 0 then Inl DivideByZero
      else Inr (unat (crc (le_bytes32 key @ le_bytes32 (p4_buffer1 c))) mod p4_cacheSize c))"

definition P4Cache_Get :: "crc32 \<Rightarrow> u32 \<Rightarrow> P4Cache \<Rightarrow> (u32 option \<times> P4Cache) res" where
  "P4Cache_Get crc key c =
     bindE (P4Cache_GetIndex crc key c) (\<lambda>idx.
     bindE (vec_at (p4_array c) idx) (\<lambda>e.
       if fst e = key \<and> snd e \<noteq> 0
       then bindE (vec_set (p4_bits c) idx 1) (\<lambda>bs. Inr (Some (snd e), c\<lparr>p4_bits := bs\<rparr>))
       else bindE (vec_set (p4_bits c) idx 0) (\<lambda>bs. Inr (None, c\<lparr>p4_bits := bs\<rparr>))))"

definition P4Cache_GetBit :: "crc32 \<Rightarrow> u32 \<Rightarrow> P4Cache \<Rightarrow> u8 res" where
  "P4Cache_GetBit crc key c = bindE (P4Cache_GetIndex crc key c) (vec_at (p4_bits c))"

definition P4Cache_Find :: "crc32 \<Rightarrow> u32 \<Rightarrow> P4Cache \<Rightarrow> bool res" where
  "P4Cache_Find crc key c =
     bindE (P4Cache_GetIndex crc key c) (\<lambda>idx.
     bindE (vec_at (p4_array c) idx) (\<lambda>e. Inr (fst e = key \<and> snd e \<noteq> 0)))"

text \<open>The overload of \<open>Get\<close> with a \<open>bit\<close> result: it leaves the bit alone on a miss.\<close>

definition P4Cache_Get_bit :: "crc32 \<Rightarrow> u32 \<Rightarrow> P4Cache \<Rightarrow> ((u32 \<times> u8) option \<times> P4Cache) res" where
  "P4Cache_Get_bit crc key c =
     bindE (P4Cache_GetIndex crc key c) (\<lambda>idx.
     bindE (vec_at (p4_array c) idx) (\<lambda>e.
       if fst e = key \<and> snd e \<noteq> 0
       then bindE (vec_at (p4_bits c) idx) (\<lambda>b.
            bindE (vec_set (p4_bits c) idx 1) (\<lambda>bs. Inr (Some (snd e, b), c\<lparr>p4_bits := bs\<rparr>)))
       else Inr (None, c)))"

definition P4Cache_PutIfNotEvict :: "crc32 \<Rightarrow> u32 \<Rightarrow> u32 \<Rightarrow> P4Cache \<Rightarrow> (bool \<times> P4Cache) res" where
  "P4Cache_PutIfNotEvict crc key value c =
     bindE (P4Cache_GetIndex crc key c) (\<lambda>idx.
     bindE (vec_at (p4_array c) idx) (\<lambda>e.
       if fst e \<noteq> 0 \<and> fst e \<noteq> key then Inr (False, c)
       else bindE (vec_set (p4_array c) idx (key, value)) (\<lambda>a. Inr (True, c\<lparr>p4_array := a\<rparr>))))"

text \<open>\<open>Put (key, value, evicted)\<close>: \<open>Some\<close> of the pair when the result is true.\<close>

definition P4Cache_Put_evict ::
  "crc32 \<Rightarrow> u32 \<Rightarrow> u32 \<Rightarrow> P4Cache \<Rightarrow> ((u32 \<times> u32) option \<times> P4Cache) res" where
  "P4Cache_Put_evict crc key value c =
     bindE (P4Cache_GetIndex crc key c) (\<lambda>idx.
     bindE (vec_at (p4_array c) idx) (\<lambda>e.
     let evicted = (if fst e \<noteq> 0 \<and> fst e \<noteq> key then Some e else None) in
     bindE (vec_set (p4_array c) idx (key, value)) (\<lambda>a.
     bindE (vec_set (p4_bits c) idx 0) (\<lambda>bs.
       Inr (evicted, c\<lparr>p4_array := a, p4_bits := bs\<rparr>)))))"

definition P4Cache_Put :: "crc32 \<Rightarrow> u32 \<Rightarrow> u32 \<Rightarrow> P4Cache \<Rightarrow> P4Cache res" where
  "P4Cache_Put crc key value c = bindE (P4Cache_Put_evict crc key value c) (\<lambda>r. Inr (snd r))"

definition P4Cache_Remove :: "crc32 \<Rightarrow> u32 \<Rightarrow> P4Cache \<Rightarrow> P4Cache res" where
  "P4Cache_Remove crc key c =
     bindE (P4Cache_GetIndex crc key c) (\<lambda>idx.
     bindE (vec_at (p4_array c) idx) (\<lambda>e.
     bindE (assertE AssertFail (fst e = key)) (\<lambda>_.
     bindE (vec_set (p4_array c) idx (0, 0)) (\<lambda>a.
     bindE (vec_set (p4_bits c) idx 0) (\<lambda>bs.
       Inr (c\<lparr>p4_array := a, p4_bits := bs\<rparr>))))))"

section \<open>Abstraction and invariant\<close>

definition p4_slot :: "crc32 \<Rightarrow> P4Cache \<Rightarrow> u32 \<Rightarrow> nat" where
  "p4_slot crc c key = unat (crc (le_bytes32 key @ le_bytes32 (p4_buffer1 c))) mod p4_cacheSize c"

definition p4_lookup :: "crc32 \<Rightarrow> P4Cache \<Rightarrow> u32 \<Rightarrow> u32 option" where
  "p4_lookup crc c key =
     (let e = p4_array c ! p4_slot crc c key
      in if fst e = key \<and> snd e \<noteq> 0 then Some (snd e) else None)"

text \<open>Every slot that is not free holds a key that hashes to it.\<close>

definition p4_placed :: "crc32 \<Rightarrow> P4Cache \<Rightarrow> bool" where
  "p4_placed crc c \<longleftrightarrow>
     (\<forall>i < p4_cacheSize c. p4_array c ! i \<noteq> (0, 0) \<longrightarrow> p4_slot crc c (fst (p4_array c ! i)) = i)"

definition p4_wf :: "crc32 \<Rightarrow> P4Cache \<Rightarrow> bool" where
  "p4_wf crc c \<longleftrightarrow> 0 < p4_cacheSize c \<and> length (p4_array c) = p4_cacheSize c \<and>
     length (p4_bits c) = p4_cacheSize c \<and> p4_placed crc c"

lemma p4_slot_less [simp]: "p4_wf crc c \<Longrightarrow> p4_slot crc c k < p4_cacheSize c"
  by (simp add: p4_wf_def p4_slot_def)

lemma p4_slot_upd [simp]:
  "p4_slot crc (c\<lparr>p4_bits := b\<rparr>) = p4_slot crc c"
  "p4_slot crc (c\<lparr>p4_array := a\<rparr>) = p4_slot crc c"
  by (auto simp: p4_slot_def fun_eq_iff)

lemma p4_index [simp]: "p4_wf crc c \<Longrightarrow> P4Cache_GetIndex crc k c = Inr (p4_slot crc c k)"
  by (auto simp: P4Cache_GetIndex_def p4_slot_def p4_wf_def)

lemma p4_lengths:
  "p4_wf crc c \<Longrightarrow> length (p4_array c) = p4_cacheSize c"
  "p4_wf crc c \<Longrightarrow> length (p4_bits c) = p4_cacheSize c"
  by (auto simp: p4_wf_def)

lemma p4_slot_in [simp]:
  "p4_wf crc c \<Longrightarrow> p4_slot crc c k < length (p4_array c)"
  "p4_wf crc c \<Longrightarrow> p4_slot crc c k < length (p4_bits c)"
  by (simp_all add: p4_lengths)

lemma p4_lookup_bits [simp]: "p4_lookup crc (c\<lparr>p4_bits := b\<rparr>) = p4_lookup crc c"
  by (simp add: p4_lookup_def fun_eq_iff Let_def)

lemma p4_wf_bits [wf_intros]:
  "p4_wf crc c \<Longrightarrow> length b = p4_cacheSize c \<Longrightarrow> p4_wf crc (c\<lparr>p4_bits := b\<rparr>)"
  by (simp add: p4_wf_def p4_placed_def)

text \<open>Writing a slot: the one fact about updates that insertion and removal share.\<close>

lemma p4_placed_write:
  assumes "p4_placed crc c" and "length (p4_array c) = p4_cacheSize c"
    and "e \<noteq> (0, 0) \<Longrightarrow> p4_slot crc c (fst e) = i"
  shows "p4_placed crc (c\<lparr>p4_array := (p4_array c)[i := e]\<rparr>)"
  unfolding p4_placed_def
proof (intro allI impI)
  fix j
  assume "j < p4_cacheSize (c\<lparr>p4_array := (p4_array c)[i := e]\<rparr>)"
    and "p4_array (c\<lparr>p4_array := (p4_array c)[i := e]\<rparr>) ! j \<noteq> (0, 0)"
  then have j: "j < p4_cacheSize c" "(p4_array c)[i := e] ! j \<noteq> (0, 0)"
    by auto
  show "p4_slot crc (c\<lparr>p4_array := (p4_array c)[i := e]\<rparr>)
          (fst (p4_array (c\<lparr>p4_array := (p4_array c)[i := e]\<rparr>) ! j)) = j"
  proof (cases "i = j")
    case True
    with j assms(2,3) show ?thesis by auto
  next
    case False
    with j assms(1) show ?thesis by (simp add: p4_placed_def)
  qed
qed

lemma p4_wf_write [wf_intros]:
  "\<lbrakk>p4_wf crc c; e = (0, 0) \<or> p4_slot crc c (fst e) = i\<rbrakk> \<Longrightarrow>
   p4_wf crc (c\<lparr>p4_array := (p4_array c)[i := e]\<rparr>)"
  using p4_placed_write [of crc c e i] by (auto simp: p4_wf_def)

lemma p4_lookup_write:
  assumes "p4_wf crc c"
  shows "p4_lookup crc (c\<lparr>p4_array := (p4_array c)[p4_slot crc c k := (k, v)]\<rparr>) k' =
     (if k' = k then (if v = 0 then None else Some v)
      else if p4_slot crc c k' = p4_slot crc c k then None else p4_lookup crc c k')"
  using assms by (auto simp: p4_lookup_def Let_def)

lemma p4_lookup_clear:
  assumes "p4_wf crc c"
  shows "p4_lookup crc (c\<lparr>p4_array := (p4_array c)[p4_slot crc c k := (0, 0)]\<rparr>) k' =
     (if p4_slot crc c k' = p4_slot crc c k then None else p4_lookup crc c k')"
  using assms by (auto simp: p4_lookup_def Let_def)

section \<open>Behaviour of the operations\<close>

lemma P4Cache_Setup_wf:
  assumes "0 < capacity" and "P4Cache_Setup capacity rh rnd c = Inr c'"
  shows "p4_wf crc c' \<and> p4_lookup crc c' = Map.empty"
  using assms
  by (auto simp: P4Cache_Setup_def p4_wf_def p4_placed_def p4_lookup_def Let_def p4_slot_def)

lemma P4Cache_Get_eq:
  "p4_wf crc c \<Longrightarrow> P4Cache_Get crc k c =
     Inr (p4_lookup crc c k,
          c\<lparr>p4_bits := (p4_bits c)[p4_slot crc c k := if p4_lookup crc c k = None then 0 else 1]\<rparr>)"
  by (auto simp: P4Cache_Get_def p4_lookup_def Let_def)

lemma P4Cache_GetBit_eq: "p4_wf crc c \<Longrightarrow> P4Cache_GetBit crc k c = Inr (p4_bits c ! p4_slot crc c k)"
  by (simp add: P4Cache_GetBit_def)

lemma P4Cache_Find_eq: "p4_wf crc c \<Longrightarrow> P4Cache_Find crc k c = Inr (p4_lookup crc c k \<noteq> None)"
  by (simp add: P4Cache_Find_def p4_lookup_def Let_def)

definition p4_occupant :: "crc32 \<Rightarrow> P4Cache \<Rightarrow> u32 \<Rightarrow> (u32 \<times> u32) option" where
  "p4_occupant crc c k =
     (let e = p4_array c ! p4_slot crc c k in if fst e \<noteq> 0 \<and> fst e \<noteq> k then Some e else None)"

lemma P4Cache_Put_evict_eq:
  "p4_wf crc c \<Longrightarrow> P4Cache_Put_evict crc k v c =
     Inr (p4_occupant crc c k,
          c\<lparr>p4_array := (p4_array c)[p4_slot crc c k := (k, v)],
            p4_bits := (p4_bits c)[p4_slot crc c k := 0]\<rparr>)"
  by (simp add: P4Cache_Put_evict_def p4_occupant_def Let_def)

lemma P4Cache_Put_eq:
  "p4_wf crc c \<Longrightarrow> P4Cache_Put crc k v c =
     Inr (c\<lparr>p4_array := (p4_array c)[p4_slot crc c k := (k, v)],
            p4_bits := (p4_bits c)[p4_slot crc c k := 0]\<rparr>)"
  by (simp add: P4Cache_Put_def P4Cache_Put_evict_eq)

lemma P4Cache_PutIfNotEvict_eq:
  "p4_wf crc c \<Longrightarrow> P4Cache_PutIfNotEvict crc k v c =
     (if p4_occupant crc c k = None
      then Inr (True, c\<lparr>p4_array := (p4_array c)[p4_slot crc c k := (k, v)]\<rparr>)
      else Inr (False, c))"
  by (simp add: P4Cache_PutIfNotEvict_def p4_occupant_def Let_def)

lemma P4Cache_Remove_eq:
  "p4_wf crc c \<Longrightarrow> p4_lookup crc c k \<noteq> None \<Longrightarrow> P4Cache_Remove crc k c =
     Inr (c\<lparr>p4_array := (p4_array c)[p4_slot crc c k := (0, 0)],
            p4_bits := (p4_bits c)[p4_slot crc c k := 0]\<rparr>)"
  by (auto simp: P4Cache_Remove_def p4_lookup_def Let_def split: if_splits)

lemmas p4_eqs = P4Cache_Get_eq P4Cache_GetBit_eq P4Cache_Find_eq P4Cache_Put_evict_eq
  P4Cache_Put_eq P4Cache_PutIfNotEvict_eq P4Cache_Remove_eq

text \<open>An entry with a colliding key is what occupies the slot; a colliding key 0 is not seen.\<close>

lemma p4_occupant_lookup:
  assumes "p4_wf crc c" and "p4_occupant crc c k = Some (a, b)"
  shows "a \<noteq> k \<and> a \<noteq> 0 \<and> p4_slot crc c a = p4_slot crc c k \<and>
         p4_lookup crc c a = (if b = 0 then None else Some b)"
proof -
  have e: "p4_array c ! p4_slot crc c k = (a, b)" "a \<noteq> 0" "a \<noteq> k"
    using assms(2) by (auto simp: p4_occupant_def Let_def split: if_splits)
  have "p4_slot crc c a = p4_slot crc c k"
    using assms(1) e p4_slot_less [OF assms(1), of k] unfolding p4_wf_def p4_placed_def
    by (metis fst_conv)
  with e show ?thesis by (auto simp: p4_lookup_def)
qed

lemma p4_lookup_collide:
  assumes "p4_lookup crc c a = Some b" and "p4_slot crc c a = p4_slot crc c k" and "a \<noteq> k" "a \<noteq> 0"
  shows "p4_occupant crc c k = Some (a, b)"
  using assms by (auto simp: p4_lookup_def p4_occupant_def Let_def prod_eq_iff split: if_splits)

interpretation p4: evicting_cache "p4_lookup crc" "P4Cache_Get crc" "P4Cache_Put crc"
  "P4Cache_Remove crc" "p4_wf crc" "\<lambda>v. v \<noteq> 0" "P4Cache_Put_evict crc" "\<lambda>k. k \<noteq> 0"
  for crc :: crc32
proof (unfold_locales, goal_cases)
  case (1 c k)
  then show ?case by (simp add: P4Cache_Get_eq p4_wf_bits p4_lengths)
next
  case (2 c v k)
  then show ?case
    by (auto simp: P4Cache_Put_eq p4_lookup_write p4_lengths intro!: p4_wf_bits p4_wf_write)
next
  case (3 c k)
  have "p4_lookup crc c k' = None" if "p4_slot crc c k' = p4_slot crc c k" "k' \<noteq> k" for k'
    using 3(2) that by (auto simp: p4_lookup_def Let_def split: if_splits)
  with 3 show ?case
    by (auto simp: P4Cache_Remove_eq p4_lookup_clear p4_lengths fun_eq_iff
        intro!: p4_wf_bits p4_wf_write)
next
  case (4 k v c)
  show ?case by (simp add: P4Cache_Put_def)
next
  case (5 c v k ev c')
  have ev: "ev = p4_occupant crc c k"
    and c': "p4_lookup crc c' a = (if a = k then Some v
       else if p4_slot crc c a = p4_slot crc c k then None else p4_lookup crc c a)" for a
    using 5 by (auto simp: P4Cache_Put_evict_eq p4_lookup_write)
  show ?case
  proof (intro conjI allI impI; (elim conjE)?)
    fix a b
    assume "ev = Some (a, b)"
    then have a: "a \<noteq> k" "a \<noteq> 0" "p4_slot crc c a = p4_slot crc c k"
        "p4_lookup crc c a = (if b = 0 then None else Some b)"
      using p4_occupant_lookup [OF 5(1), of k a b] ev by auto
    then show "a \<noteq> k" "a \<noteq> 0" "p4_lookup crc c' a = None"
      by (auto simp: c')
    show "p4_lookup crc c a = Some b" if "b \<noteq> 0"
      using a(4) that by simp
  next
    fix a
    assume a: "a \<noteq> 0" "a \<noteq> k" "p4_lookup crc c a \<noteq> p4_lookup crc c' a"
    then have slot: "p4_slot crc c a = p4_slot crc c k" and "p4_lookup crc c a \<noteq> None"
      by (auto simp: c' split: if_splits)
    then obtain b where b: "p4_lookup crc c a = Some b"
      by blast
    from p4_lookup_collide [OF b slot a(2,1)] b
    show "\<exists>b. ev = Some (a, b) \<and> p4_lookup crc c a = Some b"
      by (simp add: ev)
  qed
qed

section \<open>Properties\<close>

text \<open>A CRC and a cache of four slots to evaluate on: the sum of the bytes.\<close>

definition byte_sum :: crc32 where
  "byte_sum bs = word_of_nat (sum_list (map unat bs))"

definition cache4 :: P4Cache where
  "cache4 = \<lparr>p4_cacheSize = 4, p4_array = [(0, 0), (0, 0), (0, 0), (0, 0)], p4_bits = [0, 0, 0, 0],
     p4_buffer1 = 0\<rparr>"

lemma cache4_setup: "P4Cache_Setup 4 False 0 P4Cache_new = Inr cache4"
  by (simp add: P4Cache_Setup_def P4Cache_new_def cache4_def numeral_eq_Suc)

lemma cache4_wf: "p4_wf byte_sum cache4" "p4_lookup byte_sum cache4 = Map.empty"
  using P4Cache_Setup_wf [OF _ cache4_setup, of byte_sum] by simp_all

text \<open>What is put is found. After \<open>Put (k, v)\<close> with a non-zero value, \<open>Get (k)\<close> succeeds with
  \<open>v\<close> and \<open>Find\<close> agrees; every other key either keeps its answer or, when it hashes to the same
  slot, is gone; none gains one.\<close>

theorem p4_put_get:
  assumes "p4_wf crc c" and "v \<noteq> 0"
  shows "\<exists>c'. P4Cache_Put crc k v c = Inr c' \<and> p4_wf crc c' \<and>
           (\<exists>c''. P4Cache_Get crc k c' = Inr (Some v, c'')) \<and> P4Cache_Find crc k c' = Inr True \<and>
           (\<forall>k'. p4_slot crc c k' \<noteq> p4_slot crc c k \<longrightarrow>
              P4Cache_Find crc k' c' = P4Cache_Find crc k' c \<and> p4_lookup crc c' k' = p4_lookup crc c k') \<and>
           (\<forall>k'. k' \<noteq> k \<longrightarrow> p4_slot crc c k' = p4_slot crc c k \<longrightarrow> P4Cache_Find crc k' c' = Inr False)"
proof -
  let ?c = "c\<lparr>p4_array := (p4_array c)[p4_slot crc c k := (k, v)], p4_bits := (p4_bits c)[p4_slot crc c k := 0]\<rparr>"
  have wf: "p4_wf crc ?c"
    using assms(1) by (auto simp: p4_lengths intro!: p4_wf_bits p4_wf_write)
  then show ?thesis
    using assms by (auto simp: p4_eqs p4_lookup_write)
qed

theorem p4_put_get_witness:
  "\<exists>c'. P4Cache_Put byte_sum 7 9 cache4 = Inr c' \<and> P4Cache_Find byte_sum 7 c' = Inr True"
  using p4_put_get [OF cache4_wf(1), of 9 7] by auto

text \<open>C27: Nothing is lost silently. \<open>Put (k, v, evicted)\<close> keeps every other mapping it can, and the one
  it overwrites is the pair it reports, unless that pair's key is 0.\<close>

theorem p4_no_silent_loss:
  assumes "p4_wf crc c" and "v \<noteq> 0" and "a \<noteq> 0" and "a \<noteq> k" and "p4_lookup crc c a = Some b"
  shows "\<exists>ev c'. P4Cache_Put_evict crc k v c = Inr (ev, c') \<and>
           (p4_lookup crc c' a = Some b \<and> ev \<noteq> Some (a, b) \<or> p4_lookup crc c' a = None \<and> ev = Some (a, b))"
proof -
  obtain ev c' where run: "P4Cache_Put_evict crc k v c = Inr (ev, c')"
    using p4.put_evict_ok [OF assms(1,2)] by blast
  have "p4_lookup crc c' a = Some b \<or> ev = Some (a, b)"
    by (rule p4.no_silent_loss [OF assms(1,2) run assms(3-5)])
  moreover have "p4_lookup crc c' a = None" if "ev = Some (a, b)"
    using p4.evict_spec [OF assms(1,2) run] that by blast
  ultimately show ?thesis
    using run by auto
qed

definition cache4_one :: P4Cache where
  "cache4_one = cache4\<lparr>p4_array := [(0, 0), (1, 9), (0, 0), (0, 0)]\<rparr>"

lemma cache4_one_eq: "cache4_one = cache4\<lparr>p4_array := (p4_array cache4)[p4_slot byte_sum cache4 1 := (1, 9)]\<rparr>"
  by (simp add: cache4_one_def cache4_def p4_slot_def) code_simp

lemma cache4_one_wf: "p4_wf byte_sum cache4_one" "p4_lookup byte_sum cache4_one 1 = Some 9"
  unfolding cache4_one_eq using cache4_wf
  by (auto simp: p4_lookup_write intro!: p4_wf_write)

theorem p4_no_silent_loss_witness:
  "\<exists>ev c'. P4Cache_Put_evict byte_sum 5 3 cache4_one = Inr (ev, c') \<and>
     (p4_lookup byte_sum c' 1 = Some 9 \<and> ev \<noteq> Some (1, 9) \<or> p4_lookup byte_sum c' 1 = None \<and> ev = Some (1, 9))"
  by (rule p4_no_silent_loss [OF cache4_one_wf(1) _ _ _ cache4_one_wf(2)]) simp_all

text \<open>The free-slot marker is a key in use. A mapping of virtual address 0, the address of the first
  container, disappears when a colliding key is put, and nothing is reported.\<close>

theorem p4_zero_key_lost:
  assumes "p4_wf crc c" and "p4_lookup crc c 0 = Some b" and "k \<noteq> 0" and "p4_slot crc c k = p4_slot crc c 0"
  shows "\<exists>c'. P4Cache_Put_evict crc k v c = Inr (None, c') \<and> P4Cache_Find crc 0 c = Inr True \<and>
           p4_lookup crc c' 0 = None"
proof -
  have "p4_occupant crc c k = None"
    using assms(2,4) by (simp add: p4_lookup_def p4_occupant_def Let_def split: if_splits)
  moreover have "p4_lookup crc (c\<lparr>p4_array := (p4_array c)[p4_slot crc c k := (k, v)]\<rparr>) 0 = None"
    using p4_lookup_write [OF assms(1), of k v 0] assms(3,4) by auto
  ultimately show ?thesis
    using assms(1,2) by (simp add: P4Cache_Put_evict_eq P4Cache_Find_eq)
qed

lemma cache4_zero:
  "p4_wf byte_sum (cache4\<lparr>p4_array := (p4_array cache4)[p4_slot byte_sum cache4 0 := (0, 9)]\<rparr>)"
  "p4_lookup byte_sum (cache4\<lparr>p4_array := (p4_array cache4)[p4_slot byte_sum cache4 0 := (0, 9)]\<rparr>) 0 = Some 9"
  using cache4_wf by (auto simp: p4_lookup_write intro!: p4_wf_write)

lemma byte_sum_collide: "p4_slot byte_sum cache4 4 = p4_slot byte_sum cache4 0"
  by (simp add: p4_slot_def cache4_def) code_simp

theorem p4_zero_key_lost_witness:
  "\<exists>c c'. P4Cache_Put_evict byte_sum 4 3 c = Inr (None, c') \<and> P4Cache_Find byte_sum 0 c = Inr True \<and>
     p4_lookup byte_sum c' 0 = None"
  using p4_zero_key_lost [OF cache4_zero, of 4 3] byte_sum_collide by auto

text \<open>C26: Coherence over a lifetime. From a fresh cache of positive capacity, any sequence of look-ups,
  insertions of mappings that are in a table \<open>M\<close> (with non-zero addresses) and invalidations runs without
  failing and leaves only mappings of \<open>M\<close>.\<close>

theorem p4_run_coherent:
  assumes "0 < capacity" and "\<forall>x \<in> set ops. op_truthful M (\<lambda>v. v \<noteq> 0) x"
  shows "\<exists>c0 c. P4Cache_Setup capacity rh rnd P4Cache_new = Inr c0 \<and>
           cache_run (P4Cache_Get crc) (P4Cache_Put crc) (P4Cache_Remove crc) ops c0 = Inr c \<and>
           p4_wf crc c \<and> p4_lookup crc c \<subseteq>\<^sub>m M"
proof -
  obtain c0 where c0: "P4Cache_Setup capacity rh rnd P4Cache_new = Inr c0"
    using assms(1) by (auto simp: P4Cache_Setup_def)
  then have "p4_wf crc c0" "p4_lookup crc c0 \<subseteq>\<^sub>m M"
    using P4Cache_Setup_wf [OF assms(1), of rh rnd P4Cache_new c0 crc] by (auto simp: map_le_def)
  with p4.run_coherent [OF _ _ assms(2)] c0 show ?thesis by blast
qed

theorem p4_run_coherent_witness:
  "\<exists>c0 c. P4Cache_Setup 4 False 0 P4Cache_new = Inr c0 \<and>
     cache_run (P4Cache_Get byte_sum) (P4Cache_Put byte_sum) (P4Cache_Remove byte_sum)
       [OpPut 1 9, OpPut 5 8, OpGet 1, OpInvalidate 5 8] c0 = Inr c \<and>
     p4_wf byte_sum c \<and> p4_lookup byte_sum c \<subseteq>\<^sub>m [1 \<mapsto> 9, 5 \<mapsto> 8]"
  by (rule p4_run_coherent) simp_all

text \<open>\<open>PutIfNotEvict\<close> is what its name says. It fails exactly when a colliding key other than 0 holds
  the slot, and then changes nothing; otherwise the mapping is in, and the access bits are as before in
  both cases.\<close>

theorem p4_put_if_not_evict:
  assumes "p4_wf crc c" and "v \<noteq> 0"
  shows "\<exists>ok c'. P4Cache_PutIfNotEvict crc k v c = Inr (ok, c') \<and> p4_bits c' = p4_bits c \<and>
           (if fst (p4_array c ! p4_slot crc c k) \<in> {0, k}
            then ok \<and> p4_wf crc c' \<and> p4_lookup crc c' k = Some v \<and>
                 (\<forall>k'. k' \<noteq> k \<longrightarrow> k' \<noteq> 0 \<longrightarrow> p4_lookup crc c' k' = p4_lookup crc c k')
            else \<not> ok \<and> c' = c)"
proof (cases "p4_occupant crc c k")
  case None
  have same: "p4_lookup crc c k' = None" if "p4_slot crc c k' = p4_slot crc c k" "k' \<noteq> k" "k' \<noteq> 0" for k'
    using p4_lookup_collide [of crc c k' _ k] that None by (cases "p4_lookup crc c k'") auto
  have "fst (p4_array c ! p4_slot crc c k) \<in> {0, k}"
    using None by (auto simp: p4_occupant_def Let_def split: if_splits)
  with None assms same show ?thesis
    by (auto simp: P4Cache_PutIfNotEvict_eq p4_lookup_write intro!: p4_wf_write)
next
  case (Some e)
  then have "fst (p4_array c ! p4_slot crc c k) \<notin> {0, k}"
    by (auto simp: p4_occupant_def Let_def split: if_splits)
  with Some assms show ?thesis
    by (auto simp: P4Cache_PutIfNotEvict_eq)
qed

theorem p4_put_if_not_evict_witness:
  "\<exists>ok c'. P4Cache_PutIfNotEvict byte_sum 5 3 cache4_one = Inr (ok, c') \<and> p4_bits c' = p4_bits cache4_one"
  using p4_put_if_not_evict [OF cache4_one_wf(1), of 3 5] by auto

end
