(* ===== verification/LRU_Cache.thy ===== *)
theory LRU_Cache
  imports Cache_Interface
begin

text \<open>
  \<^verbatim>\<open>include/lru-cache.h\<close>: the least-recently-used cache of the controller-driven switches and
  of Bluebird, an ordered map beside a deque of the keys, most recent first. The invariant says the
  two hold the same keys; the abstract specification is a single recency list of key/value pairs
  with move-to-front and truncation, and every operation refines it.
\<close>

section \<open>Data and operations\<close>

record LRUCache =
  lru_cacheSize :: nat
  lru_map :: "(u32 \<times> u32) list"
  lru_dq :: "u32 list"

definition LRUCache_new :: LRUCache where
  "LRUCache_new = \<lparr>lru_cacheSize = 0, lru_map = [], lru_dq = []\<rparr>"

text \<open>The \<open>int\<close> capacity is stored in a \<open>size_t\<close>.\<close>

definition LRUCache_SetCapacity :: "int \<Rightarrow> LRUCache \<Rightarrow> LRUCache" where
  "LRUCache_SetCapacity capacity c = c\<lparr>lru_cacheSize := nat (capacity mod 2 ^ 64)\<rparr>"

text \<open>The loop \<open>while (*it != key) it++\<close> followed by \<open>erase (it)\<close>. It has no bound check: a key
  that is not in the deque runs the iterator past the end.\<close>

fun dq_erase :: "'k list \<Rightarrow> 'k \<Rightarrow> 'k list res" where
  "dq_erase [] key = Inl OutOfRange"
| "dq_erase (x # xs) key =
     (if x = key then Inr xs else bindE (dq_erase xs key) (\<lambda>ys. Inr (x # ys)))"

definition LRUCache_Get :: "u32 \<Rightarrow> LRUCache \<Rightarrow> (u32 option \<times> LRUCache) res" where
  "LRUCache_Get key c =
     (case map_of (lru_map c) key of
        None \<Rightarrow> Inr (None, c)
      | Some value \<Rightarrow>
          bindE (dq_erase (lru_dq c) key) (\<lambda>dq. Inr (Some value, c\<lparr>lru_dq := key # dq\<rparr>)))"

definition LRUCache_Find :: "u32 \<Rightarrow> LRUCache \<Rightarrow> bool" where
  "LRUCache_Find key c \<longleftrightarrow> map_of (lru_map c) key \<noteq> None"

definition LRUCache_GetSize :: "LRUCache \<Rightarrow> nat" where
  "LRUCache_GetSize c = length (lru_dq c)"

definition LRUCache_GetEvictionCandidate :: "LRUCache \<Rightarrow> u32 res" where
  "LRUCache_GetEvictionCandidate c =
     (if lru_dq c = [] then Inl OutOfRange else Inr (last (lru_dq c)))"

definition LRUCache_Remove :: "u32 \<Rightarrow> LRUCache \<Rightarrow> LRUCache res" where
  "LRUCache_Remove key c =
     bindE (dq_erase (lru_dq c) key) (\<lambda>dq.
       Inr (c\<lparr>lru_dq := dq, lru_map := omap_erase (lru_map c) key\<rparr>))"

definition LRUCache_GetKeys :: "LRUCache \<Rightarrow> u32 list" where
  "LRUCache_GetKeys c = map fst (lru_map c)"

definition LRUCache_Put_evict :: "u32 \<Rightarrow> u32 \<Rightarrow> LRUCache \<Rightarrow> ((u32 \<times> u32) option \<times> LRUCache) res" where
  "LRUCache_Put_evict key value c =
     bindE
       (if map_of (lru_map c) key = None
        then if lru_cacheSize c = length (lru_dq c)
             then bindE (LRUCache_GetEvictionCandidate c) (\<lambda>l.
                  bindE (omap_at (lru_map c) l) (\<lambda>lv.
                    Inr (Some (l, lv), c\<lparr>lru_dq := butlast (lru_dq c),
                                         lru_map := omap_erase (lru_map c) l\<rparr>)))
             else Inr (None, c)
        else bindE (dq_erase (lru_dq c) key) (\<lambda>dq.
               Inr (None, c\<lparr>lru_dq := dq, lru_map := omap_erase (lru_map c) key\<rparr>)))
       (\<lambda>r. let c' = snd r in
          Inr (fst r, c'\<lparr>lru_dq := key # lru_dq c', lru_map := omap_insert (lru_map c') key value\<rparr>))"

definition LRUCache_Put :: "u32 \<Rightarrow> u32 \<Rightarrow> LRUCache \<Rightarrow> LRUCache res" where
  "LRUCache_Put key value c = bindE (LRUCache_Put_evict key value c) (\<lambda>r. Inr (snd r))"

section \<open>Invariant and abstraction\<close>

abbreviation lru_lookup :: "LRUCache \<Rightarrow> u32 \<rightharpoonup> u32" where
  "lru_lookup c \<equiv> map_of (lru_map c)"

definition lru_wf :: "LRUCache \<Rightarrow> bool" where
  "lru_wf c \<longleftrightarrow> omap_wf (lru_map c) \<and> distinct (lru_dq c) \<and>
     set (lru_dq c) = dom (lru_lookup c) \<and> length (lru_dq c) \<le> lru_cacheSize c \<and>
     0 < lru_cacheSize c"

text \<open>The recency list: the entries in the order of the deque.\<close>

definition lru_abs :: "LRUCache \<Rightarrow> (u32 \<times> u32) list" where
  "lru_abs c = map (\<lambda>k. (k, the (lru_lookup c k))) (lru_dq c)"

definition touch :: "'k \<Rightarrow> 'v \<Rightarrow> ('k \<times> 'v) list \<Rightarrow> ('k \<times> 'v) list" where
  "touch k v xs = (k, v) # filter (\<lambda>e. fst e \<noteq> k) xs"

lemma dq_erase_mem: "key \<in> set xs \<Longrightarrow> dq_erase xs key = Inr (remove1 key xs)"
  by (induction xs) auto

lemma dq_erase_not_mem: "key \<notin> set xs \<Longrightarrow> dq_erase xs key = Inl OutOfRange"
  by (induction xs) auto

lemma dq_erase_eq: "distinct xs \<Longrightarrow> key \<in> set xs \<Longrightarrow> dq_erase xs key = Inr (filter (\<lambda>x. x \<noteq> key) xs)"
  by (simp add: dq_erase_mem distinct_remove1_removeAll removeAll_filter_not_eq)
     (metis (mono_tags, lifting) filter_cong)

lemma lru_mem: "lru_wf c \<Longrightarrow> k \<in> set (lru_dq c) \<longleftrightarrow> lru_lookup c k \<noteq> None"
  by (auto simp: lru_wf_def)

lemma lru_map_of_abs: "lru_wf c \<Longrightarrow> map_of (lru_abs c) = lru_lookup c"
proof
  fix k
  assume wf: "lru_wf c"
  have "map_of (map (\<lambda>k. (k, the (lru_lookup c k))) ks) k =
      (if k \<in> set ks then Some (the (lru_lookup c k)) else None)" for ks
    by (induction ks) auto
  with lru_mem [OF wf, of k] show "map_of (lru_abs c) k = lru_lookup c k"
    by (auto simp: lru_abs_def)
qed

lemma lru_abs_cong: "lru_dq c = lru_dq c' \<Longrightarrow> (\<And>k. k \<in> set (lru_dq c) \<Longrightarrow> lru_lookup c k = lru_lookup c' k) \<Longrightarrow>
    lru_abs c = lru_abs c'"
  by (simp add: lru_abs_def)

lemma filter_lru_abs: "filter (\<lambda>e. fst e \<noteq> k) (lru_abs c) =
    map (\<lambda>k. (k, the (lru_lookup c k))) (filter (\<lambda>x. x \<noteq> k) (lru_dq c))"
  by (simp add: lru_abs_def filter_map o_def)

section \<open>Refinement\<close>

lemma LRUCache_Get_miss: "lru_lookup c k = None \<Longrightarrow> LRUCache_Get k c = Inr (None, c)"
  by (simp add: LRUCache_Get_def)

lemma LRUCache_Get_hit:
  assumes "lru_wf c" and "lru_lookup c k = Some v"
  shows "\<exists>c'. LRUCache_Get k c = Inr (Some v, c') \<and> lru_wf c' \<and> lru_lookup c' = lru_lookup c \<and>
              lru_abs c' = touch k v (lru_abs c)"
proof -
  let ?c' = "c\<lparr>lru_dq := k # filter (\<lambda>x. x \<noteq> k) (lru_dq c)\<rparr>"
  have k: "k \<in> set (lru_dq c)"
    using assms by (simp add: lru_mem)
  then have "LRUCache_Get k c = Inr (Some v, ?c')"
    using assms by (simp add: LRUCache_Get_def lru_wf_def dq_erase_eq)
  moreover have "length (filter (\<lambda>x. x \<noteq> k) (lru_dq c)) < length (lru_dq c)"
    using k by (simp add: length_filter_less)
  then have "lru_wf ?c'"
    using assms by (auto simp: lru_wf_def)
  moreover have "lru_abs ?c' = touch k v (lru_abs c)"
    using assms(2) by (simp add: touch_def filter_lru_abs) (simp add: lru_abs_def)
  ultimately show ?thesis by simp
qed

text \<open>One insertion: the new entry in front, the rest in order, the oldest dropped when full.\<close>

lemma LRUCache_Put_known:
  assumes "lru_wf c" and "lru_lookup c k \<noteq> None"
  shows "\<exists>c'. LRUCache_Put_evict k v c = Inr (None, c') \<and> lru_wf c' \<and>
     lru_lookup c' = (lru_lookup c)(k \<mapsto> v) \<and> lru_abs c' = touch k v (lru_abs c) \<and>
     lru_cacheSize c' = lru_cacheSize c"
proof -
  let ?c' = "c\<lparr>lru_dq := k # filter (\<lambda>x. x \<noteq> k) (lru_dq c),
       lru_map := omap_insert (omap_erase (lru_map c) k) k v\<rparr>"
  have k: "k \<in> set (lru_dq c)"
    using assms by (simp add: lru_mem)
  then have "dq_erase (lru_dq c) k = Inr (filter (\<lambda>x. x \<noteq> k) (lru_dq c))"
    using assms by (simp add: lru_wf_def dq_erase_eq)
  then have "LRUCache_Put_evict k v c = Inr (None, ?c')"
    using assms by (auto simp: LRUCache_Put_evict_def)
  moreover have wf: "omap_wf (lru_map c)"
    using assms by (simp add: lru_wf_def)
  then have look: "lru_lookup ?c' = (lru_lookup c)(k \<mapsto> v)"
    by (simp add: omap_erase_wf)
  moreover have "length (filter (\<lambda>x. x \<noteq> k) (lru_dq c)) < length (lru_dq c)"
    using k by (simp add: length_filter_less)
  then have "lru_wf ?c'"
    using assms by (auto simp: lru_wf_def omap_insert_wf omap_erase_wf)
  moreover have "lru_abs ?c' = touch k v (lru_abs c)"
    using look by (simp add: touch_def filter_lru_abs) (simp add: lru_abs_def)
  ultimately show ?thesis by simp
qed

lemma LRUCache_Put_room:
  assumes "lru_wf c" and "lru_lookup c k = None" and "length (lru_dq c) < lru_cacheSize c"
  shows "\<exists>c'. LRUCache_Put_evict k v c = Inr (None, c') \<and> lru_wf c' \<and>
     lru_lookup c' = (lru_lookup c)(k \<mapsto> v) \<and> lru_abs c' = (k, v) # lru_abs c \<and>
     lru_cacheSize c' = lru_cacheSize c"
proof -
  let ?c' = "c\<lparr>lru_dq := k # lru_dq c, lru_map := omap_insert (lru_map c) k v\<rparr>"
  have k: "k \<notin> set (lru_dq c)"
    using assms by (simp add: lru_mem)
  have "LRUCache_Put_evict k v c = Inr (None, ?c')"
    using assms by (simp add: LRUCache_Put_evict_def)
  moreover have look: "lru_lookup ?c' = (lru_lookup c)(k \<mapsto> v)"
    using assms by (simp add: lru_wf_def)
  moreover have "lru_wf ?c'"
    using assms k by (auto simp: lru_wf_def omap_insert_wf)
  moreover have "lru_abs ?c' = (k, v) # lru_abs c"
    using look k by (auto simp: lru_abs_def)
  ultimately show ?thesis by simp
qed

lemma LRUCache_Put_full:
  assumes "lru_wf c" and "lru_lookup c k = None" and "length (lru_dq c) = lru_cacheSize c"
  shows "\<exists>l lv c'. LRUCache_Put_evict k v c = Inr (Some (l, lv), c') \<and> lru_wf c' \<and>
     l = last (lru_dq c) \<and> l \<noteq> k \<and> lru_lookup c l = Some lv \<and>
     lru_lookup c' = (lru_lookup c)(l := None, k \<mapsto> v) \<and>
     lru_abs c' = (k, v) # butlast (lru_abs c) \<and> lru_cacheSize c' = lru_cacheSize c"
proof -
  obtain ks l where dq: "lru_dq c = ks @ [l]"
    using assms by (cases "lru_dq c" rule: rev_cases) (auto simp: lru_wf_def)
  have wf: "omap_wf (lru_map c)" "distinct ks" "l \<notin> set ks"
      "dom (lru_lookup c) = insert l (set ks)" "length ks < lru_cacheSize c"
    using assms dq by (auto simp: lru_wf_def)
  then obtain lv where lv: "lru_lookup c l = Some lv"
    by blast
  have k: "k \<notin> set ks" "l \<noteq> k"
    using assms(2) wf(4) by auto
  let ?c' = "c\<lparr>lru_dq := k # ks, lru_map := omap_insert (omap_erase (lru_map c) l) k v\<rparr>"
  have "LRUCache_Put_evict k v c = Inr (Some (l, lv), ?c')"
    using assms lv dq
    by (simp add: LRUCache_Put_evict_def LRUCache_GetEvictionCandidate_def omap_at_def)
  moreover have look: "lru_lookup ?c' = (lru_lookup c)(l := None, k \<mapsto> v)"
    using wf(1) by (simp add: omap_erase_wf)
  moreover have "set (k # ks) = dom ((lru_lookup c)(l := None, k \<mapsto> v))"
    using wf(3,4) by auto
  then have "lru_wf ?c'"
    using wf k look by (simp add: lru_wf_def omap_insert_wf omap_erase_wf)
  moreover have "lru_abs ?c' = (k, v) # butlast (lru_abs c)"
    using look k wf(3) by (auto simp: lru_abs_def dq)
  ultimately show ?thesis
    using k lv dq by auto
qed

lemmas LRUCache_Put_cases = LRUCache_Put_known LRUCache_Put_room LRUCache_Put_full

lemma touch_fresh: "map_of xs k = None \<Longrightarrow> touch k v xs = (k, v) # xs"
  by (auto simp: touch_def map_of_eq_None_iff intro!: filter_True)

text \<open>The refinement of \<open>Put\<close>: on the recency list it is move-to-front followed by truncation to
  the capacity.\<close>

lemma LRUCache_Put_refines:
  assumes "lru_wf c"
  shows "\<exists>ev c'. LRUCache_Put_evict k v c = Inr (ev, c') \<and> lru_wf c' \<and>
     lru_cacheSize c' = lru_cacheSize c \<and>
     lru_abs c' = take (lru_cacheSize c) (touch k v (lru_abs c))"
proof -
  have len: "length (lru_abs c) \<le> lru_cacheSize c" "0 < lru_cacheSize c"
    using assms by (auto simp: lru_abs_def lru_wf_def)
  show ?thesis
  proof (cases "lru_lookup c k")
    case None
    then have fresh: "touch k v (lru_abs c) = (k, v) # lru_abs c"
      by (simp add: touch_fresh lru_map_of_abs [OF assms])
    show ?thesis
    proof (cases "length (lru_dq c) = lru_cacheSize c")
      case True
      then have "length (lru_abs c) = lru_cacheSize c"
        by (simp add: lru_abs_def)
      with LRUCache_Put_full [OF assms None True, of v] len(2) show ?thesis
        by (auto simp: fresh take_Cons' butlast_conv_take)
    next
      case False
      with assms have "length (lru_dq c) < lru_cacheSize c"
        by (auto simp: lru_wf_def)
      moreover from this have "length (lru_abs c) < lru_cacheSize c"
        by (simp add: lru_abs_def)
      ultimately show ?thesis
        using LRUCache_Put_room [OF assms None, of v] by (auto simp: fresh)
    qed
  next
    case (Some w)
    then have "(k, w) \<in> set (lru_abs c)"
      by (metis lru_map_of_abs [OF assms] map_of_SomeD)
    then have "length (touch k v (lru_abs c)) \<le> lru_cacheSize c"
      using len(1) length_filter_less [of "(k, w)" "lru_abs c" "\<lambda>e. fst e \<noteq> k"]
      by (simp add: touch_def)
    with Some LRUCache_Put_known [OF assms, of k v] show ?thesis
      by fastforce
  qed
qed

lemma LRUCache_Remove_spec:
  assumes "lru_wf c" and "lru_lookup c k \<noteq> None"
  shows "\<exists>c'. LRUCache_Remove k c = Inr c' \<and> lru_wf c' \<and> lru_lookup c' = (lru_lookup c)(k := None)"
proof -
  have k: "k \<in> set (lru_dq c)"
    using assms by (simp add: lru_mem)
  have "length (filter (\<lambda>x. x \<noteq> k) (lru_dq c)) \<le> length (lru_dq c)"
    by simp
  with k assms(1) show ?thesis
    by (auto simp: LRUCache_Remove_def lru_wf_def dq_erase_eq omap_erase_wf
        intro: le_trans [OF length_filter_le])
qed

interpretation lru: evicting_cache lru_lookup LRUCache_Get LRUCache_Put LRUCache_Remove lru_wf
  "\<lambda>_. True" LRUCache_Put_evict "\<lambda>_. True"
proof (unfold_locales, goal_cases)
  case (1 c k)
  then show ?case
    using LRUCache_Get_hit [of c k] LRUCache_Get_miss [of c k]
    by (cases "lru_lookup c k") auto
next
  case (2 c v k)
  have "length (lru_dq c) < lru_cacheSize c" if "length (lru_dq c) \<noteq> lru_cacheSize c"
    using 2(1) that by (simp add: lru_wf_def)
  then show ?case
    using LRUCache_Put_cases [OF 2(1), of k v]
    by (cases "lru_lookup c k"; cases "length (lru_dq c) = lru_cacheSize c")
       (auto simp: LRUCache_Put_def)
next
  case (3 c k)
  then show ?case by (rule LRUCache_Remove_spec)
next
  case (4 k v c)
  show ?case by (simp add: LRUCache_Put_def)
next
  case (5 c v k ev c')
  have "length (lru_dq c) < lru_cacheSize c" if "length (lru_dq c) \<noteq> lru_cacheSize c"
    using 5(1) that by (simp add: lru_wf_def)
  then show ?case
    using LRUCache_Put_cases [OF 5(1), of k v] 5(3)
    by (cases "lru_lookup c k"; cases "length (lru_dq c) = lru_cacheSize c")
       (auto split: if_splits)
qed

section \<open>Runs\<close>

text \<open>No operation changes the capacity.\<close>

lemma LRUCache_ops_size:
  "LRUCache_Get k c = Inr (r, c') \<Longrightarrow> lru_cacheSize c' = lru_cacheSize c"
  "LRUCache_Put_evict k v c = Inr (ev, c') \<Longrightarrow> lru_cacheSize c' = lru_cacheSize c"
  "LRUCache_Put k v c = Inr c' \<Longrightarrow> lru_cacheSize c' = lru_cacheSize c"
  "LRUCache_Remove k c = Inr c' \<Longrightarrow> lru_cacheSize c' = lru_cacheSize c"
  by (auto simp: LRUCache_Get_def LRUCache_Put_def LRUCache_Put_evict_def LRUCache_Remove_def Let_def
      elim!: bindE_InrE split: option.splits if_splits prod.splits)

text \<open>Any sequence of calls of the three operations, each with any arguments.\<close>

datatype lru_call = CallGet u32 | CallPut u32 u32 | CallRemove u32

fun lru_step :: "lru_call \<Rightarrow> LRUCache \<Rightarrow> LRUCache res" where
  "lru_step (CallGet k) c = bindE (LRUCache_Get k c) (\<lambda>r. Inr (snd r))"
| "lru_step (CallPut k v) c = LRUCache_Put k v c"
| "lru_step (CallRemove k) c = LRUCache_Remove k c"

fun lru_run :: "lru_call list \<Rightarrow> LRUCache \<Rightarrow> LRUCache res" where
  "lru_run [] c = Inr c"
| "lru_run (x # xs) c = bindE (lru_step x c) (lru_run xs)"

lemma LRUCache_Remove_absent: "lru_wf c \<Longrightarrow> lru_lookup c k = None \<Longrightarrow> LRUCache_Remove k c = Inl OutOfRange"
  using lru_mem [of c k] by (simp add: LRUCache_Remove_def dq_erase_not_mem)

lemma lru_step_ok:
  assumes "lru_wf c"
  shows "(\<exists>c'. lru_step x c = Inr c' \<and> lru_wf c' \<and> lru_cacheSize c' = lru_cacheSize c) \<or>
     (\<exists>k. x = CallRemove k \<and> lru_lookup c k = None \<and> lru_step x c = Inl OutOfRange)"
proof (cases x)
  case (CallGet k)
  with lru.get_spec [OF assms, of k] show ?thesis by (auto dest: LRUCache_ops_size)
next
  case (CallPut k v)
  with lru.put_spec [OF assms TrueI, of k v] show ?thesis by (auto dest: LRUCache_ops_size)
next
  case (CallRemove k)
  with LRUCache_Remove_spec [OF assms, of k] LRUCache_Remove_absent [OF assms, of k] show ?thesis
    by (cases "lru_lookup c k") (auto dest: LRUCache_ops_size)
qed

lemma lru_run_ok:
  "lru_wf c \<Longrightarrow> (case lru_run xs c of
      Inr c' \<Rightarrow> lru_wf c' \<and> lru_cacheSize c' = lru_cacheSize c
    | Inl e \<Rightarrow> e = OutOfRange \<and> (\<exists>ys k zs c'. xs = ys @ CallRemove k # zs \<and> lru_run ys c = Inr c' \<and> lru_lookup c' k = None))"
proof (induction xs arbitrary: c)
  case (Cons x xs)
  from lru_step_ok [OF Cons.prems, of x] show ?case
  proof (elim disjE exE conjE)
    fix c1
    assume c1: "lru_step x c = Inr c1" "lru_wf c1" "lru_cacheSize c1 = lru_cacheSize c"
    have "\<exists>ys' k' zs' c'. x # ys @ CallRemove k # zs = ys' @ CallRemove k' # zs' \<and> lru_run ys' c = Inr c' \<and> lru_lookup c' k' = None"
      if "lru_run ys c1 = Inr c2" "lru_lookup c2 k = None" for ys k zs c2
      by (rule exI [of _ "x # ys"]) (use c1(1) that in auto)
    with c1 Cons.IH [OF c1(2)] show ?thesis
      by (auto split: sum.splits)
  next
    fix k
    assume "x = CallRemove k" "lru_lookup c k = None" "lru_step x c = Inl OutOfRange"
    then show ?thesis
      by (auto intro: exI [of _ "[]"])
  qed
qed simp

section \<open>Properties\<close>

definition lru2 :: LRUCache where
  "lru2 = LRUCache_SetCapacity 2 LRUCache_new"

lemma lru_new_wf: "0 < n \<Longrightarrow> n < 2 ^ 64 \<Longrightarrow> lru_wf (LRUCache_SetCapacity n LRUCache_new)"
  by (simp add: lru_wf_def LRUCache_SetCapacity_def LRUCache_new_def)

lemma lru2_wf: "lru_wf lru2" "lru_abs lru2 = []" "lru_cacheSize lru2 = 2"
  using lru_new_wf [of 2] by (simp_all add: lru2_def lru_abs_def LRUCache_SetCapacity_def LRUCache_new_def)

text \<open>C29: \<open>Put\<close> implements least-recently-used replacement. On the list of entries in order of recency it
  moves the entry to the front and cuts the list at the capacity, and it reports the entry the cut removed
  and no other; the iterator loop never leaves the deque.\<close>

theorem lru_put_refines:
  assumes "lru_wf c"
  shows "\<exists>ev c'. LRUCache_Put_evict k v c = Inr (ev, c') \<and> lru_wf c' \<and>
           lru_abs c' = take (lru_cacheSize c) (touch k v (lru_abs c)) \<and>
           (\<forall>a b. ev = Some (a, b) \<longleftrightarrow>
              (a, b) \<in> set (lru_abs c) \<and> a \<noteq> k \<and> (a, b) \<notin> set (lru_abs c'))"
proof -
  obtain ev c' where run: "LRUCache_Put_evict k v c = Inr (ev, c')" "lru_wf c'"
      "lru_abs c' = take (lru_cacheSize c) (touch k v (lru_abs c))"
    using LRUCache_Put_refines [OF assms] by blast
  have mem: "(a, b) \<in> set (lru_abs d) \<longleftrightarrow> lru_lookup d a = Some b" if "lru_wf d" for a b d
    using that lru_mem [OF that, of a] by (auto simp: lru_abs_def)
  have "ev = Some (a, b) \<longleftrightarrow> lru_lookup c a = Some b \<and> a \<noteq> k \<and> lru_lookup c' a \<noteq> Some b" for a b
    using lru.evict_spec [OF assms TrueI run(1)] by fastforce
  then have "\<forall>a b. ev = Some (a, b) \<longleftrightarrow> (a, b) \<in> set (lru_abs c) \<and> a \<noteq> k \<and> (a, b) \<notin> set (lru_abs c')"
    by (simp add: mem [OF assms] mem [OF run(2)])
  with run show ?thesis by blast
qed

theorem lru_put_refines_witness:
  "\<exists>ev c'. LRUCache_Put_evict 7 9 lru2 = Inr (ev, c') \<and> lru_abs c' = [(7, 9)]"
  using lru_put_refines [OF lru2_wf(1), of 7 9] by (auto simp: lru2_wf touch_def)

text \<open>\<open>Get\<close> returns what was put last and makes it the most recent entry; a miss changes nothing.\<close>

theorem lru_get_refines:
  assumes "lru_wf c"
  shows "\<exists>c'. LRUCache_Get k c = Inr (map_of (lru_abs c) k, c') \<and> lru_wf c' \<and>
           lru_abs c' = (case map_of (lru_abs c) k of None \<Rightarrow> lru_abs c | Some v \<Rightarrow> touch k v (lru_abs c))"
proof (cases "lru_lookup c k")
  case None
  with assms show ?thesis by (simp add: LRUCache_Get_miss lru_map_of_abs)
next
  case (Some v)
  with LRUCache_Get_hit [OF assms Some] assms show ?thesis by (auto simp: lru_map_of_abs)
qed

theorem lru_get_refines_witness: "\<exists>c'. LRUCache_Get 7 lru2 = Inr (None, c') \<and> lru_abs c' = []"
  using lru_get_refines [OF lru2_wf(1), of 7] by (auto simp: lru2_wf)

text \<open>C38: What can go wrong with the cache. From a fresh cache of a positive capacity \<open>n\<close>, take any sequence of
  look-ups, insertions and removals with any arguments. Either all calls return and the cache then holds at most
  \<open>n\<close> entries, and a further removal returns exactly if its key is there; or the first call that fails is the removal
  of a key that is not in the cache, whose loop runs past the end of the deque: look-ups and insertions never fail. With
  capacity 0 every insertion into the fresh cache fails, on the back of an empty deque.\<close>

theorem lru_capacity:
  assumes "0 \<le> n" and "n < 2 ^ 64"
  shows "if n = 0 then \<forall>k v. LRUCache_Put k v (LRUCache_SetCapacity n LRUCache_new) = Inl OutOfRange
         else case lru_run calls (LRUCache_SetCapacity n LRUCache_new) of
             Inr c \<Rightarrow> lru_wf c \<and> int (LRUCache_GetSize c) \<le> n \<and>
               (\<forall>k. LRUCache_Remove k c = Inl OutOfRange \<longleftrightarrow> \<not> LRUCache_Find k c)
           | Inl e \<Rightarrow> e = OutOfRange \<and> (\<exists>xs k ys c. calls = xs @ CallRemove k # ys \<and>
               lru_run xs (LRUCache_SetCapacity n LRUCache_new) = Inr c \<and> \<not> LRUCache_Find k c)"
proof (cases "n = 0")
  case True
  then show ?thesis
    by (simp add: LRUCache_Put_def LRUCache_Put_evict_def LRUCache_SetCapacity_def LRUCache_new_def
        LRUCache_GetEvictionCandidate_def)
next
  case False
  have remove: "lru_wf c \<Longrightarrow> LRUCache_Remove k c = Inl OutOfRange \<longleftrightarrow> \<not> LRUCache_Find k c" for k c
    using LRUCache_Remove_absent [of c k] LRUCache_Remove_spec [of c k] by (cases "lru_lookup c k") (auto simp: LRUCache_Find_def)
  have "int (lru_cacheSize (LRUCache_SetCapacity n LRUCache_new)) = n"
    using assms by (simp add: LRUCache_SetCapacity_def)
  then have "int (LRUCache_GetSize c) \<le> n" if "lru_wf c" "lru_cacheSize c = lru_cacheSize (LRUCache_SetCapacity n LRUCache_new)" for c
    using that by (simp add: lru_wf_def LRUCache_GetSize_def)
  then show ?thesis
    using False lru_run_ok [OF lru_new_wf, of n calls] assms remove
    by (auto simp: LRUCache_Find_def split: sum.splits)
qed

theorem lru_capacity_witness:
  "\<exists>c. lru_run [CallPut 1 9, CallPut 2 9, CallRemove 2, CallPut 3 9, CallPut 4 9, CallGet 3] (LRUCache_SetCapacity 2 LRUCache_new) = Inr c \<and>
     int (LRUCache_GetSize c) \<le> 2 \<and> LRUCache_Remove 1 c = Inl OutOfRange"
proof -
  let ?calls = "[CallPut 1 9, CallPut 2 9, CallRemove 2, CallPut 3 9, CallPut 4 9, CallGet 3]"
  obtain c where c: "lru_run ?calls (LRUCache_SetCapacity 2 LRUCache_new) = Inr c" "\<not> LRUCache_Find 1 c"
    by (simp add: LRUCache_Put_def LRUCache_Put_evict_def LRUCache_SetCapacity_def LRUCache_new_def LRUCache_GetEvictionCandidate_def
        LRUCache_Remove_def LRUCache_Get_def LRUCache_Find_def omap_erase_def omap_at_def Let_def)
  with lru_capacity [of 2 ?calls] show ?thesis
    by (simp del: lru_run.simps)
qed

end
