(* ===== verification/Bloom_Filter.thy ===== *)
theory Bloom_Filter
  imports Cpp_Prelude
begin

text \<open>
  \<^verbatim>\<open>include/bloom-filter.h\<close>: one byte per switch identifier. Its \<open>GetIndex\<close> is the identity,
  so it is an exact bit set, with no false positives, on identifiers below its size, and reads or
  writes outside its storage on any other identifier.
\<close>

record BloomFilter =
  bf_size :: nat
  bf_array :: "u8 list"

definition BloomFilter_new :: BloomFilter where
  "BloomFilter_new = \<lparr>bf_size = 0, bf_array = []\<rparr>"

definition BloomFilter_GetSize :: "BloomFilter \<Rightarrow> nat" where
  "BloomFilter_GetSize f = bf_size f"

definition BloomFilter_Setup :: "int \<Rightarrow> BloomFilter \<Rightarrow> BloomFilter res" where
  "BloomFilter_Setup capacity f =
     (if capacity < 0 then Inl LengthError
      else Inr (f\<lparr>bf_size := nat capacity, bf_array := replicate (nat capacity) 0\<rparr>))"

definition BloomFilter_GetIndex :: "u32 \<Rightarrow> nat" where
  "BloomFilter_GetIndex key = unat key"

definition BloomFilter_Get :: "u32 \<Rightarrow> BloomFilter \<Rightarrow> bool res" where
  "BloomFilter_Get key f =
     bindE (vec_at (bf_array f) (BloomFilter_GetIndex key)) (\<lambda>b. Inr (b = 1))"

definition BloomFilter_Put :: "u32 \<Rightarrow> BloomFilter \<Rightarrow> BloomFilter res" where
  "BloomFilter_Put key f =
     bindE (vec_set (bf_array f) (BloomFilter_GetIndex key) 1) (\<lambda>a. Inr (f\<lparr>bf_array := a\<rparr>))"

definition bf_wf :: "BloomFilter \<Rightarrow> bool" where
  "bf_wf f \<longleftrightarrow> length (bf_array f) = bf_size f \<and> (\<forall>b \<in> set (bf_array f). b = 0 \<or> b = 1)"

text \<open>The set of identifiers the filter holds.\<close>

definition bf_set :: "BloomFilter \<Rightarrow> u32 set" where
  "bf_set f = {k. unat k < length (bf_array f) \<and> bf_array f ! unat k = 1}"

lemma BloomFilter_Setup_wf:
  "0 \<le> n \<Longrightarrow> \<exists>f'. BloomFilter_Setup n f = Inr f' \<and> bf_wf f' \<and> bf_size f' = nat n \<and> bf_set f' = {}"
  by (simp add: BloomFilter_Setup_def bf_wf_def bf_set_def)

lemma BloomFilter_Get_eq:
  "bf_wf f \<Longrightarrow> unat k < bf_size f \<Longrightarrow> BloomFilter_Get k f = Inr (k \<in> bf_set f)"
  by (simp add: BloomFilter_Get_def BloomFilter_GetIndex_def bf_wf_def bf_set_def)

lemma BloomFilter_Put_eq:
  assumes "bf_wf f" and "unat k < bf_size f"
  shows "\<exists>f'. BloomFilter_Put k f = Inr f' \<and> bf_wf f' \<and> bf_size f' = bf_size f \<and>
              bf_set f' = insert k (bf_set f)"
proof -
  have "set ((bf_array f)[unat k := 1]) \<subseteq> insert 1 (set (bf_array f))"
    by (rule set_update_subset_insert)
  then have "\<forall>b \<in> set ((bf_array f)[unat k := 1]). b = 0 \<or> b = 1"
    using assms(1) unfolding bf_wf_def by blast
  moreover have "bf_set (f\<lparr>bf_array := (bf_array f)[unat k := 1]\<rparr>) = insert k (bf_set f)"
    using assms by (auto simp: bf_set_def bf_wf_def nth_list_update simp flip: word_unat_eq_iff)
  ultimately show ?thesis
    using assms by (simp add: BloomFilter_Put_def BloomFilter_GetIndex_def bf_wf_def)
qed

lemma BloomFilter_out_of_range:
  "bf_wf f \<Longrightarrow> bf_size f \<le> unat k \<Longrightarrow>
   BloomFilter_Get k f = Inl OutOfRange \<and> BloomFilter_Put k f = Inl OutOfRange"
  by (simp add: BloomFilter_Get_def BloomFilter_Put_def BloomFilter_GetIndex_def bf_wf_def
      vec_at_def vec_set_def)

text \<open>A run of insertions, as the switch makes them over its lifetime.\<close>

fun BloomFilter_Puts :: "u32 list \<Rightarrow> BloomFilter \<Rightarrow> BloomFilter res" where
  "BloomFilter_Puts [] f = Inr f"
| "BloomFilter_Puts (k # ks) f = bindE (BloomFilter_Put k f) (BloomFilter_Puts ks)"

lemma BloomFilter_Puts_eq:
  "\<lbrakk>bf_wf f; \<forall>k \<in> set ks. unat k < bf_size f\<rbrakk> \<Longrightarrow>
   \<exists>f'. BloomFilter_Puts ks f = Inr f' \<and> bf_wf f' \<and> bf_size f' = bf_size f \<and>
        bf_set f' = set ks \<union> bf_set f"
proof (induction ks arbitrary: f)
  case (Cons k ks)
  then obtain f1 where "BloomFilter_Put k f = Inr f1" "bf_wf f1" "bf_size f1 = bf_size f"
      "bf_set f1 = insert k (bf_set f)"
    using BloomFilter_Put_eq [of f k] by auto
  moreover from this Cons.prems Cons.IH [of f1]
  obtain f' where "BloomFilter_Puts ks f1 = Inr f'" "bf_wf f'" "bf_size f' = bf_size f"
      "bf_set f' = set ks \<union> insert k (bf_set f)"
    by auto
  ultimately show ?case by auto
qed simp

section \<open>Properties\<close>

text \<open>The filter is an exact set on the identifiers it has room for. After \<open>Setup (n)\<close> and any
  insertions of identifiers below \<open>n\<close>, \<open>Get\<close> answers membership, with neither false negatives nor
  false positives.\<close>

theorem bloom_exact:
  assumes "0 \<le> n" and "\<forall>k \<in> set ks. unat k < nat n" and "unat x < nat n"
  shows "\<exists>f0 f. BloomFilter_Setup n BloomFilter_new = Inr f0 \<and> BloomFilter_Puts ks f0 = Inr f \<and>
           BloomFilter_Get x f = Inr (x \<in> set ks) \<and> BloomFilter_GetSize f = nat n"
proof -
  obtain f0 where f0: "BloomFilter_Setup n BloomFilter_new = Inr f0" "bf_wf f0" "bf_size f0 = nat n"
      "bf_set f0 = {}"
    using BloomFilter_Setup_wf [OF assms(1)] by blast
  with BloomFilter_Puts_eq [of f0 ks] assms(2)
  obtain f where "BloomFilter_Puts ks f0 = Inr f" "bf_wf f" "bf_size f = nat n" "bf_set f = set ks"
    by auto
  with f0 assms(3) show ?thesis
    by (auto simp: BloomFilter_Get_eq BloomFilter_GetSize_def)
qed

theorem bloom_exact_witness:
  "\<exists>f0 f. BloomFilter_Setup 80 BloomFilter_new = Inr f0 \<and> BloomFilter_Puts [3, 7] f0 = Inr f \<and>
     BloomFilter_Get 5 f = Inr False"
  using bloom_exact [of 80 "[3, 7]" 5] by auto

text \<open>An identifier the filter has no room for is not hashed into it: both operations leave the
  storage.\<close>

theorem bloom_out_of_range:
  assumes "0 \<le> n" and "nat n \<le> unat x"
  shows "\<exists>f. BloomFilter_Setup n BloomFilter_new = Inr f \<and>
           BloomFilter_Get x f = Inl OutOfRange \<and> BloomFilter_Put x f = Inl OutOfRange"
  using BloomFilter_Setup_wf [OF assms(1), of BloomFilter_new] BloomFilter_out_of_range [of _ x] assms(2)
  by auto

theorem bloom_out_of_range_witness:
  "\<exists>f. BloomFilter_Setup 80 BloomFilter_new = Inr f \<and> BloomFilter_Get 80 f = Inl OutOfRange"
  using bloom_out_of_range [of 80 80] by auto

end
