(* ===== verification/Ip_Utils.thy ===== *)
theory Ip_Utils
  imports Cpp_Prelude
begin

text \<open>
  \<^verbatim>\<open>ip-utils.cc\<close>: the addressing plan. Every address is built as a dotted string and handed to
  ns-3's \<open>Ipv4Address (char const *)\<close>, which is the parameter \<open>ipv4\<close>; \<open>dotted_quad\<close> is
  its documented behaviour on four decimal octets. The lemmas compute the addresses and show that
  hosts, leaf switches, spine switches and core switches never share one, and that a leaf switch is
  recovered from a host address the way \<open>P4SwitchApp::GeneratePacketToLeaf\<close> does it.
\<close>

unbundle bit_operations_syntax

section \<open>Definitions\<close>

type_synonym ipv4_parser = "string \<Rightarrow> u32"

definition IpUtils_GetClassCMask :: "ipv4_parser \<Rightarrow> u32" where
  "IpUtils_GetClassCMask ipv4_mask = ipv4_mask ''255.255.255.0''"

definition IpUtils_GetClassBMask :: "ipv4_parser \<Rightarrow> u32" where
  "IpUtils_GetClassBMask ipv4_mask = ipv4_mask ''255.255.0.0''"

definition IpUtils_GetClassAMask :: "ipv4_parser \<Rightarrow> u32" where
  "IpUtils_GetClassAMask ipv4_mask = ipv4_mask ''255.0.0.0''"

definition IpUtils_GetNodeBasePhysicalAddress :: "ipv4_parser \<Rightarrow> u32 \<Rightarrow> u32 \<Rightarrow> u32 \<Rightarrow> u32" where
  "IpUtils_GetNodeBasePhysicalAddress ipv4 podId leafOffset i =
     ipv4 (to_string (unat (podId + 1)) @ ''.'' @ to_string (unat leafOffset) @ ''.'' @
           to_string (unat i) @ ''.0'')"

definition IpUtils_GetNodePhysicalAddress :: "ipv4_parser \<Rightarrow> u32 \<Rightarrow> u32 \<Rightarrow> u32 \<Rightarrow> u32" where
  "IpUtils_GetNodePhysicalAddress ipv4 podId leafOffset i =
     IpUtils_GetNodeBasePhysicalAddress ipv4 podId leafOffset i + 1"

definition IpUtils_GetContainerVirtualAddress :: "u32 \<Rightarrow> u32" where
  "IpUtils_GetContainerVirtualAddress i = i"

definition IpUtils_GetSwitchBaseAddress :: "ipv4_parser \<Rightarrow> u32 \<Rightarrow> u32 \<Rightarrow> u32 \<Rightarrow> u32 \<Rightarrow> u32" where
  "IpUtils_GetSwitchBaseAddress ipv4 podCount podId spineOffset leafOffset =
     ipv4 (to_string (unat (podCount + podId + 1)) @ ''.'' @ to_string (unat spineOffset) @ ''.'' @
           to_string (unat leafOffset) @ ''.0'')"

definition IpUtils_GetLeafAddress :: "ipv4_parser \<Rightarrow> u32 \<Rightarrow> u32 \<Rightarrow> u32 \<Rightarrow> u32 \<Rightarrow> u32" where
  "IpUtils_GetLeafAddress ipv4 podCount podId spineOffset leafOffset =
     IpUtils_GetSwitchBaseAddress ipv4 podCount podId spineOffset leafOffset + 2"

definition IpUtils_GetSpineFromLeafAddress :: "ipv4_parser \<Rightarrow> u32 \<Rightarrow> u32 \<Rightarrow> u32 \<Rightarrow> u32 \<Rightarrow> u32" where
  "IpUtils_GetSpineFromLeafAddress ipv4 podCount podId spineOffset leafOffset =
     IpUtils_GetSwitchBaseAddress ipv4 (2 * podCount) podId spineOffset leafOffset + 1"

definition IpUtils_GetCoreSwitchBaseAddress :: "ipv4_parser \<Rightarrow> u32 \<Rightarrow> u32 \<Rightarrow> u32" where
  "IpUtils_GetCoreSwitchBaseAddress ipv4 spinePodId core =
     ipv4 (''255.'' @ to_string (unat core) @ ''.'' @ to_string (unat spinePodId) @ ''.0'')"

definition IpUtils_GetCoreAddress :: "ipv4_parser \<Rightarrow> u32 \<Rightarrow> u32 \<Rightarrow> u32" where
  "IpUtils_GetCoreAddress ipv4 spinePodId core =
     IpUtils_GetCoreSwitchBaseAddress ipv4 spinePodId core + 1"

definition IpUtils_GetSpineFromCoreAddress :: "ipv4_parser \<Rightarrow> u32 \<Rightarrow> u32 \<Rightarrow> u32" where
  "IpUtils_GetSpineFromCoreAddress ipv4 spinePodId core =
     IpUtils_GetCoreSwitchBaseAddress ipv4 spinePodId core + 2"

section \<open>Dotted quads\<close>

definition quad_nat :: "nat \<Rightarrow> nat \<Rightarrow> nat \<Rightarrow> nat \<Rightarrow> nat" where
  "quad_nat a b c d = ((a * 256 + b) * 256 + c) * 256 + d"

definition quad :: "nat \<Rightarrow> nat \<Rightarrow> nat \<Rightarrow> nat \<Rightarrow> u32" where
  "quad a b c d = word_of_nat (quad_nat a b c d)"

definition quad_string :: "nat \<Rightarrow> nat \<Rightarrow> nat \<Rightarrow> nat \<Rightarrow> string" where
  "quad_string a b c d =
     to_string a @ ''.'' @ to_string b @ ''.'' @ to_string c @ ''.'' @ to_string d"

text \<open>What the code relies on from ns-3: four decimal octets separated by dots name the address
  whose bytes they are.\<close>

definition dotted_quad :: "ipv4_parser \<Rightarrow> bool" where
  "dotted_quad ipv4 \<longleftrightarrow>
     (\<forall>a b c d. a < 256 \<longrightarrow> b < 256 \<longrightarrow> c < 256 \<longrightarrow> d < 256 \<longrightarrow>
        ipv4 (quad_string a b c d) = quad a b c d)"

lemma dotted_quadD:
  "\<lbrakk>dotted_quad ipv4; a < 256; b < 256; c < 256; d < 256\<rbrakk> \<Longrightarrow>
   ipv4 (quad_string a b c d) = quad a b c d"
  by (simp add: dotted_quad_def)

lemma to_string_small: "to_string 0 = ''0''" "to_string 255 = ''255''"
  by (simp_all add: to_string.simps digit_def) code_simp+

lemma base256:
  assumes "x * 256 + b = y * 256 + d" and "b < 256" and "d < (256 :: nat)"
  shows "x = y \<and> b = d"
proof -
  have "(b + x * 256) div 256 = (d + y * 256) div 256"
    using assms(1) by (simp add: add.commute)
  then have "x = y"
    using assms(2,3) by simp
  with assms(1) show ?thesis by simp
qed

lemma quad_nat_bound: "\<lbrakk>a < 256; b < 256; c < 256; d < 256\<rbrakk> \<Longrightarrow> quad_nat a b c d < 2 ^ 32"
  by (simp add: quad_nat_def)

lemma unat_quad: "\<lbrakk>a < 256; b < 256; c < 256; d < 256\<rbrakk> \<Longrightarrow> unat (quad a b c d) = quad_nat a b c d"
  using quad_nat_bound [of a b c d] by (simp add: quad_def)

lemma quad_inject:
  assumes "a < 256" "b < 256" "c < 256" "d < 256" "a' < 256" "b' < 256" "c' < 256" "d' < 256"
  shows "quad a b c d = quad a' b' c' d' \<longleftrightarrow> a = a' \<and> b = b' \<and> c = c' \<and> d = d'"
proof
  assume "quad a b c d = quad a' b' c' d'"
  then have "quad_nat a b c d = quad_nat a' b' c' d'"
    using assms by (metis unat_quad)
  then show "a = a' \<and> b = b' \<and> c = c' \<and> d = d'"
    unfolding quad_nat_def using assms by (blast dest: base256)
qed simp

lemma quad_octet1:
  assumes "a < 256" "b < 256" "c < 256" "d < 256"
  shows "unat (drop_bit 24 (quad a b c d)) = a"
  unfolding unat_shiftr using assms by (simp add: unat_quad quad_nat_def)

lemma quad_octet2:
  assumes "a < 256" "b < 256" "c < 256" "d < 256"
  shows "unat (drop_bit 16 (quad a b c d) AND 255) = b"
proof -
  have "drop_bit 16 (quad a b c d) AND 255 = take_bit 8 (drop_bit 16 (quad a b c d))"
    by (simp add: take_bit_eq_mask mask_eq_exp_minus_1)
  then have "unat (drop_bit 16 (quad a b c d) AND 255) = (quad_nat a b c d div 2 ^ 16) mod 2 ^ 8"
    using assms by (simp only: unat_low_bits unat_shiftr unat_quad)
  also have "quad_nat a b c d div 2 ^ 16 = a * 256 + b"
    using assms by (simp add: quad_nat_def)
  finally show ?thesis
    using assms by simp
qed

section \<open>The addresses of the plan\<close>

lemma quad_plus: "quad a b c 0 + 1 = quad a b c 1" "quad a b c 0 + 2 = quad a b c 2"
  by (simp_all add: quad_def quad_nat_def)

lemma GetNodeBasePhysicalAddress_quad:
  assumes "dotted_quad ipv4" and "p < 255" "l < 256" "i < 256"
  shows "IpUtils_GetNodeBasePhysicalAddress ipv4 (word_of_nat p) (word_of_nat l) (word_of_nat i) =
         quad (p + 1) l i 0"
proof -
  have "word_of_nat p + 1 = (word_of_nat (p + 1) :: u32)"
    by simp
  then have "unat (word_of_nat p + 1 :: u32) = p + 1" "unat (word_of_nat l :: u32) = l"
      "unat (word_of_nat i :: u32) = i"
    using assms by (simp_all del: of_nat_Suc)
  then show ?thesis
    using dotted_quadD [OF assms(1), of "p + 1" l i 0] assms
    by (simp add: IpUtils_GetNodeBasePhysicalAddress_def quad_string_def to_string_small)
qed

lemma GetNodePhysicalAddress_quad:
  assumes "dotted_quad ipv4" and "p < 255" "l < 256" "i < 256"
  shows "IpUtils_GetNodePhysicalAddress ipv4 (word_of_nat p) (word_of_nat l) (word_of_nat i) =
         quad (p + 1) l i 1"
  using GetNodeBasePhysicalAddress_quad [OF assms] quad_plus
  by (simp add: IpUtils_GetNodePhysicalAddress_def)

lemma GetSwitchBaseAddress_quad:
  assumes "dotted_quad ipv4" and "n + p < 255" "s < 256" "l < 256"
  shows "IpUtils_GetSwitchBaseAddress ipv4 (word_of_nat n) (word_of_nat p) (word_of_nat s)
           (word_of_nat l) = quad (n + p + 1) s l 0"
proof -
  have "word_of_nat n + word_of_nat p + 1 = (word_of_nat (n + p + 1) :: u32)"
    by simp
  then have "unat (word_of_nat n + word_of_nat p + 1 :: u32) = n + p + 1"
      "unat (word_of_nat s :: u32) = s" "unat (word_of_nat l :: u32) = l"
    using assms by (simp_all del: of_nat_Suc of_nat_add)
  then show ?thesis
    using dotted_quadD [OF assms(1), of "n + p + 1" s l 0] assms
    by (simp add: IpUtils_GetSwitchBaseAddress_def quad_string_def to_string_small)
qed

lemma GetLeafAddress_quad:
  assumes "dotted_quad ipv4" and "n + p < 255" "s < 256" "l < 256"
  shows "IpUtils_GetLeafAddress ipv4 (word_of_nat n) (word_of_nat p) (word_of_nat s)
           (word_of_nat l) = quad (n + p + 1) s l 2"
  using GetSwitchBaseAddress_quad [OF assms] quad_plus
  by (simp add: IpUtils_GetLeafAddress_def)

lemma GetSpineFromLeafAddress_quad:
  assumes "dotted_quad ipv4" and "2 * n + p < 255" "s < 256" "l < 256"
  shows "IpUtils_GetSpineFromLeafAddress ipv4 (word_of_nat n) (word_of_nat p) (word_of_nat s)
           (word_of_nat l) = quad (2 * n + p + 1) s l 1"
  using GetSwitchBaseAddress_quad [OF assms] quad_plus
  by (simp add: IpUtils_GetSpineFromLeafAddress_def)

lemma GetCoreSwitchBaseAddress_quad:
  assumes "dotted_quad ipv4" and "q < 256" "c < 256"
  shows "IpUtils_GetCoreSwitchBaseAddress ipv4 (word_of_nat q) (word_of_nat c) = quad 255 c q 0"
proof -
  have "unat (word_of_nat q :: u32) = q" "unat (word_of_nat c :: u32) = c"
    using assms by simp_all
  then show ?thesis
    using dotted_quadD [OF assms(1), of 255 c q 0] assms
    by (simp add: IpUtils_GetCoreSwitchBaseAddress_def quad_string_def to_string_small)
qed

lemma GetCoreAddress_quad:
  assumes "dotted_quad ipv4" and "q < 256" "c < 256"
  shows "IpUtils_GetCoreAddress ipv4 (word_of_nat q) (word_of_nat c) = quad 255 c q 1"
  using GetCoreSwitchBaseAddress_quad [OF assms] quad_plus
  by (simp add: IpUtils_GetCoreAddress_def)

lemmas base_quads = GetNodeBasePhysicalAddress_quad GetSwitchBaseAddress_quad GetCoreSwitchBaseAddress_quad

lemmas address_quads = GetNodePhysicalAddress_quad GetLeafAddress_quad
  GetSpineFromLeafAddress_quad GetCoreAddress_quad

section \<open>Masks\<close>

lemma drop_bit_mask_eq:
  "x AND NOT (mask n) = y AND NOT (mask n) \<longleftrightarrow> drop_bit n x = drop_bit n (y :: u32)"
proof -
  have "z AND NOT (mask n) = push_bit n (drop_bit n z)" for z :: u32
    by (rule bit_word_eqI) (auto simp: bit_simps)
  moreover have "drop_bit n (push_bit n (drop_bit n z)) = drop_bit n z" for z :: u32
    by (rule bit_word_eqI) (auto simp: bit_simps dest: bit_imp_le_length)
  ultimately show ?thesis by metis
qed

lemma GetClassCMask_bits: "dotted_quad masks \<Longrightarrow> IpUtils_GetClassCMask masks = NOT (mask 8)"
  using dotted_quadD [of masks 255 255 255 0]
  by (simp add: IpUtils_GetClassCMask_def quad_string_def to_string_small quad_def quad_nat_def
      not_eq_complement mask_eq_exp_minus_1)

lemma GetClassBMask_bits: "dotted_quad masks \<Longrightarrow> IpUtils_GetClassBMask masks = NOT (mask 16)"
  using dotted_quadD [of masks 255 255 0 0]
  by (simp add: IpUtils_GetClassBMask_def quad_string_def to_string_small quad_def quad_nat_def
      not_eq_complement mask_eq_exp_minus_1)

lemma quad_prefix24:
  assumes "a < 256" "b < 256" "c < 256" "d < 256" "a' < 256" "b' < 256" "c' < 256" "d' < 256"
  shows "drop_bit 8 (quad a b c d) = drop_bit 8 (quad a' b' c' d') \<longleftrightarrow> a = a' \<and> b = b' \<and> c = c'"
proof -
  have *: "quad_nat x y u v div 2 ^ 8 = (x * 256 + y) * 256 + u" if "v < 256" for x y u v
  proof -
    have "((x * 256 + y) * 256 + u) * 256 + v = v + ((x * 256 + y) * 256 + u) * 256"
      by (rule add.commute)
    then show ?thesis
      unfolding quad_nat_def using that div_mult_self1 [of 256 v "(x * 256 + y) * 256 + u"] by simp
  qed
  have "drop_bit 8 (quad a b c d) = drop_bit 8 (quad a' b' c' d') \<longleftrightarrow>
      quad_nat a b c d div 2 ^ 8 = quad_nat a' b' c' d' div 2 ^ 8"
    using assms by (simp only: word_unat_eq_iff unat_shiftr unat_quad)
  also have "\<dots> \<longleftrightarrow> (a * 256 + b) * 256 + c = (a' * 256 + b') * 256 + c'"
    using assms by (simp only: *)
  finally show ?thesis
    using assms by (blast dest: base256)
qed

lemma quad_prefix16:
  assumes "a < 256" "b < 256" "c < 256" "d < 256" "a' < 256" "b' < 256" "c' < 256" "d' < 256"
  shows "drop_bit 16 (quad a b c d) = drop_bit 16 (quad a' b' c' d') \<longleftrightarrow> a = a' \<and> b = b'"
proof -
  have *: "quad_nat x y u v div 2 ^ 16 = x * 256 + y" if "u < 256" "v < 256" for x y u v
    using that by (simp add: quad_nat_def)
  have "drop_bit 16 (quad a b c d) = drop_bit 16 (quad a' b' c' d') \<longleftrightarrow>
      quad_nat a b c d div 2 ^ 16 = quad_nat a' b' c' d' div 2 ^ 16"
    using assms by (simp only: word_unat_eq_iff unat_shiftr unat_quad)
  also have "\<dots> \<longleftrightarrow> a * 256 + b = a' * 256 + b'"
    using assms by (simp only: *)
  finally show ?thesis
    using assms by (blast dest: base256)
qed

section \<open>A parser of dotted quads\<close>

text \<open>One function with the documented behaviour, to show that \<open>dotted_quad\<close> can hold.\<close>

fun split_dots :: "string \<Rightarrow> string \<Rightarrow> string list" where
  "split_dots acc [] = [acc]"
| "split_dots acc (c # cs) = (if c = CHR ''.'' then acc # split_dots [] cs else split_dots (acc @ [c]) cs)"

definition parse_quad :: ipv4_parser where
  "parse_quad s = word_of_nat (foldl (\<lambda>n octet. n * 256 + parse_dec octet) 0 (split_dots [] s))"

lemma split_dots_digits:
  "\<forall>c \<in> set s. is_digit c \<Longrightarrow> split_dots acc (s @ t) = split_dots (acc @ s) t"
  by (induction s arbitrary: acc) (auto simp: is_digit_def)

lemma parse_quad_dotted: "dotted_quad parse_quad"
  by (simp add: dotted_quad_def parse_quad_def quad_string_def quad_def quad_nat_def
      split_dots_digits to_string_digits split_dots_digits [where t = "[]", simplified])

section \<open>Properties\<close>

text \<open>The addresses of the plan, by the coordinates of their owners, with \<open>n\<close> pods.\<close>

datatype plan_node = HostNode nat nat nat | LeafNode nat nat nat | SpineNode nat nat nat | CoreNode nat nat

fun plan_address :: "ipv4_parser \<Rightarrow> nat \<Rightarrow> plan_node \<Rightarrow> u32" where
  "plan_address ipv4 n (HostNode pod leaf i) =
     IpUtils_GetNodePhysicalAddress ipv4 (word_of_nat pod) (word_of_nat leaf) (word_of_nat i)"
| "plan_address ipv4 n (LeafNode pod spine leaf) =
     IpUtils_GetLeafAddress ipv4 (word_of_nat n) (word_of_nat pod) (word_of_nat spine) (word_of_nat leaf)"
| "plan_address ipv4 n (SpineNode pod spine leaf) =
     IpUtils_GetSpineFromLeafAddress ipv4 (word_of_nat n) (word_of_nat pod) (word_of_nat spine) (word_of_nat leaf)"
| "plan_address ipv4 n (CoreNode spine core) =
     IpUtils_GetCoreAddress ipv4 (word_of_nat spine) (word_of_nat core)"

fun plan_valid :: "nat \<Rightarrow> plan_node \<Rightarrow> bool" where
  "plan_valid n (HostNode pod leaf i) \<longleftrightarrow> pod < n \<and> leaf < 256 \<and> i < 256"
| "plan_valid n (LeafNode pod spine leaf) \<longleftrightarrow> pod < n \<and> spine < 256 \<and> leaf < 256"
| "plan_valid n (SpineNode pod spine leaf) \<longleftrightarrow> pod < n \<and> spine < 256 \<and> leaf < 256"
| "plan_valid n (CoreNode spine core) \<longleftrightarrow> spine < 256 \<and> core < 256"

text \<open>C35: The addressing plan has no collisions. With \<open>n\<close> pods, as long as three times \<open>n\<close> fits below
  the first octet 255, the addresses of hosts, leaf switches, spine switches and core switches are pairwise
  different, for all coordinates that fit an octet.\<close>

theorem address_plan_injective:
  assumes "dotted_quad ipv4" and "3 * n < 255"
  shows "inj_on (plan_address ipv4 n) {x. plan_valid n x}"
proof (rule inj_onI)
  fix x y
  assume "x \<in> {x. plan_valid n x}" "y \<in> {x. plan_valid n x}" "plan_address ipv4 n x = plan_address ipv4 n y"
  with assms show "x = y"
    by (cases x; cases y) (simp_all add: address_quads quad_inject)
qed

theorem address_plan_injective_witness:
  "plan_address parse_quad 8 (HostNode 0 1 2) \<noteq> plan_address parse_quad 8 (LeafNode 0 0 1)"
proof -
  have "inj_on (plan_address parse_quad 8) {x. plan_valid 8 x}"
    by (rule address_plan_injective [OF parse_quad_dotted]) simp
  from inj_onD [OF this, of "HostNode 0 1 2" "LeafNode 0 0 1"] show ?thesis
    by (auto simp del: plan_address.simps)
qed

end
