(* ===== verification/Packet_Tags.thy ===== *)
theory Packet_Tags
  imports Cpp_Prelude
begin

text \<open>
  The tags a simulated packet carries: \<^verbatim>\<open>eviction-tag.cc\<close>, \<^verbatim>\<open>invalidation-tag.cc\<close>,
  \<^verbatim>\<open>hit-tag.cc\<close> and \<^verbatim>\<open>timestamp-tag.cc\<close> with their headers. Each class serializes itself into a
  tag buffer and reads itself back; the buffer's bytes are a list. The locale \<open>tag_codec\<close> is what
  ns-3 relies on when it stores and copies tags: the advertised size is the number of bytes written,
  and reading back what was written restores the tag, whatever follows it in the buffer. The
  accessors (\<open>GetEvicted\<close>, \<open>SetEvicted\<close> and their kin) are the record selectors and the
  operations below.
\<close>

section \<open>The codec contract\<close>

locale tag_codec =
  fixes size :: nat
    and serialize :: "'t \<Rightarrow> u8 list"
    and deserialize :: "u8 list \<Rightarrow> 't"
  assumes serialize_length: "length (serialize t) = size"
    and deserialize_serialize: "deserialize (serialize t @ rest) = t"
begin

lemma serialize_inject: "serialize t = serialize t' \<Longrightarrow> t = t'"
  using deserialize_serialize [of t "[]"] deserialize_serialize [of t' "[]"] by simp

text \<open>Several tags in one buffer, each at the offset its size gives it.\<close>

lemma nth_tag:
  "i < length ts \<Longrightarrow> deserialize (drop (i * size) (concat (map serialize ts))) = ts ! i"
proof (induction ts arbitrary: i)
  case (Cons t ts)
  then show ?case
    by (cases i) (simp_all add: deserialize_serialize serialize_length)
qed simp

end

section \<open>EvictionTag and InvalidationTag\<close>

record EvictionTag =
  et_key :: u32
  et_val :: u32

definition EvictionTag_GetSerializedSize :: nat where
  "EvictionTag_GetSerializedSize = 4 * 2"

definition EvictionTag_Serialize :: "EvictionTag \<Rightarrow> u8 list" where
  "EvictionTag_Serialize t = le_bytes32 (et_key t) @ le_bytes32 (et_val t)"

definition EvictionTag_Deserialize :: "u8 list \<Rightarrow> EvictionTag" where
  "EvictionTag_Deserialize i =
     \<lparr>et_key = le_word32 (take 4 i), et_val = le_word32 (take 4 (drop 4 i))\<rparr>"

definition EvictionTag_GetEvicted :: "EvictionTag \<Rightarrow> u32 \<times> u32" where
  "EvictionTag_GetEvicted t = (et_key t, et_val t)"

definition EvictionTag_SetEvicted :: "u32 \<times> u32 \<Rightarrow> EvictionTag \<Rightarrow> EvictionTag" where
  "EvictionTag_SetEvicted val t = t\<lparr>et_key := fst val, et_val := snd val\<rparr>"

record InvalidationTag =
  it_key :: u32
  it_val :: u32

definition InvalidationTag_GetSerializedSize :: nat where
  "InvalidationTag_GetSerializedSize = 4 * 2"

definition InvalidationTag_Serialize :: "InvalidationTag \<Rightarrow> u8 list" where
  "InvalidationTag_Serialize t = le_bytes32 (it_key t) @ le_bytes32 (it_val t)"

definition InvalidationTag_Deserialize :: "u8 list \<Rightarrow> InvalidationTag" where
  "InvalidationTag_Deserialize i =
     \<lparr>it_key = le_word32 (take 4 i), it_val = le_word32 (take 4 (drop 4 i))\<rparr>"

definition InvalidationTag_GetInvalidation :: "InvalidationTag \<Rightarrow> u32 \<times> u32" where
  "InvalidationTag_GetInvalidation t = (it_key t, it_val t)"

definition InvalidationTag_SetInvalidation :: "u32 \<times> u32 \<Rightarrow> InvalidationTag \<Rightarrow> InvalidationTag" where
  "InvalidationTag_SetInvalidation val t = t\<lparr>it_key := fst val, it_val := snd val\<rparr>"

section \<open>HitTag\<close>

record HitTag =
  ht_address :: u32
  ht_switchId :: u32

definition HitTag_GetSerializedSize :: nat where
  "HitTag_GetSerializedSize = 2 * 4"

definition HitTag_Serialize :: "HitTag \<Rightarrow> u8 list" where
  "HitTag_Serialize t = le_bytes32 (ht_address t) @ le_bytes32 (ht_switchId t)"

definition HitTag_Deserialize :: "u8 list \<Rightarrow> HitTag" where
  "HitTag_Deserialize i =
     \<lparr>ht_address = le_word32 (take 4 i), ht_switchId = le_word32 (take 4 (drop 4 i))\<rparr>"

definition HitTag_SetAddress :: "u32 \<Rightarrow> HitTag \<Rightarrow> HitTag" where
  "HitTag_SetAddress addr t = t\<lparr>ht_address := addr\<rparr>"

definition HitTag_SetId :: "u32 \<Rightarrow> HitTag \<Rightarrow> HitTag" where
  "HitTag_SetId i t = t\<lparr>ht_switchId := i\<rparr>"

section \<open>TimestampTag\<close>

text \<open>The creation time in simulator time steps. \<open>writeU64\<close> and \<open>readU64\<close> are ns-3's
  \<open>TagBuffer\<close> methods: eight bytes out, and the same number back.\<close>

record TimestampTag =
  tt_creationTime :: u64

definition TimestampTag_GetSerializedSize :: nat where
  "TimestampTag_GetSerializedSize = 8"

definition TimestampTag_Serialize :: "(u64 \<Rightarrow> u8 list) \<Rightarrow> TimestampTag \<Rightarrow> u8 list" where
  "TimestampTag_Serialize writeU64 t = writeU64 (tt_creationTime t)"

definition TimestampTag_Deserialize :: "(u8 list \<Rightarrow> u64) \<Rightarrow> u8 list \<Rightarrow> TimestampTag" where
  "TimestampTag_Deserialize readU64 i = \<lparr>tt_creationTime = readU64 i\<rparr>"

definition u64_buffer :: "(u64 \<Rightarrow> u8 list) \<Rightarrow> (u8 list \<Rightarrow> u64) \<Rightarrow> bool" where
  "u64_buffer writeU64 readU64 \<longleftrightarrow>
     (\<forall>t. length (writeU64 t) = 8) \<and> (\<forall>t rest. readU64 (writeU64 t @ rest) = t)"

section \<open>The tags satisfy the contract\<close>

interpretation eviction_codec: tag_codec EvictionTag_GetSerializedSize EvictionTag_Serialize
    EvictionTag_Deserialize
  by unfold_locales
     (auto simp: EvictionTag_GetSerializedSize_def EvictionTag_Serialize_def
        EvictionTag_Deserialize_def)

interpretation invalidation_codec: tag_codec InvalidationTag_GetSerializedSize
    InvalidationTag_Serialize InvalidationTag_Deserialize
  by unfold_locales
     (auto simp: InvalidationTag_GetSerializedSize_def InvalidationTag_Serialize_def
        InvalidationTag_Deserialize_def)

interpretation hit_codec: tag_codec HitTag_GetSerializedSize HitTag_Serialize HitTag_Deserialize
  by unfold_locales
     (auto simp: HitTag_GetSerializedSize_def HitTag_Serialize_def HitTag_Deserialize_def)

text \<open>The timestamp tag meets it for every buffer that stores 64-bit values.\<close>

lemma timestamp_tag_codec:
  "u64_buffer writeU64 readU64 \<Longrightarrow>
   tag_codec TimestampTag_GetSerializedSize (TimestampTag_Serialize writeU64)
     (TimestampTag_Deserialize readU64)"
  by unfold_locales
     (auto simp: TimestampTag_GetSerializedSize_def TimestampTag_Serialize_def
        TimestampTag_Deserialize_def u64_buffer_def)

text \<open>A concrete buffer: eight bytes, most significant half last.\<close>

definition le_bytes64 :: "u64 \<Rightarrow> u8 list" where
  "le_bytes64 w = le_bytes32 (ucast w) @ le_bytes32 (ucast (drop_bit 32 w))"

definition le_word64 :: "u8 list \<Rightarrow> u64" where
  "le_word64 bs = ucast (le_word32 (take 4 bs)) + push_bit 32 (ucast (le_word32 (take 4 (drop 4 bs))))"

lemma le_buffer: "u64_buffer le_bytes64 le_word64"
proof -
  have "ucast (ucast w :: u32) + push_bit 32 (ucast (ucast (drop_bit 32 w) :: u32)) = w" for w :: u64
  proof -
    have "ucast (ucast w :: u32) = take_bit 32 w"
      by (rule bit_word_eqI) (auto simp: bit_simps)
    moreover have "push_bit 32 (ucast (ucast (drop_bit 32 w) :: u32)) = push_bit 32 (drop_bit 32 w)"
      by (rule bit_word_eqI) (auto simp: bit_simps)
    ultimately show ?thesis
      by (metis add.commute bits_ident)
  qed
  then show ?thesis
    by (simp add: u64_buffer_def le_bytes64_def le_word64_def)
qed

interpretation timestamp_codec: tag_codec TimestampTag_GetSerializedSize
    "TimestampTag_Serialize le_bytes64" "TimestampTag_Deserialize le_word64"
  by (rule timestamp_tag_codec [OF le_buffer])

section \<open>Properties\<close>

text \<open>Eviction and invalidation tags survive the tag buffer. Of several tags written one after the
  other, each is read back from the offset its advertised size gives it.\<close>

theorem eviction_tags_roundtrip:
  "(\<forall>i. EvictionTag_Deserialize (drop (i * EvictionTag_GetSerializedSize) (concat (map EvictionTag_Serialize ts)))
       = ts ! i \<or> \<not> i < length ts) \<and>
   (\<forall>j. InvalidationTag_Deserialize (drop (j * InvalidationTag_GetSerializedSize)
       (concat (map InvalidationTag_Serialize us))) = us ! j \<or> \<not> j < length us)"
  using eviction_codec.nth_tag [of _ ts] invalidation_codec.nth_tag [of _ us] by blast

theorem eviction_tags_roundtrip_witness:
  "EvictionTag_Deserialize (drop EvictionTag_GetSerializedSize
     (concat (map EvictionTag_Serialize [\<lparr>et_key = 1, et_val = 2\<rparr>, \<lparr>et_key = 3, et_val = 4\<rparr>]))) =
   \<lparr>et_key = 3, et_val = 4\<rparr>"
  using conjunct1 [OF eviction_tags_roundtrip
    [of "[\<lparr>et_key = 1, et_val = 2\<rparr>, \<lparr>et_key = 3, et_val = 4\<rparr>]" "[]"], THEN spec, of 1]
  by simp

text \<open>Timestamp and hit tags survive it too; for the timestamp, with any buffer that stores 64-bit
  values.\<close>

theorem timestamp_tag_roundtrip:
  assumes "u64_buffer writeU64 readU64"
  shows "TimestampTag_Deserialize readU64 (TimestampTag_Serialize writeU64 t @ rest) = t \<and>
         length (TimestampTag_Serialize writeU64 t) = TimestampTag_GetSerializedSize \<and>
         HitTag_Deserialize (HitTag_Serialize h @ rest') = h \<and>
         length (HitTag_Serialize h) = HitTag_GetSerializedSize"
  using tag_codec.deserialize_serialize [OF timestamp_tag_codec [OF assms]]
    tag_codec.serialize_length [OF timestamp_tag_codec [OF assms]]
    hit_codec.deserialize_serialize hit_codec.serialize_length
  by simp

theorem timestamp_tag_roundtrip_witness:
  "TimestampTag_Deserialize le_word64 (TimestampTag_Serialize le_bytes64 \<lparr>tt_creationTime = 5\<rparr> @ [1]) =
   \<lparr>tt_creationTime = 5\<rparr>"
  using timestamp_tag_roundtrip [OF le_buffer, of "\<lparr>tt_creationTime = 5\<rparr>" "[1]"] by blast

end
