(* ===== verification/Packets.thy ===== *)
theory Packets
  imports Packet_Tags
begin

text \<open>
  What a simulated packet is to the program: a stack of headers and at most one tag of each type.
  ns-3's \<open>Packet\<close> is used through \<open>AddHeader\<close>/\<open>RemoveHeader\<close> and
  \<open>AddPacketTag\<close>/\<open>RemovePacketTag\<close>/\<open>PeekPacketTag\<close>; a header is removed from the
  front of the packet, a packet must not be given a second tag of a type it carries, and removing or
  peeking a tag that is absent reports so. Both misuses are errors of the model, and the switch is
  proved never to commit them. \<open>HopsTag\<close> and \<open>SourceTag\<close> come from the repository's patch
  to ns-3.
\<close>

record Ipv4Header =
  ip_src :: u32
  ip_dst :: u32
  ip_ttl :: u8

record UdpHeader =
  udp_sport :: u16
  udp_dport :: u16

datatype header = HIp Ipv4Header | HUdp UdpHeader

record Packet =
  pkt_headers :: "header list"
  pkt_payload :: nat
  pkt_evict :: "EvictionTag option"
  pkt_inval :: "InvalidationTag option"
  pkt_hit :: "HitTag option"
  pkt_hops :: "u32 option"
  pkt_source :: "u32 option"
  pkt_flowId :: "u32 option"
  pkt_txTime :: "u64 option"

text \<open>\<open>Create<Packet> (size)\<close>: zero bytes of content, no headers and no tags.\<close>

definition Packet_create :: "nat \<Rightarrow> Packet" where
  "Packet_create n = \<lparr>pkt_headers = [], pkt_payload = n, pkt_evict = None, pkt_inval = None,
     pkt_hit = None, pkt_hops = None, pkt_source = None, pkt_flowId = None, pkt_txTime = None\<rparr>"

definition AddHeader :: "header \<Rightarrow> Packet \<Rightarrow> Packet" where
  "AddHeader h p = p\<lparr>pkt_headers := h # pkt_headers p\<rparr>"

definition RemoveUdp :: "Packet \<Rightarrow> (UdpHeader \<times> Packet) res" where
  "RemoveUdp p = (case pkt_headers p of HUdp h # hs \<Rightarrow> Inr (h, p\<lparr>pkt_headers := hs\<rparr>) | _ \<Rightarrow> Inl BadHeader)"

definition RemoveIp :: "Packet \<Rightarrow> (Ipv4Header \<times> Packet) res" where
  "RemoveIp p = (case pkt_headers p of HIp h # hs \<Rightarrow> Inr (h, p\<lparr>pkt_headers := hs\<rparr>) | _ \<Rightarrow> Inl BadHeader)"

definition AddEvictionTag :: "EvictionTag \<Rightarrow> Packet \<Rightarrow> Packet res" where
  "AddEvictionTag t p = (if pkt_evict p = None then Inr (p\<lparr>pkt_evict := Some t\<rparr>) else Inl DuplicateTag)"

definition AddInvalidationTag :: "InvalidationTag \<Rightarrow> Packet \<Rightarrow> Packet res" where
  "AddInvalidationTag t p =
     (if pkt_inval p = None then Inr (p\<lparr>pkt_inval := Some t\<rparr>) else Inl DuplicateTag)"

definition AddHitTag :: "HitTag \<Rightarrow> Packet \<Rightarrow> Packet res" where
  "AddHitTag t p = (if pkt_hit p = None then Inr (p\<lparr>pkt_hit := Some t\<rparr>) else Inl DuplicateTag)"

text \<open>\<open>GetSize\<close>: an IPv4 header without options is 20 bytes, a UDP header 8.\<close>

definition Packet_GetSize :: "Packet \<Rightarrow> nat" where
  "Packet_GetSize p =
     pkt_payload p + sum_list (map (\<lambda>h. case h of HIp _ \<Rightarrow> 20 | HUdp _ \<Rightarrow> 8) (pkt_headers p))"

text \<open>The interceptors' \<open>RemovePacketTag (hopsTag)\<close>, \<open>IncHops\<close>, \<open>AddPacketTag (hopsTag)\<close>.\<close>

definition bump_hops :: "Packet \<Rightarrow> Packet" where
  "bump_hops p = (case pkt_hops p of None \<Rightarrow> p | Some h \<Rightarrow> p\<lparr>pkt_hops := Some (h + 1)\<rparr>)"

lemma RemoveUdp_AddHeader [simp]: "RemoveUdp (AddHeader (HUdp h) p) = Inr (h, p)"
  by (simp add: RemoveUdp_def AddHeader_def)

lemma RemoveIp_AddHeader [simp]: "RemoveIp (AddHeader (HIp h) p) = Inr (h, p)"
  by (simp add: RemoveIp_def AddHeader_def)

lemma RemoveUdp_eq_Inr:
  "RemoveUdp p = Inr (h, p') \<longleftrightarrow> pkt_headers p = HUdp h # pkt_headers p' \<and> p' = p\<lparr>pkt_headers := pkt_headers p'\<rparr>"
  by (auto simp: RemoveUdp_def split: list.splits header.splits)

lemma RemoveIp_eq_Inr:
  "RemoveIp p = Inr (h, p') \<longleftrightarrow> pkt_headers p = HIp h # pkt_headers p' \<and> p' = p\<lparr>pkt_headers := pkt_headers p'\<rparr>"
  by (auto simp: RemoveIp_def split: list.splits header.splits)

lemma AddHeader_sel [simp]:
  "pkt_headers (AddHeader h p) = h # pkt_headers p"
  "pkt_evict (AddHeader h p) = pkt_evict p" "pkt_inval (AddHeader h p) = pkt_inval p"
  "pkt_hit (AddHeader h p) = pkt_hit p" "pkt_source (AddHeader h p) = pkt_source p"
  "pkt_flowId (AddHeader h p) = pkt_flowId p" "pkt_payload (AddHeader h p) = pkt_payload p"
  "pkt_txTime (AddHeader h p) = pkt_txTime p"
  by (simp_all add: AddHeader_def)

lemma bump_hops_sel [simp]:
  "pkt_headers (bump_hops p) = pkt_headers p"
  "pkt_evict (bump_hops p) = pkt_evict p" "pkt_inval (bump_hops p) = pkt_inval p"
  "pkt_hit (bump_hops p) = pkt_hit p" "pkt_source (bump_hops p) = pkt_source p"
  "pkt_flowId (bump_hops p) = pkt_flowId p" "pkt_payload (bump_hops p) = pkt_payload p"
  "pkt_txTime (bump_hops p) = pkt_txTime p"
  by (simp_all add: bump_hops_def split: option.splits)

end
