(* ===== verification/Sim_Parameters.thy ===== *)
theory Sim_Parameters
  imports Cpp_Prelude
begin

text \<open>
  The plain data of the simulator: modes, topologies and parameters (\<^verbatim>\<open>sim-parameters.cc\<close>), the
  migration experiment (\<^verbatim>\<open>include/migration-params.h\<close>), flows and the statistics records
  (\<^verbatim>\<open>include/flow.h\<close>, \<^verbatim>\<open>include/flow-info.h\<close>, \<^verbatim>\<open>include/packet-stats.h\<close>).
\<close>

datatype Mode = Controller | SwitchV2P | LocalLearning | NoCache | GwCache | Direct | Bluebird | OnDemand

datatype Topology = CLOS | FATTREE

definition simulationModeMap :: "(string \<times> Mode) list" where
  "simulationModeMap =
     [(''Controller'', Controller), (''SwitchV2P'', SwitchV2P), (''GwCache'', GwCache),
      (''LocalLearning'', LocalLearning), (''NoCache'', NoCache), (''Direct'', Direct),
      (''Bluebird'', Bluebird), (''OnDemand'', OnDemand)]"

definition simulationTopologyMap :: "(string \<times> Topology) list" where
  "simulationTopologyMap = [(''Clos'', CLOS), (''Fattree'', FATTREE)]"

record SimulationParameters =
  SimMode :: Mode
  NetworkTopology :: Topology
  NumOfPorts :: nat
  NumOfCore :: nat
  PodWidth :: nat
  GatewayLeaves :: "u32 list"
  RandomRouting :: bool
  GatewayPerFlowLoadBalancing :: bool
  UdpMode :: bool

text \<open>The constructor. \<open>map::at\<close> throws on a name that is not in the map.\<close>

definition SimulationParameters_new ::
  "string \<Rightarrow> string \<Rightarrow> nat \<Rightarrow> nat \<Rightarrow> nat \<Rightarrow> u32 list \<Rightarrow> bool \<Rightarrow> bool \<Rightarrow> bool \<Rightarrow> SimulationParameters res" where
  "SimulationParameters_new simMode topology ports core podWidth gwLeaves randomRouting perFlow udp =
     bindE (omap_at simulationModeMap simMode) (\<lambda>m.
     bindE (omap_at simulationTopologyMap topology) (\<lambda>t.
       Inr \<lparr>SimMode = m, NetworkTopology = t, NumOfPorts = ports, NumOfCore = core,
            PodWidth = podWidth, GatewayLeaves = gwLeaves, RandomRouting = randomRouting,
            GatewayPerFlowLoadBalancing = perFlow, UdpMode = udp\<rparr>))"

record MigrationParams =
  mig_migration :: bool
  mig_containerId :: u32
  mig_dstLeaf :: u32
  mig_dstHost :: u32
  mig_ts :: u64

record Flow =
  flow_ts :: u64
  flow_dst :: u32
  flow_flowId :: u32
  flow_size :: u32

record FlowInfo =
  fi_dstIp :: u32
  fi_gwIp :: u32
  fi_packetCount :: u32

definition FlowInfo_default :: FlowInfo where
  "FlowInfo_default = \<lparr>fi_dstIp = 0, fi_gwIp = 0, fi_packetCount = 0\<rparr>"

record PacketStats =
  ps_txTime :: u64
  ps_rxTime :: u64

record FlowStats =
  fs_first :: PacketStats
  fs_last :: PacketStats
  fs_count :: u64
  fs_disorder :: u64

lemma simulationModeMap_iff: "omap_at simulationModeMap s = Inr m \<longleftrightarrow> (s, m) \<in> set simulationModeMap"
proof -
  have "distinct (map fst simulationModeMap)"
    by (simp add: simulationModeMap_def)
  then show ?thesis
    using map_of_eq_Some_iff [of simulationModeMap s] 
    by (auto simp: omap_at_def split: option.splits dest: eq_key_imp_eq_value)
qed

lemma mode_names_complete: "\<exists>s. omap_at simulationModeMap s = Inr m"
  unfolding simulationModeMap_iff by (cases m) (auto simp: simulationModeMap_def)

end
