(* ===== verification/P4_Switch.thy ===== *)
theory P4_Switch
  imports P4_Cache LRU_Cache Bloom_Filter Ip_Utils Packets Sim_Parameters
begin

text \<open>
  \<^verbatim>\<open>p4-switch-app.cc\<close>: the SwitchV2P data plane. A switch intercepts every UDP packet that
  crosses it, learns virtual-to-physical mappings from it, translates the packets that are on their
  way to a gateway, hands evicted entries on to other switches and drops stale entries. The handlers
  work on a context: the packet and IP header they may change (C++ passes them by pointer and by
  reference), the switch, and the list of what was sent, traced or scheduled. This theory holds the
  data, the SwitchV2P and LocalLearning logic; \<open>Bluebird\<close> holds the Bluebird logic and
  \<open>ReceivePacket\<close>.
\<close>

section \<open>Data\<close>

datatype SwitchType = LEAF | GW_LEAF | GW_SPINE | SPINE | CORE

text \<open>The attributes of the ns-3 type, times in nanoseconds, the queue size in bytes, the data rate
  in bits per second. \<open>double\<close> values are only compared, and are real numbers here.\<close>

record P4SwitchAttributes =
  at_MemorySize :: int
  at_TTL :: u32
  at_RandomHashFunction :: bool
  at_SourceLearning :: bool
  at_AccessBit :: bool
  at_BloomFilter :: bool
  at_BloomFilterSize :: int
  at_GenerateInvalidations :: bool
  at_GenerateProbability :: real
  at_PcieDataRate :: nat
  at_ControlPlaneLatency :: nat
  at_BluebirdProgrammingLatency :: nat
  at_BluebirdQueueSize :: nat

definition P4SwitchApp_GetTypeId :: P4SwitchAttributes where
  "P4SwitchApp_GetTypeId = \<lparr>at_MemorySize = 10, at_TTL = 64, at_RandomHashFunction = False,
     at_SourceLearning = False, at_AccessBit = True, at_BloomFilter = False,
     at_BloomFilterSize = 80, at_GenerateInvalidations = False, at_GenerateProbability = 1 / 10,
     at_PcieDataRate = 20000000000, at_ControlPlaneLatency = 8500,
     at_BluebirdProgrammingLatency = 2000000, at_BluebirdQueueSize = 1048576\<rparr>"

definition SWITCH_PORT :: u16 where
  "SWITCH_PORT = 333"

record P4Switch =
  p4s_nodeId :: u32
  p4s_attrs :: P4SwitchAttributes
  p4s_gwAddresses :: "u32 set"
  p4s_switchAddress :: u32
  p4s_switchType :: SwitchType
  p4s_simMode :: Mode
  p4s_podCount :: u32
  p4s_cache :: P4Cache
  p4s_bloomFilter :: BloomFilter
  p4s_bluebirdCache :: LRUCache
  p4s_bluebirdQueue :: "Packet list"
  p4s_bluebirdBusy :: bool

text \<open>What the handlers do to the outside: \<open>SendTo\<close> on the switch's socket, the four trace
  sources, a call into the IP stack, and the three events Bluebird schedules.\<close>

datatype sw_effect =
    SendTo Packet u32 u16
  | LearningTrace Packet
  | InvalidationTrace Packet
  | ProcessedTrace Packet u32
  | CacheHitTrace Packet u32
  | ReceiveInternal Packet Ipv4Header
  | ScheduleProcess nat Packet
  | ScheduleTxComplete nat
  | SchedulePopulate nat u32

record Ctx =
  cx_pkt :: Packet
  cx_ip :: Ipv4Header
  cx_sw :: P4Switch
  cx_eff :: "sw_effect list"

definition emit :: "sw_effect \<Rightarrow> Ctx \<Rightarrow> Ctx" where
  "emit e cx = cx\<lparr>cx_eff := cx_eff cx @ [e]\<rparr>"

definition set_cache :: "P4Cache \<Rightarrow> Ctx \<Rightarrow> Ctx" where
  "set_cache c cx = cx\<lparr>cx_sw := (cx_sw cx)\<lparr>p4s_cache := c\<rparr>\<rparr>"

definition SetDestination :: "u32 \<Rightarrow> Ctx \<Rightarrow> Ctx" where
  "SetDestination a cx = cx\<lparr>cx_ip := (cx_ip cx)\<lparr>ip_dst := a\<rparr>\<rparr>"

text \<open>The parts of ns-3 the switch calls: the CRC, the parser of dotted addresses, the value of a
  default-constructed \<open>Ipv4Address\<close>, the transmission time of a number of bytes at a rate, and
  whether a drop-tail queue of a maximum size, with given contents, accepts one more packet.\<close>

record ns3_env =
  env_crc :: crc32
  env_ipv4 :: ipv4_parser
  env_uninit :: u32
  env_txTime :: "nat \<Rightarrow> nat \<Rightarrow> nat"
  env_fits :: "nat \<Rightarrow> Packet list \<Rightarrow> Packet \<Rightarrow> bool"

section \<open>Setup\<close>

text \<open>The attributes are set by the object factory before \<open>Setup\<close> runs; \<open>rnd\<close> is the random
  hash seed drawn by \<open>m_cache.Setup\<close>.\<close>

definition P4SwitchApp_Setup ::
  "P4SwitchAttributes \<Rightarrow> u32 \<Rightarrow> u32 \<Rightarrow> u32 list \<Rightarrow> u32 \<Rightarrow> SwitchType \<Rightarrow> Mode \<Rightarrow> u32 \<Rightarrow> P4Switch res" where
  "P4SwitchApp_Setup attrs nodeId rnd gwAddresses switchAddress switchType simMode podCount =
     bindE (P4Cache_Setup (at_MemorySize attrs) (at_RandomHashFunction attrs) rnd P4Cache_new) (\<lambda>c.
     bindE (if at_BloomFilter attrs
            then BloomFilter_Setup (at_BloomFilterSize attrs) BloomFilter_new
            else Inr BloomFilter_new) (\<lambda>bf.
       Inr \<lparr>p4s_nodeId = nodeId, p4s_attrs = attrs, p4s_gwAddresses = set gwAddresses,
            p4s_switchAddress = switchAddress, p4s_switchType = switchType, p4s_simMode = simMode,
            p4s_podCount = podCount, p4s_cache = c, p4s_bloomFilter = bf,
            p4s_bluebirdCache = LRUCache_SetCapacity (at_MemorySize attrs) LRUCache_new,
            p4s_bluebirdQueue = [], p4s_bluebirdBusy = False\<rparr>))"

section \<open>Generated packets\<close>

definition P4SwitchApp_GeneratePacketToAddress :: "u32 \<times> u32 \<Rightarrow> u32 \<Rightarrow> bool \<Rightarrow> Ctx \<Rightarrow> Ctx" where
  "P4SwitchApp_GeneratePacketToAddress dat dstAddress learning cx =
     (let p = Packet_create 64;
          p = (if learning then p\<lparr>pkt_evict := Some \<lparr>et_key = fst dat, et_val = snd dat\<rparr>\<rparr>
               else p\<lparr>pkt_inval := Some \<lparr>it_key = fst dat, it_val = snd dat\<rparr>\<rparr>)
      in if dstAddress \<noteq> p4s_switchAddress (cx_sw cx)
         then emit (SendTo p dstAddress SWITCH_PORT) cx else cx)"

definition P4SwitchApp_GeneratePacketToLeaf :: "ns3_env \<Rightarrow> u32 \<times> u32 \<Rightarrow> u32 \<Rightarrow> Ctx \<Rightarrow> Ctx" where
  "P4SwitchApp_GeneratePacketToLeaf E dat hostAddress cx =
     (let podId = drop_bit 24 hostAddress - 1;
          leafOffset = and (drop_bit 16 hostAddress) 255;
          dstAddress = IpUtils_GetLeafAddress (env_ipv4 E) (p4s_podCount (cx_sw cx)) podId 0 leafOffset
      in P4SwitchApp_GeneratePacketToAddress dat dstAddress True cx)"

section \<open>Protocol packets\<close>

definition P4SwitchApp_HandleProtocolPacket :: "ns3_env \<Rightarrow> Ctx \<Rightarrow> (bool \<times> Ctx) res" where
  "P4SwitchApp_HandleProtocolPacket E cx =
     bindE
       (case pkt_inval (cx_pkt cx) of
          None \<Rightarrow> Inr cx
        | Some tag \<Rightarrow>
            (let invalidated = InvalidationTag_GetInvalidation tag in
             bindE (P4Cache_Get (env_crc E) (fst invalidated) (p4s_cache (cx_sw cx))) (\<lambda>(r, c).
               case r of
                 None \<Rightarrow> Inr (set_cache c cx)
               | Some cachedVal \<Rightarrow>
                   if cachedVal = snd invalidated
                   then bindE (P4Cache_Remove (env_crc E) (fst invalidated) c)
                          (\<lambda>c'. Inr (set_cache c' cx))
                   else Inr (set_cache c cx))))
       (\<lambda>cx.
         if ip_dst (cx_ip cx) = p4s_switchAddress (cx_sw cx)
         then (case pkt_evict (cx_pkt cx) of
                 None \<Rightarrow> Inr (False, cx)
               | Some tag \<Rightarrow>
                   (let learn = EvictionTag_GetEvicted tag in
                    bindE (P4Cache_Put (env_crc E) (fst learn) (snd learn) (p4s_cache (cx_sw cx)))
                      (\<lambda>c. Inr (False, set_cache c cx))))
         else Inr (False, emit (SendTo (cx_pkt cx) (ip_dst (cx_ip cx)) SWITCH_PORT) cx))"

section \<open>LocalLearning\<close>

definition P4SwitchApp_LocalP4CacheLogic :: "ns3_env \<Rightarrow> u32 \<Rightarrow> u32 \<Rightarrow> Ctx \<Rightarrow> (bool \<times> Ctx) res" where
  "P4SwitchApp_LocalP4CacheLogic E virtualDestinationIp physicalDestinationIp cx =
     (if physicalDestinationIp \<in> p4s_gwAddresses (cx_sw cx)
      then bindE (P4Cache_Get (env_crc E) virtualDestinationIp (p4s_cache (cx_sw cx))) (\<lambda>(r, c).
             case r of
               None \<Rightarrow> Inr (True, set_cache c cx)
             | Some cachedAddr \<Rightarrow> Inr (True, SetDestination cachedAddr (set_cache c cx)))
      else bindE (P4Cache_Put (env_crc E) virtualDestinationIp physicalDestinationIp
                    (p4s_cache (cx_sw cx))) (\<lambda>c. Inr (True, set_cache c cx)))"

section \<open>SwitchV2P\<close>

text \<open>The packet carries an \<open>InvalidationTag\<close>: it was misdelivered and is on its way again.\<close>

definition ReceivePacket_inval_leaf :: "u32 \<Rightarrow> u32 \<times> u32 \<Rightarrow> Ctx \<Rightarrow> Ctx res" where
  "ReceivePacket_inval_leaf virtualDestinationIp invalidated cx =
     (case pkt_hit (cx_pkt cx) of
        None \<Rightarrow> Inr cx
      | Some hitTag \<Rightarrow>
          (let cx = cx\<lparr>cx_pkt := (cx_pkt cx)\<lparr>pkt_hit := None\<rparr>\<rparr>;
               sw = cx_sw cx; attrs = p4s_attrs sw in
           bindE (if at_BloomFilter attrs
                  then bindE (BloomFilter_Get (ht_switchId hitTag) (p4s_bloomFilter sw)) (\<lambda>seen.
                         Inr (if seen then False else at_GenerateInvalidations attrs))
                  else Inr (at_GenerateInvalidations attrs)) (\<lambda>generate.
           let cx = (if generate
                     then P4SwitchApp_GeneratePacketToAddress
                            (virtualDestinationIp, snd invalidated) (ht_address hitTag) False
                            (emit (InvalidationTrace (cx_pkt cx)) cx)
                     else cx) in
           if at_BloomFilter attrs
           then bindE (BloomFilter_Put (ht_switchId hitTag) (p4s_bloomFilter sw)) (\<lambda>bf.
                  Inr (cx\<lparr>cx_sw := (cx_sw cx)\<lparr>p4s_bloomFilter := bf\<rparr>\<rparr>))
           else Inr cx)))"

definition ReceivePacket_inval ::
  "ns3_env \<Rightarrow> u32 \<Rightarrow> InvalidationTag \<Rightarrow> Ctx \<Rightarrow> (bool \<times> Ctx) res" where
  "ReceivePacket_inval E virtualDestinationIp tag cx =
     (let invalidated = InvalidationTag_GetInvalidation tag in
      bindE (P4Cache_Get (env_crc E) (fst invalidated) (p4s_cache (cx_sw cx))) (\<lambda>(r, c).
      bindE (case r of
               None \<Rightarrow> Inr (set_cache c cx)
             | Some cachedVal \<Rightarrow>
                 if cachedVal = snd invalidated
                 then bindE (P4Cache_Remove (env_crc E) (fst invalidated) c)
                        (\<lambda>c'. Inr (set_cache c' cx))
                 else Inr (SetDestination cachedVal (set_cache c cx))) (\<lambda>cx.
      bindE (if p4s_switchType (cx_sw cx) = LEAF
             then ReceivePacket_inval_leaf virtualDestinationIp invalidated cx else Inr cx)
        (\<lambda>cx. Inr (True, cx)))))"

text \<open>Learning at a leaf: the source of a packet that has crossed the network, or the destination
  of one that does not go to a gateway.\<close>

definition ReceivePacket_leaf :: "ns3_env \<Rightarrow> Ipv4Header \<Rightarrow> u32 \<Rightarrow> u32 \<Rightarrow> Ctx \<Rightarrow> Ctx res" where
  "ReceivePacket_leaf E innerHeader virtualDestinationIp physicalDestinationIp cx =
     (let sw = cx_sw cx; attrs = p4s_attrs sw in
      if at_SourceLearning attrs \<and> ucast (ip_ttl (cx_ip cx)) < at_TTL attrs - 1
      then bindE (P4Cache_Put (env_crc E) (ip_src innerHeader) (ip_src (cx_ip cx)) (p4s_cache sw))
             (\<lambda>c. Inr (set_cache c cx))
      else if physicalDestinationIp \<notin> p4s_gwAddresses sw
      then bindE (P4Cache_PutIfNotEvict (env_crc E) virtualDestinationIp physicalDestinationIp
                    (p4s_cache sw)) (\<lambda>(_, c). Inr (set_cache c cx))
      else Inr cx)"

text \<open>\<open>m_cache.Put (learn, evicted)\<close>, and the evicted pair into the packet's tag if there is one.\<close>

definition ReceivePacket_put :: "ns3_env \<Rightarrow> u32 \<times> u32 \<Rightarrow> Ctx \<Rightarrow> Ctx res" where
  "ReceivePacket_put E learn cx =
     bindE (P4Cache_Put_evict (env_crc E) (fst learn) (snd learn) (p4s_cache (cx_sw cx)))
       (\<lambda>(evicted, c).
         case evicted of
           None \<Rightarrow> Inr (set_cache c cx)
         | Some ev \<Rightarrow>
             bindE (AddEvictionTag \<lparr>et_key = fst ev, et_val = snd ev\<rparr> (cx_pkt cx)) (\<lambda>p.
               Inr ((set_cache c cx)\<lparr>cx_pkt := p\<rparr>)))"

definition ReceivePacket_retag :: "EvictionTag \<Rightarrow> Ctx \<Rightarrow> Ctx res" where
  "ReceivePacket_retag tag cx =
     bindE (AddEvictionTag tag (cx_pkt cx)) (\<lambda>p. Inr (cx\<lparr>cx_pkt := p\<rparr>))"

definition ReceivePacket_core ::
  "ns3_env \<Rightarrow> EvictionTag option \<Rightarrow> u32 \<times> u32 \<Rightarrow> u32 \<Rightarrow> Ctx \<Rightarrow> Ctx res" where
  "ReceivePacket_core E found learn virtualDestinationIp cx =
     (let c = p4s_cache (cx_sw cx) in
      case found of
        Some tag \<Rightarrow>
          bindE (P4Cache_GetBit (env_crc E) (fst learn) c) (\<lambda>bit.
          bindE (P4Cache_Find (env_crc E) (fst learn) c) (\<lambda>inCache.
            if fst learn = virtualDestinationIp \<and> bit = 0 \<and> \<not> inCache
            then ReceivePacket_put E learn cx
            else ReceivePacket_retag tag cx))
      | None \<Rightarrow>
          bindE (P4Cache_PutIfNotEvict (env_crc E) (fst learn) (snd learn) c)
            (\<lambda>(_, c). Inr (set_cache c cx)))"

definition ReceivePacket_spine ::
  "ns3_env \<Rightarrow> EvictionTag option \<Rightarrow> u32 \<times> u32 \<Rightarrow> Ctx \<Rightarrow> Ctx res" where
  "ReceivePacket_spine E found learn cx =
     (let c = p4s_cache (cx_sw cx) in
      bindE (P4Cache_GetBit (env_crc E) (fst learn) c) (\<lambda>bit.
      bindE (P4Cache_Find (env_crc E) (fst learn) c) (\<lambda>inCache.
        if bit = 1 \<and> \<not> inCache
        then (case found of Some tag \<Rightarrow> ReceivePacket_retag tag cx | None \<Rightarrow> Inr cx)
        else if bit = 0 \<or> inCache then ReceivePacket_put E learn cx
        else Inr cx)))"

text \<open>A gateway leaf also sends what it learns to the leaf of the packet's sender, with a
  probability; \<open>rnd\<close> is the draw of \<open>m_random->GetValue (0.0, 1.0)\<close>.\<close>

definition ReceivePacket_plain ::
  "ns3_env \<Rightarrow> real \<Rightarrow> u32 \<times> u32 \<Rightarrow> Ctx \<Rightarrow> Ctx res" where
  "ReceivePacket_plain E rnd learn cx =
     (let sw = cx_sw cx;
          cx = (if p4s_switchType sw = GW_LEAF \<and> rnd \<le> at_GenerateProbability (p4s_attrs sw)
                then P4SwitchApp_GeneratePacketToLeaf E learn
                       (case pkt_source (cx_pkt cx) of Some a \<Rightarrow> a | None \<Rightarrow> env_uninit E)
                       (emit (LearningTrace (cx_pkt cx)) cx)
                else cx)
      in ReceivePacket_put E learn cx)"

text \<open>Learning at the other switches. The flag says whether the handler returned early.\<close>

definition ReceivePacket_learn ::
  "ns3_env \<Rightarrow> real \<Rightarrow> u32 \<Rightarrow> u32 \<Rightarrow> Ctx \<Rightarrow> (bool \<times> Ctx) res" where
  "ReceivePacket_learn E rnd virtualDestinationIp physicalDestinationIp cx =
     (let found = pkt_evict (cx_pkt cx);
          cx = cx\<lparr>cx_pkt := (cx_pkt cx)\<lparr>pkt_evict := None\<rparr>\<rparr>;
          sw = cx_sw cx; attrs = p4s_attrs sw;
          learn = (case found of Some tag \<Rightarrow> EvictionTag_GetEvicted tag
                   | None \<Rightarrow> (virtualDestinationIp, physicalDestinationIp))
      in
      case found of
        Some tag \<Rightarrow>
          if learn = (0, 0)
          then bindE (P4Cache_Find (env_crc E) virtualDestinationIp (p4s_cache sw)) (\<lambda>hit.
               bindE (if hit then P4Cache_Remove (env_crc E) virtualDestinationIp (p4s_cache sw)
                      else Inr (p4s_cache sw)) (\<lambda>c.
               bindE (ReceivePacket_retag tag (set_cache c cx)) (\<lambda>cx. Inr (True, cx))))
          else bindE
            (if p4s_switchType sw = CORE then ReceivePacket_core E found learn virtualDestinationIp cx
             else if (p4s_switchType sw = SPINE \<or> p4s_switchType sw = GW_SPINE) \<and> at_AccessBit attrs
             then ReceivePacket_spine E found learn cx
             else ReceivePacket_plain E rnd learn cx) (\<lambda>cx. Inr (False, cx))
      | None \<Rightarrow>
          if physicalDestinationIp \<notin> p4s_gwAddresses sw
          then bindE
            (if p4s_switchType sw = CORE then ReceivePacket_core E found learn virtualDestinationIp cx
             else if (p4s_switchType sw = SPINE \<or> p4s_switchType sw = GW_SPINE) \<and> at_AccessBit attrs
             then ReceivePacket_spine E found learn cx
             else ReceivePacket_plain E rnd learn cx) (\<lambda>cx. Inr (False, cx))
          else Inr (False, cx))"

text \<open>The last step: a packet on its way to a gateway is sent to the cached address instead.\<close>

definition ReceivePacket_translate :: "ns3_env \<Rightarrow> u32 \<Rightarrow> u32 \<Rightarrow> Ctx \<Rightarrow> (bool \<times> Ctx) res" where
  "ReceivePacket_translate E virtualDestinationIp physicalDestinationIp cx =
     (let sw = cx_sw cx in
      if physicalDestinationIp \<in> p4s_gwAddresses sw
      then bindE (P4Cache_Get (env_crc E) virtualDestinationIp (p4s_cache sw)) (\<lambda>(r, c).
             case r of
               None \<Rightarrow> Inr (True, set_cache c cx)
             | Some cached_addr \<Rightarrow>
                 bindE (AddHitTag \<lparr>ht_address = p4s_switchAddress sw, ht_switchId = p4s_nodeId sw\<rparr>
                          (cx_pkt cx)) (\<lambda>p.
                 let cx = SetDestination cached_addr ((set_cache c cx)\<lparr>cx_pkt := p\<rparr>) in
                 Inr (True, emit (CacheHitTrace (cx_pkt cx) (p4s_nodeId sw)) cx)))
      else Inr (True, cx))"

definition ReceivePacket_learn_translate ::
  "ns3_env \<Rightarrow> real \<Rightarrow> Ipv4Header \<Rightarrow> u32 \<Rightarrow> u32 \<Rightarrow> Ctx \<Rightarrow> (bool \<times> Ctx) res" where
  "ReceivePacket_learn_translate E rnd innerHeader virtualDestinationIp physicalDestinationIp cx =
     bindE (if p4s_switchType (cx_sw cx) = LEAF
            then bindE (ReceivePacket_leaf E innerHeader virtualDestinationIp physicalDestinationIp cx)
                   (\<lambda>cx. Inr (False, cx))
            else ReceivePacket_learn E rnd virtualDestinationIp physicalDestinationIp cx)
       (\<lambda>(returned, cx).
         if returned then Inr (True, cx)
         else ReceivePacket_translate E virtualDestinationIp physicalDestinationIp cx)"

text \<open>\<open>ReceivePacket\<close> after the mode dispatch.\<close>

definition P4SwitchApp_SwitchV2PLogic ::
  "ns3_env \<Rightarrow> real \<Rightarrow> Ipv4Header \<Rightarrow> Ctx \<Rightarrow> (bool \<times> Ctx) res" where
  "P4SwitchApp_SwitchV2PLogic E rnd innerHeader cx =
     (let virtualDestinationIp = ip_dst innerHeader;
          physicalDestinationIp = ip_dst (cx_ip cx); sw = cx_sw cx in
      case pkt_inval (cx_pkt cx) of
        Some tag \<Rightarrow> ReceivePacket_inval E virtualDestinationIp tag cx
      | None \<Rightarrow>
          if p4s_switchType sw = SPINE \<and> physicalDestinationIp \<in> p4s_gwAddresses sw
          then bindE (P4Cache_Get (env_crc E) virtualDestinationIp (p4s_cache sw)) (\<lambda>(r, c).
                 case r of
                   Some cachedVal \<Rightarrow>
                     Inr (True, (set_cache c cx)\<lparr>cx_pkt := (cx_pkt cx)\<lparr>pkt_evict :=
                       Some \<lparr>et_key = virtualDestinationIp, et_val = cachedVal\<rparr>\<rparr>\<rparr>)
                 | None \<Rightarrow>
                     ReceivePacket_learn_translate E rnd innerHeader virtualDestinationIp
                       physicalDestinationIp (set_cache c cx))
          else ReceivePacket_learn_translate E rnd innerHeader virtualDestinationIp
                 physicalDestinationIp cx)"

end
