(* ===== verification/Bluebird.thy ===== *)
theory Bluebird
  imports P4_Switch "HOL-Library.Multiset"
begin

text \<open>
  The Bluebird mode of \<^verbatim>\<open>p4-switch-app.cc\<close> and its entry points. A packet whose destination is
  not in the data-plane cache waits in a drop-tail queue for the switch's control plane, which takes
  one packet at a time over a link, translates it from the address table and later programs the
  cache. \<open>vtp\<close> is the shared address table \<open>*m_virtualToPhysical\<close>. The handlers are followed
  by the event system they form with the simulator's scheduler: pending events may fire in any order,
  which covers every timing.
\<close>

section \<open>Handlers\<close>

definition P4SwitchApp_BluebirdTxStart :: "ns3_env \<Rightarrow> Packet \<Rightarrow> P4Switch \<Rightarrow> P4Switch \<times> sw_effect list" where
  "P4SwitchApp_BluebirdTxStart E packet sw =
     (let attrs = p4s_attrs sw;
          txTime = env_txTime E (at_PcieDataRate attrs) (Packet_GetSize packet)
      in (sw\<lparr>p4s_bluebirdBusy := True\<rparr>,
          [ScheduleProcess (txTime + at_ControlPlaneLatency attrs) packet,
           ScheduleTxComplete (txTime + 250)]))"

definition P4SwitchApp_BluebirdTxComplete :: "ns3_env \<Rightarrow> P4Switch \<Rightarrow> P4Switch \<times> sw_effect list" where
  "P4SwitchApp_BluebirdTxComplete E sw =
     (let sw = sw\<lparr>p4s_bluebirdBusy := False\<rparr> in
      case p4s_bluebirdQueue sw of
        [] \<Rightarrow> (sw, [])
      | p # q \<Rightarrow> P4SwitchApp_BluebirdTxStart E p (sw\<lparr>p4s_bluebirdQueue := q\<rparr>))"

definition P4SwitchApp_BluebirdProcessPacket ::
  "(u32 \<rightharpoonup> u32) \<Rightarrow> Packet \<Rightarrow> P4Switch \<Rightarrow> sw_effect list res" where
  "P4SwitchApp_BluebirdProcessPacket vtp packet sw =
     bindE (RemoveIp packet) (\<lambda>(outterHeader, p).
     bindE (RemoveUdp p) (\<lambda>(udpHeader, p).
     bindE (RemoveIp p) (\<lambda>(innerHeader, p).
       let virtualDestinationIp = ip_dst innerHeader in
       case vtp virtualDestinationIp of
         None \<Rightarrow> Inl KeyNotFound
       | Some physicalDestinationIp \<Rightarrow>
           Inr [ReceiveInternal (AddHeader (HUdp udpHeader) (AddHeader (HIp innerHeader) p))
                  (outterHeader\<lparr>ip_dst := physicalDestinationIp\<rparr>),
                SchedulePopulate (at_BluebirdProgrammingLatency (p4s_attrs sw))
                  virtualDestinationIp])))"

definition P4SwitchApp_PopulateBluebirdCache ::
  "(u32 \<rightharpoonup> u32) \<Rightarrow> u32 \<Rightarrow> P4Switch \<Rightarrow> P4Switch res" where
  "P4SwitchApp_PopulateBluebirdCache vtp virtualIp sw =
     (case vtp virtualIp of
        None \<Rightarrow> Inl KeyNotFound
      | Some a \<Rightarrow> bindE (LRUCache_Put virtualIp a (p4s_bluebirdCache sw)) (\<lambda>c.
                    Inr (sw\<lparr>p4s_bluebirdCache := c\<rparr>)))"

definition P4SwitchApp_BluebirdLogic :: "ns3_env \<Rightarrow> u32 \<Rightarrow> u32 \<Rightarrow> Ctx \<Rightarrow> (bool \<times> Ctx) res" where
  "P4SwitchApp_BluebirdLogic E virtualDestinationIp physicalDestinationIp cx =
     (let sw = cx_sw cx in
      if physicalDestinationIp \<in> p4s_gwAddresses sw
      then bindE (LRUCache_Get virtualDestinationIp (p4s_bluebirdCache sw)) (\<lambda>(r, c).
             let sw = sw\<lparr>p4s_bluebirdCache := c\<rparr> in
             case r of
               Some cachedAddr \<Rightarrow> Inr (True, SetDestination cachedAddr (cx\<lparr>cx_sw := sw\<rparr>))
             | None \<Rightarrow>
                 let packet = AddHeader (HIp (cx_ip cx)) (cx_pkt cx) in
                 if env_fits E (at_BluebirdQueueSize (p4s_attrs sw)) (p4s_bluebirdQueue sw) packet
                 then let q = p4s_bluebirdQueue sw @ [packet] in
                      if \<not> p4s_bluebirdBusy sw
                      then let (sw, es) = P4SwitchApp_BluebirdTxStart E (hd q)
                                            (sw\<lparr>p4s_bluebirdQueue := tl q\<rparr>)
                           in Inr (False, cx\<lparr>cx_pkt := packet, cx_sw := sw,
                                             cx_eff := cx_eff cx @ es\<rparr>)
                      else Inr (False, cx\<lparr>cx_pkt := packet, cx_sw := sw\<lparr>p4s_bluebirdQueue := q\<rparr>\<rparr>)
                 else Inr (False, cx\<lparr>cx_pkt := packet, cx_sw := sw\<rparr>))
      else Inr (True, cx))"

text \<open>The interceptor. \<open>m_processedPackets\<close> sees the packet without its UDP header.\<close>

definition P4SwitchApp_ReceivePacket :: "ns3_env \<Rightarrow> real \<Rightarrow> Ctx \<Rightarrow> (bool \<times> Ctx) res" where
  "P4SwitchApp_ReceivePacket E rnd cx =
     bindE (RemoveUdp (cx_pkt cx)) (\<lambda>(udpHeader, p).
       if udp_dport udpHeader = SWITCH_PORT
       then P4SwitchApp_HandleProtocolPacket E (cx\<lparr>cx_pkt := p\<rparr>)
       else
         let p = bump_hops p in
         bindE (assertE AssertFail (udp_dport udpHeader = 667)) (\<lambda>_.
         let cx = emit (ProcessedTrace p (p4s_nodeId (cx_sw cx))) cx in
         bindE (RemoveIp p) (\<lambda>(innerHeader, p).
           let cx = cx\<lparr>cx_pkt := AddHeader (HUdp udpHeader) (AddHeader (HIp innerHeader) p)\<rparr>;
               virtualDestinationIp = ip_dst innerHeader;
               physicalDestinationIp = ip_dst (cx_ip cx);
               mode = p4s_simMode (cx_sw cx) in
           if mode = LocalLearning
           then P4SwitchApp_LocalP4CacheLogic E virtualDestinationIp physicalDestinationIp cx
           else if mode = Bluebird
           then P4SwitchApp_BluebirdLogic E virtualDestinationIp physicalDestinationIp cx
           else P4SwitchApp_SwitchV2PLogic E rnd innerHeader cx)))"

text \<open>The loop over \<open>socket->Recv ()\<close>: the packets it returns before it returns null, each with
  the random draw its handling may use.\<close>

fun P4SwitchApp_ReceiveRawPacket ::
  "ns3_env \<Rightarrow> (Packet \<times> real) list \<Rightarrow> P4Switch \<Rightarrow> (P4Switch \<times> sw_effect list) res" where
  "P4SwitchApp_ReceiveRawPacket E [] sw = Inr (sw, [])"
| "P4SwitchApp_ReceiveRawPacket E ((packet, rnd) # ps) sw =
     bindE (RemoveIp packet) (\<lambda>(ipHeader, p).
     bindE (P4SwitchApp_ReceivePacket E rnd \<lparr>cx_pkt = p, cx_ip = ipHeader, cx_sw = sw, cx_eff = []\<rparr>)
       (\<lambda>(forward, cx).
     bindE (P4SwitchApp_ReceiveRawPacket E ps (cx_sw cx)) (\<lambda>(sw, es).
       Inr (sw, cx_eff cx @ (if forward then [ReceiveInternal (cx_pkt cx) (cx_ip cx)] else []) @ es))))"

section \<open>The Bluebird event system\<close>

text \<open>The switch and the events it has scheduled that have not fired. \<open>bb_done\<close> and
  \<open>bb_dropped\<close> record the packets the control plane has handed to the IP stack and those the full
  queue refused; \<open>bb_in\<close> those that missed the cache.\<close>

record bb_state =
  bb_sw :: P4Switch
  bb_pending :: "sw_effect list"
  bb_in :: "Packet list"
  bb_done :: "Packet list"
  bb_dropped :: "Packet list"

text \<open>One arrival that misses the cache, as \<open>BluebirdLogic\<close> handles it: the packet with its outer
  header, queued or refused.\<close>

definition bb_queued :: "ns3_env \<Rightarrow> P4Switch \<Rightarrow> Packet \<Rightarrow> bool" where
  "bb_queued E sw packet =
     env_fits E (at_BluebirdQueueSize (p4s_attrs sw)) (p4s_bluebirdQueue sw) packet"

inductive bb_step :: "ns3_env \<Rightarrow> (u32 \<rightharpoonup> u32) \<Rightarrow> bb_state \<Rightarrow> bb_state \<Rightarrow> bool" for E vtp where
  arrive: "\<lbrakk>P4SwitchApp_BluebirdLogic E vdst (ip_dst ip) \<lparr>cx_pkt = p, cx_ip = ip, cx_sw = bb_sw s, cx_eff = []\<rparr>
              = Inr (fwd, cx)\<rbrakk> \<Longrightarrow>
     bb_step E vtp s (s\<lparr>bb_sw := cx_sw cx, bb_pending := bb_pending s @ cx_eff cx,
       bb_in := (if fwd then bb_in s else bb_in s @ [AddHeader (HIp ip) p]),
       bb_dropped := (if fwd \<or> bb_queued E (bb_sw s) (AddHeader (HIp ip) p) then bb_dropped s
                      else bb_dropped s @ [AddHeader (HIp ip) p])\<rparr>)"
| tx_complete: "\<lbrakk>bb_pending s = es @ ScheduleTxComplete t # fs;
     P4SwitchApp_BluebirdTxComplete E (bb_sw s) = (sw', new)\<rbrakk> \<Longrightarrow>
     bb_step E vtp s (s\<lparr>bb_sw := sw', bb_pending := es @ fs @ new\<rparr>)"
| process: "\<lbrakk>bb_pending s = es @ ScheduleProcess t p # fs;
     P4SwitchApp_BluebirdProcessPacket vtp p (bb_sw s) = Inr new\<rbrakk> \<Longrightarrow>
     bb_step E vtp s (s\<lparr>bb_pending := es @ fs @ filter (\<lambda>e. \<exists>t v. e = SchedulePopulate t v) new,
       bb_done := bb_done s @ [p]\<rparr>)"
| populate: "\<lbrakk>bb_pending s = es @ SchedulePopulate t v # fs;
     P4SwitchApp_PopulateBluebirdCache vtp v (bb_sw s) = Inr sw'\<rbrakk> \<Longrightarrow>
     bb_step E vtp s (s\<lparr>bb_sw := sw', bb_pending := es @ fs\<rparr>)"

inductive bb_reachable :: "ns3_env \<Rightarrow> (u32 \<rightharpoonup> u32) \<Rightarrow> P4Switch \<Rightarrow> bb_state \<Rightarrow> bool" for E vtp sw0 where
  init: "bb_reachable E vtp sw0 \<lparr>bb_sw = sw0, bb_pending = [], bb_in = [], bb_done = [], bb_dropped = []\<rparr>"
| step: "bb_reachable E vtp sw0 s \<Longrightarrow> bb_step E vtp s t \<Longrightarrow> bb_reachable E vtp sw0 t"

text \<open>Which pending events are what.\<close>

fun is_tx :: "sw_effect \<Rightarrow> bool" where
  "is_tx (ScheduleTxComplete _) = True"
| "is_tx _ = False"

fun proc_packets :: "sw_effect list \<Rightarrow> Packet list" where
  "proc_packets [] = []"
| "proc_packets (ScheduleProcess t p # es) = p # proc_packets es"
| "proc_packets (_ # es) = proc_packets es"


text \<open>The invariant: the switch is busy exactly while one transmission is pending, packets wait only
  while it is busy, and every packet that missed the cache is in exactly one place.\<close>

definition bb_inv :: "bb_state \<Rightarrow> bool" where
  "bb_inv s \<longleftrightarrow>
     length (filter is_tx (bb_pending s)) = (if p4s_bluebirdBusy (bb_sw s) then 1 else 0) \<and>
     (p4s_bluebirdQueue (bb_sw s) \<noteq> [] \<longrightarrow> p4s_bluebirdBusy (bb_sw s)) \<and>
     mset (bb_in s) = mset (bb_done s) + mset (proc_packets (bb_pending s)) +
       mset (p4s_bluebirdQueue (bb_sw s)) + mset (bb_dropped s)"

lemma proc_packets_append [simp]: "proc_packets (es @ fs) = proc_packets es @ proc_packets fs"
  by (induction es rule: proc_packets.induct) auto

lemma proc_packets_populates [simp]:
  "proc_packets (filter (\<lambda>e. \<exists>t v. e = SchedulePopulate t v) es) = []"
  by (induction es rule: proc_packets.induct) auto

lemma is_tx_populates [simp]:
  "filter (\<lambda>e. (\<exists>t v. e = SchedulePopulate t v) \<and> is_tx e) es = []"
  by (induction es rule: proc_packets.induct) auto

lemma TxStart_sel [simp]:
  "p4s_bluebirdBusy (fst (P4SwitchApp_BluebirdTxStart E p sw))"
  "p4s_bluebirdQueue (fst (P4SwitchApp_BluebirdTxStart E p sw)) = p4s_bluebirdQueue sw"
  "p4s_bluebirdCache (fst (P4SwitchApp_BluebirdTxStart E p sw)) = p4s_bluebirdCache sw"
  "proc_packets (snd (P4SwitchApp_BluebirdTxStart E p sw)) = [p]"
  "length (filter is_tx (snd (P4SwitchApp_BluebirdTxStart E p sw))) = 1"
  by (simp_all add: P4SwitchApp_BluebirdTxStart_def Let_def)

text \<open>What an arrival does to the queue, the busy flag and the schedule.\<close>

lemma BluebirdLogic_cases:
  assumes "P4SwitchApp_BluebirdLogic E v d \<lparr>cx_pkt = p, cx_ip = ip, cx_sw = sw, cx_eff = []\<rparr> =
             Inr (fwd, cx)"
  obtains (forward) "fwd" "cx_eff cx = []" "p4s_bluebirdQueue (cx_sw cx) = p4s_bluebirdQueue sw"
      "p4s_bluebirdBusy (cx_sw cx) = p4s_bluebirdBusy sw"
    | (refused) "\<not> fwd" "cx_eff cx = []" "\<not> bb_queued E sw (AddHeader (HIp ip) p)"
      "p4s_bluebirdQueue (cx_sw cx) = p4s_bluebirdQueue sw"
      "p4s_bluebirdBusy (cx_sw cx) = p4s_bluebirdBusy sw"
    | (waits) "\<not> fwd" "cx_eff cx = []" "bb_queued E sw (AddHeader (HIp ip) p)"
      "p4s_bluebirdBusy sw" "p4s_bluebirdBusy (cx_sw cx)"
      "p4s_bluebirdQueue (cx_sw cx) = p4s_bluebirdQueue sw @ [AddHeader (HIp ip) p]"
    | (starts) "\<not> fwd" "bb_queued E sw (AddHeader (HIp ip) p)" "\<not> p4s_bluebirdBusy sw"
      "p4s_bluebirdBusy (cx_sw cx)"
      "p4s_bluebirdQueue (cx_sw cx) = tl (p4s_bluebirdQueue sw @ [AddHeader (HIp ip) p])"
      "proc_packets (cx_eff cx) = [hd (p4s_bluebirdQueue sw @ [AddHeader (HIp ip) p])]"
      "length (filter is_tx (cx_eff cx)) = 1"
proof (cases "d \<in> p4s_gwAddresses sw")
  case False
  with assms show ?thesis
    by (auto simp: P4SwitchApp_BluebirdLogic_def Let_def intro!: forward)
next
  case True
  with assms obtain r c where rc: "LRUCache_Get v (p4s_bluebirdCache sw) = Inr (r, c)"
    by (auto simp: P4SwitchApp_BluebirdLogic_def Let_def bindE_eq_Inr)
  note eqs = P4SwitchApp_BluebirdLogic_def Let_def SetDestination_def bb_queued_def
    P4SwitchApp_BluebirdTxStart_def rc
  show ?thesis
  proof (cases r)
    case None
    show ?thesis
    proof (cases "bb_queued E sw (AddHeader (HIp ip) p)")
      case queued: True
      show ?thesis
      proof (cases "p4s_bluebirdBusy sw")
        case busy: True
        show ?thesis using assms True None queued busy by (intro waits) (auto simp: eqs)
      next
        case busy: False
        show ?thesis using assms True None queued busy by (intro starts) (auto simp: eqs)
      qed
    next
      case queued: False
      show ?thesis using assms True None queued by (intro refused) (auto simp: eqs)
    qed
  next
    case (Some a)
    show ?thesis using assms True Some by (intro forward) (auto simp: eqs)
  qed
qed

lemma bb_step_inv: "bb_step E vtp s t \<Longrightarrow> bb_inv s \<Longrightarrow> bb_inv t"
proof (induction rule: bb_step.induct)
  case (arrive vdst ip p s fwd cx)
  from arrive(1) show ?case
  proof (cases rule: BluebirdLogic_cases)
    case starts
    then have "p4s_bluebirdQueue (bb_sw s) = []"
      using arrive(2) by (auto simp: bb_inv_def)
    with starts arrive(2) show ?thesis by (simp add: bb_inv_def)
  qed (use arrive(2) in \<open>auto simp: bb_inv_def\<close>)
next
  case (tx_complete s es t fs sw' new)
  then have busy: "p4s_bluebirdBusy (bb_sw s)" "filter is_tx es = []" "filter is_tx fs = []"
    by (auto simp: bb_inv_def split: if_splits)
  show ?case
    using tx_complete busy
    by (auto simp: bb_inv_def P4SwitchApp_BluebirdTxComplete_def P4SwitchApp_BluebirdTxStart_def
        Let_def split: list.splits)
next
  case (process s es t p fs new)
  then show ?case by (simp add: bb_inv_def)
next
  case (populate s es t v fs sw')
  then show ?case
    by (auto simp: bb_inv_def P4SwitchApp_PopulateBluebirdCache_def bindE_eq_Inr split: option.splits)
qed

lemma bb_reachable_inv:
  assumes "bb_reachable E vtp sw0 s" and "\<not> p4s_bluebirdBusy sw0" and "p4s_bluebirdQueue sw0 = []"
  shows "bb_inv s"
  using assms
proof (induction rule: bb_reachable.induct)
  case init
  then show ?case by (simp add: bb_inv_def)
next
  case (step s t)
  then show ?case by (blast intro: bb_step_inv)
qed

text \<open>Coherence of the data-plane cache: it only ever holds what the address table holds.\<close>

lemma bb_step_coherent:
  assumes "bb_step E vtp s t" and "lru_wf (p4s_bluebirdCache (bb_sw s))"
    and "lru_lookup (p4s_bluebirdCache (bb_sw s)) \<subseteq>\<^sub>m vtp"
  shows "lru_wf (p4s_bluebirdCache (bb_sw t)) \<and> lru_lookup (p4s_bluebirdCache (bb_sw t)) \<subseteq>\<^sub>m vtp"
  using assms
proof (induction rule: bb_step.induct)
  case (arrive vdst ip p s fwd cx)
  obtain c where "LRUCache_Get vdst (p4s_bluebirdCache (bb_sw s)) =
        Inr (lru_lookup (p4s_bluebirdCache (bb_sw s)) vdst, c)" "lru_wf c"
      "lru_lookup c = lru_lookup (p4s_bluebirdCache (bb_sw s))"
    using lru.get_spec [OF arrive(2)] by blast
  with arrive show ?case
    by (auto simp: P4SwitchApp_BluebirdLogic_def Let_def SetDestination_def
        P4SwitchApp_BluebirdTxStart_def split: if_splits option.splits)
next
  case (tx_complete s es t fs sw' new)
  then show ?case
    by (auto simp: P4SwitchApp_BluebirdTxComplete_def P4SwitchApp_BluebirdTxStart_def Let_def
        split: list.splits)
next
  case (process s es t p fs new)
  then show ?case by simp
next
  case (populate s es t v fs sw')
  then obtain a c where "vtp v = Some a" "LRUCache_Put v a (p4s_bluebirdCache (bb_sw s)) = Inr c"
      "sw' = (bb_sw s)\<lparr>p4s_bluebirdCache := c\<rparr>"
    by (auto simp: P4SwitchApp_PopulateBluebirdCache_def bindE_eq_Inr split: option.splits)
  then show ?case
    using lru.put_coherent [OF populate(3) TrueI populate(4)] by fastforce
qed

section \<open>Properties\<close>

definition bb_env :: ns3_env where
  "bb_env = \<lparr>env_crc = byte_sum, env_ipv4 = parse_quad, env_uninit = 0, env_txTime = (\<lambda>rate n. n),
     env_fits = (\<lambda>cap q p. length q < cap)\<rparr>"

definition bb_sw0 :: P4Switch where
  "bb_sw0 = \<lparr>p4s_nodeId = 1, p4s_attrs = P4SwitchApp_GetTypeId, p4s_gwAddresses = {900},
     p4s_switchAddress = 50, p4s_switchType = LEAF, p4s_simMode = Bluebird, p4s_podCount = 8,
     p4s_cache = cache4, p4s_bloomFilter = BloomFilter_new,
     p4s_bluebirdCache = LRUCache_SetCapacity 10 LRUCache_new, p4s_bluebirdQueue = [], p4s_bluebirdBusy = False\<rparr>"

text \<open>C28: Bluebird's control plane loses no packet it has accepted. In every state the switch can reach,
  whatever the order of arrivals and events, each packet that missed the cache has been handed to the IP
  stack, is scheduled for processing, waits in the queue, or was refused by the full queue, and is in exactly
  one of these places; the busy flag is set exactly while one transmission is in progress, and packets wait
  only while it is set.\<close>

theorem bluebird_conserves_packets:
  assumes "bb_reachable E vtp sw0 s" and "\<not> p4s_bluebirdBusy sw0" and "p4s_bluebirdQueue sw0 = []"
  shows "mset (bb_in s) = mset (bb_done s) + mset (proc_packets (bb_pending s)) +
           mset (p4s_bluebirdQueue (bb_sw s)) + mset (bb_dropped s) \<and>
         length (filter is_tx (bb_pending s)) = (if p4s_bluebirdBusy (bb_sw s) then 1 else 0) \<and>
         (p4s_bluebirdQueue (bb_sw s) \<noteq> [] \<longrightarrow> p4s_bluebirdBusy (bb_sw s))"
  using bb_reachable_inv [OF assms] unfolding bb_inv_def by blast

definition bb_s1 :: bb_state where
  "bb_s1 = \<lparr>bb_sw = bb_sw0\<lparr>p4s_bluebirdBusy := True\<rparr>,
     bb_pending = [ScheduleProcess (120 + 8500) (AddHeader (HIp \<lparr>ip_src = 8, ip_dst = 900, ip_ttl = 63\<rparr>) (Packet_create 100)),
        ScheduleTxComplete (120 + 250)],
     bb_in = [AddHeader (HIp \<lparr>ip_src = 8, ip_dst = 900, ip_ttl = 63\<rparr>) (Packet_create 100)],
     bb_done = [], bb_dropped = []\<rparr>"

lemma bb_s1_reachable: "bb_reachable bb_env [1 \<mapsto> 9] bb_sw0 bb_s1"
proof -
  let ?s = "\<lparr>bb_sw = bb_sw0, bb_pending = [], bb_in = [], bb_done = [], bb_dropped = []\<rparr>"
  let ?cx = "\<lparr>cx_pkt = AddHeader (HIp \<lparr>ip_src = 8, ip_dst = 900, ip_ttl = 63\<rparr>) (Packet_create 100),
    cx_ip = \<lparr>ip_src = 8, ip_dst = 900, ip_ttl = 63\<rparr>, cx_sw = bb_sw0\<lparr>p4s_bluebirdBusy := True\<rparr>,
    cx_eff = bb_pending bb_s1\<rparr>"
  have "P4SwitchApp_BluebirdLogic bb_env 1 (ip_dst \<lparr>ip_src = 8, ip_dst = 900, ip_ttl = 63\<rparr>)
      \<lparr>cx_pkt = Packet_create 100, cx_ip = \<lparr>ip_src = 8, ip_dst = 900, ip_ttl = 63\<rparr>, cx_sw = bb_sw ?s,
       cx_eff = []\<rparr> = Inr (False, ?cx)"
    by (simp add: P4SwitchApp_BluebirdLogic_def bb_sw0_def bb_env_def LRUCache_Get_def LRUCache_new_def
        LRUCache_SetCapacity_def P4SwitchApp_GetTypeId_def P4SwitchApp_BluebirdTxStart_def bb_s1_def
        Packet_GetSize_def AddHeader_def Packet_create_def Let_def)
  from bb_step.arrive [OF this, of "[1 \<mapsto> 9]"] have "bb_step bb_env [1 \<mapsto> 9] ?s bb_s1"
    by (simp add: bb_s1_def bb_queued_def bb_env_def bb_sw0_def P4SwitchApp_GetTypeId_def)
  with bb_reachable.init show ?thesis by (rule bb_reachable.step)
qed

theorem bluebird_conserves_packets_witness:
  "mset (bb_in bb_s1) = mset (bb_done bb_s1) + mset (proc_packets (bb_pending bb_s1)) +
     mset (p4s_bluebirdQueue (bb_sw bb_s1)) + mset (bb_dropped bb_s1)"
  using bluebird_conserves_packets [OF bb_s1_reachable] by (simp add: bb_sw0_def)

text \<open>Bluebird's cache only holds what the address table holds, in every reachable state.\<close>

theorem bluebird_coherent:
  assumes "bb_reachable E vtp sw0 s" and "lru_wf (p4s_bluebirdCache sw0)"
    and "lru_lookup (p4s_bluebirdCache sw0) \<subseteq>\<^sub>m vtp"
  shows "lru_wf (p4s_bluebirdCache (bb_sw s)) \<and> lru_lookup (p4s_bluebirdCache (bb_sw s)) \<subseteq>\<^sub>m vtp"
  using assms
proof (induction rule: bb_reachable.induct)
  case (step s t)
  then show ?case by (intro bb_step_coherent) auto
qed simp

theorem bluebird_coherent_witness:
  "lru_wf (p4s_bluebirdCache (bb_sw bb_s1)) \<and> lru_lookup (p4s_bluebirdCache (bb_sw bb_s1)) \<subseteq>\<^sub>m [1 \<mapsto> 9]"
proof (rule bluebird_coherent [OF bb_s1_reachable])
  show "lru_wf (p4s_bluebirdCache bb_sw0)"
    using lru_new_wf [of 10] by (simp add: bb_sw0_def)
  show "lru_lookup (p4s_bluebirdCache bb_sw0) \<subseteq>\<^sub>m [1 \<mapsto> 9]"
    by (simp add: bb_sw0_def LRUCache_SetCapacity_def LRUCache_new_def)
qed

end
