(* ===== verification/P4_Switch_Coherence.thy ===== *)
theory P4_Switch_Coherence
  imports Bluebird
begin

text \<open>
  The central safety argument for the SwitchV2P data plane. \<open>ok k v\<close> says that virtual address
  \<open>k\<close> may be translated to physical address \<open>v\<close>; take it to be membership in the current
  address table, or in any table the network has had. If the entries of a switch, the tag of the
  packet it handles, the packet's destination and its source are all \<open>ok\<close>, then so is everything
  after the handler: the entries, the tag, the destination, and every packet the switch generated. The
  handler does not fail either: no index leaves its array, no assertion fires and no tag is added
  twice.
\<close>

section \<open>Invariants\<close>

definition p4_ok :: "(u32 \<Rightarrow> u32 \<Rightarrow> bool) \<Rightarrow> P4Cache \<Rightarrow> bool" where
  "p4_ok ok c \<longleftrightarrow> (\<forall>e \<in> set (p4_array c). e \<noteq> (0, 0) \<longrightarrow> ok (fst e) (snd e))"

definition tag_ok :: "(u32 \<Rightarrow> u32 \<Rightarrow> bool) \<Rightarrow> Packet \<Rightarrow> bool" where
  "tag_ok ok p \<longleftrightarrow> (\<forall>t. pkt_evict p = Some t \<longrightarrow> ok (et_key t) (et_val t))"

definition eff_ok :: "(u32 \<Rightarrow> u32 \<Rightarrow> bool) \<Rightarrow> sw_effect \<Rightarrow> bool" where
  "eff_ok ok e \<longleftrightarrow> (\<forall>p a q. e = SendTo p a q \<longrightarrow> tag_ok ok p \<and> q = SWITCH_PORT)"

definition sw_ok :: "ns3_env \<Rightarrow> (u32 \<Rightarrow> u32 \<Rightarrow> bool) \<Rightarrow> P4Switch \<Rightarrow> bool" where
  "sw_ok E ok sw \<longleftrightarrow> p4_wf (env_crc E) (p4s_cache sw) \<and> p4_ok ok (p4s_cache sw) \<and>
     (at_BloomFilter (p4s_attrs sw) \<longrightarrow>
        bf_wf (p4s_bloomFilter sw) \<and> bf_size (p4s_bloomFilter sw) = nat (at_BloomFilterSize (p4s_attrs sw)))"

definition dst_ok :: "(u32 \<Rightarrow> u32 \<Rightarrow> bool) \<Rightarrow> u32 set \<Rightarrow> u32 \<Rightarrow> u32 \<Rightarrow> bool" where
  "dst_ok ok gws v d \<longleftrightarrow> d \<in> gws \<or> ok v d"

text \<open>What the handlers never change about a switch.\<close>

definition sw_static :: "P4Switch \<Rightarrow> P4Switch \<Rightarrow> bool" where
  "sw_static sw sw' \<longleftrightarrow> p4s_nodeId sw' = p4s_nodeId sw \<and> p4s_attrs sw' = p4s_attrs sw \<and>
     p4s_gwAddresses sw' = p4s_gwAddresses sw \<and> p4s_switchAddress sw' = p4s_switchAddress sw \<and>
     p4s_switchType sw' = p4s_switchType sw \<and> p4s_simMode sw' = p4s_simMode sw \<and>
     p4s_podCount sw' = p4s_podCount sw"

text \<open>The invariant of a context during a handler, for a packet to virtual address \<open>v\<close>.\<close>

definition cx_ok :: "ns3_env \<Rightarrow> (u32 \<Rightarrow> u32 \<Rightarrow> bool) \<Rightarrow> u32 \<Rightarrow> Ctx \<Rightarrow> bool" where
  "cx_ok E ok v cx \<longleftrightarrow> sw_ok E ok (cx_sw cx) \<and> tag_ok ok (cx_pkt cx) \<and>
     dst_ok ok (p4s_gwAddresses (cx_sw cx)) v (ip_dst (cx_ip cx)) \<and> (\<forall>e \<in> set (cx_eff cx). eff_ok ok e)"

text \<open>What stays of the packet and the switch from one context to the next.\<close>

definition cx_frame :: "Ctx \<Rightarrow> Ctx \<Rightarrow> bool" where
  "cx_frame cx cx' \<longleftrightarrow> sw_static (cx_sw cx) (cx_sw cx') \<and>
     pkt_headers (cx_pkt cx') = pkt_headers (cx_pkt cx) \<and>
     ip_src (cx_ip cx') = ip_src (cx_ip cx) \<and> ip_ttl (cx_ip cx') = ip_ttl (cx_ip cx) \<and>
     pkt_inval (cx_pkt cx') = pkt_inval (cx_pkt cx) \<and> pkt_source (cx_pkt cx') = pkt_source (cx_pkt cx) \<and>
     pkt_flowId (cx_pkt cx') = pkt_flowId (cx_pkt cx) \<and> pkt_payload (cx_pkt cx') = pkt_payload (cx_pkt cx) \<and>
     pkt_txTime (cx_pkt cx') = pkt_txTime (cx_pkt cx)"

text \<open>A packet is only led to an \<open>ok\<close> destination, and one that is neither tagged nor on its way to a gateway is not led
  anywhere else. A packet with a hit tag has been translated: the tag is only put on with an \<open>ok\<close> destination.\<close>

definition led :: "(u32 \<Rightarrow> u32 \<Rightarrow> bool) \<Rightarrow> u32 \<Rightarrow> Ctx \<Rightarrow> Ctx \<Rightarrow> bool" where
  "led ok v cx cx' \<longleftrightarrow> (ip_dst (cx_ip cx') = ip_dst (cx_ip cx) \<or> ok v (ip_dst (cx_ip cx'))) \<and>
     (pkt_inval (cx_pkt cx) = None \<and> ip_dst (cx_ip cx) \<notin> p4s_gwAddresses (cx_sw cx) \<longrightarrow> ip_dst (cx_ip cx') = ip_dst (cx_ip cx))"

lemma led_same [simp]: "ip_dst (cx_ip cx') = ip_dst (cx_ip cx) \<Longrightarrow> led ok v cx cx'"
  by (simp add: led_def)

definition hit_kept :: "(u32 \<Rightarrow> u32 \<Rightarrow> bool) \<Rightarrow> u32 \<Rightarrow> Ctx \<Rightarrow> Ctx \<Rightarrow> bool" where
  "hit_kept ok v cx cx' \<longleftrightarrow> led ok v cx cx' \<and> (\<forall>h. pkt_hit (cx_pkt cx') = Some h \<longrightarrow>
     pkt_hit (cx_pkt cx) = Some h \<and> (ok v (ip_dst (cx_ip cx')) \<or> ip_dst (cx_ip cx') = ip_dst (cx_ip cx)) \<or>
     ht_switchId h = p4s_nodeId (cx_sw cx) \<and> ok v (ip_dst (cx_ip cx')))"

lemma hit_kept_refl [simp]: "hit_kept ok v cx cx"
  by (simp add: hit_kept_def)

lemma sw_static_refl [simp]: "sw_static sw sw"
  by (simp add: sw_static_def)

lemma sw_static_cache [simp]:
  "sw_static sw (sw'\<lparr>p4s_cache := c\<rparr>) = sw_static sw sw'"
  "sw_static sw (sw'\<lparr>p4s_bloomFilter := b\<rparr>) = sw_static sw sw'"
  by (simp_all add: sw_static_def)

lemma sw_static_from_cache [simp]: "sw_static (sw\<lparr>p4s_cache := c\<rparr>) sw' = sw_static sw sw'"
  by (simp add: sw_static_def)

lemma cx_frame_refl [simp]: "cx_frame cx cx"
  by (simp add: cx_frame_def)

lemma cx_frame_trans [trans]: "cx_frame a b \<Longrightarrow> cx_frame b c \<Longrightarrow> cx_frame a c"
  by (simp add: cx_frame_def sw_static_def)

lemma set_cache_sel [simp]:
  "cx_pkt (set_cache c cx) = cx_pkt cx" "cx_ip (set_cache c cx) = cx_ip cx"
  "cx_eff (set_cache c cx) = cx_eff cx" "cx_sw (set_cache c cx) = (cx_sw cx)\<lparr>p4s_cache := c\<rparr>"
  by (simp_all add: set_cache_def)

lemma emit_sel [simp]:
  "cx_pkt (emit e cx) = cx_pkt cx" "cx_ip (emit e cx) = cx_ip cx" "cx_sw (emit e cx) = cx_sw cx"
  "cx_eff (emit e cx) = cx_eff cx @ [e]"
  by (simp_all add: emit_def)

lemma SetDestination_sel [simp]:
  "cx_pkt (SetDestination a cx) = cx_pkt cx" "cx_sw (SetDestination a cx) = cx_sw cx"
  "cx_eff (SetDestination a cx) = cx_eff cx" "cx_ip (SetDestination a cx) = (cx_ip cx)\<lparr>ip_dst := a\<rparr>"
  by (simp_all add: SetDestination_def)

lemma cx_frame_steps [simp]:
  "cx_frame cx (set_cache c cx') = cx_frame cx cx'"
  "cx_frame cx (emit e cx') = cx_frame cx cx'"
  "cx_frame cx (SetDestination a cx') = cx_frame cx cx'"
  by (simp_all add: cx_frame_def)

lemma eff_ok_traces [simp]:
  "eff_ok ok (LearningTrace p)" "eff_ok ok (InvalidationTrace p)" "eff_ok ok (ProcessedTrace p n)"
  "eff_ok ok (CacheHitTrace p n)" "eff_ok ok (SendTo p a q) = (tag_ok ok p \<and> q = SWITCH_PORT)"
  by (auto simp: eff_ok_def)

section \<open>The cache keeps to the table\<close>

lemma p4_ok_bits [simp]: "p4_ok ok (c\<lparr>p4_bits := b\<rparr>) = p4_ok ok c"
  by (simp add: p4_ok_def)

lemma p4_ok_write: "p4_ok ok c \<Longrightarrow> e = (0, 0) \<or> ok (fst e) (snd e) \<Longrightarrow>
    p4_ok ok (c\<lparr>p4_array := (p4_array c)[i := e]\<rparr>)"
  using set_update_subset_insert [of "p4_array c" i e] unfolding p4_ok_def by fastforce

lemma p4_ok_slot:
  assumes "p4_wf crc c" and "p4_ok ok c" and "p4_array c ! p4_slot crc c k = (a, b)" and "(a, b) \<noteq> (0, 0)"
  shows "ok a b"
  using assms nth_mem [OF p4_slot_in(1) [OF assms(1), of k]] by (auto simp: p4_ok_def)

lemma p4_ok_lookup: "p4_wf crc c \<Longrightarrow> p4_ok ok c \<Longrightarrow> p4_lookup crc c k = Some v \<Longrightarrow> ok k v"
  using p4_ok_slot [of crc c ok k k v] by (auto simp: p4_lookup_def Let_def prod_eq_iff split: if_splits)

lemma p4_ok_occupant: "p4_wf crc c \<Longrightarrow> p4_ok ok c \<Longrightarrow> p4_occupant crc c k = Some (a, b) \<Longrightarrow> ok a b"
  using p4_ok_slot [of crc c ok k a b] by (auto simp: p4_occupant_def Let_def split: if_splits)

abbreviation p4_inv :: "crc32 \<Rightarrow> (u32 \<Rightarrow> u32 \<Rightarrow> bool) \<Rightarrow> P4Cache \<Rightarrow> bool" where
  "p4_inv crc ok c \<equiv> p4_wf crc c \<and> p4_ok ok c"

lemma returns_Get:
  "p4_inv crc ok c \<Longrightarrow>
   returns (P4Cache_Get crc k c) (\<lambda>(r, c'). p4_inv crc ok c' \<and> p4_lookup crc c' = p4_lookup crc c \<and>
     r = p4_lookup crc c k \<and> (\<forall>v. r = Some v \<longrightarrow> ok k v))"
  using p4_ok_lookup [of crc c ok k] by (auto simp: P4Cache_Get_eq p4_lengths p4_wf_bits)

lemma returns_GetBit: "p4_wf crc c \<Longrightarrow> returns (P4Cache_GetBit crc k c) (\<lambda>_. True)"
  by (simp add: P4Cache_GetBit_eq)

lemma returns_Find: "p4_wf crc c \<Longrightarrow> returns (P4Cache_Find crc k c) (\<lambda>b. b \<longleftrightarrow> p4_lookup crc c k \<noteq> None)"
  by (simp add: P4Cache_Find_eq)

lemma returns_Put_evict:
  "p4_inv crc ok c \<Longrightarrow> ok k v \<Longrightarrow>
   returns (P4Cache_Put_evict crc k v c) (\<lambda>(ev, c'). p4_inv crc ok c' \<and> (\<forall>a b. ev = Some (a, b) \<longrightarrow> ok a b))"
  by (auto simp: P4Cache_Put_evict_eq p4_lengths
      intro!: p4_wf_bits p4_wf_write p4_ok_write dest: p4_ok_occupant)

lemma returns_Put:
  "p4_inv crc ok c \<Longrightarrow> ok k v \<Longrightarrow> returns (P4Cache_Put crc k v c) (p4_inv crc ok)"
  by (auto simp: P4Cache_Put_eq p4_lengths intro!: p4_wf_bits p4_wf_write p4_ok_write)

lemma returns_PutIfNotEvict:
  "p4_inv crc ok c \<Longrightarrow> ok k v \<Longrightarrow> returns (P4Cache_PutIfNotEvict crc k v c) (\<lambda>(_, c'). p4_inv crc ok c')"
  by (auto simp: P4Cache_PutIfNotEvict_eq intro!: p4_wf_write p4_ok_write)

lemma returns_Remove:
  "p4_inv crc ok c \<Longrightarrow> p4_lookup crc c k \<noteq> None \<Longrightarrow> returns (P4Cache_Remove crc k c) (p4_inv crc ok)"
  by (auto simp: P4Cache_Remove_eq p4_lengths intro!: p4_wf_bits p4_wf_write p4_ok_write)

lemma cx_ok_set_cache:
  "cx_ok E ok v cx \<Longrightarrow> p4_inv (env_crc E) ok c \<Longrightarrow> cx_ok E ok v (set_cache c cx)"
  by (simp add: cx_ok_def sw_ok_def)

lemma cx_okD:
  "cx_ok E ok v cx \<Longrightarrow> p4_inv (env_crc E) ok (p4s_cache (cx_sw cx))"
  by (simp add: cx_ok_def sw_ok_def)

section \<open>The handlers\<close>

lemma generate_frame [simp]:
  "cx_frame cx' (P4SwitchApp_GeneratePacketToAddress dat a learning cx) = cx_frame cx' cx"
  "cx_frame cx' (P4SwitchApp_GeneratePacketToLeaf E dat h cx) = cx_frame cx' cx"
  by (simp_all add: P4SwitchApp_GeneratePacketToAddress_def P4SwitchApp_GeneratePacketToLeaf_def Let_def)

lemma cx_frame_from [simp]:
  "cx_frame (emit e cx) cx' = cx_frame cx cx'"
  "cx_frame (P4SwitchApp_GeneratePacketToLeaf E dat h cx) cx' = cx_frame cx cx'"
  "cx_frame (cx\<lparr>cx_pkt := (cx_pkt cx)\<lparr>pkt_evict := t\<rparr>\<rparr>) cx' = cx_frame cx cx'"
  "cx_frame (set_cache c cx) cx' = cx_frame cx cx'"
  by (simp_all add: cx_frame_def P4SwitchApp_GeneratePacketToAddress_def
      P4SwitchApp_GeneratePacketToLeaf_def Let_def)

lemma generate_sel [simp]:
  "cx_pkt (P4SwitchApp_GeneratePacketToAddress dat a learning cx) = cx_pkt cx"
  "cx_ip (P4SwitchApp_GeneratePacketToAddress dat a learning cx) = cx_ip cx"
  "cx_sw (P4SwitchApp_GeneratePacketToAddress dat a learning cx) = cx_sw cx"
  "cx_pkt (P4SwitchApp_GeneratePacketToLeaf E dat h cx) = cx_pkt cx"
  "cx_ip (P4SwitchApp_GeneratePacketToLeaf E dat h cx) = cx_ip cx"
  "cx_sw (P4SwitchApp_GeneratePacketToLeaf E dat h cx) = cx_sw cx"
  by (simp_all add: P4SwitchApp_GeneratePacketToAddress_def P4SwitchApp_GeneratePacketToLeaf_def Let_def)

lemma generate_ok:
  "cx_ok E ok v cx \<Longrightarrow> learning \<longrightarrow> ok (fst dat) (snd dat) \<Longrightarrow>
   cx_ok E ok v (P4SwitchApp_GeneratePacketToAddress dat a learning cx)"
  by (auto simp: P4SwitchApp_GeneratePacketToAddress_def Let_def cx_ok_def tag_ok_def Packet_create_def)

lemma generate_leaf_ok:
  "cx_ok E ok v cx \<Longrightarrow> ok (fst dat) (snd dat) \<Longrightarrow>
   cx_ok E ok v (P4SwitchApp_GeneratePacketToLeaf E' dat h cx)"
  by (simp add: P4SwitchApp_GeneratePacketToLeaf_def Let_def generate_ok)

lemma put_step_ok:
  assumes "cx_ok E ok v cx" and "ok (fst learn) (snd learn)" and "pkt_evict (cx_pkt cx) = None"
  shows "returns (ReceivePacket_put E learn cx) (\<lambda>cx'. cx_ok E ok v cx' \<and> cx_frame cx cx' \<and>
           pkt_hit (cx_pkt cx') = pkt_hit (cx_pkt cx) \<and> cx_ip cx' = cx_ip cx)"
  unfolding ReceivePacket_put_def
  by (rule returns_bind [OF returns_Put_evict [OF cx_okD [OF assms(1)] assms(2)]])
     (use assms in \<open>auto simp: AddEvictionTag_def cx_ok_def sw_ok_def tag_ok_def cx_frame_def
        split: option.splits\<close>)

lemma retag_ok:
  assumes "cx_ok E ok v cx" and "ok (et_key t) (et_val t)" and "pkt_evict (cx_pkt cx) = None"
  shows "returns (ReceivePacket_retag t cx) (\<lambda>cx'. cx_ok E ok v cx' \<and> cx_frame cx cx' \<and>
           pkt_hit (cx_pkt cx') = pkt_hit (cx_pkt cx) \<and> cx_ip cx' = cx_ip cx)"
  using assms by (simp add: ReceivePacket_retag_def AddEvictionTag_def cx_ok_def tag_ok_def cx_frame_def)

lemma putIfNotEvict_step_ok:
  assumes "cx_ok E ok v cx" and "ok a b"
  shows "returns (bindE (P4Cache_PutIfNotEvict (env_crc E) a b (p4s_cache (cx_sw cx)))
           (\<lambda>(_, c). Inr (set_cache c cx))) (\<lambda>cx'. cx_ok E ok v cx' \<and> cx_frame cx cx' \<and>
           pkt_hit (cx_pkt cx') = pkt_hit (cx_pkt cx) \<and> cx_ip cx' = cx_ip cx)"
  by (rule returns_bind [OF returns_PutIfNotEvict [OF cx_okD [OF assms(1)] assms(2)]])
     (use assms in \<open>auto intro: cx_ok_set_cache\<close>)

text \<open>The three ways of learning, each on a packet whose tag has been taken off.\<close>

lemma core_ok:
  assumes "cx_ok E ok v cx" and "ok (fst learn) (snd learn)" and "pkt_evict (cx_pkt cx) = None"
    and "\<And>t. found = Some t \<Longrightarrow> ok (et_key t) (et_val t)"
  shows "returns (ReceivePacket_core E found learn d cx) (\<lambda>cx'. cx_ok E ok v cx' \<and> cx_frame cx cx' \<and>
           pkt_hit (cx_pkt cx') = pkt_hit (cx_pkt cx) \<and> cx_ip cx' = cx_ip cx)"
proof (cases found)
  case None
  then show ?thesis
    using putIfNotEvict_step_ok [OF assms(1,2)] by (simp add: ReceivePacket_core_def Let_def)
next
  case (Some t)
  have wf: "p4_wf (env_crc E) (p4s_cache (cx_sw cx))"
    using cx_okD [OF assms(1)] by blast
  show ?thesis
    using put_step_ok [OF assms(1-3)] retag_ok [OF assms(1) assms(4) [OF Some] assms(3)]
    by (simp add: ReceivePacket_core_def Let_def Some P4Cache_GetBit_eq [OF wf] P4Cache_Find_eq [OF wf])
qed

lemma spine_ok:
  assumes "cx_ok E ok v cx" and "ok (fst learn) (snd learn)" and "pkt_evict (cx_pkt cx) = None"
    and "\<And>t. found = Some t \<Longrightarrow> ok (et_key t) (et_val t)"
  shows "returns (ReceivePacket_spine E found learn cx) (\<lambda>cx'. cx_ok E ok v cx' \<and> cx_frame cx cx' \<and>
           pkt_hit (cx_pkt cx') = pkt_hit (cx_pkt cx) \<and> cx_ip cx' = cx_ip cx)"
proof -
  have wf: "p4_wf (env_crc E) (p4s_cache (cx_sw cx))"
    using cx_okD [OF assms(1)] by blast
  show ?thesis
    using put_step_ok [OF assms(1-3)] retag_ok [OF assms(1) assms(4) assms(3)] assms(1)
    by (auto simp: ReceivePacket_spine_def Let_def P4Cache_GetBit_eq [OF wf] P4Cache_Find_eq [OF wf]
        split: option.split)
qed

lemma plain_ok:
  assumes "cx_ok E ok v cx" and "ok (fst learn) (snd learn)" and "pkt_evict (cx_pkt cx) = None"
  shows "returns (ReceivePacket_plain E rnd learn cx) (\<lambda>cx'. cx_ok E ok v cx' \<and> cx_frame cx cx' \<and>
           pkt_hit (cx_pkt cx') = pkt_hit (cx_pkt cx) \<and> cx_ip cx' = cx_ip cx)"
proof -
  have "cx_ok E ok v (emit (LearningTrace (cx_pkt cx)) cx)"
    using assms(1) by (simp add: cx_ok_def)
  then have gen: "cx_ok E ok v (P4SwitchApp_GeneratePacketToLeaf E learn h
      (emit (LearningTrace (cx_pkt cx)) cx))" for h
    using assms(2) by (rule generate_leaf_ok)
  show ?thesis
    using put_step_ok [OF assms] put_step_ok [OF gen assms(2)] assms(3)
    by (auto simp: ReceivePacket_plain_def Let_def)
qed

lemma leaf_ok:
  assumes "cx_ok E ok v cx" and "ok v d \<or> d \<in> p4s_gwAddresses (cx_sw cx)"
    and "at_SourceLearning (p4s_attrs (cx_sw cx)) \<longrightarrow> ok (ip_src inner) (ip_src (cx_ip cx))"
  shows "returns (ReceivePacket_leaf E inner v d cx) (\<lambda>cx'. cx_ok E ok v cx' \<and> cx_frame cx cx' \<and>
           pkt_hit (cx_pkt cx') = pkt_hit (cx_pkt cx) \<and> cx_ip cx' = cx_ip cx)"
proof -
  have "returns (bindE (P4Cache_Put (env_crc E) (ip_src inner) (ip_src (cx_ip cx)) (p4s_cache (cx_sw cx)))
      (\<lambda>c. Inr (set_cache c cx))) (\<lambda>cx'. cx_ok E ok v cx' \<and> cx_frame cx cx' \<and>
           pkt_hit (cx_pkt cx') = pkt_hit (cx_pkt cx) \<and> cx_ip cx' = cx_ip cx)"
    if "ok (ip_src inner) (ip_src (cx_ip cx))"
    by (rule returns_bind [OF returns_Put [OF cx_okD [OF assms(1)] that]])
       (use assms(1) in \<open>auto intro: cx_ok_set_cache\<close>)
  then show ?thesis
    using putIfNotEvict_step_ok [OF assms(1)] assms by (auto simp: ReceivePacket_leaf_def Let_def)
qed

text \<open>The dead branch: an \<open>ok\<close> tag never holds the pair \<open>(0, 0)\<close>, so the learning step
  never returns early.\<close>

lemma learn_ok:
  assumes "cx_ok E ok v cx" and "ok v d \<or> d \<in> p4s_gwAddresses (cx_sw cx)"
    and nz: "\<And>k a. ok k a \<Longrightarrow> a \<noteq> 0"
  shows "returns (ReceivePacket_learn E rnd v d cx) (\<lambda>(ret, cx'). \<not> ret \<and> cx_ok E ok v cx' \<and>
           cx_frame cx cx' \<and> pkt_hit (cx_pkt cx') = pkt_hit (cx_pkt cx) \<and> cx_ip cx' = cx_ip cx)"
proof -
  let ?cx = "cx\<lparr>cx_pkt := (cx_pkt cx)\<lparr>pkt_evict := None\<rparr>\<rparr>"
  have cx: "cx_ok E ok v ?cx" "pkt_evict (cx_pkt ?cx) = None"
    using assms(1) by (simp_all add: cx_ok_def tag_ok_def)
  show ?thesis
  proof (cases "pkt_evict (cx_pkt cx)")
    case None
    show ?thesis
      using core_ok [OF cx(1) _ cx(2), of "(v, d)" None] spine_ok [OF cx(1) _ cx(2), of "(v, d)" None]
        plain_ok [OF cx(1) _ cx(2), of "(v, d)"] assms(1,2) cx(1) None
      by (auto simp: ReceivePacket_learn_def Let_def returns_bind_iff cx_frame_def)
  next
    case (Some t)
    then have t: "ok (et_key t) (et_val t)"
      using assms(1) by (simp add: cx_ok_def tag_ok_def)
    then have "EvictionTag_GetEvicted t \<noteq> (0, 0)"
      using nz by (auto simp: EvictionTag_GetEvicted_def)
    then show ?thesis
      using core_ok [OF cx(1) _ cx(2), of "EvictionTag_GetEvicted t" "Some t"]
        spine_ok [OF cx(1) _ cx(2), of "EvictionTag_GetEvicted t" "Some t"]
        plain_ok [OF cx(1) _ cx(2), of "EvictionTag_GetEvicted t"] t Some
      by (auto simp: ReceivePacket_learn_def Let_def returns_bind_iff EvictionTag_GetEvicted_def)
  qed
qed

lemma translate_ok:
  assumes "cx_ok E ok v cx" and "d \<in> p4s_gwAddresses (cx_sw cx) \<longrightarrow> pkt_hit (cx_pkt cx) = None"
    and "d = ip_dst (cx_ip cx)"
  shows "returns (ReceivePacket_translate E v d cx) (\<lambda>(fwd, cx'). fwd \<and> cx_ok E ok v cx' \<and>
           cx_frame cx cx' \<and> hit_kept ok v cx cx')"
proof (cases "d \<in> p4s_gwAddresses (cx_sw cx)")
  case True
  show ?thesis
    unfolding ReceivePacket_translate_def Let_def if_P [OF True]
    by (rule returns_bind [OF returns_Get [OF cx_okD [OF assms(1)]]])
       (use assms True in \<open>auto simp: AddHitTag_def cx_ok_def sw_ok_def tag_ok_def dst_ok_def
          cx_frame_def hit_kept_def led_def split: option.splits\<close>)
next
  case False
  with assms(1) show ?thesis by (simp add: ReceivePacket_translate_def Let_def)
qed

text \<open>What the switch needs of the packet: the source is truthful where sources are learned, a packet
  still looking for its destination carries no hit tag, and an invalidation names the packet's own
  destination and a switch the Bloom filter has room for.\<close>

definition pkt_req :: "(u32 \<Rightarrow> u32 \<Rightarrow> bool) \<Rightarrow> Ipv4Header \<Rightarrow> Ctx \<Rightarrow> bool" where
  "pkt_req ok inner cx \<longleftrightarrow>
     (at_SourceLearning (p4s_attrs (cx_sw cx)) \<longrightarrow> pkt_inval (cx_pkt cx) = None \<longrightarrow>
        ok (ip_src inner) (ip_src (cx_ip cx))) \<and>
     (ip_dst (cx_ip cx) \<in> p4s_gwAddresses (cx_sw cx) \<longrightarrow> pkt_inval (cx_pkt cx) = None \<longrightarrow>
        pkt_hit (cx_pkt cx) = None) \<and>
     (\<forall>t. pkt_inval (cx_pkt cx) = Some t \<longrightarrow> it_key t = ip_dst inner) \<and>
     (\<forall>t h. pkt_inval (cx_pkt cx) = Some t \<longrightarrow> pkt_hit (cx_pkt cx) = Some h \<longrightarrow>
        at_BloomFilter (p4s_attrs (cx_sw cx)) \<longrightarrow>
        unat (ht_switchId h) < nat (at_BloomFilterSize (p4s_attrs (cx_sw cx))))"

lemma learn_translate_ok:
  assumes "cx_ok E ok (ip_dst inner) cx" and "pkt_req ok inner cx" and "pkt_inval (cx_pkt cx) = None"
    and nz: "\<And>k a. ok k a \<Longrightarrow> a \<noteq> 0"
  shows "returns (ReceivePacket_learn_translate E rnd inner (ip_dst inner) (ip_dst (cx_ip cx)) cx)
           (\<lambda>(fwd, cx'). fwd \<and> cx_ok E ok (ip_dst inner) cx' \<and> cx_frame cx cx' \<and>
              hit_kept ok (ip_dst inner) cx cx')"
proof -
  have d: "ok (ip_dst inner) (ip_dst (cx_ip cx)) \<or> ip_dst (cx_ip cx) \<in> p4s_gwAddresses (cx_sw cx)"
    using assms(1) by (auto simp: cx_ok_def dst_ok_def)
  have learned: "returns (if p4s_switchType (cx_sw cx) = LEAF
        then bindE (ReceivePacket_leaf E inner (ip_dst inner) (ip_dst (cx_ip cx)) cx) (\<lambda>cx. Inr (False, cx))
        else ReceivePacket_learn E rnd (ip_dst inner) (ip_dst (cx_ip cx)) cx)
      (\<lambda>(ret, cx'). \<not> ret \<and> cx_ok E ok (ip_dst inner) cx' \<and> cx_frame cx cx' \<and>
           pkt_hit (cx_pkt cx') = pkt_hit (cx_pkt cx) \<and> cx_ip cx' = cx_ip cx)"
    using leaf_ok [OF assms(1) d] learn_ok [OF assms(1) d nz] assms(2,3)
    by (auto simp: pkt_req_def returns_bind_iff)
  then obtain cx' where step: "(if p4s_switchType (cx_sw cx) = LEAF
        then bindE (ReceivePacket_leaf E inner (ip_dst inner) (ip_dst (cx_ip cx)) cx) (\<lambda>cx. Inr (False, cx))
        else ReceivePacket_learn E rnd (ip_dst inner) (ip_dst (cx_ip cx)) cx) = Inr (False, cx')"
    and cx': "cx_ok E ok (ip_dst inner) cx'" "cx_frame cx cx'"
      "pkt_hit (cx_pkt cx') = pkt_hit (cx_pkt cx)" "cx_ip cx' = cx_ip cx"
    by (auto simp: returns_def)
  have "p4s_gwAddresses (cx_sw cx') = p4s_gwAddresses (cx_sw cx)"
    using cx'(2) by (simp add: cx_frame_def sw_static_def)
  with cx' assms(2,3)
  have "returns (ReceivePacket_translate E (ip_dst inner) (ip_dst (cx_ip cx)) cx')
      (\<lambda>(fwd, cx''). fwd \<and> cx_ok E ok (ip_dst inner) cx'' \<and> cx_frame cx' cx'' \<and>
         hit_kept ok (ip_dst inner) cx' cx'')"
    by (intro translate_ok) (auto simp: pkt_req_def)
  with cx'(2-4) show ?thesis
    unfolding ReceivePacket_learn_translate_def step
    by (auto simp: hit_kept_def led_def cx_frame_def sw_static_def elim!: returns_mono)
qed

lemma inval_leaf_ok:
  assumes "cx_ok E ok v cx"
    and "\<And>h. pkt_hit (cx_pkt cx) = Some h \<Longrightarrow> at_BloomFilter (p4s_attrs (cx_sw cx)) \<Longrightarrow>
           unat (ht_switchId h) < nat (at_BloomFilterSize (p4s_attrs (cx_sw cx)))"
  shows "returns (ReceivePacket_inval_leaf d i cx) (\<lambda>cx'. cx_ok E ok v cx' \<and> cx_frame cx cx' \<and>
           p4s_cache (cx_sw cx') = p4s_cache (cx_sw cx) \<and> pkt_hit (cx_pkt cx') = None \<and> cx_ip cx' = cx_ip cx)"
proof (cases "pkt_hit (cx_pkt cx)")
  case None
  with assms(1) show ?thesis by (simp add: ReceivePacket_inval_leaf_def)
next
  case (Some h)
  let ?cx = "cx\<lparr>cx_pkt := (cx_pkt cx)\<lparr>pkt_hit := None\<rparr>\<rparr>"
  have cx: "cx_ok E ok v ?cx" "cx_ok E ok v (emit (InvalidationTrace (cx_pkt ?cx)) ?cx)" "cx_frame cx ?cx"
    using assms(1) by (simp_all add: cx_ok_def tag_ok_def cx_frame_def)
  have gen: "cx_ok E ok v (P4SwitchApp_GeneratePacketToAddress (d, snd i) (ht_address h) False
      (emit (InvalidationTrace (cx_pkt ?cx)) ?cx))"
    by (rule generate_ok [OF cx(2)]) simp
  show ?thesis
  proof (cases "at_BloomFilter (p4s_attrs (cx_sw cx))")
    case True
    then have bf: "bf_wf (p4s_bloomFilter (cx_sw cx))"
      "unat (ht_switchId h) < bf_size (p4s_bloomFilter (cx_sw cx))"
      using assms(1) assms(2) [OF Some True] by (auto simp: cx_ok_def sw_ok_def)
    obtain f where "BloomFilter_Put (ht_switchId h) (p4s_bloomFilter (cx_sw cx)) = Inr f" "bf_wf f"
      "bf_size f = bf_size (p4s_bloomFilter (cx_sw cx))"
      using BloomFilter_Put_eq [OF bf] by blast
    with cx gen assms(1) show ?thesis
      by (simp add: ReceivePacket_inval_leaf_def Some True Let_def BloomFilter_Get_eq [OF bf])
         (auto simp: cx_ok_def sw_ok_def cx_frame_def)
  next
    case False
    with cx gen show ?thesis
      by (simp add: ReceivePacket_inval_leaf_def Some Let_def)
  qed
qed

lemma inval_ok:
  assumes "cx_ok E ok (ip_dst inner) cx" and "pkt_req ok inner cx" and "pkt_inval (cx_pkt cx) = Some t"
  shows "returns (ReceivePacket_inval E (ip_dst inner) t cx) (\<lambda>(fwd, cx'). fwd \<and>
           cx_ok E ok (ip_dst inner) cx' \<and> cx_frame cx cx' \<and> hit_kept ok (ip_dst inner) cx cx' \<and>
           p4_lookup (env_crc E) (p4s_cache (cx_sw cx')) (it_key t) \<noteq> Some (it_val t))"
proof -
  let ?crc = "env_crc E" and ?c = "p4s_cache (cx_sw cx)"
  have key: "it_key t = ip_dst inner"
    using assms(2,3) by (simp add: pkt_req_def)
  have inv: "p4_inv ?crc ok ?c"
    using cx_okD [OF assms(1)] .
  obtain c where c: "P4Cache_Get ?crc (it_key t) ?c = Inr (p4_lookup ?crc ?c (it_key t), c)"
      "p4_inv ?crc ok c" "p4_lookup ?crc c = p4_lookup ?crc ?c"
      "\<And>a. p4_lookup ?crc ?c (it_key t) = Some a \<Longrightarrow> ok (it_key t) a"
    using returns_Get [OF inv, of "it_key t"] by (auto simp: returns_def)
  obtain cx1 where step: "(case p4_lookup ?crc ?c (it_key t) of
        None \<Rightarrow> Inr (set_cache c cx)
      | Some cachedVal \<Rightarrow>
          if cachedVal = it_val t
          then bindE (P4Cache_Remove ?crc (it_key t) c) (\<lambda>c'. Inr (set_cache c' cx))
          else Inr (SetDestination cachedVal (set_cache c cx))) = Inr cx1"
    and cx1: "cx_ok E ok (ip_dst inner) cx1" "cx_frame cx cx1" "pkt_hit (cx_pkt cx1) = pkt_hit (cx_pkt cx)"
      "hit_kept ok (ip_dst inner) cx cx1" "p4_lookup ?crc (p4s_cache (cx_sw cx1)) (it_key t) \<noteq> Some (it_val t)"
  proof (cases "p4_lookup ?crc ?c (it_key t) = Some (it_val t)")
    case True
    obtain c' where c': "P4Cache_Remove ?crc (it_key t) c = Inr c'" "p4_inv ?crc ok c'"
      "p4_lookup ?crc c' (it_key t) = None"
      using returns_Remove [OF c(2), of "it_key t"] p4.remove_spec [of ?crc c "it_key t"] c True
      by (auto simp: returns_def)
    with True assms(1) that show ?thesis by (auto simp: hit_kept_def intro: cx_ok_set_cache)
  next
    case False
    show ?thesis
      using False c(2-4) assms(1) key
      by (intro that [of "case p4_lookup ?crc ?c (it_key t) of None \<Rightarrow> set_cache c cx
            | Some a \<Rightarrow> SetDestination a (set_cache c cx)"])
         (auto simp: cx_ok_def sw_ok_def dst_ok_def hit_kept_def led_def assms(3) split: option.splits)
  qed
  have "returns (if p4s_switchType (cx_sw cx1) = LEAF
      then ReceivePacket_inval_leaf (ip_dst inner) (it_key t, it_val t) cx1 else Inr cx1)
      (\<lambda>cx'. cx_ok E ok (ip_dst inner) cx' \<and> cx_frame cx1 cx' \<and>
         p4s_cache (cx_sw cx') = p4s_cache (cx_sw cx1) \<and> (pkt_hit (cx_pkt cx') = None \<and> cx_ip cx' = cx_ip cx1 \<or> cx' = cx1))"
  proof (cases "p4s_switchType (cx_sw cx1) = LEAF")
    case True
    have "returns (ReceivePacket_inval_leaf (ip_dst inner) (it_key t, it_val t) cx1)
        (\<lambda>cx'. cx_ok E ok (ip_dst inner) cx' \<and> cx_frame cx1 cx' \<and>
           p4s_cache (cx_sw cx') = p4s_cache (cx_sw cx1) \<and> pkt_hit (cx_pkt cx') = None \<and> cx_ip cx' = cx_ip cx1)"
      by (rule inval_leaf_ok [OF cx1(1)])
         (use assms(2,3) cx1(2,3) in \<open>auto simp: pkt_req_def cx_frame_def sw_static_def\<close>)
    with True show ?thesis by (auto elim: returns_mono)
  qed (use cx1(1) in simp)
  moreover have kept: "hit_kept ok (ip_dst inner) cx cx'" if "pkt_hit (cx_pkt cx') = None" "cx_ip cx' = cx_ip cx1" for cx'
    using cx1(4) that by (simp add: hit_kept_def led_def)
  ultimately show ?thesis
    using cx1
    unfolding ReceivePacket_inval_def InvalidationTag_GetInvalidation_def Let_def fst_conv snd_conv
      c(1) bindE_Inr prod.case step returns_bind_iff returns_Inr
    by (auto elim!: returns_mono intro: kept cx_frame_trans [OF cx1(2)])
qed

theorem SwitchV2PLogic_ok:
  assumes "cx_ok E ok (ip_dst inner) cx" and "pkt_req ok inner cx"
    and nz: "\<And>k a. ok k a \<Longrightarrow> a \<noteq> 0"
  shows "returns (P4SwitchApp_SwitchV2PLogic E rnd inner cx)
           (\<lambda>(fwd, cx'). fwd \<and> cx_ok E ok (ip_dst inner) cx' \<and> cx_frame cx cx' \<and>
              hit_kept ok (ip_dst inner) cx cx')"
proof (cases "pkt_inval (cx_pkt cx)")
  case (Some t)
  show ?thesis
    using inval_ok [OF assms(1,2) Some]
    by (auto simp: P4SwitchApp_SwitchV2PLogic_def Let_def Some elim!: returns_mono)
next
  case None
  show ?thesis
  proof (cases "p4s_switchType (cx_sw cx) = SPINE \<and> ip_dst (cx_ip cx) \<in> p4s_gwAddresses (cx_sw cx)")
    case False
    with learn_translate_ok [OF assms(1,2) None nz] show ?thesis
      by (auto simp: P4SwitchApp_SwitchV2PLogic_def Let_def None)
  next
    case True
    obtain r c where c: "P4Cache_Get (env_crc E) (ip_dst inner) (p4s_cache (cx_sw cx)) = Inr (r, c)"
        "p4_inv (env_crc E) ok c" "\<And>a. r = Some a \<Longrightarrow> ok (ip_dst inner) a"
      using returns_Get [OF cx_okD [OF assms(1)], of "ip_dst inner"] by (auto simp: returns_def)
    have cx: "cx_ok E ok (ip_dst inner) (set_cache c cx)" "pkt_req ok inner (set_cache c cx)"
      using assms(1,2) c(2) by (auto simp: pkt_req_def intro: cx_ok_set_cache)
    show ?thesis
    proof (cases r)
      case None2: None
      have "returns (ReceivePacket_learn_translate E rnd inner (ip_dst inner)
          (ip_dst (cx_ip (set_cache c cx))) (set_cache c cx))
          (\<lambda>(fwd, cx'). fwd \<and> cx_ok E ok (ip_dst inner) cx' \<and> cx_frame (set_cache c cx) cx' \<and>
             hit_kept ok (ip_dst inner) (set_cache c cx) cx')"
        by (rule learn_translate_ok [OF cx]) (use None nz in auto)
      with None2 None True c(1) show ?thesis
        by (simp add: P4SwitchApp_SwitchV2PLogic_def Let_def hit_kept_def led_def)
    next
      case Some2: (Some a)
      with c cx(1) True None show ?thesis
        by (simp add: P4SwitchApp_SwitchV2PLogic_def Let_def)
           (simp add: cx_ok_def sw_ok_def tag_ok_def cx_frame_def hit_kept_def)
    qed
  qed
qed

lemma LocalLogic_ok:
  assumes "cx_ok E ok v cx"
  shows "returns (P4SwitchApp_LocalP4CacheLogic E v (ip_dst (cx_ip cx)) cx)
           (\<lambda>(fwd, cx'). fwd \<and> cx_ok E ok v cx' \<and> cx_frame cx cx' \<and> hit_kept ok v cx cx')"
proof (cases "ip_dst (cx_ip cx) \<in> p4s_gwAddresses (cx_sw cx)")
  case True
  show ?thesis
    unfolding P4SwitchApp_LocalP4CacheLogic_def if_P [OF True]
    by (rule returns_bind [OF returns_Get [OF cx_okD [OF assms]]])
       (use assms True in \<open>auto simp: cx_ok_def sw_ok_def dst_ok_def hit_kept_def led_def split: option.splits\<close>)
next
  case False
  then have "ok v (ip_dst (cx_ip cx))"
    using assms by (simp add: cx_ok_def dst_ok_def)
  note put = returns_Put [OF cx_okD [OF assms] this]
  show ?thesis
    unfolding P4SwitchApp_LocalP4CacheLogic_def if_not_P [OF False]
    by (rule returns_bind [OF put]) (use assms in \<open>auto simp: hit_kept_def intro: cx_ok_set_cache\<close>)
qed

text \<open>Protocol packets: what is learned from them was \<open>ok\<close>, and what they invalidate is gone.\<close>

lemma HandleProtocolPacket_ok:
  assumes "sw_ok E ok (cx_sw cx)" and "tag_ok ok (cx_pkt cx)" and "\<forall>e \<in> set (cx_eff cx). eff_ok ok e"
  shows "returns (P4SwitchApp_HandleProtocolPacket E cx) (\<lambda>(fwd, cx'). \<not> fwd \<and> sw_ok E ok (cx_sw cx') \<and>
           (\<forall>e \<in> set (cx_eff cx'). eff_ok ok e) \<and> sw_static (cx_sw cx) (cx_sw cx'))"
proof -
  let ?crc = "env_crc E" and ?c = "p4s_cache (cx_sw cx)"
  have inv: "p4_inv ?crc ok ?c"
    using assms(1) by (simp add: sw_ok_def)
  obtain c where c: "p4_inv ?crc ok c" and step: "(case pkt_inval (cx_pkt cx) of
          None \<Rightarrow> Inr cx
        | Some tag \<Rightarrow>
            (let invalidated = InvalidationTag_GetInvalidation tag in
             bindE (P4Cache_Get ?crc (fst invalidated) ?c) (\<lambda>(r, c).
               case r of
                 None \<Rightarrow> Inr (set_cache c cx)
               | Some cachedVal \<Rightarrow>
                   if cachedVal = snd invalidated
                   then bindE (P4Cache_Remove ?crc (fst invalidated) c) (\<lambda>c'. Inr (set_cache c' cx))
                   else Inr (set_cache c cx)))) = Inr (set_cache c cx)"
  proof (cases "pkt_inval (cx_pkt cx)")
    case None
    then show ?thesis using inv that [of ?c] by (simp add: set_cache_def)
  next
    case (Some t)
    obtain c1 where c1: "P4Cache_Get ?crc (it_key t) ?c = Inr (p4_lookup ?crc ?c (it_key t), c1)"
        "p4_inv ?crc ok c1" "p4_lookup ?crc c1 = p4_lookup ?crc ?c"
      using returns_Get [OF inv, of "it_key t"] by (auto simp: returns_def)
    obtain c2 where c2: "p4_inv ?crc ok c2"
        "p4_lookup ?crc ?c (it_key t) = Some (it_val t) \<longrightarrow> P4Cache_Remove ?crc (it_key t) c1 = Inr c2"
      using returns_Remove [OF c1(2), of "it_key t"] c1 by (auto simp: returns_def)
    show ?thesis
    proof (cases "p4_lookup ?crc ?c (it_key t) = Some (it_val t)")
      case True
      with c1 c2 show ?thesis
        by (intro that [of c2]) (simp_all add: Some InvalidationTag_GetInvalidation_def)
    next
      case False
      with c1 show ?thesis
        by (intro that [of c1])
           (auto simp: Some InvalidationTag_GetInvalidation_def Let_def split: option.splits)
    qed
  qed
  show ?thesis
  proof (cases "pkt_evict (cx_pkt cx)")
    case None
    with assms c show ?thesis
      unfolding P4SwitchApp_HandleProtocolPacket_def step by (simp add: sw_ok_def)
  next
    case (Some t)
    then have "ok (et_key t) (et_val t)"
      using assms(2) by (simp add: tag_ok_def)
    from returns_Put [OF c this] Some assms c show ?thesis
      unfolding P4SwitchApp_HandleProtocolPacket_def step
      by (auto simp: sw_ok_def EvictionTag_GetEvicted_def Let_def returns_def)
  qed
qed

section \<open>The interceptor\<close>

text \<open>The invariant of an arriving packet: it carries a UDP header; a protocol packet's learning tag
  is \<open>ok\<close>, and a data packet holds an inner IP header and meets the handlers' preconditions.\<close>

definition arrives_ok :: "ns3_env \<Rightarrow> (u32 \<Rightarrow> u32 \<Rightarrow> bool) \<Rightarrow> Ctx \<Rightarrow> bool" where
  "arrives_ok E ok cx \<longleftrightarrow>
     sw_ok E ok (cx_sw cx) \<and> tag_ok ok (cx_pkt cx) \<and> (\<forall>e \<in> set (cx_eff cx). eff_ok ok e) \<and>
     p4s_simMode (cx_sw cx) \<noteq> Bluebird \<and>
     (case pkt_headers (cx_pkt cx) of
        HUdp u # hs \<Rightarrow> udp_dport u = SWITCH_PORT \<or> udp_dport u = 667 \<and>
          (case hs of HIp inner # _ \<Rightarrow>
              dst_ok ok (p4s_gwAddresses (cx_sw cx)) (ip_dst inner) (ip_dst (cx_ip cx)) \<and> pkt_req ok inner cx
           | _ \<Rightarrow> False)
      | _ \<Rightarrow> False)"

definition data_packet :: "Packet \<Rightarrow> bool" where
  "data_packet p \<longleftrightarrow> (\<exists>u inner hs. pkt_headers p = HUdp u # HIp inner # hs \<and> udp_dport u \<noteq> SWITCH_PORT)"

lemma ReceivePacket_ok:
  assumes "arrives_ok E ok cx" and "\<forall>k a. ok k a \<longrightarrow> a \<noteq> 0"
  shows "returns (P4SwitchApp_ReceivePacket E rnd cx) (\<lambda>(fwd, cx').
           sw_ok E ok (cx_sw cx') \<and> sw_static (cx_sw cx) (cx_sw cx') \<and> (\<forall>e \<in> set (cx_eff cx'). eff_ok ok e) \<and>
           fwd = data_packet (cx_pkt cx) \<and>
           (fwd \<longrightarrow> tag_ok ok (cx_pkt cx') \<and> pkt_headers (cx_pkt cx') = pkt_headers (cx_pkt cx) \<and>
              ip_src (cx_ip cx') = ip_src (cx_ip cx) \<and> pkt_inval (cx_pkt cx') = pkt_inval (cx_pkt cx) \<and>
              pkt_flowId (cx_pkt cx') = pkt_flowId (cx_pkt cx) \<and> pkt_payload (cx_pkt cx') = pkt_payload (cx_pkt cx) \<and>
              pkt_txTime (cx_pkt cx') = pkt_txTime (cx_pkt cx) \<and>
              (\<forall>u inner hs. pkt_headers (cx_pkt cx) = HUdp u # HIp inner # hs \<longrightarrow>
                 dst_ok ok (p4s_gwAddresses (cx_sw cx)) (ip_dst inner) (ip_dst (cx_ip cx')) \<and>
                 hit_kept ok (ip_dst inner) cx cx')))"
proof -
  have nz: "\<And>k a. ok k a \<Longrightarrow> a \<noteq> 0"
    using assms(2) by blast
  obtain u hs where hd: "pkt_headers (cx_pkt cx) = HUdp u # hs"
    using assms(1) by (auto simp: arrives_ok_def split: list.splits header.splits)
  show ?thesis
  proof (cases "udp_dport u = SWITCH_PORT")
    case True
    have "returns (P4SwitchApp_HandleProtocolPacket E (cx\<lparr>cx_pkt := (cx_pkt cx)\<lparr>pkt_headers := hs\<rparr>\<rparr>))
        (\<lambda>(fwd, cx'). \<not> fwd \<and> sw_ok E ok (cx_sw cx') \<and> (\<forall>e \<in> set (cx_eff cx'). eff_ok ok e) \<and>
           sw_static (cx_sw cx) (cx_sw cx'))"
      using HandleProtocolPacket_ok [of E ok "cx\<lparr>cx_pkt := (cx_pkt cx)\<lparr>pkt_headers := hs\<rparr>\<rparr>"] assms(1)
      by (simp add: arrives_ok_def tag_ok_def)
    with True hd show ?thesis
      by (auto simp: P4SwitchApp_ReceivePacket_def RemoveUdp_def data_packet_def elim!: returns_mono)
  next
    case False
    then obtain inner hs' where hs: "hs = HIp inner # hs'" "udp_dport u = 667"
      and d: "dst_ok ok (p4s_gwAddresses (cx_sw cx)) (ip_dst inner) (ip_dst (cx_ip cx))"
      and req: "pkt_req ok inner cx"
      using assms(1) hd by (auto simp: arrives_ok_def split: list.splits header.splits)
    define p where "p = bump_hops ((cx_pkt cx)\<lparr>pkt_headers := hs\<rparr>)"
    define cx0 where "cx0 = emit (ProcessedTrace p (p4s_nodeId (cx_sw cx))) cx
      \<lparr>cx_pkt := AddHeader (HUdp u) (AddHeader (HIp inner) (p\<lparr>pkt_headers := hs'\<rparr>))\<rparr>"
    have cx0: "cx_sw cx0 = cx_sw cx" "cx_ip cx0 = cx_ip cx" "pkt_headers (cx_pkt cx0) = pkt_headers (cx_pkt cx)"
        "pkt_hit (cx_pkt cx0) = pkt_hit (cx_pkt cx)" "pkt_inval (cx_pkt cx0) = pkt_inval (cx_pkt cx)"
        "pkt_flowId (cx_pkt cx0) = pkt_flowId (cx_pkt cx)" "pkt_payload (cx_pkt cx0) = pkt_payload (cx_pkt cx)"
        "pkt_txTime (cx_pkt cx0) = pkt_txTime (cx_pkt cx)"
      by (simp_all add: cx0_def p_def hd hs AddHeader_def)
    have "cx_ok E ok (ip_dst inner) cx0" "pkt_req ok inner cx0" "p4s_simMode (cx_sw cx) \<noteq> Bluebird"
      using assms(1) d req
      by (auto simp: cx0_def p_def cx_ok_def arrives_ok_def tag_ok_def pkt_req_def AddHeader_def)
    then have "returns (if p4s_simMode (cx_sw cx0) = LocalLearning
          then P4SwitchApp_LocalP4CacheLogic E (ip_dst inner) (ip_dst (cx_ip cx0)) cx0
          else if p4s_simMode (cx_sw cx0) = Bluebird
          then P4SwitchApp_BluebirdLogic E (ip_dst inner) (ip_dst (cx_ip cx0)) cx0
          else P4SwitchApp_SwitchV2PLogic E rnd inner cx0)
        (\<lambda>(fwd, cx'). fwd \<and> cx_ok E ok (ip_dst inner) cx' \<and> cx_frame cx0 cx' \<and>
           hit_kept ok (ip_dst inner) cx0 cx')"
      using LocalLogic_ok [of E ok "ip_dst inner" cx0] SwitchV2PLogic_ok [of E ok inner cx0 rnd, OF _ _ nz]
        cx0(1) by auto
    moreover have "P4SwitchApp_ReceivePacket E rnd cx = (if p4s_simMode (cx_sw cx0) = LocalLearning
          then P4SwitchApp_LocalP4CacheLogic E (ip_dst inner) (ip_dst (cx_ip cx0)) cx0
          else if p4s_simMode (cx_sw cx0) = Bluebird
          then P4SwitchApp_BluebirdLogic E (ip_dst inner) (ip_dst (cx_ip cx0)) cx0
          else P4SwitchApp_SwitchV2PLogic E rnd inner cx0)"
      using False hs hd
      by (simp add: P4SwitchApp_ReceivePacket_def RemoveUdp_def RemoveIp_def cx0_def p_def Let_def emit_def)
    moreover have "data_packet (cx_pkt cx)"
      using hd hs(1) False by (simp add: data_packet_def)
    ultimately show ?thesis
      using cx0 by (auto simp: cx_ok_def cx_frame_def sw_static_def hit_kept_def led_def hd hs elim!: returns_mono)
  qed
qed

section \<open>Setup\<close>

lemma Setup_ok:
  assumes "0 < at_MemorySize attrs" and "0 \<le> at_BloomFilterSize attrs"
  shows "returns (P4SwitchApp_Setup attrs nodeId rnd gws addr st mode pods) (\<lambda>sw.
     p4_lookup (env_crc E) (p4s_cache sw) = Map.empty \<and> sw_ok E ok sw \<and>
     p4s_bluebirdCache sw = LRUCache_SetCapacity (at_MemorySize attrs) LRUCache_new \<and>
     \<not> p4s_bluebirdBusy sw \<and> p4s_bluebirdQueue sw = [] \<and> p4s_gwAddresses sw = set gws \<and>
     p4s_simMode sw = mode \<and> p4s_attrs sw = attrs \<and> p4s_nodeId sw = nodeId \<and>
     p4_array (p4s_cache sw) = replicate (nat (at_MemorySize attrs)) (0, 0) \<and>
     p4s_switchAddress sw = addr \<and> p4s_switchType sw = st \<and> p4s_podCount sw = pods \<and>
     bf_set (p4s_bloomFilter sw) = {} \<and> (at_BloomFilter attrs \<longrightarrow> bf_wf (p4s_bloomFilter sw) \<and>
       bf_size (p4s_bloomFilter sw) = nat (at_BloomFilterSize attrs)))"
proof -
  obtain c where c: "P4Cache_Setup (at_MemorySize attrs) (at_RandomHashFunction attrs) rnd P4Cache_new = Inr c"
      "p4_array c = replicate (nat (at_MemorySize attrs)) (0, 0)"
    using assms(1) by (auto simp: P4Cache_Setup_def)
  obtain f where f: "BloomFilter_Setup (at_BloomFilterSize attrs) BloomFilter_new = Inr f" "bf_wf f"
      "bf_size f = nat (at_BloomFilterSize attrs)" "bf_set f = {}"
    using BloomFilter_Setup_wf [OF assms(2)] by blast
  have "p4_ok ok c"
    using c(2) by (simp add: p4_ok_def)
  moreover have "bf_set BloomFilter_new = {}"
    by (simp add: bf_set_def BloomFilter_new_def)
  ultimately show ?thesis
    using c f P4Cache_Setup_wf [OF assms(1) c(1), of "env_crc E"]
    by (simp add: P4SwitchApp_Setup_def sw_ok_def)
qed

section \<open>Properties\<close>

subsection \<open>A concrete switch\<close>

definition env0 :: ns3_env where
  "env0 = \<lparr>env_crc = byte_sum, env_ipv4 = parse_quad, env_uninit = 0, env_txTime = (\<lambda>rate n. n),
     env_fits = (\<lambda>cap q p. length q < cap)\<rparr>"

definition attrs0 :: P4SwitchAttributes where
  "attrs0 = P4SwitchApp_GetTypeId\<lparr>at_MemorySize := 4\<rparr>"

definition sw0 :: "SwitchType \<Rightarrow> P4Switch" where
  "sw0 st = \<lparr>p4s_nodeId = 1, p4s_attrs = attrs0, p4s_gwAddresses = {900}, p4s_switchAddress = 50,
     p4s_switchType = st, p4s_simMode = SwitchV2P, p4s_podCount = 8, p4s_cache = cache4_one,
     p4s_bloomFilter = BloomFilter_new, p4s_bluebirdCache = LRUCache_SetCapacity 4 LRUCache_new,
     p4s_bluebirdQueue = [], p4s_bluebirdBusy = False\<rparr>"

text \<open>The table of the examples: container 1 has address 9, container 2 address 8.\<close>

definition ok0 :: "u32 \<Rightarrow> u32 \<Rightarrow> bool" where
  "ok0 v a \<longleftrightarrow> v = 1 \<and> a = 9 \<or> v = 2 \<and> a = 8"

definition inner0 :: Ipv4Header where
  "inner0 = \<lparr>ip_src = 2, ip_dst = 1, ip_ttl = 64\<rparr>"

definition data0 :: Packet where
  "data0 = (Packet_create 100)\<lparr>pkt_headers := [HUdp \<lparr>udp_sport = 667, udp_dport = 667\<rparr>, HIp inner0]\<rparr>"

definition cx0 :: "SwitchType \<Rightarrow> Ctx" where
  "cx0 st = \<lparr>cx_pkt = data0, cx_ip = \<lparr>ip_src = 8, ip_dst = 900, ip_ttl = 63\<rparr>, cx_sw = sw0 st, cx_eff = []\<rparr>"

lemma sw0_ok: "sw_ok env0 ok0 (sw0 st)"
  using cache4_one_wf
  by (simp add: sw_ok_def sw0_def env0_def p4_ok_def cache4_one_def ok0_def attrs0_def P4SwitchApp_GetTypeId_def)

lemma ok0_nz: "\<forall>k a. ok0 k a \<longrightarrow> a \<noteq> 0"
  by (simp add: ok0_def)

lemma cx0_ok: "arrives_ok env0 ok0 (cx0 st)" "cx_ok env0 ok0 1 (cx0 st)" "pkt_req ok0 inner0 (cx0 st)"
proof -
  show req: "pkt_req ok0 inner0 (cx0 st)"
    by (simp add: pkt_req_def cx0_def sw0_def attrs0_def P4SwitchApp_GetTypeId_def data0_def Packet_create_def)
  show "cx_ok env0 ok0 1 (cx0 st)"
    using sw0_ok [of st]
    by (simp add: cx_ok_def cx0_def tag_ok_def data0_def Packet_create_def dst_ok_def sw0_def)
  show "arrives_ok env0 ok0 (cx0 st)"
    using sw0_ok [of st] req
    by (simp add: arrives_ok_def cx0_def tag_ok_def data0_def Packet_create_def dst_ok_def sw0_def)
qed

subsection \<open>The switch\<close>

text \<open>C39: A switch is set up in a good state, and empty: with at least one cache entry and a Bloom filter size that is
  not negative, \<open>Setup\<close> succeeds with the given configuration; every line of the cache is free and no address is
  mapped, the cache satisfies any requirement on addresses; the Bloom filter holds no switch, and answers so for every
  identifier it has room for; the Bluebird cache has the given capacity and no entry, and Bluebird is idle with an empty
  queue.\<close>

theorem switch_setup_ok:
  assumes "0 < at_MemorySize attrs" and "at_MemorySize attrs < 2 ^ 31" and "0 \<le> at_BloomFilterSize attrs"
  shows "\<exists>sw. P4SwitchApp_Setup attrs nodeId rnd gws addr st mode pods = Inr sw \<and> sw_ok E ok sw \<and>
           p4_array (p4s_cache sw) = replicate (nat (at_MemorySize attrs)) (0, 0) \<and>
           p4_lookup (env_crc E) (p4s_cache sw) = Map.empty \<and>
           bf_set (p4s_bloomFilter sw) = {} \<and>
           (at_BloomFilter attrs \<longrightarrow> (\<forall>k. unat k < nat (at_BloomFilterSize attrs) \<longrightarrow>
              BloomFilter_Get k (p4s_bloomFilter sw) = Inr False)) \<and>
           lru_wf (p4s_bluebirdCache sw) \<and> lru_abs (p4s_bluebirdCache sw) = [] \<and>
           LRUCache_GetSize (p4s_bluebirdCache sw) = 0 \<and>
           int (lru_cacheSize (p4s_bluebirdCache sw)) = at_MemorySize attrs \<and>
           \<not> p4s_bluebirdBusy sw \<and> p4s_bluebirdQueue sw = [] \<and> p4s_gwAddresses sw = set gws \<and>
           p4s_attrs sw = attrs \<and> p4s_nodeId sw = nodeId \<and> p4s_switchAddress sw = addr \<and> p4s_switchType sw = st \<and>
           p4s_simMode sw = mode \<and> p4s_podCount sw = pods"
proof -
  let ?bb = "LRUCache_SetCapacity (at_MemorySize attrs) LRUCache_new"
  have "lru_wf ?bb"
    using assms by (intro lru_new_wf) simp_all
  moreover have "lru_abs ?bb = []" "LRUCache_GetSize ?bb = 0" "int (lru_cacheSize ?bb) = at_MemorySize attrs"
    using assms by (simp_all add: lru_abs_def LRUCache_GetSize_def LRUCache_SetCapacity_def LRUCache_new_def)
  ultimately show ?thesis
    using Setup_ok [OF assms(1,3), of nodeId rnd gws addr st mode pods E ok]
    by (auto simp: returns_def BloomFilter_Get_eq)
qed

theorem switch_setup_ok_witness:
  "\<exists>sw. P4SwitchApp_Setup attrs0 1 0 [900] 50 LEAF SwitchV2P 8 = Inr sw \<and> sw_ok env0 ok0 sw"
proof -
  have "0 < at_MemorySize attrs0" "at_MemorySize attrs0 < 2 ^ 31" "0 \<le> at_BloomFilterSize attrs0"
    by (simp_all add: attrs0_def P4SwitchApp_GetTypeId_def)
  from switch_setup_ok [OF this, of 1 0 "[900]" 50 LEAF SwitchV2P 8 env0 ok0] show ?thesis by blast
qed

text \<open>C9: The data plane never invents an address and never fails. Let \<open>ok k a\<close> be any relation that
  allows only non-zero addresses. If the cache entries of the switch, the packet's learning tag, its
  destination (or the fact that it goes to a gateway) and, where it will be learned, its source are
  \<open>ok\<close>, then \<open>ReceivePacket\<close> returns: no array index is out of range, no assertion fires, no tag is
  added twice. Afterwards all of that is \<open>ok\<close> again, every packet the switch sent carries only \<open>ok\<close>
  tags, the configuration of the switch is unchanged, and a data packet is forwarded with its headers and
  source as they were.\<close>

theorem switch_coherence:
  assumes "arrives_ok E ok cx" and "\<forall>k a. ok k a \<longrightarrow> a \<noteq> 0"
  shows "\<exists>fwd cx'. P4SwitchApp_ReceivePacket E rnd cx = Inr (fwd, cx') \<and>
           sw_ok E ok (cx_sw cx') \<and> sw_static (cx_sw cx) (cx_sw cx') \<and>
           (\<forall>e \<in> set (cx_eff cx'). eff_ok ok e) \<and> fwd = data_packet (cx_pkt cx) \<and>
           (fwd \<longrightarrow> tag_ok ok (cx_pkt cx') \<and> pkt_headers (cx_pkt cx') = pkt_headers (cx_pkt cx) \<and>
              ip_src (cx_ip cx') = ip_src (cx_ip cx) \<and>
              (\<forall>u inner hs. pkt_headers (cx_pkt cx) = HUdp u # HIp inner # hs \<longrightarrow>
                 dst_ok ok (p4s_gwAddresses (cx_sw cx)) (ip_dst inner) (ip_dst (cx_ip cx'))))"
  using ReceivePacket_ok [OF assms, of rnd] by (auto simp: returns_def)

theorem switch_coherence_witness:
  "\<exists>fwd cx'. P4SwitchApp_ReceivePacket env0 0 (cx0 LEAF) = Inr (fwd, cx') \<and> sw_ok env0 ok0 (cx_sw cx')"
  using switch_coherence [OF cx0_ok(1) ok0_nz, of 0 LEAF] by blast

text \<open>C24: A misdelivered packet cleans up. When a packet with an invalidation tag \<open>(v, a)\<close> passes a switch
  in SwitchV2P mode, the switch no longer maps \<open>v\<close> to \<open>a\<close> afterwards, and the packet goes on to a
  gateway or to an address that is \<open>ok\<close>.\<close>

theorem invalidation_drops_stale:
  assumes "cx_ok E ok (ip_dst inner) cx" and "pkt_req ok inner cx" and "pkt_inval (cx_pkt cx) = Some t"
  shows "\<exists>cx'. P4SwitchApp_SwitchV2PLogic E rnd inner cx = Inr (True, cx') \<and>
           p4_lookup (env_crc E) (p4s_cache (cx_sw cx')) (it_key t) \<noteq> Some (it_val t) \<and>
           pkt_inval (cx_pkt cx') = Some t \<and>
           dst_ok ok (p4s_gwAddresses (cx_sw cx)) (ip_dst inner) (ip_dst (cx_ip cx'))"
  using inval_ok [OF assms] assms(3)
  by (auto simp: P4SwitchApp_SwitchV2PLogic_def Let_def returns_def cx_frame_def cx_ok_def sw_static_def)

definition cx0_inval :: Ctx where
  "cx0_inval = (cx0 LEAF)\<lparr>cx_pkt := data0\<lparr>pkt_inval := Some \<lparr>it_key = 1, it_val = 9\<rparr>\<rparr>\<rparr>"

theorem invalidation_drops_stale_witness:
  "\<exists>cx'. P4SwitchApp_SwitchV2PLogic env0 0 inner0 cx0_inval = Inr (True, cx') \<and>
     p4_lookup byte_sum (p4s_cache (cx_sw cx')) 1 \<noteq> Some 9"
proof -
  have "cx_ok env0 ok0 (ip_dst inner0) cx0_inval"
    using cx0_ok(2) [of LEAF] by (simp add: cx0_inval_def cx_ok_def tag_ok_def inner0_def cx0_def)
  moreover have "pkt_req ok0 inner0 cx0_inval"
    using cx0_ok(3) [of LEAF] by (simp add: cx0_inval_def pkt_req_def inner0_def cx0_def data0_def Packet_create_def)
  ultimately show ?thesis
    using invalidation_drops_stale [of env0 ok0 inner0 cx0_inval _ 0]
    by (auto simp: cx0_inval_def env0_def)
qed

text \<open>The branch for an eviction tag \<open>(0, 0)\<close>, meant to remove an obsolete entry after a migration, is
  never taken: with truthful tags no learning step returns early.\<close>

theorem obsolete_entry_branch_dead:
  assumes "cx_ok E ok v cx" and "ok v d \<or> d \<in> p4s_gwAddresses (cx_sw cx)" and "\<forall>k a. ok k a \<longrightarrow> a \<noteq> 0"
  shows "\<exists>cx'. ReceivePacket_learn E rnd v d cx = Inr (False, cx')"
proof -
  have "returns (ReceivePacket_learn E rnd v d cx) (\<lambda>(ret, _). \<not> ret)"
    by (rule returns_mono, rule learn_ok [OF assms(1,2)]) (use assms(3) in auto)
  then show ?thesis by (auto simp: returns_def)
qed

theorem obsolete_entry_branch_dead_witness:
  "\<exists>cx'. ReceivePacket_learn env0 0 1 9 (cx0 CORE) = Inr (False, cx')"
  by (rule obsolete_entry_branch_dead [OF cx0_ok(2) _ ok0_nz]) (simp add: ok0_def)

text \<open>A learning packet teaches the switch it is addressed to and no other: there the mapping is found
  afterwards, anywhere else the packet is passed on once and unchanged, and the cache keeps its contents.\<close>

theorem protocol_packet_learns:
  assumes "p4_wf (env_crc E) (p4s_cache (cx_sw cx))" and "pkt_inval (cx_pkt cx) = None"
    and "pkt_evict (cx_pkt cx) = Some t" and "et_val t \<noteq> 0"
  shows "\<exists>cx'. P4SwitchApp_HandleProtocolPacket E cx = Inr (False, cx') \<and>
           (if ip_dst (cx_ip cx) = p4s_switchAddress (cx_sw cx)
            then p4_lookup (env_crc E) (p4s_cache (cx_sw cx')) (et_key t) = Some (et_val t) \<and>
                 cx_eff cx' = cx_eff cx
            else p4s_cache (cx_sw cx') = p4s_cache (cx_sw cx) \<and>
                 cx_eff cx' = cx_eff cx @ [SendTo (cx_pkt cx) (ip_dst (cx_ip cx)) SWITCH_PORT])"
  using p4.put_spec [OF assms(1,4), of "et_key t"] assms
  by (auto simp: P4SwitchApp_HandleProtocolPacket_def EvictionTag_GetEvicted_def)

definition cx0_learn :: Ctx where
  "cx0_learn = (cx0 LEAF)\<lparr>cx_pkt := (Packet_create 64)\<lparr>pkt_evict := Some \<lparr>et_key = 2, et_val = 8\<rparr>\<rparr>,
     cx_ip := \<lparr>ip_src = 51, ip_dst = 50, ip_ttl = 60\<rparr>\<rparr>"

theorem protocol_packet_learns_witness:
  "\<exists>cx'. P4SwitchApp_HandleProtocolPacket env0 cx0_learn = Inr (False, cx') \<and>
     p4_lookup byte_sum (p4s_cache (cx_sw cx')) 2 = Some 8"
  using protocol_packet_learns [of env0 cx0_learn "\<lparr>et_key = 2, et_val = 8\<rparr>"] cache4_one_wf(1)
  by (auto simp: cx0_learn_def cx0_def sw0_def env0_def Packet_create_def)

text \<open>C34: The first switch that knows the address answers for the gateway. At a leaf that does not learn
  sources, a packet for a gateway is redirected to the cached address, carries the hit tag of this switch and
  is reported as a cache hit; when the address is not cached it is passed on as it is. The mappings stay the
  same.\<close>

theorem leaf_translates:
  assumes "p4_wf (env_crc E) (p4s_cache (cx_sw cx))" and "p4s_switchType (cx_sw cx) = LEAF"
    and "\<not> at_SourceLearning (p4s_attrs (cx_sw cx))" and "ip_dst (cx_ip cx) \<in> p4s_gwAddresses (cx_sw cx)"
    and "pkt_inval (cx_pkt cx) = None" and "pkt_hit (cx_pkt cx) = None"
  shows "\<exists>cx'. P4SwitchApp_SwitchV2PLogic E rnd inner cx = Inr (True, cx') \<and>
           p4_lookup (env_crc E) (p4s_cache (cx_sw cx')) = p4_lookup (env_crc E) (p4s_cache (cx_sw cx)) \<and>
           (case p4_lookup (env_crc E) (p4s_cache (cx_sw cx)) (ip_dst inner) of
              None \<Rightarrow> cx_ip cx' = cx_ip cx \<and> cx_pkt cx' = cx_pkt cx \<and> cx_eff cx' = cx_eff cx
            | Some a \<Rightarrow> cx_ip cx' = (cx_ip cx)\<lparr>ip_dst := a\<rparr> \<and>
                pkt_hit (cx_pkt cx') = Some \<lparr>ht_address = p4s_switchAddress (cx_sw cx),
                                             ht_switchId = p4s_nodeId (cx_sw cx)\<rparr> \<and>
                cx_eff cx' = cx_eff cx @ [CacheHitTrace (cx_pkt cx') (p4s_nodeId (cx_sw cx))])"
  using assms
  by (auto simp: P4SwitchApp_SwitchV2PLogic_def ReceivePacket_learn_translate_def ReceivePacket_leaf_def
      ReceivePacket_translate_def P4Cache_Get_eq AddHitTag_def Let_def split: option.splits)

theorem leaf_translates_witness:
  "\<exists>cx'. P4SwitchApp_SwitchV2PLogic env0 0 inner0 (cx0 LEAF) = Inr (True, cx') \<and> ip_dst (cx_ip cx') = 9"
proof -
  have "\<exists>cx'. P4SwitchApp_SwitchV2PLogic env0 0 inner0 (cx0 LEAF) = Inr (True, cx') \<and>
      (case p4_lookup (env_crc env0) (p4s_cache (cx_sw (cx0 LEAF))) (ip_dst inner0) of
         None \<Rightarrow> cx_ip cx' = cx_ip (cx0 LEAF) | Some a \<Rightarrow> cx_ip cx' = (cx_ip (cx0 LEAF))\<lparr>ip_dst := a\<rparr>)"
    using leaf_translates [of env0 "cx0 LEAF" 0 inner0] cache4_one_wf(1)
    by (fastforce simp: cx0_def sw0_def env0_def attrs0_def P4SwitchApp_GetTypeId_def data0_def
        Packet_create_def split: option.splits)
  then show ?thesis
    using cache4_one_wf(2) by (auto simp: cx0_def sw0_def env0_def inner0_def)
qed

text \<open>A spine that knows the address promotes the entry instead of translating: the packet keeps going
  to the gateway and carries the mapping in its eviction tag, in place of any tag it had, for the switches
  on its way to learn.\<close>

theorem spine_promotes:
  assumes "p4_wf (env_crc E) (p4s_cache (cx_sw cx))" and "p4s_switchType (cx_sw cx) = SPINE"
    and "ip_dst (cx_ip cx) \<in> p4s_gwAddresses (cx_sw cx)" and "pkt_inval (cx_pkt cx) = None"
    and "p4_lookup (env_crc E) (p4s_cache (cx_sw cx)) (ip_dst inner) = Some a"
  shows "\<exists>cx'. P4SwitchApp_SwitchV2PLogic E rnd inner cx = Inr (True, cx') \<and> cx_ip cx' = cx_ip cx \<and>
           cx_pkt cx' = (cx_pkt cx)\<lparr>pkt_evict := Some \<lparr>et_key = ip_dst inner, et_val = a\<rparr>\<rparr> \<and>
           P4Cache_GetBit (env_crc E) (ip_dst inner) (p4s_cache (cx_sw cx')) = Inr 1"
proof -
  have "p4_wf (env_crc E) (p4s_cache (cx_sw cx)\<lparr>p4_bits :=
      (p4_bits (p4s_cache (cx_sw cx)))[p4_slot (env_crc E) (p4s_cache (cx_sw cx)) (ip_dst inner) := 1]\<rparr>)"
    using assms(1) by (intro p4_wf_bits) (simp_all add: p4_lengths)
  then show ?thesis
    using assms by (auto simp: P4SwitchApp_SwitchV2PLogic_def P4Cache_Get_eq P4Cache_GetBit_eq Let_def)
qed

theorem spine_promotes_witness:
  "\<exists>cx'. P4SwitchApp_SwitchV2PLogic env0 0 inner0 (cx0 SPINE) = Inr (True, cx') \<and>
     pkt_evict (cx_pkt cx') = Some \<lparr>et_key = 1, et_val = 9\<rparr>"
  using spine_promotes [of env0 "cx0 SPINE" inner0 9 0] cache4_one_wf
  by (auto simp: cx0_def sw0_def env0_def inner0_def data0_def Packet_create_def)

text \<open>A learning packet for a host is sent to the leaf switch above that host: for the address of host
  \<open>i\<close> under leaf \<open>l\<close> of pod \<open>p\<close>, \<open>GeneratePacketToLeaf\<close> sends one packet with the mapping to the
  address of leaf \<open>l\<close> of pod \<open>p\<close>, unless the switch is that leaf.\<close>

theorem generate_reaches_leaf:
  assumes "dotted_quad (env_ipv4 E)" and "p4s_podCount (cx_sw cx) = word_of_nat n" and "p < n"
    and "2 * n < 255" and "l < 256" and "i < 256"
    and "host = plan_address (env_ipv4 E) n (HostNode p l i)" and "leaf = plan_address (env_ipv4 E) n (LeafNode p 0 l)"
  shows "cx_eff (P4SwitchApp_GeneratePacketToLeaf E m host cx) = cx_eff cx @
           (if leaf = p4s_switchAddress (cx_sw cx) then []
            else [SendTo ((Packet_create 64)\<lparr>pkt_evict := Some \<lparr>et_key = fst m, et_val = snd m\<rparr>\<rparr>) leaf SWITCH_PORT])"
proof -
  have host: "host = quad (p + 1) l i 1"
    using assms by (simp add: GetNodePhysicalAddress_quad)
  have "unat (drop_bit 24 host) = p + 1" "unat (and (drop_bit 16 host) 255) = l"
    unfolding host using assms by (simp_all add: quad_octet1 quad_octet2)
  then have "drop_bit 24 host = word_of_nat (p + 1)" "and (drop_bit 16 host) 255 = word_of_nat l"
    by (metis of_nat_unat ucast_id)+
  then have "drop_bit 24 host - 1 = word_of_nat p" "and (drop_bit 16 host) 255 = word_of_nat l"
    by simp_all
  then show ?thesis
    using assms(2,8)
    by (auto simp: P4SwitchApp_GeneratePacketToLeaf_def P4SwitchApp_GeneratePacketToAddress_def Let_def emit_def)
qed

theorem generate_reaches_leaf_witness:
  "cx_eff (P4SwitchApp_GeneratePacketToLeaf env0 (2, 8) (plan_address parse_quad 8 (HostNode 3 1 2)) (cx0 GW_LEAF))
     = (if plan_address parse_quad 8 (LeafNode 3 0 1) = 50 then []
        else [SendTo ((Packet_create 64)\<lparr>pkt_evict := Some \<lparr>et_key = 2, et_val = 8\<rparr>\<rparr>)
                (plan_address parse_quad 8 (LeafNode 3 0 1)) SWITCH_PORT])"
  using generate_reaches_leaf [of env0 "cx0 GW_LEAF" 8 3 1 2 _ _ "(2, 8)", OF _ _ _ _ _ _ refl refl]
  by (simp add: env0_def parse_quad_dotted cx0_def sw0_def del: plan_address.simps)

end
