(* ===== verification/Gateway.thy ===== *)
theory Gateway
  imports Packets
begin

text \<open>
  \<^verbatim>\<open>gateway-app.cc\<close>: the software gateway that holds the authoritative address table. It
  translates every packet it receives, whatever the switches did, and sends it on after 40
  microseconds without the tags of the switch protocol. \<open>vtp\<close> is \<open>*m_virtualToPhysical\<close>.
\<close>

section \<open>Operations\<close>

text \<open>A scheduled \<open>SendPacket\<close>: its delay in nanoseconds, the packet and the inner header.\<close>

type_synonym gw_event = "nat \<times> Packet \<times> Ipv4Header"

definition GatewayApp_handle :: "(u32 \<rightharpoonup> u32) \<Rightarrow> Packet \<Rightarrow> gw_event res" where
  "GatewayApp_handle vtp packet =
     bindE (RemoveIp packet) (\<lambda>(outterHeader, p).
     bindE (RemoveUdp p) (\<lambda>(udpHeader, p).
     bindE (RemoveIp p) (\<lambda>(innerHeader, p).
       case vtp (ip_dst innerHeader) of
         None \<Rightarrow> Inl KeyNotFound
       | Some physical_addr_int \<Rightarrow>
           Inr (40000,
             AddHeader (HIp (outterHeader\<lparr>ip_dst := physical_addr_int\<rparr>))
               (AddHeader (HUdp udpHeader) (AddHeader (HIp innerHeader) p)),
             innerHeader))))"

text \<open>The loop over \<open>socket->Recv ()\<close>, on the packets it returns before it returns null.\<close>

fun GatewayApp_ReceivePacket :: "(u32 \<rightharpoonup> u32) \<Rightarrow> Packet list \<Rightarrow> gw_event list res" where
  "GatewayApp_ReceivePacket vtp [] = Inr []"
| "GatewayApp_ReceivePacket vtp (packet # ps) =
     bindE (GatewayApp_handle vtp packet) (\<lambda>e.
     bindE (GatewayApp_ReceivePacket vtp ps) (\<lambda>es. Inr (e # es)))"

text \<open>The packet handed to the socket and the virtual address given to the \<open>Rx\<close> trace.\<close>

definition GatewayApp_SendPacket :: "Packet \<Rightarrow> Ipv4Header \<Rightarrow> Packet \<times> u32" where
  "GatewayApp_SendPacket packet innerHeader =
     (let packet = packet\<lparr>pkt_evict := None\<rparr>; packet = packet\<lparr>pkt_inval := None\<rparr>
      in (packet, ip_dst innerHeader))"

section \<open>Behaviour\<close>

definition tunnelled :: "Packet \<Rightarrow> Ipv4Header \<Rightarrow> UdpHeader \<Rightarrow> Ipv4Header \<Rightarrow> header list \<Rightarrow> bool" where
  "tunnelled p outer u inner hs \<longleftrightarrow> pkt_headers p = HIp outer # HUdp u # HIp inner # hs"

text \<open>What the gateway sends for a packet.\<close>

definition gw_output :: "(u32 \<rightharpoonup> u32) \<Rightarrow> Packet \<Rightarrow> Packet option" where
  "gw_output vtp p =
     (case pkt_headers p of
        HIp outer # HUdp u # HIp inner # hs \<Rightarrow>
          (case vtp (ip_dst inner) of
             None \<Rightarrow> None
           | Some a \<Rightarrow> Some (p\<lparr>pkt_headers := HIp (outer\<lparr>ip_dst := a\<rparr>) # HUdp u # HIp inner # hs,
                              pkt_evict := None, pkt_inval := None\<rparr>))
      | _ \<Rightarrow> None)"

lemma GatewayApp_handle_tunnelled:
  "tunnelled p outer u inner hs \<Longrightarrow> GatewayApp_handle vtp p =
     (case vtp (ip_dst inner) of None \<Rightarrow> Inl KeyNotFound
      | Some a \<Rightarrow> Inr (40000, p\<lparr>pkt_headers := HIp (outer\<lparr>ip_dst := a\<rparr>) # HUdp u # HIp inner # hs\<rparr>, inner))"
  by (simp add: tunnelled_def GatewayApp_handle_def RemoveIp_def RemoveUdp_def AddHeader_def
      split: option.splits)

lemma GatewayApp_handle_output:
  "gw_output vtp p = Some q \<longleftrightarrow>
   (\<exists>p' inner. GatewayApp_handle vtp p = Inr (40000, p', inner) \<and> q = fst (GatewayApp_SendPacket p' inner))"
  by (auto simp: gw_output_def GatewayApp_handle_def GatewayApp_SendPacket_def RemoveIp_def RemoveUdp_def
      AddHeader_def split: list.splits header.splits option.splits)

lemma GatewayApp_handle_delay: "GatewayApp_handle vtp p = Inr (t, p', inner) \<Longrightarrow> t = 40000"
  by (auto simp: GatewayApp_handle_def Let_def elim!: bindE_InrE split: option.splits)

lemma gw_output_eq_Some:
  "gw_output vtp p = Some q \<longleftrightarrow> (\<exists>outer u inner hs a. tunnelled p outer u inner hs \<and> vtp (ip_dst inner) = Some a \<and>
     q = p\<lparr>pkt_headers := HIp (outer\<lparr>ip_dst := a\<rparr>) # HUdp u # HIp inner # hs, pkt_evict := None, pkt_inval := None\<rparr>)"
  by (auto simp: gw_output_def tunnelled_def split: list.splits header.splits option.splits)

lemma gw_output_tunnelled:
  "tunnelled p outer u inner hs \<Longrightarrow> gw_output vtp p =
     (case vtp (ip_dst inner) of None \<Rightarrow> None
      | Some a \<Rightarrow> Some (p\<lparr>pkt_headers := HIp (outer\<lparr>ip_dst := a\<rparr>) # HUdp u # HIp inner # hs,
                         pkt_evict := None, pkt_inval := None\<rparr>))"
  by (simp add: tunnelled_def gw_output_def)

text \<open>A batch of packets: each is scheduled once, in order, and sent as \<open>gw_output\<close> says.\<close>

lemma GatewayApp_ReceivePacket_all:
  "\<forall>p \<in> set ps. gw_output vtp p \<noteq> None \<Longrightarrow>
   returns (GatewayApp_ReceivePacket vtp ps) (\<lambda>es.
     map (\<lambda>(t, p, inner). Some (fst (GatewayApp_SendPacket p inner))) es = map (gw_output vtp) ps \<and>
     (\<forall>e \<in> set es. fst e = 40000))"
proof (induction ps)
  case (Cons p ps)
  then obtain q where "gw_output vtp p = Some q" by auto
  moreover from this obtain p' inner where "GatewayApp_handle vtp p = Inr (40000, p', inner)"
      "q = fst (GatewayApp_SendPacket p' inner)"
    by (auto simp: GatewayApp_handle_output)
  ultimately show ?case
    using Cons by (auto simp: returns_bind_iff elim!: returns_mono)
qed simp

lemma GatewayApp_ReceivePacket_unknown:
  assumes "\<forall>p \<in> set ps. gw_output vtp p \<noteq> None" and "tunnelled p outer u inner hs"
    and "vtp (ip_dst inner) = None"
  shows "GatewayApp_ReceivePacket vtp (ps @ p # qs) = Inl KeyNotFound"
  using assms(1)
proof (induction ps)
  case Nil
  with assms show ?case by (simp add: GatewayApp_handle_tunnelled)
next
  case (Cons x xs)
  then have "\<exists>e. GatewayApp_handle vtp x = Inr e"
    using GatewayApp_handle_output [of vtp x] by fastforce
  with Cons show ?case by auto
qed

section \<open>Properties\<close>

text \<open>C32: The gateway has the last word. Every packet of a batch whose container is in the address table is
  scheduled exactly once, in order and 40 microseconds ahead, and is sent to the address the table has, with
  its inner packet, its outer source and its hit tag as they were and without the switches' eviction and
  invalidation tags.\<close>

theorem gateway_translates_batch:
  assumes "\<forall>p \<in> set ps. \<exists>outer u inner hs. tunnelled p outer u inner hs \<and> vtp (ip_dst inner) \<noteq> None"
  shows "\<exists>es. GatewayApp_ReceivePacket vtp ps = Inr es \<and> (\<forall>e \<in> set es. fst e = 40000) \<and>
           list_all2 (\<lambda>p e. \<exists>outer u inner hs a. tunnelled p outer u inner hs \<and> vtp (ip_dst inner) = Some a \<and>
             GatewayApp_SendPacket (fst (snd e)) (snd (snd e)) =
               (p\<lparr>pkt_headers := HIp (outer\<lparr>ip_dst := a\<rparr>) # HUdp u # HIp inner # hs,
                  pkt_evict := None, pkt_inval := None\<rparr>, ip_dst inner)) ps es"
  using assms
proof (induction ps)
  case (Cons p ps)
  then obtain outer u inner hs a where p: "tunnelled p outer u inner hs" "vtp (ip_dst inner) = Some a"
    by auto
  obtain es where es: "GatewayApp_ReceivePacket vtp ps = Inr es" "\<forall>e \<in> set es. fst e = 40000"
      "list_all2 (\<lambda>p e. \<exists>outer u inner hs a. tunnelled p outer u inner hs \<and> vtp (ip_dst inner) = Some a \<and>
             GatewayApp_SendPacket (fst (snd e)) (snd (snd e)) =
               (p\<lparr>pkt_headers := HIp (outer\<lparr>ip_dst := a\<rparr>) # HUdp u # HIp inner # hs,
                  pkt_evict := None, pkt_inval := None\<rparr>, ip_dst inner)) ps es"
    using Cons by auto
  let ?e = "(40000, p\<lparr>pkt_headers := HIp (outer\<lparr>ip_dst := a\<rparr>) # HUdp u # HIp inner # hs\<rparr>, inner) :: gw_event"
  have "GatewayApp_ReceivePacket vtp (p # ps) = Inr (?e # es)"
    using p es(1) by (simp add: GatewayApp_handle_tunnelled)
  moreover have "GatewayApp_SendPacket (fst (snd ?e)) (snd (snd ?e)) =
      (p\<lparr>pkt_headers := HIp (outer\<lparr>ip_dst := a\<rparr>) # HUdp u # HIp inner # hs, pkt_evict := None, pkt_inval := None\<rparr>,
       ip_dst inner)"
    by (simp add: GatewayApp_SendPacket_def)
  ultimately show ?case
    using p es(2,3) by (intro exI [of _ "?e # es"]) (simp, blast)
qed simp

definition gw_pkt0 :: Packet where
  "gw_pkt0 = (Packet_create 10)\<lparr>pkt_headers := [HIp \<lparr>ip_src = 8, ip_dst = 900, ip_ttl = 60\<rparr>,
     HUdp \<lparr>udp_sport = 667, udp_dport = 667\<rparr>, HIp \<lparr>ip_src = 2, ip_dst = 1, ip_ttl = 64\<rparr>]\<rparr>"

theorem gateway_translates_batch_witness:
  "\<exists>es. GatewayApp_ReceivePacket [1 \<mapsto> 9] [gw_pkt0, gw_pkt0] = Inr es \<and> map fst es = [40000, 40000]"
proof -
  have "\<forall>p \<in> set [gw_pkt0, gw_pkt0]. \<exists>outer u inner hs. tunnelled p outer u inner hs \<and> [1 \<mapsto> 9] (ip_dst inner) \<noteq> None"
    by (simp add: tunnelled_def gw_pkt0_def)
  from gateway_translates_batch [OF this]
  have "\<exists>es. GatewayApp_ReceivePacket [1 \<mapsto> 9] [gw_pkt0, gw_pkt0] = Inr es \<and> (\<forall>e \<in> set es. fst e = 40000) \<and>
      length [gw_pkt0, gw_pkt0] = length es"
    by (blast dest: list_all2_lengthD)
  then obtain es where "GatewayApp_ReceivePacket [1 \<mapsto> 9] [gw_pkt0, gw_pkt0] = Inr es"
      "\<forall>e \<in> set es. fst e = 40000" "length es = Suc (Suc 0)"
    by (metis length_Cons list.size(3))
  then show ?thesis
    by (intro exI [of _ es]) (auto simp: length_Suc_conv)
qed

text \<open>A packet for a container the table does not know stops the gateway: the \<open>at\<close> that follows the
  logged warning throws, and with it the rest of the batch.\<close>

theorem gateway_unknown_container:
  assumes "\<forall>p \<in> set ps. gw_output vtp p \<noteq> None" and "tunnelled p outer u inner hs"
    and "vtp (ip_dst inner) = None"
  shows "GatewayApp_ReceivePacket vtp (ps @ p # qs) = Inl KeyNotFound"
  by (rule GatewayApp_ReceivePacket_unknown [OF assms])

theorem gateway_unknown_container_witness:
  "GatewayApp_ReceivePacket [5 \<mapsto> 9] ([] @ gw_pkt0 # [gw_pkt0]) = Inl KeyNotFound"
  by (rule gateway_unknown_container) (auto simp: tunnelled_def gw_pkt0_def)

end
