(* ===== verification/Socket_Helper.thy ===== *)
theory Socket_Helper
  imports P4_Switch
begin

text \<open>
  \<^verbatim>\<open>socket-helper.cc\<close>: the tunnel endpoint of a host. A packet of a container leaves through
  \<open>VirtualSend\<close>, normally towards a gateway; a packet that arrives for a container that has moved
  away comes back to \<open>VirtualSend\<close> with a decremented TTL, is tagged as misdelivered and is sent
  again. The address table, the misdelivery counters and the on-demand cache are shared with the
  simulation and are part of the state here. \<open>flow0\<close> is the content of a default-constructed
  \<open>FlowIdTag\<close> and \<open>now\<close> the simulation time.
\<close>

section \<open>Data\<close>

record SocketHelper =
  sh_virtualToPhysical :: "u32 \<rightharpoonup> u32"
  sh_misdeliveryCount :: u32
  sh_lastMisdelivered :: nat
  sh_onDemandCache :: "u32 set"
  sh_gatewayAddresses :: "u32 list"
  sh_gatewayRange :: nat
  sh_gatewayPerFlowLoadBalancing :: bool
  sh_firstPacket :: bool
  sh_simParams :: SimulationParameters
  sh_migrationParams :: MigrationParams
  sh_physicalAddress :: u32

definition PORT_NUMBER :: u16 where
  "PORT_NUMBER = 667"

text \<open>What a host does: send on its tunnel socket, schedule one of the two send functions, or hand a
  packet to its virtual device.\<close>

datatype host_effect =
    HostSendTo Packet u32 u16
  | ScheduleSendToGateway nat Packet u32
  | ScheduleSendFollowMeRule nat Packet Ipv4Header bool
  | VirtualReceive Packet

definition PeekIp :: "Packet \<Rightarrow> Ipv4Header res" where
  "PeekIp p = (case pkt_headers p of HIp h # _ \<Rightarrow> Inr h | _ \<Rightarrow> Inl BadHeader)"

section \<open>Operations\<close>

definition SocketHelper_new ::
  "(u32 \<rightharpoonup> u32) \<Rightarrow> u32 \<Rightarrow> nat \<Rightarrow> bool \<Rightarrow> SimulationParameters \<Rightarrow> MigrationParams \<Rightarrow> u32 \<Rightarrow> SocketHelper" where
  "SocketHelper_new vtp misdeliveryCount lastMisdelivered perFlow simParams migrationParams uninit =
     \<lparr>sh_virtualToPhysical = vtp, sh_misdeliveryCount = misdeliveryCount,
      sh_lastMisdelivered = lastMisdelivered, sh_onDemandCache = {}, sh_gatewayAddresses = [],
      sh_gatewayRange = 0, sh_gatewayPerFlowLoadBalancing = perFlow, sh_firstPacket = True,
      sh_simParams = simParams, sh_migrationParams = migrationParams, sh_physicalAddress = uninit\<rparr>"

text \<open>Without a misdelivery the destination is read with \<open>operator[]\<close>, which inserts the address 0
  for an unknown container.\<close>

definition SocketHelper_SendFollowMeRule ::
  "ns3_env \<Rightarrow> Packet \<Rightarrow> Ipv4Header \<Rightarrow> bool \<Rightarrow> SocketHelper \<Rightarrow> (SocketHelper \<times> host_effect list) res" where
  "SocketHelper_SendFollowMeRule E packet ipHeader misdelivery sh =
     (let m = sh_migrationParams sh; width = PodWidth (sh_simParams sh) in
      if misdelivery
      then if width = 0 then Inl DivideByZero
           else Inr (sh, [HostSendTo packet
             (IpUtils_GetNodePhysicalAddress (env_ipv4 E) (word_of_nat (unat (mig_dstLeaf m) div width))
                (word_of_nat (unat (mig_dstLeaf m) mod width)) (mig_dstHost m)) PORT_NUMBER])
      else (case sh_virtualToPhysical sh (ip_dst ipHeader) of
              Some a \<Rightarrow> Inr (sh, [HostSendTo packet a PORT_NUMBER])
            | None \<Rightarrow>
                Inr (sh\<lparr>sh_virtualToPhysical := (sh_virtualToPhysical sh)(ip_dst ipHeader \<mapsto> 0)\<rparr>,
                     [HostSendTo packet 0 PORT_NUMBER])))"

definition SocketHelper_SendToGateway :: "Packet \<Rightarrow> u32 \<Rightarrow> SocketHelper \<Rightarrow> host_effect list res" where
  "SocketHelper_SendToGateway packet gwIdx sh =
     bindE (vec_at (sh_gatewayAddresses sh) (unat gwIdx)) (\<lambda>a. Inr [HostSendTo packet a PORT_NUMBER])"

text \<open>\<open>size () - 1\<close> is the largest \<open>size_t\<close> when there is no gateway.\<close>

definition SocketHelper_GetGatewayIdx ::
  "ns3_env \<Rightarrow> u32 \<Rightarrow> Packet \<Rightarrow> Ipv4Header \<Rightarrow> SocketHelper \<Rightarrow> u32 res" where
  "SocketHelper_GetGatewayIdx E flow0 packet header sh =
     (let n = length (sh_gatewayAddresses sh) in
      if sh_gatewayPerFlowLoadBalancing sh
      then let flowId = (case pkt_flowId packet of Some f \<Rightarrow> f | None \<Rightarrow> flow0) in
           if n = 0 then Inl DivideByZero
           else Inr (word_of_nat (unat (env_crc E (le_bytes32 flowId)) mod n))
      else if sh_gatewayRange sh = 0 then Inl DivideByZero
      else Inr (word_of_nat (min (unat (ip_dst header) div sh_gatewayRange sh)
                                 (if n = 0 then 2 ^ 64 - 1 else n - 1))))"

definition SocketHelper_VirtualSend ::
  "ns3_env \<Rightarrow> u32 \<Rightarrow> nat \<Rightarrow> Packet \<Rightarrow> SocketHelper \<Rightarrow> (bool \<times> SocketHelper \<times> host_effect list) res" where
  "SocketHelper_VirtualSend E flow0 now packet sh =
     (let mode = SimMode (sh_simParams sh);
          sh = (if mig_migration (sh_migrationParams sh) \<and> mode = OnDemand
                then sh\<lparr>sh_onDemandCache := insert (IpUtils_GetContainerVirtualAddress
                          (mig_containerId (sh_migrationParams sh))) (sh_onDemandCache sh)\<rparr>
                else sh) in
      bindE (PeekIp packet) (\<lambda>header.
      bindE (SocketHelper_GetGatewayIdx E flow0 packet header sh) (\<lambda>gwIdx.
        if ip_ttl header < 64
        then bindE (AddInvalidationTag \<lparr>it_key = ip_dst header, it_val = sh_physicalAddress sh\<rparr> packet)
               (\<lambda>packet.
               let sh = sh\<lparr>sh_misdeliveryCount := sh_misdeliveryCount sh + 1,
                           sh_lastMisdelivered := max now (sh_lastMisdelivered sh)\<rparr> in
               case pkt_hit packet of
                 Some _ \<Rightarrow> Inr (True, sh, [ScheduleSendToGateway 10000 packet gwIdx])
               | None \<Rightarrow> Inr (True, sh, [ScheduleSendFollowMeRule 10000 packet header True]))
        else if mode = Direct
        then bindE (SocketHelper_SendFollowMeRule E packet header False sh) (\<lambda>(sh, es). Inr (True, sh, es))
        else if mode = OnDemand \<and> ip_dst header \<in> sh_onDemandCache sh
        then bindE (if sh_firstPacket sh
                    then Inr (sh, [ScheduleSendFollowMeRule 40000 packet header False])
                    else SocketHelper_SendFollowMeRule E packet header False sh)
               (\<lambda>(sh, es). Inr (True, sh\<lparr>sh_firstPacket := False\<rparr>, es))
        else bindE (vec_at (sh_gatewayAddresses sh) (unat gwIdx)) (\<lambda>a.
               Inr (True, sh, [HostSendTo packet a PORT_NUMBER])))))"

definition SocketHelper_SocketRecv :: "Packet \<Rightarrow> SocketHelper \<Rightarrow> (SocketHelper \<times> host_effect list) res" where
  "SocketHelper_SocketRecv packet sh =
     (if SimMode (sh_simParams sh) = OnDemand
      then bindE (PeekIp packet) (\<lambda>header.
             Inr (sh\<lparr>sh_onDemandCache := insert (ip_dst header) (insert (ip_src header) (sh_onDemandCache sh))\<rparr>,
                  [VirtualReceive packet]))
      else Inr (sh, [VirtualReceive packet]))"

section \<open>The choice of a gateway\<close>

definition sh_wf :: "SocketHelper \<Rightarrow> bool" where
  "sh_wf sh \<longleftrightarrow> sh_gatewayAddresses sh \<noteq> [] \<and> length (sh_gatewayAddresses sh) < 2 ^ 32 \<and>
     0 < sh_gatewayRange sh \<and> 0 < PodWidth (sh_simParams sh)"

text \<open>The index the code means, as a number.\<close>

definition gw_index :: "ns3_env \<Rightarrow> u32 \<Rightarrow> Packet \<Rightarrow> Ipv4Header \<Rightarrow> SocketHelper \<Rightarrow> nat" where
  "gw_index E flow0 packet header sh =
     (if sh_gatewayPerFlowLoadBalancing sh
      then unat (env_crc E (le_bytes32 (case pkt_flowId packet of Some f \<Rightarrow> f | None \<Rightarrow> flow0)))
             mod length (sh_gatewayAddresses sh)
      else min (unat (ip_dst header) div sh_gatewayRange sh) (length (sh_gatewayAddresses sh) - 1))"

lemma gw_index_bound:
  assumes "sh_wf sh"
  shows "gw_index E flow0 p h sh < length (sh_gatewayAddresses sh)"
proof -
  have "0 < length (sh_gatewayAddresses sh)"
    using assms by (simp add: sh_wf_def)
  then show ?thesis
    by (auto simp: gw_index_def min_less_iff_disj)
qed

lemma GetGatewayIdx_index:
  assumes "sh_wf sh"
  shows "\<exists>i. SocketHelper_GetGatewayIdx E flow0 p h sh = Inr i \<and> unat i = gw_index E flow0 p h sh"
proof -
  have "gw_index E flow0 p h sh < 4294967296"
    using gw_index_bound [OF assms, of E flow0 p h] assms by (simp add: sh_wf_def)
  then show ?thesis
    using assms by (auto simp: SocketHelper_GetGatewayIdx_def gw_index_def sh_wf_def Let_def)
qed

lemma SendToGateway_index:
  assumes "sh_wf sh" and "SocketHelper_GetGatewayIdx E flow0 p h sh = Inr i"
  shows "SocketHelper_SendToGateway q i sh =
           Inr [HostSendTo q (sh_gatewayAddresses sh ! gw_index E flow0 p h sh) PORT_NUMBER]"
  using GetGatewayIdx_index [OF assms(1), of E flow0 p h] gw_index_bound [OF assms(1), of E flow0 p h] assms(2)
  by (auto simp: SocketHelper_SendToGateway_def)

text \<open>The static split of the containers: every gateway but the last serves exactly one range.\<close>

lemma div_block:
  assumes "0 < (r :: nat)"
  shows "{d. d div r = i} = {i * r ..< i * r + r}"
proof (intro set_eqI)
  fix d :: nat
  have "d div r = i \<longleftrightarrow> i \<le> d div r \<and> d div r < Suc i"
    by auto
  also have "\<dots> \<longleftrightarrow> i * r \<le> d \<and> d < Suc i * r"
    using assms by (simp only: less_eq_div_iff_mult_less_eq div_less_iff_less_mult)
  finally show "d \<in> {d. d div r = i} \<longleftrightarrow> d \<in> {i * r ..< i * r + r}"
    by (simp add: add.commute)
qed

section \<open>Sending\<close>

text \<open>The two branches of \<open>VirtualSend\<close> the switches depend on: a fresh packet in a mode that
  resolves addresses in the network, and a misdelivered one.\<close>

lemma VirtualSend_fresh:
  assumes "sh_wf sh" and "pkt_headers p = HIp h # hs" and "64 \<le> ip_ttl h"
    and "SimMode (sh_simParams sh) \<noteq> Direct" and "SimMode (sh_simParams sh) \<noteq> OnDemand"
  shows "SocketHelper_VirtualSend E flow0 now p sh =
           Inr (True, sh, [HostSendTo p (sh_gatewayAddresses sh ! gw_index E flow0 p h sh) PORT_NUMBER])"
  using GetGatewayIdx_index [OF assms(1), of E flow0 p h] gw_index_bound [OF assms(1), of E flow0 p h] assms
  by (auto simp: SocketHelper_VirtualSend_def PeekIp_def Let_def)

definition misdelivered :: "SocketHelper \<Rightarrow> Ipv4Header \<Rightarrow> Packet \<Rightarrow> Packet" where
  "misdelivered sh h p = p\<lparr>pkt_inval := Some \<lparr>it_key = ip_dst h, it_val = sh_physicalAddress sh\<rparr>\<rparr>"

lemma GetGatewayIdx_onDemand [simp]:
  "SocketHelper_GetGatewayIdx E flow0 p h (sh\<lparr>sh_onDemandCache := c\<rparr>) =
   SocketHelper_GetGatewayIdx E flow0 p h sh"
  by (simp add: SocketHelper_GetGatewayIdx_def Let_def)

lemma VirtualSend_misdelivered:
  assumes "sh_wf sh" and "pkt_headers p = HIp h # hs" and "ip_ttl h < 64" and "pkt_inval p = None"
  shows "returns (SocketHelper_VirtualSend E flow0 now p sh) (\<lambda>(r, sh', es). r \<and>
     (\<exists>c. sh' = sh\<lparr>sh_onDemandCache := c, sh_misdeliveryCount := sh_misdeliveryCount sh + 1,
                  sh_lastMisdelivered := max now (sh_lastMisdelivered sh)\<rparr>) \<and>
     (\<exists>i. unat i = gw_index E flow0 p h sh \<and>
       es = (if pkt_hit p = None then [ScheduleSendFollowMeRule 10000 (misdelivered sh h p) h True]
             else [ScheduleSendToGateway 10000 (misdelivered sh h p) i])))"
proof -
  obtain i where "SocketHelper_GetGatewayIdx E flow0 p h sh = Inr i" "unat i = gw_index E flow0 p h sh"
    using GetGatewayIdx_index [OF assms(1)] by blast
  then show ?thesis
    using assms(2-4)
    by (cases "pkt_hit p")
       (auto simp: SocketHelper_VirtualSend_def PeekIp_def AddInvalidationTag_def misdelivered_def Let_def
         intro: exI [of _ "sh_onDemandCache sh"])
qed

text \<open>A packet that is misdelivered while it carries the tag of an earlier misdelivery is fatal.\<close>

lemma VirtualSend_tagged:
  assumes "sh_wf sh" and "pkt_headers p = HIp h # hs" and "ip_ttl h < 64" and "pkt_inval p = Some t"
  shows "SocketHelper_VirtualSend E flow0 now p sh = Inl DuplicateTag"
  using GetGatewayIdx_index [OF assms(1), of E flow0 p h] assms(2-4)
  by (auto simp: SocketHelper_VirtualSend_def PeekIp_def AddInvalidationTag_def Let_def)

lemma SendFollowMeRule_one_effect:
  "SocketHelper_SendFollowMeRule E p h m sh = Inr (sh', es) \<Longrightarrow> length es = 1"
  by (auto simp: SocketHelper_SendFollowMeRule_def Let_def split: if_splits option.splits)

lemma VirtualSend_one_effect:
  assumes "SocketHelper_VirtualSend E flow0 now p sh = Inr (r, sh', es)"
  shows "r \<and> length es = 1"
  using assms unfolding SocketHelper_VirtualSend_def Let_def
  by (elim bindE_InrE) (auto elim!: bindE_InrE split: if_splits option.splits dest: SendFollowMeRule_one_effect)

section \<open>Properties\<close>

definition sim0 :: SimulationParameters where
  "sim0 = \<lparr>SimMode = SwitchV2P, NetworkTopology = FATTREE, NumOfPorts = 4, NumOfCore = 4, PodWidth = 2,
     GatewayLeaves = [0], RandomRouting = False, GatewayPerFlowLoadBalancing = False, UdpMode = True\<rparr>"

definition mig0 :: MigrationParams where
  "mig0 = \<lparr>mig_migration = True, mig_containerId = 1, mig_dstLeaf = 3, mig_dstHost = 0, mig_ts = 5\<rparr>"

definition sh0 :: SocketHelper where
  "sh0 = (SocketHelper_new [1 \<mapsto> 9, 2 \<mapsto> 8] 0 0 False sim0 mig0 0)\<lparr>sh_gatewayAddresses := [900, 901],
     sh_gatewayRange := 5, sh_physicalAddress := 9\<rparr>"

lemma sh0_wf: "sh_wf sh0"
  by (simp add: sh_wf_def sh0_def SocketHelper_new_def sim0_def)

definition sh_env0 :: ns3_env where
  "sh_env0 = \<lparr>env_crc = byte_sum, env_ipv4 = parse_quad, env_uninit = 0, env_txTime = (\<lambda>rate n. n),
     env_fits = (\<lambda>cap q p. length q < cap)\<rparr>"

definition host_pkt0 :: "u8 \<Rightarrow> Packet" where
  "host_pkt0 ttl = (Packet_create 10)\<lparr>pkt_headers := [HIp \<lparr>ip_src = 2, ip_dst = 1, ip_ttl = ttl\<rparr>]\<rparr>"

text \<open>The chosen gateway exists. With a configured endpoint, the index \<open>GetGatewayIdx\<close> computes, in
  either mode of load balancing, is one \<open>SendToGateway\<close> can use, and the packet goes to a gateway; with a
  gateway range of 0, which fewer containers than gateways give, the static split divides by zero.\<close>

theorem gateway_index_in_range:
  assumes "sh_wf sh"
  shows "\<exists>i. SocketHelper_GetGatewayIdx E flow0 p h sh = Inr i \<and>
           (\<exists>g \<in> set (sh_gatewayAddresses sh). SocketHelper_SendToGateway q i sh = Inr [HostSendTo q g PORT_NUMBER]) \<and>
           (\<not> sh_gatewayPerFlowLoadBalancing sh \<longrightarrow>
              SocketHelper_GetGatewayIdx E flow0 p h (sh\<lparr>sh_gatewayRange := 0\<rparr>) = Inl DivideByZero)"
proof -
  obtain i where i: "SocketHelper_GetGatewayIdx E flow0 p h sh = Inr i"
    using GetGatewayIdx_index [OF assms] by blast
  have "sh_gatewayAddresses sh ! gw_index E flow0 p h sh \<in> set (sh_gatewayAddresses sh)"
    using gw_index_bound [OF assms] by simp
  with SendToGateway_index [OF assms i, of q] i show ?thesis
    by (auto simp: SocketHelper_GetGatewayIdx_def [of E flow0 p h "sh\<lparr>sh_gatewayRange := 0\<rparr>"])
qed

theorem gateway_index_in_range_witness:
  "\<exists>i. SocketHelper_GetGatewayIdx sh_env0 0 (host_pkt0 64) \<lparr>ip_src = 2, ip_dst = 7, ip_ttl = 64\<rparr> sh0 = Inr i \<and>
     (\<exists>g \<in> {900, 901}. SocketHelper_SendToGateway (host_pkt0 64) i sh0 = Inr [HostSendTo (host_pkt0 64) g PORT_NUMBER])"
  using gateway_index_in_range [OF sh0_wf, of sh_env0 0 "host_pkt0 64" "\<lparr>ip_src = 2, ip_dst = 7, ip_ttl = 64\<rparr>" "host_pkt0 64"]
  by (auto simp: sh0_def)

text \<open>How many of the first \<open>N\<close> numbers a range split gives to slot \<open>i\<close> of \<open>n\<close>.\<close>

lemma range_split_card:
  fixes N n i :: nat
  assumes "0 < N div n" and "i < n"
  shows "card {m. m < N \<and> min (m div (N div n)) (n - 1) = i} =
           (if i < n - 1 then N div n else N - (n - 1) * (N div n))"
proof -
  let ?r = "N div n"
  have total: "n * ?r \<le> N"
    by (simp add: mult.commute div_times_less_eq_dividend)
  show ?thesis
  proof (cases "i < n - 1")
    case True
    have "Suc i * ?r \<le> n * ?r"
      using True by (intro mult_le_mono1) simp
    have "m < N" if "m div ?r = i" for m
    proof -
      have "m \<in> {i * ?r ..< i * ?r + ?r}"
        using that div_block [OF assms(1), of i] by blast
      then have "m < Suc i * ?r"
        by simp
      with \<open>Suc i * ?r \<le> n * ?r\<close> total show ?thesis
        by linarith
    qed
    then have "{m. m < N \<and> min (m div ?r) (n - 1) = i} = {m. m div ?r = i}"
      using True by (auto simp: min_def)
    then show ?thesis
      using True by (simp add: div_block [OF assms(1)])
  next
    case False
    then have "i = n - 1" using assms(2) by simp
    then have "min (m div ?r) (n - 1) = i \<longleftrightarrow> (n - 1) * ?r \<le> m" for m
      by (simp only: min.absorb_iff2 [symmetric] less_eq_div_iff_mult_less_eq [OF assms(1)])
    then have "{m. m < N \<and> min (m div ?r) (n - 1) = i} = {(n - 1) * ?r ..< N}"
      by (simp only: set_eq_iff mem_Collect_eq atLeastLessThan_iff) blast
    then show ?thesis
      using False by simp
  qed
qed

text \<open>The static split is balanced. With \<open>N\<close> containers over \<open>n\<close> gateways and the range
  \<open>SetupTunnel\<close> computes, every gateway but the last serves exactly \<open>N div n\<close> containers and the last
  one the rest.\<close>

theorem gateway_split_balanced:
  assumes "sh_wf sh" and "\<not> sh_gatewayPerFlowLoadBalancing sh" and "n = length (sh_gatewayAddresses sh)"
    and "sh_gatewayRange sh = N div n" and "N \<le> 2 ^ 32" and "i < n"
  shows "card {d. unat d < N \<and>
             SocketHelper_GetGatewayIdx E flow0 p \<lparr>ip_src = s, ip_dst = d, ip_ttl = t\<rparr> sh = Inr (word_of_nat i)} =
         (if i < n - 1 then N div n else N - (n - 1) * (N div n))"
proof -
  have r: "0 < N div n" and n: "0 < n" "n < 2 ^ 32"
    using assms(1,3,4) by (auto simp: sh_wf_def)
  have idx: "SocketHelper_GetGatewayIdx E flow0 p \<lparr>ip_src = s, ip_dst = d, ip_ttl = t\<rparr> sh = Inr (word_of_nat i) \<longleftrightarrow>
      min (unat d div (N div n)) (n - 1) = i" for d
  proof -
    have "min (unat d div (N div n)) (n - 1) < 4294967296" "i < 4294967296"
      using n assms(6) by (auto simp: min_less_iff_disj)
    then have "(word_of_nat (min (unat d div (N div n)) (n - 1)) = (word_of_nat i :: u32)) \<longleftrightarrow>
        min (unat d div (N div n)) (n - 1) = i"
      by (metis unat_word_of_nat)
    then show ?thesis
      using assms(2-4) r n by (simp add: SocketHelper_GetGatewayIdx_def Let_def)
  qed
  let ?M = "{m. m < N \<and> min (m div (N div n)) (n - 1) = i}"
  have img: "unat ` {d :: u32. unat d < N \<and> min (unat d div (N div n)) (n - 1) = i} = ?M"
  proof (intro equalityI subsetI)
    fix m assume "m \<in> ?M"
    moreover from this have "unat (word_of_nat m :: u32) = m"
      using assms(5) by simp
    ultimately show "m \<in> unat ` {d :: u32. unat d < N \<and> min (unat d div (N div n)) (n - 1) = i}"
      by (intro image_eqI [of _ _ "word_of_nat m"]) auto
  qed auto
  have inj: "inj_on unat {d :: u32. unat d < N \<and> min (unat d div (N div n)) (n - 1) = i}"
    by (meson inj_onI word_unat_eq_iff)
  show ?thesis
    unfolding idx by (rule trans [OF card_image [OF inj, unfolded img, symmetric] range_split_card [OF r assms(6)]])
qed

theorem gateway_split_balanced_witness:
  "card {d. unat d < 11 \<and> SocketHelper_GetGatewayIdx sh_env0 0 (host_pkt0 64)
     \<lparr>ip_src = 2, ip_dst = d, ip_ttl = 64\<rparr> sh0 = Inr (word_of_nat 1)} = 6"
  using gateway_split_balanced [OF sh0_wf, of 2 11 1 sh_env0 0 "host_pkt0 64" 2 64]
  by (simp add: sh0_def SocketHelper_new_def)

text \<open>C33: A misdelivered packet is counted, tagged and sent again exactly once. A packet that comes back
  from the virtual device with a TTL below 64 gets an invalidation tag naming its container and this host,
  the counter goes up by one, and it is scheduled for a gateway if a switch had translated it, and for the
  container's new host otherwise.\<close>

theorem misdelivery_resent:
  assumes "sh_wf sh" and "pkt_headers p = HIp h # hs" and "ip_ttl h < 64" and "pkt_inval p = None"
  shows "\<exists>sh' e. SocketHelper_VirtualSend E flow0 now p sh = Inr (True, sh', [e]) \<and>
           sh_misdeliveryCount sh' = sh_misdeliveryCount sh + 1 \<and>
           sh_lastMisdelivered sh' = max now (sh_lastMisdelivered sh) \<and>
           (let q = p\<lparr>pkt_inval := Some \<lparr>it_key = ip_dst h, it_val = sh_physicalAddress sh\<rparr>\<rparr> in
            if pkt_hit p = None then e = ScheduleSendFollowMeRule 10000 q h True
            else \<exists>i. e = ScheduleSendToGateway 10000 q i \<and> unat i < length (sh_gatewayAddresses sh))"
  using VirtualSend_misdelivered [OF assms, of E flow0 now] gw_index_bound [OF assms(1), of E flow0 p h]
  by (auto simp: returns_def misdelivered_def Let_def split: if_splits)

theorem misdelivery_resent_witness:
  "\<exists>sh' e. SocketHelper_VirtualSend sh_env0 0 77 (host_pkt0 63) sh0 = Inr (True, sh', [e]) \<and>
     sh_misdeliveryCount sh' = 1"
  using misdelivery_resent [OF sh0_wf, of "host_pkt0 63" _ "[]" sh_env0 0 77]
  by (auto simp: host_pkt0_def sh0_def SocketHelper_new_def Packet_create_def)

text \<open>A second misdelivery of a packet that still carries the tag of the first is a duplicate tag, which
  ns-3 does not accept.\<close>

theorem second_misdelivery_fails:
  assumes "sh_wf sh" and "pkt_headers p = HIp h # hs" and "ip_ttl h < 64" and "pkt_inval p \<noteq> None"
  shows "SocketHelper_VirtualSend E flow0 now p sh = Inl DuplicateTag"
  using VirtualSend_tagged [OF assms(1-3)] assms(4) by auto

theorem second_misdelivery_fails_witness:
  "SocketHelper_VirtualSend sh_env0 0 77 ((host_pkt0 63)\<lparr>pkt_inval := Some \<lparr>it_key = 1, it_val = 9\<rparr>\<rparr>) sh0 =
     Inl DuplicateTag"
  using second_misdelivery_fails [OF sh0_wf, of _ "\<lparr>ip_src = 2, ip_dst = 1, ip_ttl = 63\<rparr>" "[]" sh_env0 0 77]
  by (simp add: host_pkt0_def)

end
