(* ===== verification/Network.thy ===== *)
theory Network
  imports P4_Switch_Coherence Gateway Socket_Helper
begin

text \<open>
  The components put together: hosts with their tunnel endpoints, switches running the SwitchV2P or
  LocalLearning logic, gateways, and packets in flight. Any switch may handle any packet at any time,
  which covers every topology, route and timing; a container may migrate once, as in the migration
  experiment. The invariant is about addresses: an entry of a cache, the destination of a data packet
  and the contents of a learning tag are addresses the container has, or had before it migrated, apart from what
  switches learn from the sources of packets that the old host of the migrated container has sent again.
\<close>

section \<open>States and steps\<close>

text \<open>The fixed part: the ns-3 functions, what a UDP socket of a node does with a packet
  (\<open>ne_encap src p dst port\<close>), the gateways, the initial address table, the container that migrates
  and where to, whether any switch learns source addresses, and the number of switch identifiers.\<close>

record net_env =
  ne_env :: ns3_env
  ne_encap :: "u32 \<Rightarrow> Packet \<Rightarrow> u32 \<Rightarrow> u16 \<Rightarrow> Packet"
  ne_gws :: "u32 set"
  ne_vtp0 :: "u32 \<rightharpoonup> u32"
  ne_migrates :: bool
  ne_container :: u32
  ne_target :: u32
  ne_learns :: bool
  ne_nbits :: nat

record Net =
  nt_switches :: "P4Switch list"
  nt_vtp :: "u32 \<rightharpoonup> u32"
  nt_hosts :: "u32 \<Rightarrow> SocketHelper"
  nt_flight :: "Packet list"
  nt_gwq :: "gw_event list"
  nt_pending :: "(u32 \<times> host_effect) list"
  nt_delivered :: "(u32 \<times> Packet) list"

fun sent_packets :: "net_env \<Rightarrow> u32 \<Rightarrow> sw_effect list \<Rightarrow> Packet list" where
  "sent_packets N src [] = []"
| "sent_packets N src (SendTo p a port # es) = ne_encap N src p a port # sent_packets N src es"
| "sent_packets N src (_ # es) = sent_packets N src es"

text \<open>The endpoint of the host at an address, reading the shared table.\<close>

definition nt_host :: "Net \<Rightarrow> u32 \<Rightarrow> SocketHelper" where
  "nt_host s a = (nt_hosts s a)\<lparr>sh_virtualToPhysical := nt_vtp s\<rparr>"

text \<open>What an endpoint hands to the virtual device of its containers.\<close>

fun handed :: "host_effect \<Rightarrow> Packet option" where
  "handed (VirtualReceive q) = Some q"
| "handed _ = None"

inductive net_step :: "net_env \<Rightarrow> Net \<Rightarrow> Net \<Rightarrow> bool" for N where
  send: "\<lbrakk>nt_vtp s (ip_src inner) = Some a; pkt_headers q = HIp inner # hs; 64 \<le> ip_ttl inner;
     pkt_evict q = None; pkt_inval q = None; pkt_hit q = None;
     SocketHelper_VirtualSend (ne_env N) flow0 now q (nt_host s a) = Inr (r, sh, es)\<rbrakk> \<Longrightarrow>
     net_step N s (s\<lparr>nt_hosts := (nt_hosts s)(a := sh), nt_pending := nt_pending s @ map (Pair a) es\<rparr>)"
| transmit: "nt_pending s = xs @ (a, HostSendTo q d port) # ys \<Longrightarrow>
     net_step N s (s\<lparr>nt_pending := xs @ ys, nt_flight := nt_flight s @ [ne_encap N a q d port]\<rparr>)"
| to_gateway: "\<lbrakk>nt_pending s = xs @ (a, ScheduleSendToGateway t q i) # ys;
     SocketHelper_SendToGateway q i (nt_host s a) = Inr es\<rbrakk> \<Longrightarrow>
     net_step N s (s\<lparr>nt_pending := xs @ ys @ map (Pair a) es\<rparr>)"
| follow_me: "\<lbrakk>nt_pending s = xs @ (a, ScheduleSendFollowMeRule t q h m) # ys;
     SocketHelper_SendFollowMeRule (ne_env N) q h m (nt_host s a) = Inr (sh, es)\<rbrakk> \<Longrightarrow>
     net_step N s (s\<lparr>nt_hosts := (nt_hosts s)(a := sh), nt_pending := xs @ ys @ map (Pair a) es\<rparr>)"
| hop: "\<lbrakk>nt_flight s = xs @ p # ys; pkt_headers p = HIp ip # hs; i < length (nt_switches s);
     P4SwitchApp_ReceivePacket (ne_env N) rnd \<lparr>cx_pkt = p\<lparr>pkt_headers := hs\<rparr>, cx_ip = ip,
       cx_sw = nt_switches s ! i, cx_eff = []\<rparr> = Inr (fwd, cx)\<rbrakk> \<Longrightarrow>
     net_step N s (s\<lparr>nt_switches := (nt_switches s)[i := cx_sw cx],
       nt_flight := xs @ (if fwd then [AddHeader (HIp ((cx_ip cx)\<lparr>ip_ttl := t\<rparr>)) (cx_pkt cx)] else []) @ ys @
         sent_packets N (p4s_switchAddress (cx_sw cx)) (cx_eff cx)\<rparr>)"
| gw_receive: "\<lbrakk>nt_flight s = xs @ p # ys; pkt_headers p = HIp ip # hs; ip_dst ip \<in> ne_gws N;
     GatewayApp_ReceivePacket (nt_vtp s) [p] = Inr es\<rbrakk> \<Longrightarrow>
     net_step N s (s\<lparr>nt_flight := xs @ ys, nt_gwq := nt_gwq s @ es\<rparr>)"
| gw_send: "nt_gwq s = xs @ (t, p, inner) # ys \<Longrightarrow>
     net_step N s (s\<lparr>nt_gwq := xs @ ys, nt_flight := nt_flight s @ [fst (GatewayApp_SendPacket p inner)]\<rparr>)"
| deliver: "\<lbrakk>nt_flight s = xs @ p # ys; pkt_headers p = HIp ip # HUdp u # HIp inner # hs;
     udp_dport u = PORT_NUMBER; nt_vtp s (ip_dst inner) = Some (ip_dst ip);
     SocketHelper_SocketRecv (p\<lparr>pkt_headers := HIp inner # hs\<rparr>) (nt_host s (ip_dst ip)) = Inr (sh, es)\<rbrakk> \<Longrightarrow>
     net_step N s (s\<lparr>nt_flight := xs @ ys, nt_hosts := (nt_hosts s)(ip_dst ip := sh),
       nt_delivered := nt_delivered s @ map (Pair (ip_dst ip)) (List.map_filter handed es)\<rparr>)"
| misdeliver: "\<lbrakk>nt_flight s = xs @ p # ys; pkt_headers p = HIp ip # HUdp u # HIp inner # hs;
     udp_dport u = PORT_NUMBER; ip_dst ip \<notin> ne_gws N; nt_vtp s (ip_dst inner) \<noteq> Some (ip_dst ip); ttl < 64;
     SocketHelper_VirtualSend (ne_env N) flow0 now (p\<lparr>pkt_headers := HIp (inner\<lparr>ip_ttl := ttl\<rparr>) # hs\<rparr>)
       (nt_host s (ip_dst ip)) = Inr (r, sh, es)\<rbrakk> \<Longrightarrow>
     net_step N s (s\<lparr>nt_flight := xs @ ys, nt_hosts := (nt_hosts s)(ip_dst ip := sh),
       nt_pending := nt_pending s @ map (Pair (ip_dst ip)) es\<rparr>)"
| migrate: "ne_migrates N \<Longrightarrow>
     net_step N s (s\<lparr>nt_vtp := (nt_vtp s)(ne_container N \<mapsto> ne_target N)\<rparr>)"

inductive net_reachable :: "net_env \<Rightarrow> Net \<Rightarrow> Net \<Rightarrow> bool" for N s0 where
  start: "net_reachable N s0 s0"
| step: "net_reachable N s0 s \<Longrightarrow> net_step N s t \<Longrightarrow> net_reachable N s0 t"

section \<open>The invariant\<close>

text \<open>The addresses a container has or had.\<close>

definition had :: "net_env \<Rightarrow> Net \<Rightarrow> u32 \<Rightarrow> u32 \<Rightarrow> bool" where
  "had N s v a \<longleftrightarrow> ne_vtp0 N v = Some a \<or> nt_vtp s v = Some a"

text \<open>Where switches learn sources although a container migrates, they may also take the two hosts of the migration for
  the place of a container that sent a packet: a packet that the old host sends again carries that host as its source.\<close>

definition misled :: "net_env \<Rightarrow> u32 \<Rightarrow> bool" where
  "misled N a \<longleftrightarrow> ne_learns N \<and> ne_migrates N \<and> (ne_vtp0 N (ne_container N) = Some a \<or> a = ne_target N)"

definition held :: "net_env \<Rightarrow> Net \<Rightarrow> u32 \<Rightarrow> u32 \<Rightarrow> bool" where
  "held N s v a \<longleftrightarrow> had N s v a \<or> misled N a"

definition data_ok :: "net_env \<Rightarrow> Net \<Rightarrow> u32 \<Rightarrow> u32 \<Rightarrow> Ipv4Header \<Rightarrow> Packet \<Rightarrow> bool" where
  "data_ok N s src dst inner p \<longleftrightarrow>
     tag_ok (held N s) p \<and> dst_ok (held N s) (ne_gws N) (ip_dst inner) dst \<and>
     (ne_learns N \<longrightarrow> held N s (ip_src inner) src) \<and>
     (dst \<in> ne_gws N \<longrightarrow> pkt_inval p = None \<longrightarrow> pkt_hit p = None) \<and>
     (\<forall>t. pkt_inval p = Some t \<longrightarrow> it_key t = ip_dst inner) \<and>
     (\<forall>h. pkt_hit p = Some h \<longrightarrow> unat (ht_switchId h) < ne_nbits N)"

definition flight_ok :: "net_env \<Rightarrow> Net \<Rightarrow> Packet \<Rightarrow> bool" where
  "flight_ok N s p \<longleftrightarrow> (\<exists>ip u hs. pkt_headers p = HIp ip # HUdp u # hs \<and>
     (udp_dport u = SWITCH_PORT \<and> tag_ok (held N s) p \<or>
      udp_dport u = PORT_NUMBER \<and> (\<exists>inner rest. hs = HIp inner # rest \<and>
        data_ok N s (ip_src ip) (ip_dst ip) inner p)))"

fun pending_ok :: "net_env \<Rightarrow> Net \<Rightarrow> u32 \<times> host_effect \<Rightarrow> bool" where
  "pending_ok N s (a, HostSendTo q d port) \<longleftrightarrow> port = PORT_NUMBER \<and>
     (\<exists>inner hs. pkt_headers q = HIp inner # hs \<and> data_ok N s a d inner q)"
| "pending_ok N s (a, ScheduleSendToGateway t q i) \<longleftrightarrow>
     (\<exists>inner hs. pkt_headers q = HIp inner # hs \<and> (\<forall>d \<in> ne_gws N. data_ok N s a d inner q))"
| "pending_ok N s (a, ScheduleSendFollowMeRule t q h m) \<longleftrightarrow> m \<and>
     (\<exists>inner hs. pkt_headers q = HIp inner # hs \<and> data_ok N s a (ne_target N) inner q)"
| "pending_ok N s (a, VirtualReceive q) \<longleftrightarrow> True"

definition mig_target :: "ns3_env \<Rightarrow> SocketHelper \<Rightarrow> u32" where
  "mig_target E sh = IpUtils_GetNodePhysicalAddress (env_ipv4 E)
     (word_of_nat (unat (mig_dstLeaf (sh_migrationParams sh)) div PodWidth (sh_simParams sh)))
     (word_of_nat (unat (mig_dstLeaf (sh_migrationParams sh)) mod PodWidth (sh_simParams sh)))
     (mig_dstHost (sh_migrationParams sh))"

definition host_ok :: "net_env \<Rightarrow> u32 \<Rightarrow> SocketHelper \<Rightarrow> bool" where
  "host_ok N a sh \<longleftrightarrow> sh_wf sh \<and> set (sh_gatewayAddresses sh) \<subseteq> ne_gws N \<and> sh_physicalAddress sh = a \<and>
     SimMode (sh_simParams sh) \<noteq> Direct \<and> SimMode (sh_simParams sh) \<noteq> OnDemand \<and>
     mig_target (ne_env N) sh = ne_target N"

definition switch_ok :: "net_env \<Rightarrow> Net \<Rightarrow> P4Switch \<Rightarrow> bool" where
  "switch_ok N s sw \<longleftrightarrow> sw_ok (ne_env N) (held N s) sw \<and> p4s_gwAddresses sw = ne_gws N \<and>
     p4s_simMode sw \<noteq> Bluebird \<and> (at_SourceLearning (p4s_attrs sw) \<longrightarrow> ne_learns N) \<and>
     unat (p4s_nodeId sw) < ne_nbits N \<and>
     (at_BloomFilter (p4s_attrs sw) \<longrightarrow> nat (at_BloomFilterSize (p4s_attrs sw)) = ne_nbits N)"

definition net_inv :: "net_env \<Rightarrow> Net \<Rightarrow> bool" where
  "net_inv N s \<longleftrightarrow>
     (nt_vtp s = ne_vtp0 N \<or> ne_migrates N \<and> nt_vtp s = (ne_vtp0 N)(ne_container N \<mapsto> ne_target N)) \<and>
     (\<forall>sw \<in> set (nt_switches s). switch_ok N s sw) \<and> (\<forall>a. host_ok N a (nt_hosts s a)) \<and>
     (\<forall>p \<in> set (nt_flight s). flight_ok N s p) \<and>
     (\<forall>(t, p, inner) \<in> set (nt_gwq s). flight_ok N s (fst (GatewayApp_SendPacket p inner))) \<and>
     (\<forall>e \<in> set (nt_pending s). pending_ok N s e)"

text \<open>What a UDP socket does, and a sensible configuration: hosts are not gateways and have an address.\<close>

definition encap_ok :: "(u32 \<Rightarrow> Packet \<Rightarrow> u32 \<Rightarrow> u16 \<Rightarrow> Packet) \<Rightarrow> bool" where
  "encap_ok encap \<longleftrightarrow> (\<forall>src p d port. \<exists>ip u.
     encap src p d port = p\<lparr>pkt_headers := HIp ip # HUdp u # pkt_headers p\<rparr> \<and>
     ip_src ip = src \<and> ip_dst ip = d \<and> udp_dport u = port)"

definition net_cfg :: "net_env \<Rightarrow> bool" where
  "net_cfg N \<longleftrightarrow> encap_ok (ne_encap N) \<and>
     (\<forall>v a. ne_vtp0 N v = Some a \<longrightarrow> a \<noteq> 0 \<and> a \<notin> ne_gws N) \<and>
     ne_target N \<noteq> 0 \<and> ne_target N \<notin> ne_gws N"

subsection \<open>Frames and monotonicity\<close>

lemma had_cong: "nt_vtp t = nt_vtp s \<Longrightarrow> had N t = had N s"
  by (simp add: had_def fun_eq_iff)

lemma held_cong: "nt_vtp t = nt_vtp s \<Longrightarrow> held N t = held N s"
  by (simp add: held_def fun_eq_iff had_cong [of t s N])

lemma data_ok_cong: "nt_vtp t = nt_vtp s \<Longrightarrow> data_ok N t = data_ok N s"
  by (simp add: data_ok_def fun_eq_iff held_cong [of t s N])

lemma flight_ok_cong: "nt_vtp t = nt_vtp s \<Longrightarrow> flight_ok N t = flight_ok N s"
  by (simp add: flight_ok_def fun_eq_iff data_ok_cong [of t s N] held_cong [of t s N])

lemma pending_ok_cong: "nt_vtp t = nt_vtp s \<Longrightarrow> pending_ok N t e = pending_ok N s e"
  by (cases e, rename_tac a x, case_tac x) (simp_all add: data_ok_cong [of t s N])

lemma switch_ok_cong: "nt_vtp t = nt_vtp s \<Longrightarrow> switch_ok N t = switch_ok N s"
  by (simp add: switch_ok_def fun_eq_iff held_cong [of t s N])

lemmas net_congs = held_cong data_ok_cong flight_ok_cong pending_ok_cong switch_ok_cong

lemma sw_ok_mono: "sw_ok E ok sw \<Longrightarrow> (\<And>v a. ok v a \<Longrightarrow> ok' v a) \<Longrightarrow> sw_ok E ok' sw"
  by (auto simp: sw_ok_def p4_ok_def)

lemma data_ok_mono:
  "data_ok N s src dst inner p \<Longrightarrow> (\<And>v a. held N s v a \<Longrightarrow> held N t v a) \<Longrightarrow> data_ok N t src dst inner p"
  by (auto simp: data_ok_def tag_ok_def dst_ok_def)

lemma flight_ok_mono:
  assumes "flight_ok N s p" and "\<And>v a. held N s v a \<Longrightarrow> held N t v a"
  shows "flight_ok N t p"
  using assms data_ok_mono [of N s _ _ _ p t] unfolding flight_ok_def tag_ok_def by blast

lemma pending_ok_mono:
  assumes "pending_ok N s e" and "\<And>v a. held N s v a \<Longrightarrow> held N t v a"
  shows "pending_ok N t e"
proof (cases e)
  case (Pair a x)
  with assms show ?thesis
    by (cases x) (fastforce intro: data_ok_mono)+
qed

lemma encap_flight:
  assumes "encap_ok (ne_encap N)" and "pkt_headers q = HIp inner # hs" and "data_ok N s a d inner q"
  shows "flight_ok N s (ne_encap N a q d PORT_NUMBER)"
proof -
  obtain ip u where "ne_encap N a q d PORT_NUMBER = q\<lparr>pkt_headers := HIp ip # HUdp u # pkt_headers q\<rparr>"
      "ip_src ip = a" "ip_dst ip = d" "udp_dport u = PORT_NUMBER"
    using assms(1) unfolding encap_ok_def by metis
  with assms(2,3) show ?thesis
    by (simp add: flight_ok_def data_ok_def tag_ok_def)
qed

lemma encap_protocol:
  assumes "encap_ok (ne_encap N)" and "tag_ok (held N s) q"
  shows "flight_ok N s (ne_encap N a q d SWITCH_PORT)"
proof -
  obtain ip u where "ne_encap N a q d SWITCH_PORT = q\<lparr>pkt_headers := HIp ip # HUdp u # pkt_headers q\<rparr>"
      "udp_dport u = SWITCH_PORT"
    using assms(1) unfolding encap_ok_def by metis
  with assms(2) show ?thesis
    by (simp add: flight_ok_def tag_ok_def)
qed

lemma sent_packets_ok:
  "\<lbrakk>encap_ok (ne_encap N); \<forall>e \<in> set es. eff_ok (held N s) e; p \<in> set (sent_packets N a es)\<rbrakk> \<Longrightarrow>
   flight_ok N s p"
  by (induction N a es rule: sent_packets.induct) (auto intro: encap_protocol)

section \<open>Preservation\<close>

lemma held_range:
  assumes "net_cfg N" and "net_inv N s" and "held N s v a"
  shows "a \<noteq> 0 \<and> a \<notin> ne_gws N"
proof -
  have "ne_vtp0 N v = Some a \<or> ne_vtp0 N (ne_container N) = Some a \<or> a = ne_target N"
    using assms(2,3) by (auto simp: net_inv_def held_def had_def misled_def split: if_splits)
  with assms(1) show ?thesis
    by (auto simp: net_cfg_def)
qed

text \<open>A switch: its handler returns, and everything it leaves behind is in order.\<close>

lemma flight_arrives:
  assumes "flight_ok N s p" and "pkt_headers p = HIp ip # hs" and "switch_ok N s sw"
  shows "arrives_ok (ne_env N) (held N s) \<lparr>cx_pkt = p\<lparr>pkt_headers := hs\<rparr>, cx_ip = ip, cx_sw = sw, cx_eff = []\<rparr>"
  using assms
  by (auto simp: flight_ok_def arrives_ok_def switch_ok_def data_ok_def pkt_req_def tag_ok_def PORT_NUMBER_def)

lemma hop_ok:
  assumes cfg: "net_cfg N" and inv: "net_inv N s" and fl: "flight_ok N s p"
    and hd: "pkt_headers p = HIp ip # hs" and sw: "switch_ok N s sw"
  shows "returns (P4SwitchApp_ReceivePacket (ne_env N) rnd \<lparr>cx_pkt = p\<lparr>pkt_headers := hs\<rparr>, cx_ip = ip,
             cx_sw = sw, cx_eff = []\<rparr>) (\<lambda>(fwd, cx). switch_ok N s (cx_sw cx) \<and> sw_static sw (cx_sw cx) \<and>
           (\<forall>e \<in> set (cx_eff cx). eff_ok (held N s) e) \<and>
           (fwd \<longrightarrow> (\<forall>t. flight_ok N s (AddHeader (HIp ((cx_ip cx)\<lparr>ip_ttl := t\<rparr>)) (cx_pkt cx))) \<and>
              pkt_headers (cx_pkt cx) = hs \<and> pkt_inval (cx_pkt cx) = pkt_inval p \<and>
              pkt_flowId (cx_pkt cx) = pkt_flowId p \<and> pkt_payload (cx_pkt cx) = pkt_payload p \<and>
              pkt_txTime (cx_pkt cx) = pkt_txTime p))"
proof -
  let ?cx = "\<lparr>cx_pkt = p\<lparr>pkt_headers := hs\<rparr>, cx_ip = ip, cx_sw = sw, cx_eff = []\<rparr>"
  have nz: "\<forall>v a. held N s v a \<longrightarrow> a \<noteq> 0"
    using held_range [OF cfg inv] by blast
  note arr = flight_arrives [OF fl hd sw]
  obtain fwd cx where run: "P4SwitchApp_ReceivePacket (ne_env N) rnd ?cx = Inr (fwd, cx)"
      and sw': "sw_ok (ne_env N) (held N s) (cx_sw cx)" "sw_static sw (cx_sw cx)"
      and eff: "\<forall>e \<in> set (cx_eff cx). eff_ok (held N s) e"
      and fwd: "fwd = data_packet (cx_pkt ?cx)"
      and fw: "fwd \<Longrightarrow> tag_ok (held N s) (cx_pkt cx)" "fwd \<Longrightarrow> pkt_headers (cx_pkt cx) = hs"
        "fwd \<Longrightarrow> ip_src (cx_ip cx) = ip_src ip" "fwd \<Longrightarrow> pkt_inval (cx_pkt cx) = pkt_inval p"
        "fwd \<Longrightarrow> pkt_flowId (cx_pkt cx) = pkt_flowId p \<and> pkt_payload (cx_pkt cx) = pkt_payload p \<and> pkt_txTime (cx_pkt cx) = pkt_txTime p"
        "\<And>u inner rest. fwd \<Longrightarrow> hs = HUdp u # HIp inner # rest \<Longrightarrow>
            dst_ok (held N s) (p4s_gwAddresses sw) (ip_dst inner) (ip_dst (cx_ip cx)) \<and>
            hit_kept (held N s) (ip_dst inner) ?cx cx"
    using ReceivePacket_ok [of _ "held N s" _ rnd, OF arr nz] by (auto simp: returns_def)
  have "switch_ok N s (cx_sw cx)"
    using sw sw' by (simp add: switch_ok_def sw_static_def)
  moreover have "flight_ok N s (AddHeader (HIp ((cx_ip cx)\<lparr>ip_ttl := t\<rparr>)) (cx_pkt cx))" if fwd for t
  proof -
    obtain u inner rest where h: "hs = HUdp u # HIp inner # rest" "udp_dport u \<noteq> SWITCH_PORT"
      using fwd \<open>fwd\<close> by (auto simp: data_packet_def)
    have d: "udp_dport u = PORT_NUMBER" "data_ok N s (ip_src ip) (ip_dst ip) inner p"
      using fl hd h by (auto simp: flight_ok_def)
    have gw: "p4s_gwAddresses sw = ne_gws N" "unat (p4s_nodeId sw) < ne_nbits N"
      using sw by (simp_all add: switch_ok_def)
    have hit: "\<And>h. pkt_hit (cx_pkt cx) = Some h \<Longrightarrow> unat (ht_switchId h) < ne_nbits N \<and>
        (ip_dst (cx_ip cx) \<in> ne_gws N \<longrightarrow> pkt_hit p = Some h \<and> ip_dst (cx_ip cx) = ip_dst ip)"
      using fw(6) [OF \<open>fwd\<close> h(1)] d(2) gw held_range [OF cfg inv]
      unfolding data_ok_def hit_kept_def by fastforce
    have "data_ok N s (ip_src ip) (ip_dst (cx_ip cx)) inner (cx_pkt cx)"
      using fw(1,4,6) \<open>fwd\<close> h(1) d(2) gw hit
      unfolding data_ok_def by (metis not_None_eq)
    then show ?thesis
      using fw(2,3) \<open>fwd\<close> h d(1) by (simp add: flight_ok_def data_ok_def tag_ok_def)
  qed
  ultimately show ?thesis
    using run eff sw'(2) fw(2,4,5) by simp
qed

text \<open>A gateway: what it will send is in order, whatever it received.\<close>

lemma gateway_ok:
  assumes fl: "flight_ok N s p" and hd: "pkt_headers p = HIp ip # hs"
    and run: "GatewayApp_ReceivePacket (nt_vtp s) [p] = Inr es" and cfg: "net_cfg N" and inv: "net_inv N s"
  shows "\<forall>(t, q, inner) \<in> set es. flight_ok N s (fst (GatewayApp_SendPacket q inner))"
proof -
  obtain t q inn where es: "es = [(t, q, inn)]" "GatewayApp_handle (nt_vtp s) p = Inr (t, q, inn)"
    using run by (auto elim!: bindE_InrE)
  then have "gw_output (nt_vtp s) p = Some (fst (GatewayApp_SendPacket q inn))"
    using GatewayApp_handle_delay [OF es(2)] by (auto simp: GatewayApp_handle_output)
  then obtain u inner rest a where h: "hs = HUdp u # HIp inner # rest" "nt_vtp s (ip_dst inner) = Some a"
      and q: "fst (GatewayApp_SendPacket q inn) = p\<lparr>pkt_headers := HIp (ip\<lparr>ip_dst := a\<rparr>) # HUdp u # HIp inner # rest,
        pkt_evict := None, pkt_inval := None\<rparr>"
    using hd by (auto simp: gw_output_eq_Some tunnelled_def)
  have a: "held N s (ip_dst inner) a" "a \<notin> ne_gws N"
    using h(2) held_range [OF cfg inv, of "ip_dst inner" a] by (auto simp: held_def had_def)
  have "flight_ok N s (fst (GatewayApp_SendPacket q inn))"
  proof (cases "udp_dport u = SWITCH_PORT")
    case True
    with q show ?thesis by (simp add: flight_ok_def tag_ok_def)
  next
    case False
    then have "udp_dport u = PORT_NUMBER" "data_ok N s (ip_src ip) (ip_dst ip) inner p"
      using fl hd h by (auto simp: flight_ok_def)
    with q a show ?thesis
      by (simp add: flight_ok_def data_ok_def tag_ok_def dst_ok_def)
  qed
  with es show ?thesis by simp
qed

text \<open>The host of a container that has moved: the packet comes back tagged.\<close>

lemma nt_host_ok: "net_inv N s \<Longrightarrow> host_ok N a (nt_host s a)"
  by (simp add: net_inv_def host_ok_def nt_host_def sh_wf_def mig_target_def)

lemma host_ok_sel: "host_ok N a sh \<Longrightarrow> sh_gatewayAddresses sh' = sh_gatewayAddresses sh \<Longrightarrow>
   sh_gatewayRange sh' = sh_gatewayRange sh \<Longrightarrow> sh_simParams sh' = sh_simParams sh \<Longrightarrow>
   sh_physicalAddress sh' = sh_physicalAddress sh \<Longrightarrow> sh_migrationParams sh' = sh_migrationParams sh \<Longrightarrow>
   host_ok N a sh'"
  by (simp add: host_ok_def sh_wf_def mig_target_def)

lemma send_pending_ok:
  assumes "net_inv N s" and "nt_vtp s (ip_src inner) = Some a" and "pkt_headers q = HIp inner # hs"
    and "64 \<le> ip_ttl inner" and "pkt_evict q = None" "pkt_inval q = None" "pkt_hit q = None"
    and "SocketHelper_VirtualSend (ne_env N) flow0 now q (nt_host s a) = Inr (r, sh, es)"
  shows "host_ok N a sh \<and> (\<forall>e \<in> set es. pending_ok N s (a, e))"
proof -
  have h: "host_ok N a (nt_host s a)"
    using nt_host_ok [OF assms(1)] .
  then have wf: "sh_wf (nt_host s a)" "SimMode (sh_simParams (nt_host s a)) \<noteq> Direct"
      "SimMode (sh_simParams (nt_host s a)) \<noteq> OnDemand"
    by (simp_all add: host_ok_def)
  let ?gw = "sh_gatewayAddresses (nt_host s a) ! gw_index (ne_env N) flow0 q inner (nt_host s a)"
  have "sh = nt_host s a" "es = [HostSendTo q ?gw PORT_NUMBER]"
    using VirtualSend_fresh [OF wf(1) assms(3,4) wf(2,3), of "ne_env N" flow0 now] assms(8) by auto
  moreover have "?gw \<in> ne_gws N"
    using h gw_index_bound [OF wf(1), of "ne_env N" flow0 q inner] by (auto simp: host_ok_def)
  ultimately show ?thesis
    using h assms(2-7) by (simp add: data_ok_def tag_ok_def dst_ok_def held_def had_def)
qed

lemma misdeliver_effects:
  assumes cfg: "net_cfg N" and inv: "net_inv N s" and fl: "flight_ok N s p"
    and hd: "pkt_headers p = HIp ip # HUdp u # HIp inner # hs" "udp_dport u = PORT_NUMBER"
    and miss: "ip_dst ip \<notin> ne_gws N" "nt_vtp s (ip_dst inner) \<noteq> Some (ip_dst ip)" and "ttl < 64"
    and run: "SocketHelper_VirtualSend (ne_env N) flow0 now
       (p\<lparr>pkt_headers := HIp (inner\<lparr>ip_ttl := ttl\<rparr>) # hs\<rparr>) (nt_host s (ip_dst ip)) = Inr (r, sh, es)"
  shows "data_ok N s (ip_src ip) (ip_dst ip) inner p" and "held N s (ip_dst inner) (ip_dst ip)"
    and "had N s (ip_dst inner) (ip_dst ip) \<Longrightarrow> nt_vtp s (ip_dst inner) = Some (ne_target N)"
    and "ne_migrates N" and "host_ok N (ip_dst ip) sh"
    and "\<exists>i. es = (if pkt_hit p = None
       then [ScheduleSendFollowMeRule 10000 (misdelivered (nt_host s (ip_dst ip)) (inner\<lparr>ip_ttl := ttl\<rparr>)
          (p\<lparr>pkt_headers := HIp (inner\<lparr>ip_ttl := ttl\<rparr>) # hs\<rparr>)) (inner\<lparr>ip_ttl := ttl\<rparr>) True]
       else [ScheduleSendToGateway 10000 (misdelivered (nt_host s (ip_dst ip)) (inner\<lparr>ip_ttl := ttl\<rparr>)
          (p\<lparr>pkt_headers := HIp (inner\<lparr>ip_ttl := ttl\<rparr>) # hs\<rparr>)) i]) \<and>
       unat i < length (sh_gatewayAddresses sh)"
proof -
  let ?a = "ip_dst ip" and ?q = "p\<lparr>pkt_headers := HIp (inner\<lparr>ip_ttl := ttl\<rparr>) # hs\<rparr>"
  have h: "host_ok N ?a (nt_host s ?a)"
    using nt_host_ok [OF inv] .
  then have wf: "sh_wf (nt_host s ?a)" by (simp add: host_ok_def)
  show d: "data_ok N s (ip_src ip) ?a inner p"
    using fl hd by (auto simp: flight_ok_def PORT_NUMBER_def SWITCH_PORT_def)
  show held: "held N s (ip_dst inner) ?a"
    using d miss(1) by (simp add: data_ok_def dst_ok_def)
  then show "ne_migrates N"
    using miss(2) inv by (auto simp: held_def had_def misled_def net_inv_def)
  show "had N s (ip_dst inner) ?a \<Longrightarrow> nt_vtp s (ip_dst inner) = Some (ne_target N)"
    using miss(2) inv by (auto simp: had_def net_inv_def split: if_splits)
  have hq: "pkt_headers ?q = HIp (inner\<lparr>ip_ttl := ttl\<rparr>) # hs"
    "ip_ttl (inner\<lparr>ip_ttl := ttl\<rparr>) < 64"
    using assms(8) by simp_all
  have "pkt_inval ?q = None"
    using VirtualSend_tagged [OF wf hq] run by (cases "pkt_inval ?q") auto
  from VirtualSend_misdelivered [OF wf hq this, of "ne_env N" flow0 now] run
  obtain c i where sh: "sh = (nt_host s ?a)\<lparr>sh_onDemandCache := c,
        sh_misdeliveryCount := sh_misdeliveryCount (nt_host s ?a) + 1,
        sh_lastMisdelivered := max now (sh_lastMisdelivered (nt_host s ?a))\<rparr>"
      and i: "unat i = gw_index (ne_env N) flow0 ?q (inner\<lparr>ip_ttl := ttl\<rparr>) (nt_host s ?a)"
      and es: "es = (if pkt_hit ?q = None
        then [ScheduleSendFollowMeRule 10000 (misdelivered (nt_host s ?a) (inner\<lparr>ip_ttl := ttl\<rparr>) ?q) (inner\<lparr>ip_ttl := ttl\<rparr>) True]
        else [ScheduleSendToGateway 10000 (misdelivered (nt_host s ?a) (inner\<lparr>ip_ttl := ttl\<rparr>) ?q) i])"
    by auto
  show "host_ok N ?a sh"
    using h unfolding sh by (simp add: host_ok_def sh_wf_def mig_target_def)
  show "\<exists>i. es = (if pkt_hit p = None
       then [ScheduleSendFollowMeRule 10000 (misdelivered (nt_host s ?a) (inner\<lparr>ip_ttl := ttl\<rparr>) ?q) (inner\<lparr>ip_ttl := ttl\<rparr>) True]
       else [ScheduleSendToGateway 10000 (misdelivered (nt_host s ?a) (inner\<lparr>ip_ttl := ttl\<rparr>) ?q) i]) \<and>
       unat i < length (sh_gatewayAddresses sh)"
    using es i gw_index_bound [OF wf, of "ne_env N" flow0 ?q "inner\<lparr>ip_ttl := ttl\<rparr>"]
    by (intro exI [of _ i]) (simp add: sh)
qed

lemma misdeliver_pending_ok:
  assumes cfg: "net_cfg N" and inv: "net_inv N s" and fl: "flight_ok N s p"
    and hd: "pkt_headers p = HIp ip # HUdp u # HIp inner # hs" "udp_dport u = PORT_NUMBER"
    and miss: "ip_dst ip \<notin> ne_gws N" "nt_vtp s (ip_dst inner) \<noteq> Some (ip_dst ip)" and "ttl < 64"
    and run: "SocketHelper_VirtualSend (ne_env N) flow0 now
       (p\<lparr>pkt_headers := HIp (inner\<lparr>ip_ttl := ttl\<rparr>) # hs\<rparr>) (nt_host s (ip_dst ip)) = Inr (r, sh, es)"
  shows "host_ok N (ip_dst ip) sh \<and> (\<forall>e \<in> set es. pending_ok N s (ip_dst ip, e))"
proof -
  note eff = misdeliver_effects [OF assms]
  let ?m = "misdelivered (nt_host s (ip_dst ip)) (inner\<lparr>ip_ttl := ttl\<rparr>) (p\<lparr>pkt_headers := HIp (inner\<lparr>ip_ttl := ttl\<rparr>) # hs\<rparr>)"
  have old: "misled N (ip_dst ip)" if "ne_learns N"
    using that eff(2,4) inv miss(2) by (auto simp: misled_def held_def had_def net_inv_def split: if_splits)
  have new: "held N s (ip_dst inner) (ne_target N)"
    using eff(2,3) by (auto simp: held_def had_def misled_def)
  have ok: "data_ok N s (ip_dst ip) x (inner\<lparr>ip_ttl := ttl\<rparr>) ?m" if "x = ne_target N \<or> x \<in> ne_gws N" for x
    using eff(1,2) new old that by (auto simp: data_ok_def misdelivered_def tag_ok_def dst_ok_def held_def)
  have "pkt_headers ?m = HIp (inner\<lparr>ip_ttl := ttl\<rparr>) # hs"
    by (simp add: misdelivered_def)
  then show ?thesis
    using eff(5,6) ok by (auto split: if_splits)
qed

lemma follow_me_ok:
  assumes inv: "net_inv N s" and pend: "pending_ok N s (a, ScheduleSendFollowMeRule t q h m)"
    and run: "SocketHelper_SendFollowMeRule (ne_env N) q h m (nt_host s a) = Inr (sh, es)"
  shows "host_ok N a sh \<and> (\<forall>e \<in> set es. pending_ok N s (a, e)) \<and> sh = nt_host s a"
proof -
  have h: "host_ok N a (nt_host s a)"
    using nt_host_ok [OF inv] .
  then have "sh = nt_host s a" "es = [HostSendTo q (ne_target N) PORT_NUMBER]"
    using run pend
    by (auto simp: SocketHelper_SendFollowMeRule_def host_ok_def mig_target_def sh_wf_def Let_def)
  with h pend show ?thesis by simp
qed

lemma to_gateway_ok:
  assumes inv: "net_inv N s" and pend: "pending_ok N s (a, ScheduleSendToGateway t q i)"
    and run: "SocketHelper_SendToGateway q i (nt_host s a) = Inr es"
  shows "\<forall>e \<in> set es. pending_ok N s (a, e)"
proof -
  obtain d where "d \<in> set (sh_gatewayAddresses (nt_host s a))" "es = [HostSendTo q d PORT_NUMBER]"
    using run by (fastforce simp: SocketHelper_SendToGateway_def monad_simps)
  with nt_host_ok [OF inv, of a] pend show ?thesis
    by (fastforce simp: host_ok_def)
qed

text \<open>Steps that leave the table alone keep the invariant if the new parts are in order.\<close>

lemma net_inv_update:
  assumes "net_inv N s" and "nt_vtp t = nt_vtp s"
    and "\<And>sw. sw \<in> set (nt_switches t) \<Longrightarrow> sw \<in> set (nt_switches s) \<or> switch_ok N s sw"
    and "\<And>a. nt_hosts t a = nt_hosts s a \<or> host_ok N a (nt_hosts t a)"
    and "\<And>p. p \<in> set (nt_flight t) \<Longrightarrow> p \<in> set (nt_flight s) \<or> flight_ok N s p"
    and "\<And>tm p inner. (tm, p, inner) \<in> set (nt_gwq t) \<Longrightarrow>
           (tm, p, inner) \<in> set (nt_gwq s) \<or> flight_ok N s (fst (GatewayApp_SendPacket p inner))"
    and "\<And>e. e \<in> set (nt_pending t) \<Longrightarrow> e \<in> set (nt_pending s) \<or> pending_ok N s e"
  shows "net_inv N t"
proof -
  note inv = assms(1) [unfolded net_inv_def]
  have "\<forall>sw \<in> set (nt_switches t). switch_ok N s sw"
    using assms(3) inv by blast
  moreover have "\<forall>a. host_ok N a (nt_hosts t a)"
    using assms(4) inv by metis
  moreover have "\<forall>p \<in> set (nt_flight t). flight_ok N s p"
    using assms(5) inv by blast
  moreover have "\<forall>(tm, p, inner) \<in> set (nt_gwq t). flight_ok N s (fst (GatewayApp_SendPacket p inner))"
    using assms(6) inv by blast
  moreover have "\<forall>e \<in> set (nt_pending t). pending_ok N s e"
    using assms(7) inv by blast
  ultimately show ?thesis
    unfolding net_inv_def net_congs [OF assms(2)] assms(2) using inv by blast
qed

lemma net_step_inv:
  assumes cfg: "net_cfg N"
  shows "net_step N s t \<Longrightarrow> net_inv N s \<Longrightarrow> net_inv N t"
proof (induction rule: net_step.induct)
  case (send s inner a q hs flow0 now r sh es)
  then show ?case
    using send_pending_ok [OF send(8,1-7)] by (intro net_inv_update [OF send(8)]) auto
next
  case (transmit s xs a q d port ys)
  then have "pending_ok N s (a, HostSendTo q d port)"
    by (simp add: net_inv_def)
  then have "flight_ok N s (ne_encap N a q d port)"
    using cfg by (auto simp: net_cfg_def intro: encap_flight)
  with transmit show ?case
    by (intro net_inv_update [OF transmit(2)]) auto
next
  case (to_gateway s xs a tm q i ys es)
  then have "\<forall>e \<in> set es. pending_ok N s (a, e)"
    by (intro to_gateway_ok [OF to_gateway(3) _ to_gateway(2), where t = tm]) (simp add: net_inv_def)
  with to_gateway show ?case
    by (intro net_inv_update [OF to_gateway(3)]) auto
next
  case (follow_me s xs a tm q h m ys sh es)
  then have "host_ok N a sh \<and> (\<forall>e \<in> set es. pending_ok N s (a, e)) \<and> sh = nt_host s a"
    by (intro follow_me_ok [OF follow_me(3) _ follow_me(2), where t = tm]) (simp add: net_inv_def)
  with follow_me show ?case
    by (intro net_inv_update [OF follow_me(3)]) auto
next
  case (hop s xs p ys ip hs i rnd fwd cx tm)
  then have "flight_ok N s p" "switch_ok N s (nt_switches s ! i)"
    by (simp_all add: net_inv_def)
  from hop_ok [OF cfg hop(5) this(1) hop(2) this(2), of rnd] hop(4)
  have "switch_ok N s (cx_sw cx)" "\<forall>e \<in> set (cx_eff cx). eff_ok (held N s) e"
    "fwd \<Longrightarrow> flight_ok N s (AddHeader (HIp ((cx_ip cx)\<lparr>ip_ttl := tm\<rparr>)) (cx_pkt cx))"
    by auto
  moreover have "sw \<in> set ((nt_switches s)[i := cx_sw cx]) \<Longrightarrow> sw \<in> set (nt_switches s) \<or> sw = cx_sw cx" for sw
    using set_update_subset_insert [of "nt_switches s" i "cx_sw cx"] by blast
  moreover have "encap_ok (ne_encap N)"
    using cfg by (simp add: net_cfg_def)
  ultimately show ?case
    using hop(1)
    by (intro net_inv_update [OF hop(5)]) (auto dest: sent_packets_ok split: if_splits)
next
  case (gw_receive s xs p ys ip hs es)
  then have "flight_ok N s p" by (simp add: net_inv_def)
  from gateway_ok [OF this gw_receive(2,4) cfg gw_receive(5)] gw_receive(1) show ?case
    by (intro net_inv_update [OF gw_receive(5)]) auto
next
  case (gw_send s xs tm p inner ys)
  then have "flight_ok N s (fst (GatewayApp_SendPacket p inner))"
    by (simp add: net_inv_def)
  with gw_send show ?case
    by (intro net_inv_update [OF gw_send(2)]) auto
next
  case (deliver s xs p ys ip u inner hs sh es)
  have "sh = nt_host s (ip_dst ip)"
    using deliver(5) nt_host_ok [OF deliver(6), of "ip_dst ip"]
    by (auto simp: SocketHelper_SocketRecv_def host_ok_def)
  with deliver(1) nt_host_ok [OF deliver(6), of "ip_dst ip"] show ?case
    by (intro net_inv_update [OF deliver(6)]) auto
next
  case (misdeliver s xs p ys ip u inner hs ttl flow0 now r sh es)
  then have "flight_ok N s p" by (simp add: net_inv_def)
  from misdeliver_pending_ok [OF cfg misdeliver(8) this misdeliver(2-7)] misdeliver(1) show ?case
    by (intro net_inv_update [OF misdeliver(8)]) auto
next
  case (migrate s)
  let ?t = "s\<lparr>nt_vtp := (nt_vtp s)(ne_container N \<mapsto> ne_target N)\<rparr>"
  have had: "held N s v a \<Longrightarrow> held N ?t v a" for v a
    using migrate(2) by (auto simp: held_def had_def net_inv_def)
  have "\<forall>sw \<in> set (nt_switches s). switch_ok N ?t sw"
    using migrate(2) had by (auto simp: net_inv_def switch_ok_def intro: sw_ok_mono)
  moreover have "\<forall>p \<in> set (nt_flight s). flight_ok N ?t p"
    using migrate(2) had flight_ok_mono unfolding net_inv_def by blast
  moreover have "\<forall>(tm, p, inner) \<in> set (nt_gwq s). flight_ok N ?t (fst (GatewayApp_SendPacket p inner))"
    using migrate(2) had flight_ok_mono unfolding net_inv_def by blast
  moreover have "\<forall>e \<in> set (nt_pending s). pending_ok N ?t e"
    using migrate(2) had pending_ok_mono unfolding net_inv_def by blast
  moreover have "nt_vtp ?t = (ne_vtp0 N)(ne_container N \<mapsto> ne_target N)"
    using migrate(2) by (auto simp: net_inv_def)
  ultimately show ?case
    using migrate by (simp add: net_inv_def)
qed

lemma net_reachable_inv: "net_reachable N s0 s \<Longrightarrow> net_cfg N \<Longrightarrow> net_inv N s0 \<Longrightarrow> net_inv N s"
  by (induction rule: net_reachable.induct) (blast intro: net_step_inv)+

section \<open>Starting up\<close>

text \<open>Switches fresh from \<open>Setup\<close>, configured hosts, nothing in flight.\<close>

definition switch_fresh :: "net_env \<Rightarrow> P4Switch \<Rightarrow> bool" where
  "switch_fresh N sw \<longleftrightarrow> (\<exists>attrs nodeId rnd gws addr st mode pods.
     P4SwitchApp_Setup attrs nodeId rnd gws addr st mode pods = Inr sw \<and>
     0 < at_MemorySize attrs \<and> 0 \<le> at_BloomFilterSize attrs \<and> set gws = ne_gws N \<and>
     mode \<noteq> Bluebird \<and> (at_SourceLearning attrs \<longrightarrow> ne_learns N) \<and> unat nodeId < ne_nbits N \<and>
     (at_BloomFilter attrs \<longrightarrow> nat (at_BloomFilterSize attrs) = ne_nbits N))"

definition net_init :: "net_env \<Rightarrow> Net \<Rightarrow> bool" where
  "net_init N s \<longleftrightarrow> nt_vtp s = ne_vtp0 N \<and> nt_flight s = [] \<and> nt_gwq s = [] \<and> nt_pending s = [] \<and>
     (\<forall>a. host_ok N a (nt_hosts s a)) \<and> (\<forall>sw \<in> set (nt_switches s). switch_fresh N sw)"

lemma switch_fresh_ok: "switch_fresh N sw \<Longrightarrow> switch_ok N s sw"
proof -
  assume "switch_fresh N sw"
  then obtain attrs nodeId rnd gws addr st mode pods where
    run: "P4SwitchApp_Setup attrs nodeId rnd gws addr st mode pods = Inr sw"
    and cfg: "0 < at_MemorySize attrs" "0 \<le> at_BloomFilterSize attrs" "set gws = ne_gws N"
      "mode \<noteq> Bluebird" "at_SourceLearning attrs \<longrightarrow> ne_learns N" "unat nodeId < ne_nbits N"
      "at_BloomFilter attrs \<longrightarrow> nat (at_BloomFilterSize attrs) = ne_nbits N"
    unfolding switch_fresh_def by blast
  have "sw_ok (ne_env N) (held N s) sw \<and> p4s_gwAddresses sw = set gws \<and> p4s_simMode sw = mode \<and>
      p4s_attrs sw = attrs \<and> p4s_nodeId sw = nodeId"
    using Setup_ok [OF cfg(1,2), of nodeId rnd gws addr st mode pods "ne_env N" "held N s"] run by simp
  with cfg(3-7) show "switch_ok N s sw"
    by (simp add: switch_ok_def)
qed

lemma net_init_inv: "net_init N s \<Longrightarrow> net_inv N s"
  by (auto simp: net_init_def net_inv_def switch_fresh_ok)

text \<open>Without migration no host ever sees a packet that is not for it.\<close>

lemma no_misdelivery:
  assumes "net_step N s t" and "net_inv N s" and "\<not> ne_migrates N"
  shows "sh_misdeliveryCount (nt_hosts t a) = sh_misdeliveryCount (nt_hosts s a)"
  using assms
proof (induction rule: net_step.induct)
  case (send s inner b q hs flow0 now r sh es)
  have h: "host_ok N b (nt_host s b)"
    using nt_host_ok [OF send(8)] .
  then have "sh = nt_host s b"
    using VirtualSend_fresh [of "nt_host s b" q inner hs "ne_env N" flow0 now] send(2,3,7)
    by (auto simp: host_ok_def)
  then show ?case by (simp add: nt_host_def)
next
  case (follow_me s xs b tm q h m ys sh es)
  then have "pending_ok N s (b, ScheduleSendFollowMeRule tm q h m)"
    by (simp add: net_inv_def)
  from follow_me_ok [OF follow_me(3) this follow_me(2)] have "sh = nt_host s b"
    by blast
  then show ?case by (simp add: nt_host_def)
next
  case (deliver s xs p ys ip u inner hs sh es)
  have "sh = nt_host s (ip_dst ip)"
    using deliver(5) nt_host_ok [OF deliver(6), of "ip_dst ip"]
    by (auto simp: SocketHelper_SocketRecv_def host_ok_def)
  then show ?case by (simp add: nt_host_def)
next
  case (misdeliver s xs p ys ip u inner hs ttl flow0 now r sh es)
  have "data_ok N s (ip_src ip) (ip_dst ip) inner p"
    using misdeliver(1,2,3,8) by (fastforce simp: net_inv_def flight_ok_def PORT_NUMBER_def SWITCH_PORT_def)
  then have "held N s (ip_dst inner) (ip_dst ip)"
    using misdeliver(4) by (simp add: data_ok_def dst_ok_def)
  then have False
    using misdeliver(5,8,9) by (auto simp: held_def misled_def had_def net_inv_def)
  then show ?case ..
qed simp_all

section \<open>Properties\<close>

subsection \<open>A concrete network\<close>

definition encap0 :: "u32 \<Rightarrow> Packet \<Rightarrow> u32 \<Rightarrow> u16 \<Rightarrow> Packet" where
  "encap0 src p d port = AddHeader (HIp \<lparr>ip_src = src, ip_dst = d, ip_ttl = 64\<rparr>)
     (AddHeader (HUdp \<lparr>udp_sport = 667, udp_dport = port\<rparr>) p)"

lemma encap0_ok: "encap_ok encap0"
  unfolding encap_ok_def
proof (intro allI)
  fix src p d port
  show "\<exists>ip u. encap0 src p d port = p\<lparr>pkt_headers := HIp ip # HUdp u # pkt_headers p\<rparr> \<and>
     ip_src ip = src \<and> ip_dst ip = d \<and> udp_dport u = port"
    by (rule exI [of _ "\<lparr>ip_src = src, ip_dst = d, ip_ttl = 64\<rparr>"],
        rule exI [of _ "\<lparr>udp_sport = 667, udp_dport = port\<rparr>"]) (simp add: encap0_def AddHeader_def)
qed

definition net0 :: "bool \<Rightarrow> net_env" where
  "net0 mig = \<lparr>ne_env = env0, ne_encap = encap0, ne_gws = {900, 901}, ne_vtp0 = [1 \<mapsto> 9, 2 \<mapsto> 8],
     ne_migrates = mig, ne_container = 1, ne_target = 33619969, ne_learns = False, ne_nbits = 80\<rparr>"

definition fresh_sw0 :: P4Switch where
  "fresh_sw0 = \<lparr>p4s_nodeId = 1, p4s_attrs = attrs0, p4s_gwAddresses = {900, 901}, p4s_switchAddress = 50,
     p4s_switchType = LEAF, p4s_simMode = SwitchV2P, p4s_podCount = 8, p4s_cache = cache4,
     p4s_bloomFilter = BloomFilter_new, p4s_bluebirdCache = LRUCache_SetCapacity 4 LRUCache_new,
     p4s_bluebirdQueue = [], p4s_bluebirdBusy = False\<rparr>"

definition state0 :: Net where
  "state0 = \<lparr>nt_switches = [fresh_sw0], nt_vtp = [1 \<mapsto> 9, 2 \<mapsto> 8], nt_hosts = (\<lambda>a. sh0\<lparr>sh_physicalAddress := a\<rparr>),
     nt_flight = [], nt_gwq = [], nt_pending = [], nt_delivered = []\<rparr>"

lemma net0_cfg: "net_cfg (net0 mig)"
  using encap0_ok by (auto simp: net_cfg_def net0_def split: if_splits)

lemma state0_init: "net_init (net0 mig) state0"
proof -
  have up: "P4SwitchApp_Setup attrs0 1 0 [900, 901] 50 LEAF SwitchV2P 8 = Inr fresh_sw0"
    using cache4_setup
    by (simp add: P4SwitchApp_Setup_def fresh_sw0_def attrs0_def P4SwitchApp_GetTypeId_def)
  have "switch_fresh (net0 mig) fresh_sw0"
    unfolding switch_fresh_def
    by (rule exI, rule exI, rule exI, rule exI, rule exI, rule exI, rule exI, rule exI, rule conjI [OF up])
       (auto simp: attrs0_def P4SwitchApp_GetTypeId_def net0_def)
  moreover have "host_ok (net0 mig) a (sh0\<lparr>sh_physicalAddress := a\<rparr>)" for a
  proof -
    have "mig_target env0 sh0 = 33619969"
      using GetNodePhysicalAddress_quad [OF parse_quad_dotted, of 1 1 0]
      by (simp add: mig_target_def sh0_def SocketHelper_new_def sim0_def mig0_def env0_def quad_def quad_nat_def)
    then show ?thesis
      using sh0_wf
      by (simp add: host_ok_def sh_wf_def mig_target_def net0_def) (simp add: sh0_def SocketHelper_new_def sim0_def)
  qed
  ultimately show ?thesis
    by (simp add: net_init_def state0_def net0_def)
qed

text \<open>One packet sent and on the wire.\<close>

definition state1 :: Net where
  "state1 = state0\<lparr>nt_pending := [(8, HostSendTo (host_pkt0 64) 900 PORT_NUMBER)],
     nt_hosts := (nt_hosts state0)(8 := nt_host state0 8)\<rparr>"

definition state2 :: Net where
  "state2 = state1\<lparr>nt_pending := [], nt_flight := [encap0 8 (host_pkt0 64) 900 PORT_NUMBER]\<rparr>"

lemma state2_reachable: "net_reachable (net0 mig) state0 state2"
proof -
  have h: "host_ok (net0 mig) 8 (nt_host state0 8)"
    using state0_init [of mig] by (intro nt_host_ok net_init_inv)
  have "SocketHelper_VirtualSend env0 0 0 (host_pkt0 64) (nt_host state0 8) =
      Inr (True, nt_host state0 8, [HostSendTo (host_pkt0 64) 900 PORT_NUMBER])"
    using VirtualSend_fresh [of "nt_host state0 8" "host_pkt0 64" "\<lparr>ip_src = 2, ip_dst = 1, ip_ttl = 64\<rparr>" "[]"
        env0 0 0] h
    by (simp add: host_ok_def host_pkt0_def)
       (simp add: gw_index_def nt_host_def state0_def sh0_def SocketHelper_new_def)
  then have "net_step (net0 mig) state0 state1"
    using net_step.send [of state0 "\<lparr>ip_src = 2, ip_dst = 1, ip_ttl = 64\<rparr>" 8 "host_pkt0 64" "[]" "net0 mig" 0 0
        True "nt_host state0 8" "[HostSendTo (host_pkt0 64) 900 PORT_NUMBER]"]
    by (simp add: state1_def state0_def host_pkt0_def Packet_create_def net0_def)
  moreover have "net_step (net0 mig) state1 state2"
    using net_step.transmit [of state1 "[]" 8 "host_pkt0 64" 900 PORT_NUMBER "[]" "net0 mig"]
    by (simp add: state2_def state1_def state0_def net0_def)
  ultimately show ?thesis
    by (blast intro: net_reachable.intros)
qed

subsection \<open>The network\<close>

text \<open>What the property below says of a state.\<close>

definition truthful :: "net_env \<Rightarrow> Net \<Rightarrow> bool" where
  "truthful N s \<longleftrightarrow>
         (\<forall>sw \<in> set (nt_switches s). \<forall>v a. p4_lookup (env_crc (ne_env N)) (p4s_cache sw) v = Some a \<longrightarrow>
            ne_vtp0 N v = Some a \<or> nt_vtp s v = Some a \<or> misled N a) \<and>
         (\<forall>p \<in> set (nt_flight s). \<forall>ip u inner hs. pkt_headers p = HIp ip # HUdp u # HIp inner # hs \<longrightarrow>
            udp_dport u = PORT_NUMBER \<longrightarrow> ip_dst ip \<notin> ne_gws N \<longrightarrow>
            ne_vtp0 N (ip_dst inner) = Some (ip_dst ip) \<or> nt_vtp s (ip_dst inner) = Some (ip_dst ip) \<or> misled N (ip_dst ip))"

lemma reachable_truthful:
  assumes "net_cfg N" and "net_init N s0" and "net_reachable N s0 s"
  shows "truthful N s"
proof -
  have inv: "net_inv N s"
    using net_reachable_inv [OF assms(3,1)] net_init_inv [OF assms(2)] .
  have "held N s v a" if "sw \<in> set (nt_switches s)" "p4_lookup (env_crc (ne_env N)) (p4s_cache sw) v = Some a" for sw v a
    using inv that p4_ok_lookup [of "env_crc (ne_env N)" "p4s_cache sw" "held N s" v a]
    by (auto simp: net_inv_def switch_ok_def sw_ok_def)
  moreover have "held N s (ip_dst inner) (ip_dst ip)"
    if "p \<in> set (nt_flight s)" "pkt_headers p = HIp ip # HUdp u # HIp inner # hs" "udp_dport u = PORT_NUMBER"
      "ip_dst ip \<notin> ne_gws N" for p ip u inner hs
    using inv that
    by (fastforce simp: net_inv_def flight_ok_def data_ok_def dst_ok_def PORT_NUMBER_def SWITCH_PORT_def)
  ultimately show ?thesis
    unfolding truthful_def held_def had_def by blast
qed

text \<open>C4: Addresses in the network are addresses the containers have or had. In every reachable state of the network,
  with any topology and any interleaving, across the migration of a container and with or without source learning,
  take a cached mapping of a switch or the destination of a data packet that no longer goes to a gateway. The address is
  the container's current one or the one it had before the migration; only if the switches learn sources and a container
  migrates as well, as in the script of the migration experiment, it may instead be one of the two hosts of that
  migration. C25 shows that this exception occurs. The configuration of the network asks of its hosts only that their
  addresses are not 0 and that they are not gateways.\<close>

theorem network_addresses_truthful:
  assumes "net_cfg N" and "net_init N s0" and "net_reachable N s0 s"
  shows "(\<forall>sw \<in> set (nt_switches s). \<forall>v a. p4_lookup (env_crc (ne_env N)) (p4s_cache sw) v = Some a \<longrightarrow>
            ne_vtp0 N v = Some a \<or> nt_vtp s v = Some a \<or>
            ne_learns N \<and> ne_migrates N \<and> (ne_vtp0 N (ne_container N) = Some a \<or> a = ne_target N)) \<and>
         (\<forall>p \<in> set (nt_flight s). \<forall>ip u inner hs. pkt_headers p = HIp ip # HUdp u # HIp inner # hs \<longrightarrow>
            udp_dport u = PORT_NUMBER \<longrightarrow> ip_dst ip \<notin> ne_gws N \<longrightarrow>
            ne_vtp0 N (ip_dst inner) = Some (ip_dst ip) \<or> nt_vtp s (ip_dst inner) = Some (ip_dst ip) \<or>
            ne_learns N \<and> ne_migrates N \<and> (ne_vtp0 N (ne_container N) = Some (ip_dst ip) \<or> ip_dst ip = ne_target N))"
  using reachable_truthful [OF assms] unfolding truthful_def misled_def .

theorem network_addresses_truthful_witness: "p4_lookup byte_sum (p4s_cache fresh_sw0) 1 \<noteq> Some 7"
proof
  assume "p4_lookup byte_sum (p4s_cache fresh_sw0) 1 = Some 7"
  moreover have "fresh_sw0 \<in> set (nt_switches state2)" "env_crc (ne_env (net0 True)) = byte_sum"
    by (simp_all add: state2_def state1_def state0_def net0_def env0_def)
  ultimately have "ne_vtp0 (net0 True) 1 = Some 7 \<or> nt_vtp state2 1 = Some 7 \<or> ne_learns (net0 True)"
    using conjunct1 [OF network_addresses_truthful [OF net0_cfg state0_init state2_reachable [of True]]] by metis
  then show False
    by (simp add: net0_def state2_def state1_def state0_def)
qed

text \<open>C6: Without migration every packet reaches the right host. If nothing migrates, then in every reachable
  state a data packet that no longer goes to a gateway goes to the host of its container, whether a switch or
  a gateway translated it and whether or not the switches learn from sources, and no host has counted a
  misdelivery.\<close>

theorem network_right_host:
  assumes "net_cfg N" and "\<not> ne_migrates N" and "net_init N s0" and "net_reachable N s0 s"
  shows "(\<forall>p \<in> set (nt_flight s). \<forall>ip u inner hs. pkt_headers p = HIp ip # HUdp u # HIp inner # hs \<longrightarrow>
            udp_dport u = PORT_NUMBER \<longrightarrow> ip_dst ip \<notin> ne_gws N \<longrightarrow> nt_vtp s (ip_dst inner) = Some (ip_dst ip)) \<and>
         (\<forall>a. sh_misdeliveryCount (nt_hosts s a) = sh_misdeliveryCount (nt_hosts s0 a))"
proof -
  have inv: "net_inv N s" if "net_reachable N s0 s" for s
    using net_reachable_inv [OF that assms(1)] net_init_inv [OF assms(3)] .
  have "nt_vtp s (ip_dst inner) = Some (ip_dst ip)"
    if "p \<in> set (nt_flight s)" "pkt_headers p = HIp ip # HUdp u # HIp inner # hs" "udp_dport u = PORT_NUMBER"
      "ip_dst ip \<notin> ne_gws N" for p ip u inner hs
    using inv [OF assms(4)] that assms(2)
    by (fastforce simp: net_inv_def flight_ok_def data_ok_def dst_ok_def held_def had_def misled_def PORT_NUMBER_def SWITCH_PORT_def)
  moreover have "\<forall>a. sh_misdeliveryCount (nt_hosts s a) = sh_misdeliveryCount (nt_hosts s0 a)"
    using assms(4)
  proof (induction rule: net_reachable.induct)
    case (step s t)
    with no_misdelivery [OF step(2) inv [OF step(1)] assms(2)] show ?case by simp
  qed simp
  ultimately show ?thesis by blast
qed

theorem network_right_host_witness:
  "\<forall>a. sh_misdeliveryCount (nt_hosts state2 a) = sh_misdeliveryCount (nt_hosts state0 a)"
proof -
  have "\<not> ne_migrates (net0 False)" by (simp add: net0_def)
  from network_right_host [OF net0_cfg this state0_init state2_reachable] show ?thesis by blast
qed

text \<open>C7: No packet crashes a switch. In every reachable state, across the migration and with or without source
  learning, every switch can handle every packet in flight: the handler returns a result.\<close>

theorem network_switches_total:
  assumes "net_cfg N" and "net_init N s0" and "net_reachable N s0 s"
    and "p \<in> set (nt_flight s)" and "sw \<in> set (nt_switches s)"
  shows "\<exists>ip hs fwd cx. pkt_headers p = HIp ip # hs \<and>
           P4SwitchApp_ReceivePacket (ne_env N) rnd \<lparr>cx_pkt = p\<lparr>pkt_headers := hs\<rparr>, cx_ip = ip, cx_sw = sw,
             cx_eff = []\<rparr> = Inr (fwd, cx)"
proof -
  have inv: "net_inv N s"
    using net_reachable_inv [OF assms(3,1)] net_init_inv [OF assms(2)] .
  then have ok: "flight_ok N s p" "switch_ok N s sw"
    using assms(4,5) by (simp_all add: net_inv_def)
  then obtain ip hs where hd: "pkt_headers p = HIp ip # hs"
    by (auto simp: flight_ok_def)
  show ?thesis
    using hop_ok [OF assms(1) inv ok(1) hd ok(2), of rnd] hd by (auto simp: returns_def)
qed

theorem network_switches_total_witness:
  "\<exists>ip hs fwd cx. pkt_headers (encap0 8 (host_pkt0 64) 900 PORT_NUMBER) = HIp ip # hs \<and>
     P4SwitchApp_ReceivePacket env0 0 \<lparr>cx_pkt = (encap0 8 (host_pkt0 64) 900 PORT_NUMBER)\<lparr>pkt_headers := hs\<rparr>,
       cx_ip = ip, cx_sw = fresh_sw0, cx_eff = []\<rparr> = Inr (fwd, cx)"
  using network_switches_total [OF net0_cfg state0_init state2_reachable [of True],
      of "encap0 8 (host_pkt0 64) 900 PORT_NUMBER" fresh_sw0 0]
  by (simp add: state2_def state1_def state0_def net0_def)

end
