(* ===== verification/Network_Delivery.thy ===== *)
theory Network_Delivery
  imports Network
begin

text \<open>
  What becomes of a packet in the network of \<open>Network\<close>, across a migration. A packet that reaches a host its
  container has left is tagged and sent again; if it came back with the tag still on, the host would fail, since ns-3
  refuses a second tag of the same type. A second invariant shows that no switch ever leads a tagged packet back:
  no host and no gateway fails on any packet in flight. All switches run the same logic, as the set-up of one mode
  deploys them, and they do not learn sources while a container migrates.
\<close>

section \<open>Where a tagged packet goes\<close>

text \<open>The switch does not lead a packet to the address in its tag, unless it was going there; a local learner
  leaves a translated packet alone and puts on no hit tag.\<close>

lemma inval_leaf_ip: "ReceivePacket_inval_leaf v i cx = Inr cx' \<Longrightarrow> cx_ip cx' = cx_ip cx"
  by (auto simp: ReceivePacket_inval_leaf_def Let_def elim!: bindE_InrE split: option.splits if_splits)

lemma inval_dst:
  assumes "ReceivePacket_inval E v t cx = Inr (fwd, cx')"
  shows "ip_dst (cx_ip cx') = ip_dst (cx_ip cx) \<or> ip_dst (cx_ip cx') \<noteq> it_val t"
  using assms
  by (auto simp: ReceivePacket_inval_def InvalidationTag_GetInvalidation_def Let_def elim!: bindE_InrE
      split: option.splits if_splits dest!: inval_leaf_ip)

lemma local_dst:
  assumes "P4SwitchApp_LocalP4CacheLogic E v d cx = Inr (fwd, cx')"
  shows "cx_pkt cx' = cx_pkt cx" and "d \<notin> p4s_gwAddresses (cx_sw cx) \<Longrightarrow> cx_ip cx' = cx_ip cx"
  using assms by (auto simp: P4SwitchApp_LocalP4CacheLogic_def elim!: bindE_InrE split: option.splits if_splits)

lemma ReceivePacket_dst:
  assumes "P4SwitchApp_ReceivePacket E rnd \<lparr>cx_pkt = p, cx_ip = ip, cx_sw = sw, cx_eff = []\<rparr> = Inr (fwd, cx')"
    and "pkt_headers p = HUdp u # HIp inner # hs" and "udp_dport u = PORT_NUMBER" and "p4s_simMode sw \<noteq> Bluebird"
  shows "p4s_simMode sw = LocalLearning \<Longrightarrow> pkt_hit (cx_pkt cx') = pkt_hit p"
    and "p4s_simMode sw = LocalLearning \<Longrightarrow> ip_dst ip \<notin> p4s_gwAddresses sw \<Longrightarrow> ip_dst (cx_ip cx') = ip_dst ip"
    and "p4s_simMode sw \<noteq> LocalLearning \<Longrightarrow> pkt_inval p = Some t \<Longrightarrow>
      ip_dst (cx_ip cx') = ip_dst ip \<or> ip_dst (cx_ip cx') \<noteq> it_val t"
proof -
  define q where "q = bump_hops (p\<lparr>pkt_headers := HIp inner # hs\<rparr>)"
  define cx where "cx = \<lparr>cx_pkt = q\<lparr>pkt_headers := HUdp u # HIp inner # hs\<rparr>, cx_ip = ip, cx_sw = sw,
     cx_eff = [ProcessedTrace q (p4s_nodeId sw)]\<rparr>"
  have cx: "cx_ip cx = ip" "cx_sw cx = sw" "pkt_hit (cx_pkt cx) = pkt_hit p" "pkt_inval (cx_pkt cx) = pkt_inval p"
    by (simp_all add: cx_def q_def)
  have run: "(if p4s_simMode sw = LocalLearning then P4SwitchApp_LocalP4CacheLogic E (ip_dst inner) (ip_dst ip) cx
      else P4SwitchApp_SwitchV2PLogic E rnd inner cx) = Inr (fwd, cx')"
    using assms by (simp add: P4SwitchApp_ReceivePacket_def RemoveUdp_def RemoveIp_def SWITCH_PORT_def PORT_NUMBER_def
        AddHeader_def emit_def Let_def cx_def q_def split: if_splits)
  show "pkt_hit (cx_pkt cx') = pkt_hit p" if "p4s_simMode sw = LocalLearning"
    using local_dst(1) [of E "ip_dst inner" "ip_dst ip" cx fwd cx'] run that cx by simp
  show "ip_dst (cx_ip cx') = ip_dst ip" if "p4s_simMode sw = LocalLearning" "ip_dst ip \<notin> p4s_gwAddresses sw"
    using local_dst(2) [of E "ip_dst inner" "ip_dst ip" cx fwd cx'] run that cx by simp
  show "ip_dst (cx_ip cx') = ip_dst ip \<or> ip_dst (cx_ip cx') \<noteq> it_val t"
    if "p4s_simMode sw \<noteq> LocalLearning" "pkt_inval p = Some t"
    using inval_dst [of E "ip_dst inner" t cx fwd cx'] run that cx by (simp add: P4SwitchApp_SwitchV2PLogic_def Let_def)
qed

section \<open>The second invariant\<close>

text \<open>From here on sources are not learned while a container migrates, so that switches only hold addresses that
  containers have or had.\<close>

definition strict_cfg :: "net_env \<Rightarrow> bool" where
  "strict_cfg N \<longleftrightarrow> net_cfg N \<and> (ne_learns N \<longrightarrow> \<not> ne_migrates N)"

lemma strict_cfgI [intro]: "net_cfg N \<Longrightarrow> (ne_learns N \<longrightarrow> \<not> ne_migrates N) \<Longrightarrow> strict_cfg N"
  by (simp add: strict_cfg_def)

lemma strict_cfgD:
  assumes "strict_cfg N"
  shows "net_cfg N" and "held N s = had N s"
  using assms by (auto simp: strict_cfg_def held_def misled_def fun_eq_iff)

text \<open>The address in a tag is one the container has had and no longer has.\<close>

definition stale :: "net_env \<Rightarrow> Net \<Rightarrow> InvalidationTag \<Rightarrow> bool" where
  "stale N s t \<longleftrightarrow> had N s (it_key t) (it_val t) \<and> nt_vtp s (it_key t) \<noteq> Some (it_val t)"

text \<open>A data packet on its way to \<open>dst\<close>; \<open>L\<close> says that the switches learn locally.\<close>

definition clean :: "bool \<Rightarrow> net_env \<Rightarrow> Net \<Rightarrow> u32 \<Rightarrow> Packet \<Rightarrow> bool" where
  "clean L N s dst p \<longleftrightarrow>
     (\<forall>t. pkt_inval p = Some t \<longrightarrow> stale N s t \<and> dst \<noteq> it_val t \<and> (L \<longrightarrow> dst \<notin> ne_gws N)) \<and> (L \<longrightarrow> pkt_hit p = None)"

definition flight_clean :: "bool \<Rightarrow> net_env \<Rightarrow> Net \<Rightarrow> Packet \<Rightarrow> bool" where
  "flight_clean L N s p \<longleftrightarrow>
     (\<forall>ip u hs. pkt_headers p = HIp ip # HUdp u # hs \<longrightarrow> udp_dport u = PORT_NUMBER \<longrightarrow> clean L N s (ip_dst ip) p)"

fun pending_clean :: "bool \<Rightarrow> net_env \<Rightarrow> Net \<Rightarrow> host_effect \<Rightarrow> bool" where
  "pending_clean L N s (HostSendTo q d port) \<longleftrightarrow> clean L N s d q"
| "pending_clean L N s (ScheduleSendToGateway t q i) \<longleftrightarrow> (\<forall>d \<in> ne_gws N. clean L N s d q)"
| "pending_clean L N s (ScheduleSendFollowMeRule t q h m) \<longleftrightarrow> clean L N s (ne_target N) q"
| "pending_clean L N s (VirtualReceive q) \<longleftrightarrow> True"

definition mode_ok :: "bool \<Rightarrow> Net \<Rightarrow> bool" where
  "mode_ok L s \<longleftrightarrow> (\<forall>sw \<in> set (nt_switches s). (p4s_simMode sw = LocalLearning) = L)"

definition tag_inv :: "bool \<Rightarrow> net_env \<Rightarrow> Net \<Rightarrow> bool" where
  "tag_inv L N s \<longleftrightarrow> mode_ok L s \<and> (\<forall>p \<in> set (nt_flight s). flight_clean L N s p) \<and>
     (\<forall>(t, p, inner) \<in> set (nt_gwq s). flight_clean L N s (fst (GatewayApp_SendPacket p inner))) \<and>
     (\<forall>(a, e) \<in> set (nt_pending s). pending_clean L N s e)"

lemma stale_cong: "nt_vtp t = nt_vtp s \<Longrightarrow> stale N t = stale N s"
  by (simp add: stale_def had_cong [of t s N] fun_eq_iff)

lemma clean_cong: "nt_vtp t = nt_vtp s \<Longrightarrow> clean L N t = clean L N s"
  by (simp add: clean_def stale_cong [of t s N] fun_eq_iff)

lemma flight_clean_cong: "nt_vtp t = nt_vtp s \<Longrightarrow> flight_clean L N t = flight_clean L N s"
  by (simp add: flight_clean_def clean_cong [of t s L N] fun_eq_iff)

lemma pending_clean_cong: "nt_vtp t = nt_vtp s \<Longrightarrow> pending_clean L N t e = pending_clean L N s e"
  by (cases e) (simp_all add: clean_cong [of t s L N])

lemmas clean_congs = flight_clean_cong pending_clean_cong

lemma clean_untagged: "pkt_inval p = None \<Longrightarrow> pkt_hit p = None \<Longrightarrow> clean L N s dst p"
  by (simp add: clean_def)

text \<open>Only the migration makes an address stale, and it does so for one container.\<close>

lemma stale_migrated:
  assumes "net_inv N s" and "stale N s t"
  shows "nt_vtp s = (ne_vtp0 N)(ne_container N \<mapsto> ne_target N)" and "nt_vtp s (it_key t) = Some (ne_target N)"
    and "ne_vtp0 N (it_key t) = Some (it_val t)" and "it_val t \<noteq> ne_target N"
  using assms by (auto simp: net_inv_def stale_def had_def split: if_splits)

lemma encap_clean:
  assumes "encap_ok (ne_encap N)" and "clean L N s d q"
  shows "flight_clean L N s (ne_encap N a q d port)"
proof -
  obtain ip u where "ne_encap N a q d port = q\<lparr>pkt_headers := HIp ip # HUdp u # pkt_headers q\<rparr>" "ip_dst ip = d"
    using assms(1) unfolding encap_ok_def by metis
  with assms(2) show ?thesis
    by (simp add: flight_clean_def clean_def)
qed

lemma protocol_clean:
  assumes "encap_ok (ne_encap N)"
  shows "flight_clean L N s (ne_encap N a q d SWITCH_PORT)"
proof -
  obtain ip u where "ne_encap N a q d SWITCH_PORT = q\<lparr>pkt_headers := HIp ip # HUdp u # pkt_headers q\<rparr>" "udp_dport u = SWITCH_PORT"
    using assms unfolding encap_ok_def by metis
  then show ?thesis
    by (simp add: flight_clean_def SWITCH_PORT_def PORT_NUMBER_def)
qed

lemma sent_packets_clean:
  assumes "encap_ok (ne_encap N)"
  shows "\<lbrakk>\<forall>e \<in> set es. eff_ok ok e; p \<in> set (sent_packets N a es)\<rbrakk> \<Longrightarrow> flight_clean L N s p"
proof (induction es)
  case (Cons e es)
  then show ?case
    using protocol_clean [OF assms] by (cases e) auto
qed simp

lemma tag_inv_update:
  assumes "tag_inv L N s" and "nt_vtp t = nt_vtp s" and "mode_ok L t"
    and "\<And>p. p \<in> set (nt_flight t) \<Longrightarrow> p \<in> set (nt_flight s) \<or> flight_clean L N s p"
    and "\<And>tm p inner. (tm, p, inner) \<in> set (nt_gwq t) \<Longrightarrow>
           (tm, p, inner) \<in> set (nt_gwq s) \<or> flight_clean L N s (fst (GatewayApp_SendPacket p inner))"
    and "\<And>a e. (a, e) \<in> set (nt_pending t) \<Longrightarrow> (a, e) \<in> set (nt_pending s) \<or> pending_clean L N s e"
  shows "tag_inv L N t"
proof -
  note inv = assms(1) [unfolded tag_inv_def]
  have "\<forall>p \<in> set (nt_flight t). flight_clean L N s p"
    using assms(4) inv by blast
  moreover have "\<forall>(tm, p, inner) \<in> set (nt_gwq t). flight_clean L N s (fst (GatewayApp_SendPacket p inner))"
    using assms(5) inv by blast
  moreover have "\<forall>(a, e) \<in> set (nt_pending t). pending_clean L N s e"
    using assms(6) inv by blast
  ultimately show ?thesis
    unfolding tag_inv_def clean_congs [OF assms(2)] using assms(3) by blast
qed

text \<open>The steps that change a packet.\<close>

lemma hop_clean:
  assumes cfg: "net_cfg N" and inv: "net_inv N s" and fl: "flight_ok N s p" "flight_clean L N s p"
    and hd: "pkt_headers p = HIp ip # hs" and sw: "switch_ok N s sw" "(p4s_simMode sw = LocalLearning) = L"
    and run: "P4SwitchApp_ReceivePacket (ne_env N) rnd \<lparr>cx_pkt = p\<lparr>pkt_headers := hs\<rparr>, cx_ip = ip, cx_sw = sw, cx_eff = []\<rparr> = Inr (True, cx)"
  shows "flight_clean L N s (AddHeader (HIp ((cx_ip cx)\<lparr>ip_ttl := t\<rparr>)) (cx_pkt cx))"
proof -
  from hop_ok [OF cfg inv fl(1) hd sw(1), of rnd] run
  have same: "pkt_headers (cx_pkt cx) = hs" "pkt_inval (cx_pkt cx) = pkt_inval p"
      and ok: "flight_ok N s (AddHeader (HIp ((cx_ip cx)\<lparr>ip_ttl := t\<rparr>)) (cx_pkt cx))"
    by auto
  have "clean L N s (ip_dst (cx_ip cx)) (cx_pkt cx)" if u: "hs = HUdp u # rest" "udp_dport u = PORT_NUMBER" for u rest
  proof -
    obtain inner hs' where hs: "hs = HUdp u # HIp inner # hs'"
      using fl(1) hd u by (auto simp: flight_ok_def PORT_NUMBER_def SWITCH_PORT_def)
    have cl: "clean L N s (ip_dst ip) p"
      using fl(2) hd u by (auto simp: flight_clean_def)
    have gws: "p4s_gwAddresses sw = ne_gws N" "p4s_simMode sw \<noteq> Bluebird"
      using sw(1) by (simp_all add: switch_ok_def)
    have "pkt_headers (p\<lparr>pkt_headers := hs\<rparr>) = HUdp u # HIp inner # hs'"
      using hs by simp
    note dst = ReceivePacket_dst [OF run this u(2) gws(2), simplified]
    show ?thesis
    proof (cases L)
      case True
      with cl dst(1,2) sw(2) gws(1) same(2) show ?thesis
        by (auto simp: clean_def)
    next
      case False
      with cl dst(3) sw(2) same(2) show ?thesis
        by (auto simp: clean_def)
    qed
  qed
  with same(1) show ?thesis
    by (auto simp: flight_clean_def AddHeader_def clean_def)
qed

lemma misdeliver_clean:
  assumes cfg: "strict_cfg N" and inv: "net_inv N s" and fl: "flight_ok N s p" "flight_clean L N s p"
    and hd: "pkt_headers p = HIp ip # HUdp u # HIp inner # hs" "udp_dport u = PORT_NUMBER"
    and miss: "ip_dst ip \<notin> ne_gws N" "nt_vtp s (ip_dst inner) \<noteq> Some (ip_dst ip)" and "ttl < 64"
    and run: "SocketHelper_VirtualSend (ne_env N) flow0 now
       (p\<lparr>pkt_headers := HIp (inner\<lparr>ip_ttl := ttl\<rparr>) # hs\<rparr>) (nt_host s (ip_dst ip)) = Inr (r, sh, es)"
    and "e \<in> set es"
  shows "pending_clean L N s e"
proof -
  note had = strict_cfgD(2) [OF cfg]
  note eff = misdeliver_effects [OF strict_cfgD(1) [OF cfg] inv fl(1) hd miss assms(9) run]
  let ?m = "misdelivered (nt_host s (ip_dst ip)) (inner\<lparr>ip_ttl := ttl\<rparr>) (p\<lparr>pkt_headers := HIp (inner\<lparr>ip_ttl := ttl\<rparr>) # hs\<rparr>)"
  have "sh_physicalAddress (nt_host s (ip_dst ip)) = ip_dst ip"
    using nt_host_ok [OF inv, of "ip_dst ip"] by (simp add: host_ok_def)
  then have m: "pkt_inval ?m = Some \<lparr>it_key = ip_dst inner, it_val = ip_dst ip\<rparr>" "pkt_hit ?m = pkt_hit p"
    by (simp_all add: misdelivered_def)
  have "clean L N s (ip_dst ip) p"
    using fl(2) hd by (auto simp: flight_clean_def)
  then have hit: "L \<longrightarrow> pkt_hit p = None"
    by (simp add: clean_def)
  have "stale N s \<lparr>it_key = ip_dst inner, it_val = ip_dst ip\<rparr>" "ip_dst ip \<noteq> ne_target N" "ne_target N \<notin> ne_gws N"
    using eff(2,3) miss(2) strict_cfgD(1) [OF cfg] by (auto simp: stale_def net_cfg_def had)
  then show ?thesis
    using eff(6) assms(11) m hit miss(1) by (auto simp: clean_def split: if_splits)
qed

lemma gateway_clean:
  assumes "flight_clean L N s p" and "GatewayApp_ReceivePacket (nt_vtp s) [p] = Inr es"
  shows "\<forall>(tm, q, inner) \<in> set es. flight_clean L N s (fst (GatewayApp_SendPacket q inner))"
proof -
  obtain t q inn where es: "es = [(t, q, inn)]" "GatewayApp_handle (nt_vtp s) p = Inr (t, q, inn)"
    using assms(2) by (auto elim!: bindE_InrE)
  then have "gw_output (nt_vtp s) p = Some (fst (GatewayApp_SendPacket q inn))"
    using GatewayApp_handle_delay [OF es(2)] by (auto simp: GatewayApp_handle_output)
  then have "flight_clean L N s (fst (GatewayApp_SendPacket q inn))"
    using assms(1) by (auto simp: gw_output_eq_Some tunnelled_def flight_clean_def clean_def)
  with es(1) show ?thesis by simp
qed

lemma net_step_clean:
  assumes strict: "strict_cfg N"
  shows "net_step N s t \<Longrightarrow> net_inv N s \<Longrightarrow> tag_inv L N s \<Longrightarrow> tag_inv L N t"
proof (induction rule: net_step.induct)
  case (send s inner a q hs flow0 now r sh es)
  have h: "sh_wf (nt_host s a)" "SimMode (sh_simParams (nt_host s a)) \<noteq> Direct" "SimMode (sh_simParams (nt_host s a)) \<noteq> OnDemand"
    using nt_host_ok [OF send(8), of a] by (simp_all add: host_ok_def)
  have "\<exists>gw. es = [HostSendTo q gw PORT_NUMBER]"
    using VirtualSend_fresh [OF h(1) send(2,3) h(2,3), of "ne_env N" flow0 now] send(7) by auto
  with send clean_untagged [of q] show ?case
    by (intro tag_inv_update [OF send(9)]) (auto simp: tag_inv_def mode_ok_def)
next
  case (transmit s xs a q d port ys)
  then have "clean L N s d q" by (simp add: tag_inv_def)
  then have "flight_clean L N s (ne_encap N a q d port)"
    using strict_cfgD(1) [OF strict] by (intro encap_clean) (simp_all add: net_cfg_def)
  with transmit show ?case
    by (intro tag_inv_update [OF transmit(3)]) (auto simp: tag_inv_def mode_ok_def)
next
  case (to_gateway s xs a tm q i ys es)
  then have clean: "\<forall>d \<in> ne_gws N. clean L N s d q" by (simp add: tag_inv_def)
  obtain d where "d \<in> set (sh_gatewayAddresses (nt_host s a))" "es = [HostSendTo q d PORT_NUMBER]"
    using to_gateway(2) by (fastforce simp: SocketHelper_SendToGateway_def monad_simps)
  then have "\<forall>e \<in> set es. pending_clean L N s e"
    using clean nt_host_ok [OF to_gateway(3), of a] by (auto simp: host_ok_def)
  with to_gateway show ?case
    by (intro tag_inv_update [OF to_gateway(4)]) (auto simp: tag_inv_def mode_ok_def)
next
  case (follow_me s xs a tm q h m ys sh es)
  then have m: "m" "clean L N s (ne_target N) q"
    by (simp_all add: net_inv_def tag_inv_def)
  then have "\<forall>e \<in> set es. pending_clean L N s e"
    using follow_me(2) nt_host_ok [OF follow_me(3), of a]
    by (auto simp: SocketHelper_SendFollowMeRule_def host_ok_def mig_target_def sh_wf_def Let_def)
  with follow_me show ?case
    by (intro tag_inv_update [OF follow_me(4)]) (auto simp: tag_inv_def mode_ok_def)
next
  case (hop s xs p ys ip hs i rnd fwd cx tm)
  have ok: "flight_ok N s p" "flight_clean L N s p" "switch_ok N s (nt_switches s ! i)"
      "(p4s_simMode (nt_switches s ! i) = LocalLearning) = L"
    using hop by (simp_all add: net_inv_def tag_inv_def mode_ok_def)
  from hop_ok [OF strict_cfgD(1) [OF strict] hop(5) ok(1) hop(2) ok(3), of rnd] hop(4)
  have eff: "\<forall>e \<in> set (cx_eff cx). eff_ok (held N s) e" and static: "sw_static (nt_switches s ! i) (cx_sw cx)"
    by auto
  have "fwd \<Longrightarrow> flight_clean L N s (AddHeader (HIp ((cx_ip cx)\<lparr>ip_ttl := tm\<rparr>)) (cx_pkt cx))"
    using hop_clean [OF strict_cfgD(1) [OF strict] hop(5) ok(1,2) hop(2) ok(3,4)] hop(4) by simp
  moreover have "\<And>p. p \<in> set (sent_packets N (p4s_switchAddress (cx_sw cx)) (cx_eff cx)) \<Longrightarrow> flight_clean L N s p"
    using sent_packets_clean [OF _ eff] strict_cfgD(1) [OF strict] by (simp add: net_cfg_def)
  moreover have "mode_ok L (s\<lparr>nt_switches := (nt_switches s)[i := cx_sw cx]\<rparr>)"
    using hop(6) ok(4) static set_update_subset_insert [of "nt_switches s" i "cx_sw cx"]
    by (auto simp: tag_inv_def mode_ok_def sw_static_def)
  ultimately show ?case
    using hop(1) by (intro tag_inv_update [OF hop(6)]) (auto simp: mode_ok_def split: if_splits)
next
  case (gw_receive s xs p ys ip hs es)
  have "\<forall>(tm, q, inner) \<in> set es. flight_clean L N s (fst (GatewayApp_SendPacket q inner))"
    by (rule gateway_clean [OF _ gw_receive(4)]) (use gw_receive in \<open>simp add: tag_inv_def\<close>)
  with gw_receive show ?case
    by (intro tag_inv_update [OF gw_receive(6)]) (auto simp: tag_inv_def mode_ok_def)
next
  case (gw_send s xs tm p inner ys)
  then have "flight_clean L N s (fst (GatewayApp_SendPacket p inner))"
    by (simp add: tag_inv_def)
  with gw_send show ?case
    by (intro tag_inv_update [OF gw_send(3)]) (auto simp: tag_inv_def mode_ok_def)
next
  case (deliver s xs p ys ip u inner hs sh es)
  then show ?case
    by (intro tag_inv_update [OF deliver(7)]) (auto simp: tag_inv_def mode_ok_def)
next
  case (misdeliver s xs p ys ip u inner hs ttl flow0 now r sh es)
  have ok: "flight_ok N s p" "flight_clean L N s p"
    using misdeliver by (simp_all add: net_inv_def tag_inv_def)
  note misdeliver_clean [OF strict misdeliver(8) ok misdeliver(2-7)]
  with misdeliver show ?case
    by (intro tag_inv_update [OF misdeliver(9)]) (auto simp: tag_inv_def mode_ok_def)
next
  case (migrate s)
  let ?t = "s\<lparr>nt_vtp := (nt_vtp s)(ne_container N \<mapsto> ne_target N)\<rparr>"
  have "stale N ?t tg" if "stale N s tg" for tg
  proof -
    have "nt_vtp ?t = nt_vtp s"
      using stale_migrated(1) [OF migrate(2) that] by simp
    from stale_cong [OF this, of N] that show ?thesis by simp
  qed
  then have clean: "clean L N s d p \<Longrightarrow> clean L N ?t d p" for d p
    unfolding clean_def by blast
  then have mono: "flight_clean L N s p \<Longrightarrow> flight_clean L N ?t p" "pending_clean L N s e \<Longrightarrow> pending_clean L N ?t e" for p e
    unfolding flight_clean_def by blast (cases e; simp add: clean)
  have "mode_ok L ?t"
    using migrate(3) by (simp add: tag_inv_def mode_ok_def)
  moreover have "\<forall>p \<in> set (nt_flight ?t). flight_clean L N ?t p"
    using migrate(3) mono(1) by (simp add: tag_inv_def)
  moreover have "flight_clean L N ?t (fst (GatewayApp_SendPacket p inner))" if "(tm, p, inner) \<in> set (nt_gwq ?t)" for tm p inner
    using migrate(3) mono(1) that by (auto simp: tag_inv_def)
  moreover have "pending_clean L N ?t e" if "(a, e) \<in> set (nt_pending ?t)" for a e
    using migrate(3) mono(2) that by (auto simp: tag_inv_def)
  ultimately show ?case
    unfolding tag_inv_def by blast
qed

lemma reachable_invs:
  assumes "strict_cfg N" and "net_init N s0" and "mode_ok L s0" and "net_reachable N s0 s"
  shows "net_inv N s \<and> tag_inv L N s"
  using assms(4)
proof (induction rule: net_reachable.induct)
  case start
  from assms(2,3) net_init_inv [OF assms(2)] show ?case
    by (simp add: net_init_def tag_inv_def)
next
  case (step s t)
  then show ?case
    using net_step_inv [OF strict_cfgD(1) [OF assms(1)]] net_step_clean [OF assms(1)] by blast
qed

text \<open>A data packet at a host its container has left carries no tag.\<close>

lemma untagged_at_old_host:
  assumes cfg: "strict_cfg N" and "net_inv N s" and "flight_ok N s p" and "flight_clean L N s p"
    and "pkt_headers p = HIp ip # HUdp u # HIp inner # hs" and "udp_dport u = PORT_NUMBER"
    and "ip_dst ip \<notin> ne_gws N" and "nt_vtp s (ip_dst inner) \<noteq> Some (ip_dst ip)"
  shows "pkt_inval p = None"
proof (rule ccontr)
  assume "pkt_inval p \<noteq> None"
  then obtain t where t: "pkt_inval p = Some t" by blast
  have d: "data_ok N s (ip_src ip) (ip_dst ip) inner p"
    using assms(3,5,6) by (auto simp: flight_ok_def PORT_NUMBER_def SWITCH_PORT_def)
  then have key: "it_key t = ip_dst inner" and had: "had N s (ip_dst inner) (ip_dst ip)"
    using t assms(7) by (simp_all add: data_ok_def dst_ok_def strict_cfgD(2) [OF cfg])
  have "clean L N s (ip_dst ip) p"
    using assms(4-6) by (auto simp: flight_clean_def)
  then have "stale N s t" "ip_dst ip \<noteq> it_val t"
    using t by (simp_all add: clean_def)
  moreover from this(1) have "ne_vtp0 N (ip_dst inner) = Some (it_val t)"
    using stale_migrated(3) [OF assms(2)] key by metis
  ultimately show False
    using had assms(8) by (simp add: had_def)
qed

text \<open>A tagged data packet goes to a gateway or to where its container is.\<close>

lemma tagged_home:
  assumes cfg: "strict_cfg N" and "net_inv N s" and "flight_ok N s p" and "flight_clean L N s p"
    and "pkt_headers p = HIp ip # HUdp u # HIp inner # hs" and "udp_dport u = PORT_NUMBER"
    and "pkt_inval p = Some t" and "ip_dst ip \<notin> ne_gws N"
  shows "nt_vtp s (ip_dst inner) = Some (ip_dst ip)"
  using untagged_at_old_host [OF assms(1-6) assms(8)] assms(7) by auto

section \<open>Properties\<close>

text \<open>What one endpoint has to handle: a gateway a packet for a container of the table, a host a packet for one of its
  containers, or for one that has left.\<close>

definition endpoint_handles :: "net_env \<Rightarrow> Net \<Rightarrow> Packet \<Rightarrow> Ipv4Header \<Rightarrow> Ipv4Header \<Rightarrow> header list \<Rightarrow> bool" where
  "endpoint_handles N s p ip inner hs \<longleftrightarrow>
     (if ip_dst ip \<in> ne_gws N
      then nt_vtp s (ip_dst inner) \<noteq> None \<longrightarrow> returns (GatewayApp_ReceivePacket (nt_vtp s) [p]) (\<lambda>es. length es = 1)
      else if nt_vtp s (ip_dst inner) = Some (ip_dst ip)
      then returns (SocketHelper_SocketRecv (p\<lparr>pkt_headers := HIp inner # hs\<rparr>) (nt_host s (ip_dst ip))) (\<lambda>r. True)
      else pkt_inval p = None \<and> (\<forall>ttl flow0 now. ttl < 64 \<longrightarrow>
        returns (SocketHelper_VirtualSend (ne_env N) flow0 now (p\<lparr>pkt_headers := HIp (inner\<lparr>ip_ttl := ttl\<rparr>) # hs\<rparr>)
          (nt_host s (ip_dst ip))) (\<lambda>r. True)))"

lemma endpoints_handle:
  assumes cfg: "strict_cfg N" and "net_inv N s \<and> tag_inv L N s" and "p \<in> set (nt_flight s)"
    and hd: "pkt_headers p = HIp ip # HUdp u # HIp inner # hs" "udp_dport u = PORT_NUMBER"
  shows "endpoint_handles N s p ip inner hs"
proof -
  have inv: "net_inv N s" and ok: "flight_ok N s p" "flight_clean L N s p"
    using assms(2,3) by (simp_all add: net_inv_def tag_inv_def)
  have h: "host_ok N (ip_dst ip) (nt_host s (ip_dst ip))"
    using nt_host_ok [OF inv] .
  have "returns (GatewayApp_ReceivePacket (nt_vtp s) [p]) (\<lambda>es. length es = 1)" if "nt_vtp s (ip_dst inner) \<noteq> None"
    using GatewayApp_handle_tunnelled [of p ip u inner hs "nt_vtp s"] that hd(1) by (auto simp: tunnelled_def)
  moreover have "returns (SocketHelper_SocketRecv (p\<lparr>pkt_headers := HIp inner # hs\<rparr>) (nt_host s (ip_dst ip))) (\<lambda>r. True)"
    using h by (simp add: SocketHelper_SocketRecv_def host_ok_def)
  moreover have "pkt_inval p = None" if "ip_dst ip \<notin> ne_gws N" "nt_vtp s (ip_dst inner) \<noteq> Some (ip_dst ip)"
    using untagged_at_old_host [OF cfg inv ok hd that] .
  moreover have "returns (SocketHelper_VirtualSend (ne_env N) flow0 now (p\<lparr>pkt_headers := HIp (inner\<lparr>ip_ttl := ttl\<rparr>) # hs\<rparr>)
      (nt_host s (ip_dst ip))) (\<lambda>r. True)" if "pkt_inval p = None" "ttl < 64" for ttl flow0 now
    using VirtualSend_misdelivered [of "nt_host s (ip_dst ip)" "p\<lparr>pkt_headers := HIp (inner\<lparr>ip_ttl := ttl\<rparr>) # hs\<rparr>"
        "inner\<lparr>ip_ttl := ttl\<rparr>" hs "ne_env N" flow0 now] h that by (auto simp: host_ok_def elim: returns_mono)
  ultimately show ?thesis
    by (simp add: endpoint_handles_def)
qed

text \<open>No packet crashes a host or a gateway. When all switches run the same logic and do not learn sources while a
  container migrates, then in every reachable state,
  across the migration, a gateway can translate every packet sent to it for a container of the table, a host can
  receive every packet for its containers, and a packet at a host its container has left carries no tag of an earlier
  misdelivery, so that the host can tag it and send it again: no packet is misdelivered a second time before it
  has passed a gateway.\<close>

theorem network_endpoints_total:
  assumes "net_cfg N" and "ne_learns N \<longrightarrow> \<not> ne_migrates N"
    and "net_init N s0" and "mode_ok L s0" and "net_reachable N s0 s" and "p \<in> set (nt_flight s)"
    and "pkt_headers p = HIp ip # HUdp u # HIp inner # hs" and "udp_dport u = PORT_NUMBER"
  shows "endpoint_handles N s p ip inner hs"
  using endpoints_handle [OF _ reachable_invs [OF _ assms(3-5)] assms(6-8)] assms(1,2) by blast

lemma state0_mode: "mode_ok False state0"
  by (simp add: mode_ok_def state0_def fresh_sw0_def)

theorem network_endpoints_total_witness:
  "\<exists>es. GatewayApp_ReceivePacket (nt_vtp state2) [encap0 8 (host_pkt0 64) 900 PORT_NUMBER] = Inr es \<and> length es = 1"
proof -
  have "encap0 8 (host_pkt0 64) 900 PORT_NUMBER \<in> set (nt_flight state2)"
    by (simp add: state2_def)
  from network_endpoints_total [OF net0_cfg [of True] _ state0_init state0_mode state2_reachable this]
  show ?thesis
    by (simp add: encap0_def AddHeader_def host_pkt0_def Packet_create_def PORT_NUMBER_def endpoint_handles_def net0_def
        state2_def state1_def state0_def returns_def)
qed

end
