(* ===== verification/Sim_Base.thy ===== *)
theory Sim_Base
  imports Socket_Helper "HOL-Library.AList"
begin

text \<open>
  \<^verbatim>\<open>sim-base.cc\<close>: the simulated network. The constructor checks the dimensions of the topology and
  numbers the containers, \<open>CreateTopology\<close> connects hosts, leaves, spines and cores,
  \<open>AssignPhysicalIps\<close> gives every link a network and every node its routes, and \<open>SetupTunnel\<close>
  fills the address table and the tunnel endpoints of the hosts.

  The \<open>uint32_t\<close> dimensions are numbers, with the conversion of the \<open>size_t\<close> parameters written out;
  every other number is an index below one of them. ns-3's containers of devices are pairs of nodes, or
  \<open>None\<close> for a container that was never filled. \<open>Ipv4AddressHelper::Assign\<close> gives the two ends of a
  link the first two addresses of the network and the next free interface number of their nodes, so the
  interfaces of a node are the links it is part of, in the order of the assignments; interface 0 is the
  loopback. \<open>InitializeNodes\<close>, \<open>InstallNetworkStack\<close> and \<open>Configure\<close> only create ns-3 objects and
  set attributes of them.
\<close>

section \<open>Data\<close>

type_synonym ContainerGroups = "string list list list"

text \<open>\<open>m_nodes[leaf].Get (i)\<close>, \<open>m_leaves.Get (i)\<close>, \<open>m_spines.Get (i)\<close>, \<open>m_cores.Get (i)\<close>.\<close>

datatype sim_node = HostN nat nat | LeafN nat | SpineN nat | CoreN nat

type_synonym link = "sim_node \<times> sim_node"

record route =
  rt_net :: u32
  rt_mask :: u32
  rt_iface :: nat

record SimulationBase =
  sb_containerGroups :: ContainerGroups
  sb_leafCount :: nat
  sb_spineCount :: nat
  sb_coreCount :: nat
  sb_podWidth :: nat
  sb_podCount :: nat
  sb_misdeliveryCount :: u32
  sb_nodeToSwDevice :: "link option list list"
  sb_swToSwDevice :: "link option list list"
  sb_coreToSpineDevice :: "link option list list"
  sb_assigned :: "(link \<times> u32) list"
  sb_routes :: "sim_node \<Rightarrow> route list"
  sb_virtualToPhysical :: "u32 \<rightharpoonup> u32"
  sb_virtualAddresses :: "(u32 \<times> u32) list list list"
  sb_socketHelpers :: "SocketHelper list list"
  sb_containerToId :: "(string \<times> u32) list"
  sb_simParameters :: SimulationParameters
  sb_gws :: "(u32 \<times> u32) list"
  sb_gwAddresses :: "u32 list"

section \<open>Construction\<close>

text \<open>\<open>string::find (pat) != npos\<close>.\<close>

fun contains :: "string \<Rightarrow> string \<Rightarrow> bool" where
  "contains [] pat \<longleftrightarrow> pat = []"
| "contains (c # cs) pat \<longleftrightarrow> take (length pat) (c # cs) = pat \<or> contains cs pat"

text \<open>The containers with their hosts, in the order of the three nested loops.\<close>

definition slots :: "ContainerGroups \<Rightarrow> ((nat \<times> nat) \<times> string) list" where
  "slots g = concat (map (\<lambda>i. concat (map (\<lambda>j. map (Pair (i, j)) (g ! i ! j)) [0..<length (g ! i)]))
     [0..<length g])"

fun AssignIds_loop ::
  "((nat \<times> nat) \<times> string) list \<Rightarrow> u32 \<Rightarrow> SimulationBase \<Rightarrow> SimulationBase" where
  "AssignIds_loop [] containerId sb = sb"
| "AssignIds_loop (((i, j), c) # xs) containerId sb =
     AssignIds_loop xs (containerId + 1)
       (sb\<lparr>sb_gws := (if contains c ''Gateway'' then sb_gws sb @ [(word_of_nat i, word_of_nat j)] else sb_gws sb),
           sb_containerToId := AList.update c containerId (sb_containerToId sb)\<rparr>)"

definition SimulationBase_AssignIds :: "SimulationBase \<Rightarrow> SimulationBase" where
  "SimulationBase_AssignIds sb = AssignIds_loop (slots (sb_containerGroups sb)) 0 sb"

text \<open>\<open>m_misdeliveryCount\<close> is not initialised: its value \<open>uninit\<close> is arbitrary, as are the physical
  addresses of the tunnel endpoints until \<open>SetupTunnel\<close>.\<close>

definition SimulationBase_init ::
  "SimulationParameters \<Rightarrow> ContainerGroups \<Rightarrow> MigrationParams \<Rightarrow> u32 \<Rightarrow> SimulationBase res" where
  "SimulationBase_init params groups migParams uninit =
     (let leafCount = length groups mod 2 ^ 32;
          spineCount = leafCount;
          coreCount = (if NetworkTopology params = CLOS then 0 else NumOfCore params mod 2 ^ 32);
          podWidth = (if NetworkTopology params = CLOS then leafCount else PodWidth params mod 2 ^ 32) in
      bindE (assertE DivideByZero (podWidth \<noteq> 0)) (\<lambda>_.
      let podCount = spineCount div podWidth in
      Inr \<lparr>sb_containerGroups = groups, sb_leafCount = leafCount, sb_spineCount = spineCount,
           sb_coreCount = coreCount, sb_podWidth = podWidth, sb_podCount = podCount,
           sb_misdeliveryCount = uninit,
           sb_nodeToSwDevice = map (\<lambda>nodes. replicate (length nodes) None) (take leafCount groups),
           sb_swToSwDevice = replicate spineCount (replicate podWidth None),
           sb_coreToSpineDevice = replicate coreCount (replicate podCount None),
           sb_assigned = [], sb_routes = (\<lambda>_. []), sb_virtualToPhysical = Map.empty,
           sb_virtualAddresses = map (\<lambda>nodes. replicate (length nodes) []) (take leafCount groups),
           sb_socketHelpers = map (\<lambda>nodes. replicate (length nodes)
              (SocketHelper_new Map.empty uninit 0 (GatewayPerFlowLoadBalancing params) params migParams uninit))
              (take leafCount groups),
           sb_containerToId = [], sb_simParameters = params, sb_gws = [], sb_gwAddresses = []\<rparr>))"

definition SimulationBase_checks :: "SimulationBase \<Rightarrow> bool" where
  "SimulationBase_checks sb \<longleftrightarrow>
     (let params = sb_simParameters sb in
      8 \<le> NumOfPorts params \<and>
      sb_podWidth sb \<le> NumOfPorts params div 2 \<and>
      (NetworkTopology params = FATTREE \<or> NetworkTopology params = CLOS \<and> sb_leafCount sb \<le> 255) \<and>
      (NetworkTopology params = FATTREE \<and> sb_spineCount sb mod sb_podWidth sb = 0 \<or> NetworkTopology params = CLOS) \<and>
      sb_coreCount sb mod sb_podWidth sb = 0 \<and>
      sb_podCount sb \<le> NumOfPorts params \<and>
      sb_podCount sb * 3 mod 2 ^ 32 < 255)"

definition SimulationBase_new ::
  "SimulationParameters \<Rightarrow> ContainerGroups \<Rightarrow> MigrationParams \<Rightarrow> u32 \<Rightarrow> SimulationBase res" where
  "SimulationBase_new params groups migParams uninit =
     bindE (SimulationBase_init params groups migParams uninit) (\<lambda>sb.
     bindE (assertE AssertFail (SimulationBase_checks sb)) (\<lambda>_.
     bindE (assertE AssertFail (list_all (\<lambda>nodes. length nodes \<le> 255) (take (sb_leafCount sb) groups))) (\<lambda>_.
       Inr (SimulationBase_AssignIds sb))))"

section \<open>Topology\<close>

text \<open>Writes into a vector of vectors, one after the other; an index outside fails.\<close>

definition vec2_at :: "'a list list \<Rightarrow> nat \<Rightarrow> nat \<Rightarrow> 'a res" where
  "vec2_at m i j = bindE (vec_at m i) (\<lambda>row. vec_at row j)"

definition vec2_set :: "'a list list \<Rightarrow> nat \<Rightarrow> nat \<Rightarrow> 'a \<Rightarrow> 'a list list res" where
  "vec2_set m i j v = bindE (vec_at m i) (\<lambda>row. bindE (vec_set row j v) (vec_set m i))"

fun vec2_writes :: "((nat \<times> nat) \<times> 'a) list \<Rightarrow> 'a list list \<Rightarrow> 'a list list res" where
  "vec2_writes [] m = Inr m"
| "vec2_writes (((i, j), v) # ws) m = bindE (vec2_set m i j v) (vec2_writes ws)"

text \<open>The iterations of the nested loops of \<open>CreateTopology\<close> and \<open>AssignPhysicalIps\<close>: hosts of a leaf,
  leaves of a spine (the second dimension is the loop variable \<open>j\<close>), cores of a spine.\<close>

definition nest :: "nat list \<Rightarrow> (nat \<Rightarrow> nat list) \<Rightarrow> (nat \<times> nat) list" where
  "nest is js = concat (map (\<lambda>i. map (Pair i) (js i)) is)"

definition host_pairs :: "SimulationBase \<Rightarrow> (nat \<times> nat) list" where
  "host_pairs sb = nest [0..<sb_leafCount sb] (\<lambda>i. [0..<length (sb_containerGroups sb ! i)])"

definition spine_leaves :: "SimulationBase \<Rightarrow> nat \<Rightarrow> nat list" where
  "spine_leaves sb i =
     takeWhile (\<lambda>j. i div sb_podWidth sb * sb_podWidth sb + j < sb_leafCount sb) [0..<sb_podWidth sb]"

definition spine_cores :: "SimulationBase \<Rightarrow> nat list" where
  "spine_cores sb = [0..<sb_coreCount sb div sb_podWidth sb]"

definition core_idx :: "SimulationBase \<Rightarrow> nat \<Rightarrow> nat \<Rightarrow> nat" where
  "core_idx sb i j = i mod sb_podWidth sb * (sb_coreCount sb div sb_podWidth sb) + j"

definition SimulationBase_CreateTopology :: "SimulationBase \<Rightarrow> SimulationBase res" where
  "SimulationBase_CreateTopology sb =
     (let w = sb_podWidth sb; spines = [0..<sb_spineCount sb] in
      bindE (vec2_writes (map (\<lambda>(i, j). ((i, j), Some (HostN i j, LeafN i))) (host_pairs sb))
               (sb_nodeToSwDevice sb)) (\<lambda>nodeToSw.
      if NetworkTopology (sb_simParameters sb) = FATTREE
      then bindE (vec2_writes (map (\<lambda>(i, j). ((i, j), Some (SpineN i, LeafN (i div w * w + j))))
                     (nest spines (spine_leaves sb))) (sb_swToSwDevice sb)) (\<lambda>swToSw.
           bindE (vec2_writes (map (\<lambda>(i, j). ((core_idx sb i j, i div w), Some (CoreN (core_idx sb i j), SpineN i)))
                     (nest spines (\<lambda>_. spine_cores sb))) (sb_coreToSpineDevice sb)) (\<lambda>coreToSpine.
             Inr (sb\<lparr>sb_nodeToSwDevice := nodeToSw, sb_swToSwDevice := swToSw,
                     sb_coreToSpineDevice := coreToSpine\<rparr>)))
      else bindE (vec2_writes (map (\<lambda>(i, j). ((i, j), Some (SpineN i, LeafN j)))
                     (nest spines (\<lambda>_. [0..<sb_leafCount sb]))) (sb_swToSwDevice sb)) (\<lambda>swToSw.
             Inr (sb\<lparr>sb_nodeToSwDevice := nodeToSw, sb_swToSwDevice := swToSw\<rparr>))))"

section \<open>Addresses of the links\<close>

fun mapE :: "('a \<Rightarrow> 'b res) \<Rightarrow> 'a list \<Rightarrow> 'b list res" where
  "mapE f [] = Inr []"
| "mapE f (x # xs) = bindE (f x) (\<lambda>y. bindE (mapE f xs) (\<lambda>ys. Inr (y # ys)))"

text \<open>\<open>SetBase\<close> and \<open>Assign\<close>; an empty device container gets no address.\<close>

definition assign_link :: "link option list list \<Rightarrow> nat \<Rightarrow> nat \<Rightarrow> u32 \<Rightarrow> (link \<times> u32) list res" where
  "assign_link devices i j base =
     bindE (vec2_at devices i j) (\<lambda>d. Inr (case d of None \<Rightarrow> [] | Some l \<Rightarrow> [(l, base)]))"

definition AssignPhysicalIps_hosts :: "ipv4_parser \<Rightarrow> SimulationBase \<Rightarrow> (link \<times> u32) list res" where
  "AssignPhysicalIps_hosts ipv4 sb =
     bindE (mapE (\<lambda>(i, j). assign_link (sb_nodeToSwDevice sb) i j
              (IpUtils_GetNodeBasePhysicalAddress ipv4 (word_of_nat (i div sb_podWidth sb))
                 (word_of_nat (i mod sb_podWidth sb)) (word_of_nat j))) (host_pairs sb)) (\<lambda>xs. Inr (concat xs))"

definition AssignPhysicalIps_spine :: "ipv4_parser \<Rightarrow> SimulationBase \<Rightarrow> nat \<Rightarrow> (link \<times> u32) list res" where
  "AssignPhysicalIps_spine ipv4 sb i =
     bindE (mapE (\<lambda>j. assign_link (sb_swToSwDevice sb) i j
              (IpUtils_GetSwitchBaseAddress ipv4 (word_of_nat (sb_podCount sb))
                 (word_of_nat (i div sb_podWidth sb)) (word_of_nat (i mod sb_podWidth sb)) (word_of_nat j)))
              (spine_leaves sb i)) (\<lambda>xs.
     bindE (mapE (\<lambda>j. assign_link (sb_coreToSpineDevice sb) (core_idx sb i j) (i div sb_podWidth sb)
              (IpUtils_GetCoreSwitchBaseAddress ipv4 (word_of_nat (i div sb_podWidth sb))
                 (word_of_nat (core_idx sb i j)))) (spine_cores sb)) (\<lambda>ys.
       Inr (concat xs @ concat ys)))"

definition AssignPhysicalIps_links :: "ipv4_parser \<Rightarrow> SimulationBase \<Rightarrow> (link \<times> u32) list res" where
  "AssignPhysicalIps_links ipv4 sb =
     bindE (AssignPhysicalIps_hosts ipv4 sb) (\<lambda>hosts.
     bindE (mapE (AssignPhysicalIps_spine ipv4 sb) [0..<sb_spineCount sb]) (\<lambda>spines.
       Inr (hosts @ concat spines)))"

section \<open>Routes\<close>

text \<open>\<open>any\<close> is \<open>Ipv4Address::GetAny ()\<close>, the address 0, and \<open>Ipv4Mask::GetZero ()\<close> is 0.\<close>

definition routes_host :: "route list" where
  "routes_host = [\<lparr>rt_net = 0, rt_mask = 0, rt_iface = 1\<rparr>]"

text \<open>The first entry towards a leaf reaches its hosts, the second the switch itself. \<open>masks\<close> parses
  a mask like \<open>ipv4\<close> parses an address.\<close>

definition route_hosts_of :: "ipv4_parser \<Rightarrow> ipv4_parser \<Rightarrow> nat \<Rightarrow> nat \<Rightarrow> nat \<Rightarrow> route" where
  "route_hosts_of ipv4 masks pod leaf iface =
     \<lparr>rt_net = IpUtils_GetNodePhysicalAddress ipv4 (word_of_nat pod) (word_of_nat leaf) 0,
      rt_mask = IpUtils_GetClassBMask masks, rt_iface = iface\<rparr>"

definition route_leaf :: "ipv4_parser \<Rightarrow> ipv4_parser \<Rightarrow> SimulationBase \<Rightarrow> nat \<Rightarrow> nat \<Rightarrow> nat \<Rightarrow> route" where
  "route_leaf ipv4 masks sb pod leaf iface =
     \<lparr>rt_net = IpUtils_GetLeafAddress ipv4 (word_of_nat (sb_podCount sb)) (word_of_nat pod) 0 (word_of_nat leaf),
      rt_mask = IpUtils_GetClassCMask masks, rt_iface = iface\<rparr>"

definition route_spine :: "ipv4_parser \<Rightarrow> ipv4_parser \<Rightarrow> SimulationBase \<Rightarrow> nat \<Rightarrow> nat \<Rightarrow> nat \<Rightarrow> route" where
  "route_spine ipv4 masks sb pod spine iface =
     \<lparr>rt_net = IpUtils_GetSpineFromLeafAddress ipv4 (word_of_nat (sb_podCount sb)) (word_of_nat pod)
                (word_of_nat spine) 0,
      rt_mask = IpUtils_GetClassCMask masks, rt_iface = iface\<rparr>"

definition route_core :: "ipv4_parser \<Rightarrow> ipv4_parser \<Rightarrow> nat \<Rightarrow> nat \<Rightarrow> route" where
  "route_core ipv4 masks core iface =
     \<lparr>rt_net = IpUtils_GetCoreAddress ipv4 0 (word_of_nat core),
      rt_mask = IpUtils_GetClassCMask masks, rt_iface = iface\<rparr>"

definition routes_of_leaf :: "ipv4_parser \<Rightarrow> ipv4_parser \<Rightarrow> SimulationBase \<Rightarrow> nat \<Rightarrow> route list" where
  "routes_of_leaf ipv4 masks sb i =
     (let w = sb_podWidth sb; up = length (sb_containerGroups sb ! i) + 1 in
      concat (map (\<lambda>j. if j mod w = i mod w \<and> j div w = i div w then []
               else concat (map (\<lambda>k. [route_hosts_of ipv4 masks (j div w) (j mod w) (up + k),
                                      route_leaf ipv4 masks sb (j div w) (j mod w) (up + k)]) [0..<w]))
          [0..<sb_leafCount sb]) @
      concat (map (\<lambda>j. if j div w = i div w
               then [route_spine ipv4 masks sb (j div w) (j mod w) (up + j mod w)]
               else map (\<lambda>k. route_spine ipv4 masks sb (j div w) (j mod w) (up + k)) [0..<w])
          [0..<sb_spineCount sb]) @
      map (\<lambda>j. route_core ipv4 masks j (up + j div (sb_coreCount sb div w))) [0..<sb_coreCount sb])"

definition routes_of_spine :: "ipv4_parser \<Rightarrow> ipv4_parser \<Rightarrow> SimulationBase \<Rightarrow> nat \<Rightarrow> route list" where
  "routes_of_spine ipv4 masks sb k =
     (let w = sb_podWidth sb in
      concat (map (\<lambda>i. if k div w = i div w
               then [route_hosts_of ipv4 masks (i div w) (i mod w) (i mod w + 1),
                     route_leaf ipv4 masks sb (i div w) (i mod w) (i mod w + 1)]
               else concat (map (\<lambda>j. [route_hosts_of ipv4 masks (i div w) (i mod w) (w + 1 + j),
                                      route_leaf ipv4 masks sb (i div w) (i mod w) (w + 1 + j)])
                      [0..<sb_coreCount sb div w]))
          [0..<sb_leafCount sb]) @
      concat (map (\<lambda>i. if i div w = k div w \<and> i mod w = k mod w then []
               else if k div w = i div w
               then map (\<lambda>j. route_spine ipv4 masks sb (i div w) (i mod w) (1 + j)) [0..<w]
               else map (\<lambda>j. route_spine ipv4 masks sb (i div w) (i mod w) (w + 1 + j)) [0..<sb_coreCount sb div w])
          [0..<sb_spineCount sb]) @
      map (\<lambda>i. route_core ipv4 masks (core_idx sb k i) (w + 1 + i)) [0..<sb_coreCount sb div w])"

definition routes_of_core :: "ipv4_parser \<Rightarrow> ipv4_parser \<Rightarrow> SimulationBase \<Rightarrow> route list" where
  "routes_of_core ipv4 masks sb =
     (let w = sb_podWidth sb in
      concat (map (\<lambda>i. concat (map (\<lambda>j. [route_hosts_of ipv4 masks i j (i + 1),
                                         route_spine ipv4 masks sb i j (i + 1)]) [0..<w]))
          [0..<sb_podCount sb]) @
      map (\<lambda>leaf. route_leaf ipv4 masks sb (leaf div w) (leaf mod w) (1 + leaf div w)) [0..<sb_leafCount sb])"

fun routes_of :: "ipv4_parser \<Rightarrow> ipv4_parser \<Rightarrow> SimulationBase \<Rightarrow> sim_node \<Rightarrow> route list" where
  "routes_of ipv4 masks sb (HostN i j) = routes_host"
| "routes_of ipv4 masks sb (LeafN i) = routes_of_leaf ipv4 masks sb i"
| "routes_of ipv4 masks sb (SpineN k) = routes_of_spine ipv4 masks sb k"
| "routes_of ipv4 masks sb (CoreN k) = routes_of_core ipv4 masks sb"

text \<open>The division of the route to a core fails on no topology the constructor accepts, since the
  number of cores is then a multiple of the pod width.\<close>

definition SimulationBase_AssignPhysicalIps ::
  "ipv4_parser \<Rightarrow> ipv4_parser \<Rightarrow> SimulationBase \<Rightarrow> SimulationBase res" where
  "SimulationBase_AssignPhysicalIps ipv4 masks sb =
     bindE (AssignPhysicalIps_links ipv4 sb) (\<lambda>links.
     bindE (assertE DivideByZero (sb_leafCount sb = 0 \<or> sb_coreCount sb = 0 \<or>
                                  sb_coreCount sb div sb_podWidth sb \<noteq> 0)) (\<lambda>_.
       Inr (sb\<lparr>sb_assigned := links, sb_routes := routes_of ipv4 masks sb\<rparr>)))"

section \<open>Tunnel endpoints\<close>

text \<open>\<open>operator[]\<close> of \<open>m_containerToId\<close> inserts 0 for an unknown name.\<close>

definition id_of :: "string \<Rightarrow> SimulationBase \<Rightarrow> u32 \<times> SimulationBase" where
  "id_of c sb = (case map_of (sb_containerToId sb) c of
       Some n \<Rightarrow> (n, sb)
     | None \<Rightarrow> (0, sb\<lparr>sb_containerToId := AList.update c 0 (sb_containerToId sb)\<rparr>))"

definition host_address :: "ipv4_parser \<Rightarrow> SimulationBase \<Rightarrow> nat \<Rightarrow> nat \<Rightarrow> u32" where
  "host_address ipv4 sb i j = IpUtils_GetNodePhysicalAddress ipv4 (word_of_nat (i div sb_podWidth sb))
     (word_of_nat (i mod sb_podWidth sb)) (word_of_nat j)"

definition SetupTunnel_container ::
  "ipv4_parser \<Rightarrow> ipv4_parser \<Rightarrow> nat \<Rightarrow> nat \<Rightarrow> string \<Rightarrow> SimulationBase \<Rightarrow> SimulationBase" where
  "SetupTunnel_container ipv4 masks i j c sb =
     (case id_of c sb of (containerId, sb) \<Rightarrow>
        let a = IpUtils_GetContainerVirtualAddress containerId;
            addrs = sb_virtualAddresses sb in
        sb\<lparr>sb_virtualAddresses :=
              addrs[i := (addrs ! i)[j := addrs ! i ! j @ [(a, IpUtils_GetClassAMask masks)]]],
           sb_virtualToPhysical := (sb_virtualToPhysical sb)(a \<mapsto> host_address ipv4 sb i j)\<rparr>)"

definition SetupTunnel_host ::
  "ipv4_parser \<Rightarrow> ipv4_parser \<Rightarrow> nat \<Rightarrow> nat \<Rightarrow> SimulationBase \<Rightarrow> SimulationBase res" where
  "SetupTunnel_host ipv4 masks i j sb =
     (let sb = fold (SetupTunnel_container ipv4 masks i j) (sb_containerGroups sb ! i ! j) sb;
          hs = sb_socketHelpers sb in
      bindE (assertE DivideByZero (sb_gws sb \<noteq> [])) (\<lambda>_.
        Inr (sb\<lparr>sb_socketHelpers := hs[i := (hs ! i)[j :=
               (hs ! i ! j)\<lparr>sh_gatewayRange := length (sb_containerToId sb) div length (sb_gws sb),
                            sh_gatewayAddresses := sb_gwAddresses sb,
                            sh_physicalAddress := host_address ipv4 sb i j\<rparr>]]\<rparr>)))"

fun SetupTunnel_loop ::
  "ipv4_parser \<Rightarrow> ipv4_parser \<Rightarrow> (nat \<times> nat) list \<Rightarrow> SimulationBase \<Rightarrow> SimulationBase res" where
  "SetupTunnel_loop ipv4 masks [] sb = Inr sb"
| "SetupTunnel_loop ipv4 masks ((i, j) # xs) sb =
     bindE (SetupTunnel_host ipv4 masks i j sb) (SetupTunnel_loop ipv4 masks xs)"

text \<open>The endpoints refer to the table of the simulation: when the loop is over each of them sees the
  whole table.\<close>

definition share_table :: "SimulationBase \<Rightarrow> SimulationBase" where
  "share_table sb = sb\<lparr>sb_socketHelpers := map (map (\<lambda>sh. sh\<lparr>sh_virtualToPhysical := sb_virtualToPhysical sb\<rparr>))
     (sb_socketHelpers sb)\<rparr>"

definition SimulationBase_SetupTunnel ::
  "ipv4_parser \<Rightarrow> ipv4_parser \<Rightarrow> SimulationBase \<Rightarrow> SimulationBase res" where
  "SimulationBase_SetupTunnel ipv4 masks sb =
     (let sb = sb\<lparr>sb_gwAddresses := sb_gwAddresses sb @
            map (\<lambda>(leaf, node). IpUtils_GetNodePhysicalAddress ipv4 (word_of_nat (unat leaf div sb_podWidth sb))
                   (word_of_nat (unat leaf mod sb_podWidth sb)) node) (sb_gws sb)\<rparr> in
      bindE (SetupTunnel_loop ipv4 masks (host_pairs sb) sb) (\<lambda>sb. Inr (share_table sb)))"

text \<open>\<open>Run\<close> up to the installation of the applications.\<close>

definition SimulationBase_prepare ::
  "ipv4_parser \<Rightarrow> ipv4_parser \<Rightarrow> SimulationBase \<Rightarrow> SimulationBase res" where
  "SimulationBase_prepare ipv4 masks sb =
     bindE (SimulationBase_CreateTopology sb) (\<lambda>sb.
     bindE (SimulationBase_AssignPhysicalIps ipv4 masks sb)
       (SimulationBase_SetupTunnel ipv4 masks))"

section \<open>Vectors of vectors\<close>

definition in_vec2 :: "'a list list \<Rightarrow> nat \<Rightarrow> nat \<Rightarrow> bool" where
  "in_vec2 m i j \<longleftrightarrow> i < length m \<and> j < length (m ! i)"

lemma vec2_at_ok [simp]: "in_vec2 m i j \<Longrightarrow> vec2_at m i j = Inr (m ! i ! j)"
  by (simp add: vec2_at_def in_vec2_def)

lemma vec2_set_ok [simp]: "in_vec2 m i j \<Longrightarrow> vec2_set m i j v = Inr (m[i := (m ! i)[j := v]])"
  by (simp add: vec2_set_def in_vec2_def)

lemma in_vec2_update [simp]: "in_vec2 (m[i := (m ! i)[j := v]]) a b \<longleftrightarrow> in_vec2 m a b"
  by (cases "a = i"; cases "i < length m") (auto simp: in_vec2_def)

lemma nth_vec2_update:
  "in_vec2 m i j \<Longrightarrow> m[i := (m ! i)[j := v]] ! a ! b = (if a = i \<and> b = j then v else m ! a ! b)"
  by (auto simp: in_vec2_def nth_list_update)

text \<open>Writes of values that are determined by their place: the order does not matter.\<close>

lemma vec2_writes_ok:
  assumes "\<forall>((i, j), v) \<in> set ws. in_vec2 m i j \<and> v = F i j"
  shows "returns (vec2_writes ws m) (\<lambda>m'. (\<forall>i j. in_vec2 m' i j \<longleftrightarrow> in_vec2 m i j) \<and>
    (\<forall>i j. m' ! i ! j = (if (i, j) \<in> fst ` set ws then F i j else m ! i ! j)))"
  using assms
proof (induction ws m rule: vec2_writes.induct)
  case (2 i j v ws m)
  then have "in_vec2 m i j" "v = F i j"
    by auto
  moreover have "returns (vec2_writes ws (m[i := (m ! i)[j := v]])) (\<lambda>m'.
      (\<forall>a b. in_vec2 m' a b \<longleftrightarrow> in_vec2 m a b) \<and>
      (\<forall>a b. m' ! a ! b = (if (a, b) \<in> fst ` set ws then F a b else m[i := (m ! i)[j := v]] ! a ! b)))"
    using "2.IH" [of "m[i := (m ! i)[j := v]]"] "2.prems" by simp
  ultimately show ?case
    by (simp, elim returns_mono) (simp add: nth_vec2_update)
qed simp

lemma mapE_Inr: "(\<And>x. x \<in> set xs \<Longrightarrow> f x = Inr (g x)) \<Longrightarrow> mapE f xs = Inr (map g xs)"
  by (induction xs) auto

section \<open>The topology the constructor accepts\<close>

definition dims_ok :: "SimulationBase \<Rightarrow> bool" where
  "dims_ok sb \<longleftrightarrow> 0 < sb_podWidth sb \<and> sb_podWidth sb \<le> 256 \<and> sb_spineCount sb = sb_leafCount sb \<and>
     length (sb_containerGroups sb) = sb_leafCount sb \<and> sb_leafCount sb = sb_podCount sb * sb_podWidth sb \<and>
     sb_coreCount sb mod sb_podWidth sb = 0 \<and> sb_coreCount sb \<le> 256 \<and> 3 * sb_podCount sb < 255 \<and>
     (\<forall>nodes \<in> set (sb_containerGroups sb). length nodes \<le> 255) \<and>
     (1 < sb_podCount sb \<longrightarrow> 0 < sb_coreCount sb) \<and>
     (NetworkTopology (sb_simParameters sb) = CLOS \<longrightarrow> sb_coreCount sb = 0 \<and> sb_podWidth sb = sb_leafCount sb)"

lemma dims_okD:
  assumes "dims_ok sb"
  shows "0 < sb_podWidth sb" "sb_podWidth sb \<le> 256" "sb_spineCount sb = sb_leafCount sb"
    "length (sb_containerGroups sb) = sb_leafCount sb" "sb_leafCount sb = sb_podCount sb * sb_podWidth sb"
    "sb_coreCount sb mod sb_podWidth sb = 0" "sb_coreCount sb \<le> 256" "3 * sb_podCount sb < 255"
    "i < sb_leafCount sb \<Longrightarrow> length (sb_containerGroups sb ! i) \<le> 255"
    "1 < sb_podCount sb \<Longrightarrow> 0 < sb_coreCount sb"
    "NetworkTopology (sb_simParameters sb) = CLOS \<Longrightarrow> sb_coreCount sb = 0 \<and> sb_podWidth sb = sb_leafCount sb"
  using assms unfolding dims_ok_def by (blast, blast, blast, blast, blast, blast, blast, blast, metis nth_mem, blast, blast)

definition devices_fresh :: "SimulationBase \<Rightarrow> bool" where
  "devices_fresh sb \<longleftrightarrow>
     sb_nodeToSwDevice sb = map (\<lambda>nodes. replicate (length nodes) None) (sb_containerGroups sb) \<and>
     sb_swToSwDevice sb = replicate (sb_spineCount sb) (replicate (sb_podWidth sb) None) \<and>
     sb_coreToSpineDevice sb = replicate (sb_coreCount sb) (replicate (sb_podCount sb) None)"

text \<open>What the constructor does not check: that pod width and number of cores fit an octet, and that
  several pods have cores between them.\<close>

definition octets_ok :: "SimulationParameters \<Rightarrow> ContainerGroups \<Rightarrow> bool" where
  "octets_ok params groups \<longleftrightarrow> 3 * length groups < 2 ^ 32 \<and>
     (NetworkTopology params = FATTREE \<longrightarrow> PodWidth params \<le> 256 \<and> NumOfCore params \<le> 256 \<and>
        (PodWidth params < length groups \<longrightarrow> 0 < NumOfCore params))"

lemma AssignIds_loop_frame:
  "\<exists>gws ids. AssignIds_loop xs n sb = sb\<lparr>sb_gws := gws, sb_containerToId := ids\<rparr>"
proof (induction xs n sb rule: AssignIds_loop.induct)
  case (1 n sb)
  have "sb = sb\<lparr>sb_gws := sb_gws sb, sb_containerToId := sb_containerToId sb\<rparr>"
    by simp
  then show ?case
    unfolding AssignIds_loop.simps by blast
next
  case (2 i j c xs n sb)
  then obtain gws ids where "AssignIds_loop (((i, j), c) # xs) n sb =
      sb\<lparr>sb_gws := gws, sb_containerToId := ids\<rparr>"
    by auto
  then show ?case
    by blast
qed

lemma AssignIds_frame:
  "\<exists>gws ids. SimulationBase_AssignIds sb = sb\<lparr>sb_gws := gws, sb_containerToId := ids\<rparr>"
  unfolding SimulationBase_AssignIds_def by (rule AssignIds_loop_frame)

lemma dims_ok_update [simp]:
  "dims_ok (sb\<lparr>sb_gws := gws\<rparr>) = dims_ok sb" "dims_ok (sb\<lparr>sb_containerToId := ids\<rparr>) = dims_ok sb"
  "devices_fresh (sb\<lparr>sb_gws := gws\<rparr>) = devices_fresh sb"
  "devices_fresh (sb\<lparr>sb_containerToId := ids\<rparr>) = devices_fresh sb"
  "dims_ok (sb\<lparr>sb_assigned := links\<rparr>) = dims_ok sb" "dims_ok (sb\<lparr>sb_routes := rs\<rparr>) = dims_ok sb"
  "dims_ok (sb\<lparr>sb_nodeToSwDevice := A\<rparr>) = dims_ok sb" "dims_ok (sb\<lparr>sb_swToSwDevice := A\<rparr>) = dims_ok sb"
  "dims_ok (sb\<lparr>sb_coreToSpineDevice := A\<rparr>) = dims_ok sb"
  by (simp_all add: dims_ok_def devices_fresh_def)

lemma SimulationBase_init_dims:
  assumes "SimulationBase_init params groups migParams uninit = Inr sb" and "octets_ok params groups"
    and "SimulationBase_checks sb" and "list_all (\<lambda>nodes. length nodes \<le> 255) (take (sb_leafCount sb) groups)"
  shows "dims_ok sb \<and> devices_fresh sb"
proof (cases "NetworkTopology params")
  case CLOS
  then show ?thesis
    using assms
    by (auto simp: SimulationBase_init_def Let_def octets_ok_def SimulationBase_checks_def dims_ok_def
        devices_fresh_def list_all_iff monad_simps)
next
  case FATTREE
  have [simp]: "length groups < 4294967296"
    using assms(2) by (simp add: octets_ok_def)
  have p: "0 < PodWidth params" "PodWidth params \<le> 256" "NumOfCore params \<le> 256"
      "PodWidth params < length groups \<longrightarrow> 0 < NumOfCore params"
      "length groups mod PodWidth params = 0"
    using assms FATTREE
    by (auto simp: SimulationBase_init_def Let_def octets_ok_def SimulationBase_checks_def monad_simps)
  have "3 * (length groups div PodWidth params) < 4294967296"
    using assms(2) le_less_trans [OF mult_le_mono2 [OF div_le_dividend, of 3]] by (auto simp: octets_ok_def)
  moreover have "length groups = length groups div PodWidth params * PodWidth params"
    using p(5) by auto
  ultimately show ?thesis
    using assms FATTREE p
    by (auto simp: SimulationBase_init_def Let_def SimulationBase_checks_def dims_ok_def
        devices_fresh_def list_all_iff monad_simps)
qed

lemma SimulationBase_new_dims:
  assumes "SimulationBase_new params groups migParams uninit = Inr sb" and "octets_ok params groups"
  shows "dims_ok sb \<and> devices_fresh sb"
proof -
  obtain sb0 where "SimulationBase_init params groups migParams uninit = Inr sb0"
      "SimulationBase_checks sb0" "list_all (\<lambda>nodes. length nodes \<le> 255) (take (sb_leafCount sb0) groups)"
      "sb = SimulationBase_AssignIds sb0"
    using assms(1) by (auto simp: SimulationBase_new_def monad_simps)
  then show ?thesis
    using SimulationBase_init_dims [OF _ assms(2)] AssignIds_frame [of sb0] by auto
qed

section \<open>The links of the network\<close>

text \<open>The links with their networks, in the order of their assignment.\<close>

definition host_link :: "ipv4_parser \<Rightarrow> SimulationBase \<Rightarrow> nat \<Rightarrow> nat \<Rightarrow> link \<times> u32" where
  "host_link ipv4 sb i j = ((HostN i j, LeafN i), IpUtils_GetNodeBasePhysicalAddress ipv4
     (word_of_nat (i div sb_podWidth sb)) (word_of_nat (i mod sb_podWidth sb)) (word_of_nat j))"

definition leaf_link :: "ipv4_parser \<Rightarrow> SimulationBase \<Rightarrow> nat \<Rightarrow> nat \<Rightarrow> link \<times> u32" where
  "leaf_link ipv4 sb i j = ((SpineN i, LeafN (i div sb_podWidth sb * sb_podWidth sb + j)),
     IpUtils_GetSwitchBaseAddress ipv4 (word_of_nat (sb_podCount sb)) (word_of_nat (i div sb_podWidth sb))
       (word_of_nat (i mod sb_podWidth sb)) (word_of_nat j))"

definition core_link :: "ipv4_parser \<Rightarrow> SimulationBase \<Rightarrow> nat \<Rightarrow> nat \<Rightarrow> link \<times> u32" where
  "core_link ipv4 sb i j = ((CoreN (core_idx sb i j), SpineN i),
     IpUtils_GetCoreSwitchBaseAddress ipv4 (word_of_nat (i div sb_podWidth sb)) (word_of_nat (core_idx sb i j)))"

definition network_links :: "ipv4_parser \<Rightarrow> SimulationBase \<Rightarrow> (link \<times> u32) list" where
  "network_links ipv4 sb = map (\<lambda>(i, j). host_link ipv4 sb i j) (host_pairs sb) @
     concat (map (\<lambda>i. map (leaf_link ipv4 sb i) [0..<sb_podWidth sb] @ map (core_link ipv4 sb i) (spine_cores sb))
       [0..<sb_spineCount sb])"

lemma pod_offset:
  assumes "i < n * (w :: nat)" and "j < w"
  shows "i div w * w + j < n * w"
proof -
  have "i div w < n"
    using assms by (simp add: less_mult_imp_div_less)
  then have "Suc (i div w) * w \<le> n * w"
    by (intro mult_le_mono1) simp
  then show ?thesis
    using assms(2) by simp
qed

lemma spine_leaves_all:
  assumes "dims_ok sb" and "i < sb_spineCount sb"
  shows "spine_leaves sb i = [0..<sb_podWidth sb]"
  using assms pod_offset [of i "sb_podCount sb" "sb_podWidth sb"]
  unfolding spine_leaves_def by (intro takeWhile_eq_all_conv [THEN iffD2]) (auto simp: dims_ok_def)

lemma core_idx_bound:
  assumes "dims_ok sb" and "j < sb_coreCount sb div sb_podWidth sb"
  shows "core_idx sb i j < sb_coreCount sb"
proof -
  let ?w = "sb_podWidth sb" and ?q = "sb_coreCount sb div sb_podWidth sb"
  have w: "0 < ?w" and m: "sb_coreCount sb mod ?w = 0"
    using assms(1) by (simp_all add: dims_ok_def)
  have "core_idx sb i j < Suc (i mod ?w) * ?q"
    using assms(2) by (simp add: core_idx_def)
  also have "\<dots> \<le> ?w * ?q"
    using w by (intro mult_le_mono1) (simp add: Suc_leI)
  also have "\<dots> = sb_coreCount sb"
    using m by auto
  finally show ?thesis .
qed

lemma core_idx_parts:
  assumes "j < sb_coreCount sb div sb_podWidth sb"
  shows "core_idx sb i j div (sb_coreCount sb div sb_podWidth sb) = i mod sb_podWidth sb"
    and "core_idx sb i j mod (sb_coreCount sb div sb_podWidth sb) = j"
  using assms by (simp_all add: core_idx_def)

lemma nest_iff: "(i, j) \<in> set (nest xs f) \<longleftrightarrow> i \<in> set xs \<and> j \<in> set (f i)"
  by (auto simp: nest_def)

lemma host_pairs_iff:
  "(i, j) \<in> set (host_pairs sb) \<longleftrightarrow> i < sb_leafCount sb \<and> j < length (sb_containerGroups sb ! i)"
  by (simp add: host_pairs_def nest_iff)

text \<open>Where \<open>CreateTopology\<close> writes the devices of each link.\<close>

definition devices_ok :: "SimulationBase \<Rightarrow> bool" where
  "devices_ok sb \<longleftrightarrow>
     (\<forall>(i, j) \<in> set (host_pairs sb). in_vec2 (sb_nodeToSwDevice sb) i j \<and>
        sb_nodeToSwDevice sb ! i ! j = Some (HostN i j, LeafN i)) \<and>
     (\<forall>i < sb_spineCount sb. \<forall>j < sb_podWidth sb. in_vec2 (sb_swToSwDevice sb) i j \<and>
        sb_swToSwDevice sb ! i ! j = Some (SpineN i, LeafN (i div sb_podWidth sb * sb_podWidth sb + j))) \<and>
     (\<forall>i < sb_spineCount sb. \<forall>j < sb_coreCount sb div sb_podWidth sb.
        in_vec2 (sb_coreToSpineDevice sb) (core_idx sb i j) (i div sb_podWidth sb) \<and>
        sb_coreToSpineDevice sb ! core_idx sb i j ! (i div sb_podWidth sb) = Some (CoreN (core_idx sb i j), SpineN i))"

text \<open>The same lemma for a list of writes given by their places.\<close>

lemma vec2_writes_map_ok:
  assumes "\<forall>(i, j) \<in> set ps. in_vec2 m i j"
  shows "returns (vec2_writes (map (\<lambda>(i, j). ((i, j), F i j)) ps) m)
    (\<lambda>m'. \<forall>(i, j) \<in> set ps. in_vec2 m' i j \<and> m' ! i ! j = F i j)"
proof (rule returns_mono [OF vec2_writes_ok [where F = F]])
  show "\<forall>((i, j), v) \<in> set (map (\<lambda>(i, j). ((i, j), F i j)) ps). in_vec2 m i j \<and> v = F i j"
    using assms by auto
next
  fix m'
  have "fst ` set (map (\<lambda>(i, j). ((i, j), F i j)) ps) = set ps"
    by force
  then show "(\<forall>i j. in_vec2 m' i j = in_vec2 m i j) \<and> (\<forall>i j. m' ! i ! j =
        (if (i, j) \<in> fst ` set (map (\<lambda>(i, j). ((i, j), F i j)) ps) then F i j else m ! i ! j)) \<Longrightarrow>
      \<forall>(i, j) \<in> set ps. in_vec2 m' i j \<and> m' ! i ! j = F i j"
    using assms by auto
qed

lemma core_writes_ok:
  assumes "dims_ok sb" and "devices_fresh sb"
  shows "returns (vec2_writes (map (\<lambda>(i, j). ((core_idx sb i j, i div sb_podWidth sb),
        Some (CoreN (core_idx sb i j), SpineN i))) (nest [0..<sb_spineCount sb] (\<lambda>_. spine_cores sb)))
      (sb_coreToSpineDevice sb))
    (\<lambda>m. \<forall>i < sb_spineCount sb. \<forall>j < sb_coreCount sb div sb_podWidth sb.
       in_vec2 m (core_idx sb i j) (i div sb_podWidth sb) \<and>
       m ! core_idx sb i j ! (i div sb_podWidth sb) = Some (CoreN (core_idx sb i j), SpineN i))"
    (is "returns (vec2_writes (map ?write ?pairs) _) _")
proof -
  let ?w = "sb_podWidth sb" and ?q = "sb_coreCount sb div sb_podWidth sb"
  define F where "F c p = Some (CoreN c, SpineN (p * ?w + c div ?q))" for c p
  let ?place = "\<lambda>(i, j). (core_idx sb i j, i div ?w)"
  have F: "F (core_idx sb i j) (i div ?w) = Some (CoreN (core_idx sb i j), SpineN i)" if "j < ?q" for i j
    using core_idx_parts [OF that] by (simp add: F_def)
  have "map ?write ?pairs = map (\<lambda>(c, p). ((c, p), F c p)) (map ?place ?pairs)"
    using F by (auto simp: nest_iff spine_cores_def)
  moreover have "i div ?w < sb_podCount sb" if "i < sb_spineCount sb" for i
    using that dims_okD(3,5) [OF assms(1)] by (simp add: less_mult_imp_div_less)
  then have "\<forall>(c, p) \<in> set (map ?place ?pairs). in_vec2 (sb_coreToSpineDevice sb) c p"
    using assms(2) core_idx_bound [OF assms(1)]
    by (auto simp: nest_iff spine_cores_def in_vec2_def devices_fresh_def)
  ultimately have *: "returns (vec2_writes (map ?write ?pairs) (sb_coreToSpineDevice sb))
      (\<lambda>m. \<forall>(c, p) \<in> set (map ?place ?pairs). in_vec2 m c p \<and> m ! c ! p = F c p)"
    by (simp only: vec2_writes_map_ok)
  have in_place: "(core_idx sb i j, i div ?w) \<in> set (map ?place ?pairs)"
    if "i < sb_spineCount sb" "j < ?q" for i j
  proof -
    have "(i, j) \<in> set ?pairs"
      using that by (simp add: nest_iff spine_cores_def)
    then show ?thesis
      unfolding set_map by (rule rev_image_eqI) simp
  qed
  show ?thesis
  proof (rule returns_mono [OF *], intro allI impI)
    fix m i j
    assume "\<forall>(c, p) \<in> set (map ?place ?pairs). in_vec2 m c p \<and> m ! c ! p = F c p"
      and "i < sb_spineCount sb" "j < ?q"
    with bspec [OF this(1) in_place [OF this(2,3)]] F [OF this(3)]
    show "in_vec2 m (core_idx sb i j) (i div ?w) \<and>
        m ! core_idx sb i j ! (i div ?w) = Some (CoreN (core_idx sb i j), SpineN i)"
      by simp
  qed
qed

lemma host_writes_ok:
  assumes "dims_ok sb" and "devices_fresh sb"
  shows "returns (vec2_writes (map (\<lambda>(i, j). ((i, j), Some (HostN i j, LeafN i))) (host_pairs sb))
      (sb_nodeToSwDevice sb))
    (\<lambda>m. \<forall>(i, j) \<in> set (host_pairs sb). in_vec2 m i j \<and> m ! i ! j = Some (HostN i j, LeafN i))"
  using assms(2) dims_okD(4) [OF assms(1)]
  by (intro vec2_writes_map_ok) (auto simp: host_pairs_iff in_vec2_def devices_fresh_def)

lemma leaf_writes_ok:
  assumes "dims_ok sb" and "devices_fresh sb"
  shows "returns (vec2_writes (map (\<lambda>(i, j). ((i, j), Some (SpineN i, LeafN (i div sb_podWidth sb * sb_podWidth sb + j))))
      (nest [0..<sb_spineCount sb] (\<lambda>_. [0..<sb_podWidth sb]))) (sb_swToSwDevice sb))
    (\<lambda>m. \<forall>i < sb_spineCount sb. \<forall>j < sb_podWidth sb. in_vec2 m i j \<and>
       m ! i ! j = Some (SpineN i, LeafN (i div sb_podWidth sb * sb_podWidth sb + j)))"
proof -
  let ?ps = "nest [0..<sb_spineCount sb] (\<lambda>_. [0..<sb_podWidth sb])"
  have "\<forall>(i, j) \<in> set ?ps. in_vec2 (sb_swToSwDevice sb) i j"
    using assms(2) by (auto simp: nest_iff in_vec2_def devices_fresh_def)
  then show ?thesis
    by (rule returns_mono [OF vec2_writes_map_ok]) (auto simp: nest_iff)
qed

lemma nest_cong: "(\<And>i. i \<in> set is \<Longrightarrow> f i = g i) \<Longrightarrow> nest is f = nest is g"
  unfolding nest_def by (rule arg_cong [where f = concat]) simp

text \<open>In a Clos network the pod is the whole network.\<close>

lemma clos_writes:
  assumes "dims_ok sb" and "NetworkTopology (sb_simParameters sb) = CLOS"
  shows "map (\<lambda>(i, j). ((i, j), Some (SpineN i, LeafN j))) (nest [0..<sb_spineCount sb] (\<lambda>_. [0..<sb_leafCount sb])) =
    map (\<lambda>(i, j). ((i, j), Some (SpineN i, LeafN (i div sb_podWidth sb * sb_podWidth sb + j))))
      (nest [0..<sb_spineCount sb] (\<lambda>_. [0..<sb_podWidth sb]))"
  using dims_okD(3,11) [OF assms(1)] assms(2) by (auto simp: nest_iff)

lemma CreateTopology_ok:
  assumes "dims_ok sb" and "devices_fresh sb"
  shows "returns (SimulationBase_CreateTopology sb) (\<lambda>sb'. devices_ok sb' \<and>
    (\<exists>A B C. sb' = sb\<lparr>sb_nodeToSwDevice := A, sb_swToSwDevice := B, sb_coreToSpineDevice := C\<rparr>))"
proof (cases "NetworkTopology (sb_simParameters sb)")
  case FATTREE
  have "nest [0..<sb_spineCount sb] (spine_leaves sb) = nest [0..<sb_spineCount sb] (\<lambda>_. [0..<sb_podWidth sb])"
    by (rule nest_cong) (simp add: spine_leaves_all [OF assms(1)])
  then show ?thesis
    unfolding SimulationBase_CreateTopology_def Let_def if_P [OF FATTREE]
    by (simp only:, intro returns_bind [OF host_writes_ok [OF assms]] returns_bind [OF leaf_writes_ok [OF assms]]
        returns_bind [OF core_writes_ok [OF assms]])
       (auto simp: devices_ok_def host_pairs_def core_idx_def)
next
  case CLOS
  have 0: "sb_coreCount sb = 0" and n: "NetworkTopology (sb_simParameters sb) \<noteq> FATTREE"
    using dims_okD(11) [OF assms(1)] CLOS by simp_all
  show ?thesis
    unfolding SimulationBase_CreateTopology_def Let_def if_not_P [OF n] clos_writes [OF assms(1) CLOS]
    by (intro returns_bind [OF host_writes_ok [OF assms]] returns_bind [OF leaf_writes_ok [OF assms]])
       (simp add: devices_ok_def host_pairs_def 0, rule exI, rule exI, rule exI [of _ "sb_coreToSpineDevice sb"], simp)
qed

lemma AssignPhysicalIps_spine_ok:
  assumes "dims_ok sb" and "devices_ok sb" and "i < sb_spineCount sb"
  shows "AssignPhysicalIps_spine ipv4 sb i =
    Inr (map (leaf_link ipv4 sb i) [0..<sb_podWidth sb] @ map (core_link ipv4 sb i) (spine_cores sb))"
proof -
  have "mapE (\<lambda>j. assign_link (sb_swToSwDevice sb) i j
          (IpUtils_GetSwitchBaseAddress ipv4 (word_of_nat (sb_podCount sb)) (word_of_nat (i div sb_podWidth sb))
             (word_of_nat (i mod sb_podWidth sb)) (word_of_nat j))) (spine_leaves sb i) =
        Inr (map (\<lambda>j. [leaf_link ipv4 sb i j]) [0..<sb_podWidth sb])"
    unfolding spine_leaves_all [OF assms(1,3)]
    using assms(2,3) by (intro mapE_Inr) (simp add: assign_link_def leaf_link_def devices_ok_def)
  moreover have "mapE (\<lambda>j. assign_link (sb_coreToSpineDevice sb) (core_idx sb i j) (i div sb_podWidth sb)
          (IpUtils_GetCoreSwitchBaseAddress ipv4 (word_of_nat (i div sb_podWidth sb))
             (word_of_nat (core_idx sb i j)))) (spine_cores sb) =
        Inr (map (\<lambda>j. [core_link ipv4 sb i j]) (spine_cores sb))"
    using assms(2,3)
    by (intro mapE_Inr) (simp add: assign_link_def core_link_def devices_ok_def spine_cores_def)
  ultimately show ?thesis
    by (simp add: AssignPhysicalIps_spine_def concat_map_singleton)
qed

lemma AssignPhysicalIps_links_ok:
  assumes "dims_ok sb" and "devices_ok sb"
  shows "AssignPhysicalIps_links ipv4 sb = Inr (network_links ipv4 sb)"
proof -
  have "AssignPhysicalIps_hosts ipv4 sb = Inr (concat (map (\<lambda>(i, j). [host_link ipv4 sb i j]) (host_pairs sb)))"
    unfolding AssignPhysicalIps_hosts_def using assms(2)
    by (subst mapE_Inr [where g = "\<lambda>(i, j). [host_link ipv4 sb i j]"])
       (auto simp: assign_link_def host_link_def devices_ok_def)
  moreover have "concat (map (\<lambda>(i, j). [host_link ipv4 sb i j]) ps) = map (\<lambda>(i, j). host_link ipv4 sb i j) ps" for ps
    by (induction ps) auto
  moreover have "mapE (AssignPhysicalIps_spine ipv4 sb) [0..<sb_spineCount sb] = Inr (map (\<lambda>i.
      map (leaf_link ipv4 sb i) [0..<sb_podWidth sb] @ map (core_link ipv4 sb i) (spine_cores sb)) [0..<sb_spineCount sb])"
    using AssignPhysicalIps_spine_ok [OF assms] by (intro mapE_Inr) simp
  ultimately show ?thesis
    by (simp add: AssignPhysicalIps_links_def network_links_def)
qed

text \<open>The network after \<open>AssignPhysicalIps\<close>: its dimensions, its links and its routes.\<close>

definition network_ok :: "ipv4_parser \<Rightarrow> ipv4_parser \<Rightarrow> SimulationBase \<Rightarrow> bool" where
  "network_ok ipv4 masks sb \<longleftrightarrow> dims_ok sb \<and> sb_assigned sb = network_links ipv4 sb \<and>
     sb_routes sb = routes_of ipv4 masks sb"

text \<open>Links and routes only read the dimensions and the placement.\<close>

lemma routes_of_cong:
  assumes "sb_containerGroups a = sb_containerGroups b" "sb_leafCount a = sb_leafCount b"
    "sb_spineCount a = sb_spineCount b" "sb_coreCount a = sb_coreCount b" "sb_podWidth a = sb_podWidth b"
    "sb_podCount a = sb_podCount b"
  shows "routes_of ipv4 masks a = routes_of ipv4 masks b" and "network_links ipv4 a = network_links ipv4 b"
proof -
  have "route_leaf ipv4 masks a = route_leaf ipv4 masks b" "route_spine ipv4 masks a = route_spine ipv4 masks b"
      "core_idx a = core_idx b"
    by (simp_all add: fun_eq_iff route_leaf_def route_spine_def core_idx_def assms)
  then have "routes_of ipv4 masks a x = routes_of ipv4 masks b x" for x
    by (cases x) (simp_all only: assms routes_of.simps routes_of_leaf_def routes_of_spine_def routes_of_core_def)
  then show "routes_of ipv4 masks a = routes_of ipv4 masks b" ..
  have "host_link ipv4 a = host_link ipv4 b" "leaf_link ipv4 a = leaf_link ipv4 b"
      "core_link ipv4 a = core_link ipv4 b"
    by (simp_all add: fun_eq_iff host_link_def leaf_link_def core_link_def core_idx_def assms)
  then show "network_links ipv4 a = network_links ipv4 b"
    by (simp add: network_links_def host_pairs_def spine_cores_def assms)
qed

lemma AssignPhysicalIps_ok:
  assumes "dims_ok sb" and "devices_ok sb"
  shows "returns (SimulationBase_AssignPhysicalIps ipv4 masks sb) (\<lambda>sb'. network_ok ipv4 masks sb' \<and>
    (\<exists>links routes. sb' = sb\<lparr>sb_assigned := links, sb_routes := routes\<rparr>))"
proof -
  let ?sb' = "sb\<lparr>sb_assigned := network_links ipv4 sb, sb_routes := routes_of ipv4 masks sb\<rparr>"
  have "sb_coreCount sb = 0 \<or> sb_coreCount sb div sb_podWidth sb \<noteq> 0"
    using dims_okD(1,6) [OF assms(1)] by (cases "sb_coreCount sb < sb_podWidth sb") (simp_all add: div_eq_0_iff)
  then have "SimulationBase_AssignPhysicalIps ipv4 masks sb = Inr ?sb'"
    by (simp add: SimulationBase_AssignPhysicalIps_def AssignPhysicalIps_links_ok [OF assms])
  moreover have "routes_of ipv4 masks ?sb' = routes_of ipv4 masks sb" "network_links ipv4 ?sb' = network_links ipv4 sb"
    by (rule routes_of_cong; simp)+
  moreover have "dims_ok ?sb'"
    using assms(1) by simp
  ultimately have "network_ok ipv4 masks ?sb'" "SimulationBase_AssignPhysicalIps ipv4 masks sb = Inr ?sb'"
    by (simp_all add: network_ok_def)
  then show ?thesis
    unfolding returns_def by blast
qed

end
