(* ===== verification/Trace_Input.thy ===== *)
theory Trace_Input
  imports Sim_Base "HOL-Library.Multiset"
begin

text \<open>
  The input of \<^verbatim>\<open>trace-sim.cc\<close>: the trace of flows, read from comma-separated lines (\<open>ParseTrace\<close>), the
  destinations that need a server (\<open>CalculateDestinations\<close>), and the placement of the containers on hosts,
  extended by the gateways (\<open>ParsePlacement\<close>). A file is the list of its lines, or \<open>None\<close> if it cannot be
  opened; the JSON reader of boost has turned the placement file into a list of hosts, each with its
  containers. Times are integers counting nanoseconds.
\<close>

section \<open>Numbers and lines\<close>

text \<open>\<open>stoull\<close> and \<open>stoi\<close>: skip white space, read a sign and the longest run of digits.\<close>

definition is_space :: "char \<Rightarrow> bool" where
  "is_space c \<longleftrightarrow> of_char c \<in> {9, 10, 11, 12, 13, 32 :: nat}"

fun read_sign :: "string \<Rightarrow> bool \<times> string" where
  "read_sign [] = (False, [])"
| "read_sign (c # cs) = (if c = CHR ''-'' then (True, cs) else if c = CHR ''+'' then (False, cs) else (False, c # cs))"

definition read_int :: "string \<Rightarrow> (bool \<times> nat) res" where
  "read_int s = (case read_sign (dropWhile is_space s) of (neg, s) \<Rightarrow>
     let ds = takeWhile is_digit s in
     if ds = [] then Inl InvalidArgument else Inr (neg, parse_dec ds))"

definition stoull :: "string \<Rightarrow> u64 res" where
  "stoull s = bindE (read_int s) (\<lambda>(neg, v).
     if v \<ge> 2 ^ 64 then Inl ValueRange else Inr (if neg then - word_of_nat v else word_of_nat v))"

definition stoi :: "string \<Rightarrow> int res" where
  "stoi s = bindE (read_int s) (\<lambda>(neg, v).
     let i = (if neg then - int v else int v) in
     if i < - (2 ^ 31) \<or> 2 ^ 31 \<le> i then Inl ValueRange else Inr i)"

text \<open>\<open>while (getline (ss, token, ','))\<close>: no token after a final comma.\<close>

function csv_tokens :: "string \<Rightarrow> string list" where
  "csv_tokens s = (if s = [] then []
     else takeWhile (\<lambda>c. c \<noteq> CHR '','') s # csv_tokens (drop 1 (dropWhile (\<lambda>c. c \<noteq> CHR '','') s)))"
  by auto
termination
proof (relation "measure length")
  fix s :: string
  assume "s \<noteq> []"
  then show "(drop 1 (dropWhile (\<lambda>c. c \<noteq> CHR '','') s), s) \<in> measure length"
    using length_dropWhile_le [of "\<lambda>c. c \<noteq> CHR '',''" "tl s"] by (cases s) auto
qed simp

declare csv_tokens.simps [simp del]

section \<open>The trace\<close>

text \<open>\<open>containerToFlows[k].push_back (f)\<close>.\<close>

definition push_flow :: "u32 \<Rightarrow> Flow \<Rightarrow> (u32 \<times> Flow list) list \<Rightarrow> (u32 \<times> Flow list) list" where
  "push_flow k f m = AList.update k ((case map_of m k of None \<Rightarrow> [] | Some fs \<Rightarrow> fs) @ [f]) m"

definition ParseTrace_line ::
  "(string \<times> u32) list \<Rightarrow> string \<Rightarrow> (u32 \<times> Flow list) list \<times> int \<Rightarrow> ((u32 \<times> Flow list) list \<times> int) res" where
  "ParseTrace_line containerToId line = (\<lambda>(containerToFlows, stopTime).
     let parsedLine = csv_tokens line in
     bindE (vec_at parsedLine 0) (\<lambda>umContainer.
     bindE (vec_at parsedLine 1) (\<lambda>dmContainer.
     bindE (bindE (vec_at parsedLine 2) stoull) (\<lambda>ts.
     bindE (bindE (vec_at parsedLine 3) stoi) (\<lambda>flowId.
     bindE (bindE (vec_at parsedLine 4) stoi) (\<lambda>size.
     bindE (omap_at containerToId umContainer) (\<lambda>src.
     bindE (omap_at containerToId dmContainer) (\<lambda>dst.
       Inr (push_flow src \<lparr>flow_ts = ts, flow_dst = dst, flow_flowId = word_of_int flowId,
                            flow_size = word_of_int size\<rparr> containerToFlows,
            max stopTime (sint ts))))))))))"

fun ParseTrace_loop ::
  "(string \<times> u32) list \<Rightarrow> string list \<Rightarrow> (u32 \<times> Flow list) list \<times> int \<Rightarrow> ((u32 \<times> Flow list) list \<times> int) res" where
  "ParseTrace_loop containerToId [] st = Inr st"
| "ParseTrace_loop containerToId (line # ls) st =
     bindE (ParseTrace_line containerToId line st) (ParseTrace_loop containerToId ls)"

definition TraceSimulation_ParseTrace ::
  "(string \<times> u32) list \<Rightarrow> string list option \<Rightarrow> int \<Rightarrow> ((u32 \<times> Flow list) list \<times> int) res" where
  "TraceSimulation_ParseTrace containerToId infile stopTime =
     (case infile of
        None \<Rightarrow> Inl SystemError
      | Some lines \<Rightarrow> bindE (ParseTrace_loop containerToId lines ([], stopTime)) (\<lambda>(flows, stop).
          Inr (flows, stop + 60 * 10 ^ 9)))"

text \<open>\<open>std::sort\<close> by time is the parameter \<open>srt\<close>: flows with equal times come in any order. The
  destinations are kept in a \<open>set<int>\<close>.\<close>

definition sorts_flows :: "(Flow list \<Rightarrow> Flow list) \<Rightarrow> bool" where
  "sorts_flows srt \<longleftrightarrow> (\<forall>fs. mset (srt fs) = mset fs \<and> sorted (map flow_ts (srt fs)))"

definition TraceSimulation_CalculateDestinations ::
  "(Flow list \<Rightarrow> Flow list) \<Rightarrow> (u32 \<times> Flow list) list \<Rightarrow> (u32 \<times> Flow list) list \<times> int set" where
  "TraceSimulation_CalculateDestinations srt flows =
     (map (\<lambda>(k, fs). (k, srt fs)) flows, (\<Union>(k, fs) \<in> set flows. (\<lambda>f. sint (flow_dst f)) ` set (srt fs)))"

section \<open>The placement\<close>

text \<open>The loop \<open>while (GatewayLeaves[gwIdx++] == leaf)\<close> has no bound. \<open>beyond\<close> is what happens to lie in memory
  behind the vector; reading past that is an error of the model.\<close>

function gw_scan :: "u32 list \<Rightarrow> u32 list \<Rightarrow> nat \<Rightarrow> nat \<Rightarrow> nat res" where
  "gw_scan gatewayLeaves beyond leaf gwIdx =
     (if gwIdx < length (gatewayLeaves @ beyond)
      then if unat ((gatewayLeaves @ beyond) ! gwIdx) = leaf then gw_scan gatewayLeaves beyond leaf (gwIdx + 1)
           else Inr (gwIdx + 1)
      else Inl OutOfRange)"
  by auto
termination
  by (relation "measure (\<lambda>(gatewayLeaves, beyond, leaf, gwIdx). length (gatewayLeaves @ beyond) - gwIdx)") auto

declare gw_scan.simps [simp del]

definition ParsePlacement_gwCount :: "u32 list \<Rightarrow> u32 list \<Rightarrow> nat \<Rightarrow> nat \<Rightarrow> nat res" where
  "ParsePlacement_gwCount gatewayLeaves beyond leaf gwLeavesIdx =
     (if gwLeavesIdx < length gatewayLeaves \<and> unat (gatewayLeaves ! gwLeavesIdx) = leaf
      then bindE (gw_scan gatewayLeaves beyond leaf gwLeavesIdx) (\<lambda>gwIdx. Inr (gwIdx - gwLeavesIdx - 1))
      else Inr 0)"

definition gateway_name :: "nat \<Rightarrow> string" where
  "gateway_name i = ''Gateway'' @ to_string i"

text \<open>One leaf: the next hosts of the file, then its gateways.\<close>

definition ParsePlacement_leaf ::
  "string list list \<Rightarrow> u32 list \<Rightarrow> u32 list \<Rightarrow> nat \<Rightarrow> nat \<Rightarrow> nat \<times> nat \<times> ContainerGroups \<Rightarrow> (nat \<times> nat \<times> ContainerGroups) res" where
  "ParsePlacement_leaf parsed gatewayLeaves beyond nodesPerLeaf leaf = (\<lambda>(gwLeavesIdx, nodesIdx, placement).
     bindE (ParsePlacement_gwCount gatewayLeaves beyond leaf gwLeavesIdx) (\<lambda>gwCount.
     let serversInLeaf = (if nodesIdx + nodesPerLeaf \<ge> length parsed then length parsed - nodesIdx else nodesPerLeaf);
         nodes = map (\<lambda>j. parsed ! (nodesIdx + j)) [0..<serversInLeaf] @
                 map (\<lambda>j. [gateway_name (gwLeavesIdx + j)]) [0..<gwCount] in
     Inr (gwLeavesIdx + gwCount, nodesIdx + serversInLeaf, placement @ [nodes])))"

fun ParsePlacement_loop ::
  "string list list \<Rightarrow> u32 list \<Rightarrow> u32 list \<Rightarrow> nat \<Rightarrow> nat list \<Rightarrow> nat \<times> nat \<times> ContainerGroups \<Rightarrow> (nat \<times> nat \<times> ContainerGroups) res" where
  "ParsePlacement_loop parsed gatewayLeaves beyond nodesPerLeaf [] st = Inr st"
| "ParsePlacement_loop parsed gatewayLeaves beyond nodesPerLeaf (leaf # ls) st =
     bindE (ParsePlacement_leaf parsed gatewayLeaves beyond nodesPerLeaf leaf st)
       (ParsePlacement_loop parsed gatewayLeaves beyond nodesPerLeaf ls)"

definition TraceSimulation_ParsePlacement ::
  "string list list \<Rightarrow> SimulationParameters \<Rightarrow> u32 list \<Rightarrow> ContainerGroups res" where
  "TraceSimulation_ParsePlacement parsed params beyond =
     (let nodesPerLeaf = NumOfPorts params div 2 in
      bindE (assertE DivideByZero (nodesPerLeaf \<noteq> 0)) (\<lambda>_.
      bindE (ParsePlacement_loop parsed (GatewayLeaves params) beyond nodesPerLeaf
               [0..<length parsed div nodesPerLeaf] (0, 0, [])) (\<lambda>(gwLeavesIdx, nodesIdx, placement).
      bindE (assertE AssertFail (gwLeavesIdx + nodesIdx = length parsed + length (GatewayLeaves params))) (\<lambda>_.
        Inr placement))))"

section \<open>Reading back a trace\<close>

lemma csv_tokens_Nil [simp]: "csv_tokens [] = []"
  by (simp add: csv_tokens.simps)

lemma csv_tokens_field: "CHR '','' \<notin> set f \<Longrightarrow> csv_tokens (f @ CHR '','' # rest) = f # csv_tokens rest"
proof -
  assume no_comma: "CHR '','' \<notin> set f"
  then have "takeWhile (\<lambda>c. c \<noteq> CHR '','') (f @ CHR '','' # rest) = f"
      "dropWhile (\<lambda>c. c \<noteq> CHR '','') (f @ CHR '','' # rest) = CHR '','' # rest"
    by (auto simp: takeWhile_append dropWhile_append)
  then show ?thesis
    by (subst csv_tokens.simps) simp
qed

lemma csv_tokens_last: "\<lbrakk>CHR '','' \<notin> set f; f \<noteq> []\<rbrakk> \<Longrightarrow> csv_tokens f = [f]"
proof -
  assume "CHR '','' \<notin> set f" "f \<noteq> []"
  then have "takeWhile (\<lambda>c. c \<noteq> CHR '','') f = f" "dropWhile (\<lambda>c. c \<noteq> CHR '','') f = []"
    by (auto simp: takeWhile_eq_all_conv dropWhile_eq_Nil_conv)
  then show ?thesis
    using \<open>f \<noteq> []\<close> by (subst csv_tokens.simps) (simp del: takeWhile_eq_all_conv dropWhile_eq_Nil_conv)
qed

lemma digit_not_special: "is_digit c \<Longrightarrow> \<not> is_space c \<and> c \<noteq> CHR '','' \<and> c \<noteq> CHR ''-'' \<and> c \<noteq> CHR ''+''"
  by (auto simp: is_digit_def is_space_def)

lemma to_string_no_comma [simp]: "CHR '','' \<notin> set (to_string v)"
  using to_string_digits digit_not_special by blast

lemma read_int_to_string [simp]: "read_int (to_string v) = Inr (False, v)"
proof -
  obtain c cs where s: "to_string v = c # cs"
    by (cases "to_string v") simp_all
  then have "is_digit c"
    using to_string_digits [of v] by simp
  then have "dropWhile is_space (to_string v) = to_string v" "read_sign (to_string v) = (False, to_string v)"
    using digit_not_special [of c] by (simp_all add: s)
  moreover have "takeWhile is_digit (to_string v) = to_string v"
    using to_string_digits [of v] by (simp add: takeWhile_eq_all_conv)
  ultimately show ?thesis
    by (simp add: read_int_def Let_def del: takeWhile_eq_all_conv)
qed

lemma stoull_to_string: "v < 2 ^ 64 \<Longrightarrow> stoull (to_string v) = Inr (word_of_nat v)"
  by (simp add: stoull_def)

lemma stoi_to_string: "v < 2 ^ 31 \<Longrightarrow> stoi (to_string v) = Inr (int v)"
  by (simp add: stoi_def Let_def)

text \<open>A line of the trace, as the experiments write it.\<close>

record trace_row =
  tr_um :: string
  tr_dm :: string
  tr_ts :: nat
  tr_flowId :: nat
  tr_size :: nat

definition row_line :: "trace_row \<Rightarrow> string" where
  "row_line r = tr_um r @ '','' @ tr_dm r @ '','' @ to_string (tr_ts r) @ '','' @ to_string (tr_flowId r) @ '','' @
     to_string (tr_size r)"

definition row_ok :: "(string \<times> u32) list \<Rightarrow> trace_row \<Rightarrow> bool" where
  "row_ok ids r \<longleftrightarrow> CHR '','' \<notin> set (tr_um r) \<and> CHR '','' \<notin> set (tr_dm r) \<and>
     map_of ids (tr_um r) \<noteq> None \<and> map_of ids (tr_dm r) \<noteq> None \<and>
     tr_ts r < 2 ^ 63 \<and> tr_flowId r < 2 ^ 31 \<and> tr_size r < 2 ^ 31"

definition row_flow :: "(string \<times> u32) list \<Rightarrow> trace_row \<Rightarrow> Flow" where
  "row_flow ids r = \<lparr>flow_ts = word_of_nat (tr_ts r), flow_dst = the (map_of ids (tr_dm r)),
     flow_flowId = word_of_nat (tr_flowId r), flow_size = word_of_nat (tr_size r)\<rparr>"

lemma row_tokens:
  "row_ok ids r \<Longrightarrow> csv_tokens (row_line r) =
     [tr_um r, tr_dm r, to_string (tr_ts r), to_string (tr_flowId r), to_string (tr_size r)]"
  by (simp add: row_ok_def row_line_def csv_tokens_field csv_tokens_last)

lemma sint_word_of_nat: "v < 2 ^ 63 \<Longrightarrow> sint (word_of_nat v :: u64) = int v"
  by (simp add: signed_of_nat signed_take_bit_int_eq_self)

lemma ParseTrace_line_row:
  assumes "row_ok ids r"
  shows "ParseTrace_line ids (row_line r) (flows, stop) =
    Inr (push_flow (the (map_of ids (tr_um r))) (row_flow ids r) flows, max stop (int (tr_ts r)))"
proof -
  obtain src dst where "map_of ids (tr_um r) = Some src" "map_of ids (tr_dm r) = Some dst"
    using assms by (auto simp: row_ok_def)
  moreover have "tr_ts r < 2 ^ 64" "tr_ts r < 2 ^ 63" "tr_flowId r < 2 ^ 31" "tr_size r < 2 ^ 31"
    using assms by (auto simp: row_ok_def)
  ultimately show ?thesis
    using row_tokens [OF assms]
    by (simp add: ParseTrace_line_def omap_at_def row_flow_def stoull_to_string stoi_to_string sint_word_of_nat)
qed

definition flows_of :: "(u32 \<times> Flow list) list \<Rightarrow> u32 \<Rightarrow> Flow list" where
  "flows_of m k = (case map_of m k of None \<Rightarrow> [] | Some fs \<Rightarrow> fs)"

lemma flows_of_push: "flows_of (push_flow k f m) k' = flows_of m k' @ (if k' = k then [f] else [])"
  by (simp add: flows_of_def push_flow_def AList.update_conv' split: option.splits)

lemma ParseTrace_loop_rows:
  assumes "\<forall>r \<in> set rows. row_ok ids r"
  shows "returns (ParseTrace_loop ids (map row_line rows) (flows, stop)) (\<lambda>(flows', stop').
    (\<forall>k. flows_of flows' k = flows_of flows k @
       map (row_flow ids) (filter (\<lambda>r. map_of ids (tr_um r) = Some k) rows)) \<and>
    stop' = fold (\<lambda>r t. max t (int (tr_ts r))) rows stop)"
  using assms
proof (induction rows arbitrary: flows stop)
  case (Cons r rows)
  then have r: "row_ok ids r"
    by simp
  then obtain src where "map_of ids (tr_um r) = Some src"
    by (auto simp: row_ok_def)
  then show ?case
    using Cons.IH [of "push_flow src (row_flow ids r) flows" "max stop (int (tr_ts r))"] Cons.prems
    by (auto simp: ParseTrace_line_row [OF r] flows_of_push elim!: returns_mono)
qed simp

section \<open>The layout of a placement\<close>

text \<open>With sorted gateway leaves, the number of gateways before a leaf.\<close>

definition gws_below :: "u32 list \<Rightarrow> nat \<Rightarrow> nat" where
  "gws_below gatewayLeaves k = length (filter (\<lambda>g. unat g < k) gatewayLeaves)"

lemma nth_sorted_below:
  "\<lbrakk>sorted (map unat L); i < length L\<rbrakk> \<Longrightarrow> unat (L ! i) < k \<longleftrightarrow> i < gws_below L k"
proof (induction L arbitrary: i)
  case (Cons g L)
  show ?case
  proof (cases "unat g < k")
    case True
    with Cons show ?thesis
      by (cases i) (simp_all add: gws_below_def)
  next
    case False
    moreover have "\<not> unat ((g # L) ! i) < k"
      using Cons.prems False by (cases i) (auto dest!: nth_mem)
    moreover have "filter (\<lambda>g. unat g < k) L = []"
      using Cons.prems(1) False by (auto simp: filter_empty_conv)
    ultimately show ?thesis
      by (simp add: gws_below_def)
  qed
qed simp

lemma gws_below_le: "gws_below L k \<le> length L"
  by (simp add: gws_below_def)

lemma gws_below_mono: "k \<le> k' \<Longrightarrow> gws_below L k \<le> gws_below L k'"
  unfolding gws_below_def by (induction L) auto

lemma gws_below_all: "\<forall>g \<in> set L. unat g < k \<Longrightarrow> gws_below L k = length L"
  by (simp add: gws_below_def)

lemma gws_below_0 [simp]: "gws_below L 0 = 0"
  by (simp add: gws_below_def)

lemma gw_scan_stops:
  assumes "g \<le> e" and "e < length (L @ beyond)" and "unat ((L @ beyond) ! e) \<noteq> leaf"
    and "\<forall>i. g \<le> i \<and> i < e \<longrightarrow> unat ((L @ beyond) ! i) = leaf"
  shows "gw_scan L beyond leaf g = Inr (e + 1)"
  using assms
proof (induction "e - g" arbitrary: g)
  case 0
  then show ?case by (subst gw_scan.simps) auto
next
  case (Suc d)
  then have "gw_scan L beyond leaf (g + 1) = Inr (e + 1)"
    by simp
  with Suc show ?case
    by (subst gw_scan.simps) auto
qed

lemma gw_scan_overruns:
  assumes "\<forall>i. g \<le> i \<and> i < length (L @ beyond) \<longrightarrow> unat ((L @ beyond) ! i) = leaf"
  shows "gw_scan L beyond leaf g = Inl OutOfRange"
  using assms
proof (induction "length (L @ beyond) - g" arbitrary: g)
  case 0
  then show ?case by (subst gw_scan.simps) auto
next
  case (Suc d)
  then have "gw_scan L beyond leaf (g + 1) = Inl OutOfRange"
    by auto
  with Suc show ?case
    by (subst gw_scan.simps) auto
qed

text \<open>The scan of a leaf ends before the end of the memory that was given.\<close>

definition scan_stops :: "u32 list \<Rightarrow> u32 list \<Rightarrow> nat \<Rightarrow> bool" where
  "scan_stops L beyond leaf \<longleftrightarrow> gws_below L (Suc leaf) < length (L @ beyond) \<and>
     unat ((L @ beyond) ! gws_below L (Suc leaf)) \<noteq> leaf"

lemma scan_stops_beyond:
  assumes "sorted (map unat L)" and "leaf < unat b"
  shows "scan_stops L (b # beyond) leaf"
  using nth_sorted_below [OF assms(1), of "gws_below L (Suc leaf)" "Suc leaf"] assms(2) gws_below_le [of L "Suc leaf"]
  by (cases "gws_below L (Suc leaf) = length L") (auto simp: scan_stops_def nth_append)

lemma scan_stops_inside:
  assumes "sorted (map unat L)" and "g \<in> set L" and "leaf < unat g"
  shows "scan_stops L beyond leaf"
proof -
  have "gws_below L (Suc leaf) < length L"
    using assms(2,3) unfolding gws_below_def by (intro length_filter_less) auto
  then show ?thesis
    using nth_sorted_below [OF assms(1), of "gws_below L (Suc leaf)" "Suc leaf"] by (auto simp: scan_stops_def nth_append)
qed

lemma gws_between:
  assumes "sorted (map unat L)" and "gws_below L leaf \<le> i" and "i < gws_below L (Suc leaf)"
  shows "unat (L ! i) = leaf"
  using nth_sorted_below [OF assms(1), of i leaf] nth_sorted_below [OF assms(1), of i "Suc leaf"] assms(2,3)
    gws_below_le [of L "Suc leaf"] by simp

lemma gwCount_ok:
  assumes "sorted (map unat L)" and "scan_stops L beyond leaf"
  shows "ParsePlacement_gwCount L beyond leaf (gws_below L leaf) =
    Inr (gws_below L (Suc leaf) - gws_below L leaf)"
proof -
  let ?g = "gws_below L leaf" and ?e = "gws_below L (Suc leaf)"
  have le: "?g \<le> ?e" "?e \<le> length L"
    by (simp_all add: gws_below_mono gws_below_le)
  note mid = gws_between [OF assms(1)]
  show ?thesis
  proof (cases "?g < length L \<and> unat (L ! ?g) = leaf")
    case True
    have "gw_scan L beyond leaf ?g = Inr (?e + 1)"
    proof (rule gw_scan_stops [OF le(1)])
      show "\<forall>i. ?g \<le> i \<and> i < ?e \<longrightarrow> unat ((L @ beyond) ! i) = leaf"
        using mid le(2) by (simp add: nth_append)
    qed (use assms(2) in \<open>simp_all add: scan_stops_def\<close>)
    then show ?thesis
      by (simp add: ParsePlacement_gwCount_def True)
  next
    case False
    then have "\<not> ?g < ?e"
      using mid [of leaf ?g] le(2) by (meson le_refl less_le_trans)
    then have "?e = ?g"
      using le(1) by simp
    then show ?thesis
      unfolding ParsePlacement_gwCount_def if_not_P [OF False] by simp
  qed
qed

text \<open>What leaf number \<open>leaf\<close> holds.\<close>

definition leaf_nodes :: "string list list \<Rightarrow> u32 list \<Rightarrow> nat \<Rightarrow> nat \<Rightarrow> string list list" where
  "leaf_nodes parsed L nodesPerLeaf leaf = take nodesPerLeaf (drop (leaf * nodesPerLeaf) parsed) @
     map (\<lambda>i. [gateway_name i]) (filter (\<lambda>i. unat (L ! i) = leaf) [0..<length L])"

lemma filter_gateways:
  assumes "sorted (map unat L)"
  shows "filter (\<lambda>i. unat (L ! i) = leaf) [0..<length L] = [gws_below L leaf..<gws_below L (Suc leaf)]"
proof -
  have "unat (L ! i) = leaf \<longleftrightarrow> gws_below L leaf \<le> i \<and> i < gws_below L (Suc leaf)" if "i < length L" for i
    using nth_sorted_below [OF assms that, of leaf] nth_sorted_below [OF assms that, of "Suc leaf"] by linarith
  then have "filter (\<lambda>i. unat (L ! i) = leaf) [0..<length L] =
      filter (\<lambda>i. gws_below L leaf \<le> i \<and> i < gws_below L (Suc leaf)) [0..<length L]"
    by (intro filter_cong) auto
  also have "\<dots> = [gws_below L leaf..<gws_below L (Suc leaf)]"
    using gws_below_le [of L "Suc leaf"] gws_below_mono [of leaf "Suc leaf" L]
    by (intro sorted_distinct_set_unique) (auto simp: sorted_wrt_filter)
  finally show ?thesis .
qed

lemma ParsePlacement_leaf_ok:
  assumes "sorted (map unat L)" and "scan_stops L beyond leaf" and "leaf < leaves" and "leaves * npl = length parsed"
  shows "ParsePlacement_leaf parsed L beyond npl leaf (gws_below L leaf, leaf * npl, placement) =
    Inr (gws_below L (Suc leaf), Suc leaf * npl, placement @ [leaf_nodes parsed L npl leaf])"
proof -
  have "Suc leaf * npl \<le> length parsed"
    unfolding assms(4) [symmetric] using assms(3) by (intro mult_le_mono1) simp
  then have servers: "(if leaf * npl + npl \<ge> length parsed then length parsed - leaf * npl else npl) = npl"
      and drop: "map (\<lambda>j. parsed ! (leaf * npl + j)) [0..<npl] = take npl (drop (leaf * npl) parsed)"
    by (auto intro!: nth_equalityI)
  have "map (\<lambda>j. [gateway_name (gws_below L leaf + j)]) [0..<gws_below L (Suc leaf) - gws_below L leaf] =
      map (\<lambda>i. [gateway_name i]) [gws_below L leaf..<gws_below L (Suc leaf)]"
    by (rule nth_equalityI) simp_all
  then show ?thesis
    using gws_below_mono [of leaf "Suc leaf" L]
    unfolding ParsePlacement_leaf_def prod.case gwCount_ok [OF assms(1,2)] bindE_Inr servers Let_def drop
      leaf_nodes_def filter_gateways [OF assms(1)] by simp
qed

lemma ParsePlacement_loop_ok:
  assumes "sorted (map unat L)" and "\<forall>leaf < m. scan_stops L beyond leaf" and "m \<le> leaves"
    and "leaves * npl = length parsed" and "k \<le> m"
  shows "ParsePlacement_loop parsed L beyond npl [k..<m] (gws_below L k, k * npl, placement) =
    Inr (gws_below L m, m * npl, placement @ map (leaf_nodes parsed L npl) [k..<m])"
  using assms(5)
proof (induction "m - k" arbitrary: k placement)
  case (Suc d)
  then have "k < m" "[k..<m] = k # [Suc k..<m]"
    by (auto simp: upt_conv_Cons)
  moreover have "ParsePlacement_loop parsed L beyond npl [Suc k..<m]
      (gws_below L (Suc k), Suc k * npl, placement @ [leaf_nodes parsed L npl k]) =
      Inr (gws_below L m, m * npl, (placement @ [leaf_nodes parsed L npl k]) @
        map (leaf_nodes parsed L npl) [Suc k..<m])"
    using Suc by (intro Suc.hyps) simp_all
  ultimately show ?case
    using ParsePlacement_leaf_ok [OF assms(1) _ _ assms(4), of beyond k] assms(2,3) by simp
qed simp

lemma ParsePlacement_loop_append:
  "ParsePlacement_loop parsed L beyond npl (xs @ ys) st =
   bindE (ParsePlacement_loop parsed L beyond npl xs st) (ParsePlacement_loop parsed L beyond npl ys)"
proof (induction xs arbitrary: st)
  case (Cons leaf xs)
  then show ?case
    by (cases "ParsePlacement_leaf parsed L beyond npl leaf st") simp_all
qed simp

lemma ParsePlacement_ok:
  assumes "sorted (map unat (GatewayLeaves params))" and "\<forall>g \<in> set (GatewayLeaves params). unat g < leaves"
    and "length parsed = leaves * (NumOfPorts params div 2)" and "2 \<le> NumOfPorts params" and "leaves \<le> unat b"
  shows "TraceSimulation_ParsePlacement parsed params (b # beyond) =
    Inr (map (leaf_nodes parsed (GatewayLeaves params) (NumOfPorts params div 2)) [0..<leaves])"
proof -
  let ?npl = "NumOfPorts params div 2" and ?L = "GatewayLeaves params"
  have "0 < ?npl"
    using assms(4) by (simp add: div_greater_zero_iff)
  moreover have "ParsePlacement_loop parsed ?L (b # beyond) ?npl [0..<leaves] (gws_below ?L 0, 0 * ?npl, []) =
      Inr (gws_below ?L leaves, leaves * ?npl, [] @ map (leaf_nodes parsed ?L ?npl) [0..<leaves])"
    using ParsePlacement_loop_ok [OF assms(1), of leaves "b # beyond" leaves ?npl parsed 0 "[]"]
      scan_stops_beyond [OF assms(1)] assms(3,5) by simp
  ultimately show ?thesis
    using gws_below_all [OF assms(2)] assms(3) by (simp add: TraceSimulation_ParsePlacement_def Let_def)
qed

lemma ParseTrace_ok:
  assumes "\<forall>r \<in> set rows. row_ok ids r"
  shows "returns (TraceSimulation_ParseTrace ids (Some (map row_line rows)) 0) (\<lambda>(flows, stop).
    (\<forall>k. flows_of flows k = map (row_flow ids) (filter (\<lambda>r. map_of ids (tr_um r) = Some k) rows)) \<and>
    stop = fold (\<lambda>r t. max t (int (tr_ts r))) rows 0 + 60000000000)"
  unfolding TraceSimulation_ParseTrace_def option.case returns_bind_iff
  by (rule returns_mono [OF ParseTrace_loop_rows [OF assms]]) (auto simp: flows_of_def)

section \<open>A small input\<close>

definition row0 :: trace_row where
  "row0 = \<lparr>tr_um = ''A'', tr_dm = ''B'', tr_ts = 5000, tr_flowId = 7, tr_size = 1500\<rparr>"

definition params2 :: SimulationParameters where
  "params2 = \<lparr>SimMode = SwitchV2P, NetworkTopology = CLOS, NumOfPorts = 8, NumOfCore = 0, PodWidth = 1,
     GatewayLeaves = [0], RandomRouting = False, GatewayPerFlowLoadBalancing = False, UdpMode = True\<rparr>"

definition hosts2 :: "string list list" where
  "hosts2 = [[''A''], [''B''], [''C''], [''D'']]"

definition groups2 :: ContainerGroups where
  "groups2 = [[[''A''], [''B''], [''C''], [''D''], [''Gateway0'']]]"

lemma placement2: "TraceSimulation_ParsePlacement hosts2 params2 [77] = Inr groups2"
  using ParsePlacement_ok [of params2 1 hosts2 77 "[]"]
  by (simp add: params2_def hosts2_def groups2_def leaf_nodes_def gateway_name_def to_string_small)

section \<open>Properties\<close>

text \<open>C22: A trace is read back as it was written. From well-formed lines whose containers are known, \<open>ParseTrace\<close>
  returns, gives every container its flows in the order of the file, and sets the stop time to the latest
  time in the file plus one minute.\<close>

theorem trace_roundtrip:
  assumes "\<forall>r \<in> set rows. row_ok ids r"
  shows "returns (TraceSimulation_ParseTrace ids (Some (map row_line rows)) 0) (\<lambda>(flows, stop).
    (\<forall>k. flows_of flows k = map (row_flow ids) (filter (\<lambda>r. map_of ids (tr_um r) = Some k) rows)) \<and>
    stop = fold (\<lambda>r t. max t (int (tr_ts r))) rows 0 + 60000000000)"
  by (rule ParseTrace_ok [OF assms])

definition ids0 :: "(string \<times> u32) list" where
  "ids0 = [(''A'', 0), (''B'', 1)]"

theorem trace_roundtrip_witness:
  "returns (TraceSimulation_ParseTrace ids0 (Some [row_line row0]) 0) (\<lambda>(flows, stop).
     flows_of flows 0 = [\<lparr>flow_ts = 5000, flow_dst = 1, flow_flowId = 7, flow_size = 1500\<rparr>] \<and>
     flows_of flows 1 = [] \<and> stop = 60000005000)"
  using trace_roundtrip [of "[row0]" ids0]
  by (auto simp: row_ok_def row0_def ids0_def row_flow_def elim!: returns_mono)

text \<open>With gateway leaves in increasing order that exist, hosts that fill the leaves, and memory behind the
  vector of gateway leaves that does not continue it, \<open>ParsePlacement\<close> puts the hosts of the file on the
  leaves in order, and gateway \<open>i\<close> on the leaf that its entry names, after the hosts.\<close>

theorem placement_layout:
  assumes "sorted (map unat (GatewayLeaves params))" and "\<forall>g \<in> set (GatewayLeaves params). unat g < leaves"
    and "length parsed = leaves * (NumOfPorts params div 2)" and "2 \<le> NumOfPorts params" and "leaves \<le> unat b"
  shows "TraceSimulation_ParsePlacement parsed params (b # beyond) =
    Inr (map (leaf_nodes parsed (GatewayLeaves params) (NumOfPorts params div 2)) [0..<leaves])"
  by (rule ParsePlacement_ok [OF assms])

theorem placement_layout_witness:
  "TraceSimulation_ParsePlacement hosts2 params2 [77] = Inr [[[''A''], [''B''], [''C''], [''D''], [''Gateway0'']]]"
  using placement_layout [of params2 1 hosts2 77 "[]"]
  by (simp add: params2_def hosts2_def leaf_nodes_def gateway_name_def to_string_small)

text \<open>C37: The scan for the gateways of a leaf has no bound: with at least one gateway leaf, all of them existing
  and in increasing order, \<open>ParsePlacement\<close> reads behind the end of the vector.\<close>

theorem placement_overrun:
  assumes "sorted (map unat (GatewayLeaves params))" and "\<forall>g \<in> set (GatewayLeaves params). unat g < leaves"
    and "GatewayLeaves params \<noteq> []" and "length parsed = leaves * (NumOfPorts params div 2)" and "2 \<le> NumOfPorts params"
  shows "TraceSimulation_ParsePlacement parsed params [] = Inl OutOfRange"
proof -
  let ?npl = "NumOfPorts params div 2" and ?L = "GatewayLeaves params"
  let ?m = "unat (last ?L)" and ?st = "\<lambda>m. (gws_below ?L m, m * ?npl, map (leaf_nodes parsed ?L ?npl) [0..<m])"
  have npl: "0 < ?npl" and last: "last ?L \<in> set ?L" "?m < leaves"
    using assms(2,3,5) by (simp_all add: div_greater_zero_iff)
  have "\<forall>leaf < ?m. scan_stops ?L [] leaf"
    using scan_stops_inside [OF assms(1) last(1)] by simp
  then have before: "ParsePlacement_loop parsed ?L [] ?npl [0..<?m] (0, 0, []) = Inr (?st ?m)"
    using ParsePlacement_loop_ok [OF assms(1), of ?m "[]" leaves ?npl parsed 0 "[]"] last(2) assms(4) by simp
  have all: "unat g \<le> ?m" if "g \<in> set ?L" for g
  proof -
    have "sorted (map unat (butlast ?L @ [last ?L]))" "g \<in> set (butlast ?L @ [last ?L])"
      using assms(1,3) that by simp_all
    then show ?thesis
      by (auto simp: sorted_append simp del: append_butlast_last_id)
  qed
  have "unat (?L ! i) = ?m" if "gws_below ?L ?m \<le> i" "i < length ?L" for i
    using nth_sorted_below [OF assms(1) that(2), of ?m] that all [OF nth_mem [OF that(2)]] by simp
  moreover have "gws_below ?L ?m < length ?L"
    using last(1) unfolding gws_below_def by (intro length_filter_less) auto
  ultimately have "ParsePlacement_leaf parsed ?L [] ?npl ?m (?st ?m) = Inl OutOfRange"
    using gw_scan_overruns [of "gws_below ?L ?m" ?L "[]" ?m]
    by (simp add: ParsePlacement_leaf_def ParsePlacement_gwCount_def)
  moreover have "[0..<leaves] = [0..<?m] @ ?m # [Suc ?m..<leaves]"
    using last(2) by (metis le_add_diff_inverse less_imp_le upt_add_eq_append upt_conv_Cons zero_le)
  ultimately show ?thesis
    using npl before assms(4) by (simp add: TraceSimulation_ParsePlacement_def Let_def ParsePlacement_loop_append)
qed

theorem placement_overrun_witness: "TraceSimulation_ParsePlacement hosts2 params2 [] = Inl OutOfRange"
  using placement_overrun [of params2 1 hosts2] by (simp add: params2_def hosts2_def)

end
