(* ===== verification/Trace_Stats.thy ===== *)
theory Trace_Stats
  imports Trace_Input
begin

text \<open>
  The state of \<^verbatim>\<open>trace-sim.cc\<close> and the trace callbacks that count what happens in a run: packets sent,
  received, dropped and seen by gateways, packets and hits per switch, and the first and last packet of every
  flow, from which \<open>StopSimulation\<close> computes the reported totals. The simulation time \<open>now\<close> is an argument;
  \<open>Time::ToInteger (Time::NS)\<close> is an \<open>int64_t\<close> that the code stores in \<open>uint64_t\<close> fields. The
  report is in \<open>Trace_Report\<close>.
\<close>

section \<open>State\<close>

text \<open>What \<open>SetupApplications\<close> installs on a node.\<close>

datatype sim_app =
    P4App sim_node u32 SwitchType Mode
  | CtrlApp sim_node Mode
  | GatewayAppOn sim_node
  | IlpApp sim_node
  | SinkApp sim_node u32 bool "u32 option" int int
  | ClientAppOn sim_node "Flow list" u32 u32 bool

record TraceSimulation =
  ts_base :: SimulationBase
  ts_receivedPackets :: u64
  ts_sentPackets :: u64
  ts_gwPackets :: u64
  ts_generatedLearning :: u64
  ts_generatedInvalidation :: u64
  ts_droppedPackets :: u64
  ts_totalPacketLatency :: u64
  ts_totalPacketHops :: u64
  ts_startTime :: int
  ts_stopTime :: int
  ts_containerToFlows :: "(u32 \<times> Flow list) list"
  ts_switchToProcessedPackets :: "(u32 \<times> u64) list"
  ts_switchToCacheHits :: "(u32 \<times> u64) list"
  ts_switchToProcessedBytes :: "(u32 \<times> u64) list"
  ts_switchToFirstCacheHits :: "(u32 \<times> u64) list"
  ts_flowStats :: "(u32 \<times> FlowStats) list"
  ts_destinations :: "int set"
  ts_migrationParams :: MigrationParams
  ts_migrationSrcLeaf :: u32
  ts_migrationSrcHost :: u32

text \<open>The constructor. \<open>m_migrationSrcLeaf\<close> and \<open>m_migrationSrcHost\<close> are not initialised.\<close>

definition TraceSimulation_new ::
  "(Flow list \<Rightarrow> Flow list) \<Rightarrow> u32 list \<Rightarrow> u32 \<Rightarrow> string list list \<Rightarrow> string list option \<Rightarrow>
   SimulationParameters \<Rightarrow> MigrationParams \<Rightarrow> TraceSimulation res" where
  "TraceSimulation_new srt beyond uninit parsed trace params migParams =
     bindE (TraceSimulation_ParsePlacement parsed params beyond) (\<lambda>groups.
     bindE (SimulationBase_new params groups migParams uninit) (\<lambda>sb.
     bindE (TraceSimulation_ParseTrace (sb_containerToId sb) trace 0) (\<lambda>(flows, stopTime).
     case TraceSimulation_CalculateDestinations srt flows of (flows, destinations) \<Rightarrow>
       Inr \<lparr>ts_base = sb, ts_receivedPackets = 0, ts_sentPackets = 0, ts_gwPackets = 0, ts_generatedLearning = 0,
            ts_generatedInvalidation = 0, ts_droppedPackets = 0, ts_totalPacketLatency = 0, ts_totalPacketHops = 0,
            ts_startTime = 0, ts_stopTime = stopTime, ts_containerToFlows = flows,
            ts_switchToProcessedPackets = [], ts_switchToCacheHits = [], ts_switchToProcessedBytes = [],
            ts_switchToFirstCacheHits = [], ts_flowStats = [], ts_destinations = destinations,
            ts_migrationParams = migParams, ts_migrationSrcLeaf = uninit, ts_migrationSrcHost = uninit\<rparr>)))"

section \<open>Callbacks\<close>

text \<open>\<open>map[k] += d\<close> on an \<open>unordered_map\<close>: an absent entry starts at 0.\<close>

definition count_up :: "u32 \<Rightarrow> u64 \<Rightarrow> (u32 \<times> u64) list \<Rightarrow> (u32 \<times> u64) list" where
  "count_up k d m = AList.update k ((case map_of m k of None \<Rightarrow> 0 | Some v \<Rightarrow> v) + d) m"

definition ns_of :: "int \<Rightarrow> u64" where
  "ns_of t = word_of_int t"

definition FlowStats_rx :: "u64 \<Rightarrow> u64 \<Rightarrow> FlowStats \<Rightarrow> FlowStats" where
  "FlowStats_rx txTimeNs rxTimeNs fs =
     \<lparr>fs_first = \<lparr>ps_txTime = min (ps_txTime (fs_first fs)) txTimeNs, ps_rxTime = min (ps_rxTime (fs_first fs)) rxTimeNs\<rparr>,
      fs_last = \<lparr>ps_txTime = max (ps_txTime (fs_last fs)) txTimeNs, ps_rxTime = max (ps_rxTime (fs_last fs)) rxTimeNs\<rparr>,
      fs_count = fs_count fs + 1, fs_disorder = fs_disorder fs\<rparr>"

definition TraceSimulation_SinkRx :: "Packet \<Rightarrow> int \<Rightarrow> int \<Rightarrow> u32 \<Rightarrow> TraceSimulation \<Rightarrow> TraceSimulation" where
  "TraceSimulation_SinkRx p txTime rxTime flowId ts =
     (case map_of (ts_flowStats ts) flowId of
        None \<Rightarrow> ts
      | Some fs \<Rightarrow>
          ts\<lparr>ts_receivedPackets := ts_receivedPackets ts + 1,
             ts_totalPacketLatency := ts_totalPacketLatency ts + (ns_of rxTime - ns_of txTime),
             ts_totalPacketHops := ts_totalPacketHops ts + (case pkt_hops p of None \<Rightarrow> 0 | Some h \<Rightarrow> ucast h),
             ts_flowStats := AList.update flowId (FlowStats_rx (ns_of txTime) (ns_of rxTime) fs) (ts_flowStats ts)\<rparr>)"

definition TraceSimulation_GatewayRx :: "TraceSimulation \<Rightarrow> TraceSimulation" where
  "TraceSimulation_GatewayRx ts = ts\<lparr>ts_gwPackets := ts_gwPackets ts + 1\<rparr>"

definition TraceSimulation_RecordDropIp :: "TraceSimulation \<Rightarrow> TraceSimulation" where
  "TraceSimulation_RecordDropIp ts = ts\<lparr>ts_droppedPackets := ts_droppedPackets ts + 1\<rparr>"

definition TraceSimulation_RecordDropQueue :: "TraceSimulation \<Rightarrow> TraceSimulation" where
  "TraceSimulation_RecordDropQueue ts = ts\<lparr>ts_droppedPackets := ts_droppedPackets ts + 1\<rparr>"

definition TraceSimulation_RecordDropQueueDisc :: "TraceSimulation \<Rightarrow> TraceSimulation" where
  "TraceSimulation_RecordDropQueueDisc ts = ts\<lparr>ts_droppedPackets := ts_droppedPackets ts + 1\<rparr>"

text \<open>\<open>disorder\<close> says whether the new congestion state is \<open>CA_DISORDER\<close>.\<close>

definition TraceSimulation_RecordCongState :: "bool \<Rightarrow> u32 \<Rightarrow> TraceSimulation \<Rightarrow> TraceSimulation" where
  "TraceSimulation_RecordCongState disorder flowId ts =
     (case map_of (ts_flowStats ts) flowId of
        Some fs \<Rightarrow> if disorder \<and> flowId \<noteq> 0
          then ts\<lparr>ts_flowStats := AList.update flowId (fs\<lparr>fs_disorder := fs_disorder fs + 1\<rparr>) (ts_flowStats ts)\<rparr> else ts
      | None \<Rightarrow> ts)"

definition TraceSimulation_ClientTx :: "int \<Rightarrow> u32 \<Rightarrow> TraceSimulation \<Rightarrow> TraceSimulation" where
  "TraceSimulation_ClientTx now flowId ts =
     (let ts = ts\<lparr>ts_sentPackets := ts_sentPackets ts + 1\<rparr> in
      if flowId = 0 then ts
      else if map_of (ts_flowStats ts) flowId = None
      then ts\<lparr>ts_flowStats := AList.update flowId
             \<lparr>fs_first = \<lparr>ps_txTime = ns_of now, ps_rxTime = ns_of (ts_stopTime ts)\<rparr>,
              fs_last = \<lparr>ps_txTime = ns_of now, ps_rxTime = ns_of now\<rparr>, fs_count = 0, fs_disorder = 0\<rparr> (ts_flowStats ts)\<rparr>
      else ts)"

definition TraceSimulation_GeneratedLearning :: "TraceSimulation \<Rightarrow> TraceSimulation" where
  "TraceSimulation_GeneratedLearning ts = ts\<lparr>ts_generatedLearning := ts_generatedLearning ts + 1\<rparr>"

definition TraceSimulation_GeneratedInvalidation :: "TraceSimulation \<Rightarrow> TraceSimulation" where
  "TraceSimulation_GeneratedInvalidation ts = ts\<lparr>ts_generatedInvalidation := ts_generatedInvalidation ts + 1\<rparr>"

definition TraceSimulation_ProcessedPacket :: "Packet \<Rightarrow> u32 \<Rightarrow> TraceSimulation \<Rightarrow> TraceSimulation" where
  "TraceSimulation_ProcessedPacket packet switchId ts =
     ts\<lparr>ts_switchToProcessedPackets := count_up switchId 1 (ts_switchToProcessedPackets ts),
        ts_switchToProcessedBytes := count_up switchId (word_of_nat (Packet_GetSize packet)) (ts_switchToProcessedBytes ts)\<rparr>"

definition TraceSimulation_CacheHit :: "Packet \<Rightarrow> u32 \<Rightarrow> TraceSimulation \<Rightarrow> TraceSimulation" where
  "TraceSimulation_CacheHit packet switchId ts =
     (let ts = ts\<lparr>ts_switchToCacheHits := count_up switchId 1 (ts_switchToCacheHits ts)\<rparr> in
      case (pkt_txTime packet, pkt_flowId packet) of
        (Some t, Some flowId) \<Rightarrow>
          (case map_of (ts_flowStats ts) flowId of
             Some fs \<Rightarrow> if ps_txTime (fs_first fs) = t
               then ts\<lparr>ts_switchToFirstCacheHits := count_up switchId 1 (ts_switchToFirstCacheHits ts)\<rparr> else ts
           | None \<Rightarrow> ts)
      | _ \<Rightarrow> ts)"

text \<open>The sums of \<open>StopSimulation\<close>: first packet latency and flow completion time over all flows.\<close>

definition TraceSimulation_totals :: "TraceSimulation \<Rightarrow> u64 \<times> u64" where
  "TraceSimulation_totals ts = fold (\<lambda>(flowId, fs) (totalFct, totalFirstPacketLatency).
       (totalFct + (ps_rxTime (fs_last fs) - ps_txTime (fs_first fs)),
        totalFirstPacketLatency + (ps_rxTime (fs_first fs) - ps_txTime (fs_first fs))))
     (ts_flowStats ts) (0, 0)"

section \<open>A run\<close>

datatype stat_event =
    SinkRxE Packet int int u32
  | GatewayRxE
  | DropIpE
  | DropQueueE
  | DropQueueDiscE
  | CongStateE bool u32
  | ClientTxE int u32
  | LearningE
  | InvalidationE
  | ProcessedE Packet u32
  | CacheHitE Packet u32

fun stats_step :: "stat_event \<Rightarrow> TraceSimulation \<Rightarrow> TraceSimulation" where
  "stats_step (SinkRxE p tx rx f) = TraceSimulation_SinkRx p tx rx f"
| "stats_step GatewayRxE = TraceSimulation_GatewayRx"
| "stats_step DropIpE = TraceSimulation_RecordDropIp"
| "stats_step DropQueueE = TraceSimulation_RecordDropQueue"
| "stats_step DropQueueDiscE = TraceSimulation_RecordDropQueueDisc"
| "stats_step (CongStateE d f) = TraceSimulation_RecordCongState d f"
| "stats_step (ClientTxE now f) = TraceSimulation_ClientTx now f"
| "stats_step LearningE = TraceSimulation_GeneratedLearning"
| "stats_step InvalidationE = TraceSimulation_GeneratedInvalidation"
| "stats_step (ProcessedE p s) = TraceSimulation_ProcessedPacket p s"
| "stats_step (CacheHitE p s) = TraceSimulation_CacheHit p s"

section \<open>The statistics of a flow\<close>

lemmas stats_defs = TraceSimulation_SinkRx_def TraceSimulation_GatewayRx_def TraceSimulation_RecordDropIp_def
  TraceSimulation_RecordDropQueue_def TraceSimulation_RecordDropQueueDisc_def TraceSimulation_RecordCongState_def
  TraceSimulation_ClientTx_def TraceSimulation_GeneratedLearning_def TraceSimulation_GeneratedInvalidation_def
  TraceSimulation_ProcessedPacket_def TraceSimulation_CacheHit_def Let_def

text \<open>What one event does to the entry of a flow.\<close>

fun flow_step :: "int \<Rightarrow> u32 \<Rightarrow> stat_event \<Rightarrow> FlowStats option \<Rightarrow> FlowStats option" where
  "flow_step stop f (SinkRxE p tx rx g) s = (if g = f then map_option (FlowStats_rx (ns_of tx) (ns_of rx)) s else s)"
| "flow_step stop f (CongStateE d g) s =
     (if g = f \<and> d \<and> f \<noteq> 0 then map_option (\<lambda>fs. fs\<lparr>fs_disorder := fs_disorder fs + 1\<rparr>) s else s)"
| "flow_step stop f (ClientTxE now g) s = (if g = f \<and> f \<noteq> 0 \<and> s = None
     then Some \<lparr>fs_first = \<lparr>ps_txTime = ns_of now, ps_rxTime = ns_of stop\<rparr>,
                fs_last = \<lparr>ps_txTime = ns_of now, ps_rxTime = ns_of now\<rparr>, fs_count = 0, fs_disorder = 0\<rparr>
     else s)"
| "flow_step stop f _ s = s"

lemma stats_step_flow:
  "map_of (ts_flowStats (stats_step e ts)) f = flow_step (ts_stopTime ts) f e (map_of (ts_flowStats ts) f)"
  by (cases e) (auto simp: stats_defs AList.update_conv'
      split: option.splits)

lemma stats_step_stop [simp]: "ts_stopTime (stats_step e ts) = ts_stopTime ts"
  by (cases e) (auto simp: stats_defs split: option.splits)

lemma stats_run_flow:
  "map_of (ts_flowStats (fold stats_step evs ts)) f =
   fold (flow_step (ts_stopTime ts) f) evs (map_of (ts_flowStats ts) f)"
  by (induction evs arbitrary: ts) (simp_all add: stats_step_flow)

text \<open>The history of a flow: when it was first sent, and what arrived and was reordered after that.\<close>

fun is_tx :: "u32 \<Rightarrow> stat_event \<Rightarrow> bool" where
  "is_tx f (ClientTxE now g) \<longleftrightarrow> g = f"
| "is_tx f _ \<longleftrightarrow> False"

fun tx_time :: "stat_event \<Rightarrow> int" where
  "tx_time (ClientTxE now g) = now"
| "tx_time _ = 0"

fun rx_times :: "u32 \<Rightarrow> stat_event list \<Rightarrow> (int \<times> int) list" where
  "rx_times f [] = []"
| "rx_times f (SinkRxE p tx rx g # evs) = (if g = f then (tx, rx) # rx_times f evs else rx_times f evs)"
| "rx_times f (e # evs) = rx_times f evs"

fun disorders :: "u32 \<Rightarrow> stat_event list \<Rightarrow> nat" where
  "disorders f [] = 0"
| "disorders f (CongStateE d g # evs) = (if d \<and> g = f then 1 else 0) + disorders f evs"
| "disorders f (e # evs) = disorders f evs"

definition flow_summary :: "int \<Rightarrow> u32 \<Rightarrow> stat_event list \<Rightarrow> FlowStats option" where
  "flow_summary stop f evs = (case dropWhile (\<lambda>e. \<not> is_tx f e) evs of
       [] \<Rightarrow> None
     | e # rest \<Rightarrow> let t0 = ns_of (tx_time e); rs = rx_times f rest in
         Some \<lparr>fs_first = \<lparr>ps_txTime = fold min (map (\<lambda>r. ns_of (fst r)) rs) t0,
                           ps_rxTime = fold min (map (\<lambda>r. ns_of (snd r)) rs) (ns_of stop)\<rparr>,
               fs_last = \<lparr>ps_txTime = fold max (map (\<lambda>r. ns_of (fst r)) rs) t0,
                          ps_rxTime = fold max (map (\<lambda>r. ns_of (snd r)) rs) t0\<rparr>,
               fs_count = word_of_nat (length rs), fs_disorder = word_of_nat (disorders f rest)\<rparr>)"

lemma flow_steps_known:
  assumes "f \<noteq> 0"
  shows "fold (flow_step stop f) evs (Some fs) = (let rs = rx_times f evs in
     Some \<lparr>fs_first = \<lparr>ps_txTime = fold min (map (\<lambda>r. ns_of (fst r)) rs) (ps_txTime (fs_first fs)),
                       ps_rxTime = fold min (map (\<lambda>r. ns_of (snd r)) rs) (ps_rxTime (fs_first fs))\<rparr>,
           fs_last = \<lparr>ps_txTime = fold max (map (\<lambda>r. ns_of (fst r)) rs) (ps_txTime (fs_last fs)),
                      ps_rxTime = fold max (map (\<lambda>r. ns_of (snd r)) rs) (ps_rxTime (fs_last fs))\<rparr>,
           fs_count = fs_count fs + word_of_nat (length rs),
           fs_disorder = fs_disorder fs + word_of_nat (disorders f evs)\<rparr>)"
proof (induction evs arbitrary: fs)
  case (Cons e evs)
  then show ?case
    using assms by (cases e) (simp_all add: FlowStats_rx_def Let_def min.commute max.commute)
qed (simp add: Let_def)

lemma flow_steps_unknown:
  assumes "f \<noteq> 0"
  shows "fold (flow_step stop f) evs None = flow_summary stop f evs"
proof (induction evs)
  case (Cons e evs)
  show ?case
  proof (cases "is_tx f e")
    case True
    then obtain now where "e = ClientTxE now f"
      by (cases e) auto
    then show ?thesis
      using assms by (simp add: flow_steps_known flow_summary_def Let_def)
  next
    case False
    then have "flow_step stop f e None = None"
      by (cases e) auto
    with False Cons show ?thesis
      by (simp add: flow_summary_def)
  qed
qed (simp add: flow_summary_def)

section \<open>Counters\<close>

definition counts :: "(u32 \<times> FlowStats) list \<Rightarrow> u64" where
  "counts m = sum_list (map (\<lambda>(f, fs). fs_count fs) m)"

lemma counts_update:
  assumes "distinct (map fst m)"
  shows "counts (AList.update k v m) =
    counts m + fs_count v - (case map_of m k of None \<Rightarrow> 0 | Some v' \<Rightarrow> fs_count v')"
  using assms
proof (induction m)
  case (Cons e m)
  obtain k' v' where e: "e = (k', v')"
    by (cases e)
  with Cons show ?case
    by (auto simp: counts_def split: option.splits)
qed (simp add: counts_def)

lemma keys_step: "distinct (map fst (ts_flowStats ts)) \<Longrightarrow> distinct (map fst (ts_flowStats (stats_step e ts)))"
  by (cases e) (auto simp: stats_defs AList.distinct_update split: option.splits)

lemma keys_run: "distinct (map fst (ts_flowStats ts)) \<Longrightarrow> distinct (map fst (ts_flowStats (fold stats_step evs ts)))"
  by (induction evs arbitrary: ts) (simp_all add: keys_step)

definition count_inv :: "TraceSimulation \<Rightarrow> bool" where
  "count_inv ts \<longleftrightarrow> distinct (map fst (ts_flowStats ts)) \<and> counts (ts_flowStats ts) = ts_receivedPackets ts"

lemma count_inv_step: "count_inv ts \<Longrightarrow> count_inv (stats_step e ts)"
  by (cases e) (auto simp: stats_defs count_inv_def counts_update FlowStats_rx_def AList.distinct_update split: option.splits)

lemma count_inv_run: "count_inv ts \<Longrightarrow> count_inv (fold stats_step evs ts)"
  by (induction evs arbitrary: ts) (simp_all add: count_inv_step)

definition num :: "('a \<Rightarrow> bool) \<Rightarrow> 'a list \<Rightarrow> u64" where
  "num P xs = word_of_nat (length (filter P xs))"

fun is_drop :: "stat_event \<Rightarrow> bool" where
  "is_drop DropIpE = True" | "is_drop DropQueueE = True" | "is_drop DropQueueDiscE = True" | "is_drop _ = False"

fun is_send :: "stat_event \<Rightarrow> bool" where
  "is_send (ClientTxE now f) = True" | "is_send _ = False"

lemma sent_step: "ts_sentPackets (stats_step e ts) = ts_sentPackets ts + (if is_send e then 1 else 0)"
  by (cases e) (auto simp: stats_defs split: option.splits)

lemma dropped_step: "ts_droppedPackets (stats_step e ts) = ts_droppedPackets ts + (if is_drop e then 1 else 0)"
  by (cases e) (auto simp: stats_defs split: option.splits)

lemma gw_step: "ts_gwPackets (stats_step e ts) = ts_gwPackets ts + (if e = GatewayRxE then 1 else 0)"
  by (cases e) (auto simp: stats_defs split: option.splits)

lemma learning_step:
  "ts_generatedLearning (stats_step e ts) = ts_generatedLearning ts + (if e = LearningE then 1 else 0)"
  "ts_generatedInvalidation (stats_step e ts) = ts_generatedInvalidation ts + (if e = InvalidationE then 1 else 0)"
  by (cases e; auto simp: stats_defs split: option.splits)+

lemma counter_run:
  assumes "\<And>e ts. c (stats_step e ts) = c ts + (if P e then 1 else 0 :: u64)"
  shows "c (fold stats_step evs ts) = c ts + num P evs"
  by (induction evs arbitrary: ts) (simp_all add: assms num_def)

section \<open>Times\<close>

text \<open>A run in which time does not run backwards and stays below \<open>2 ^ 63\<close> nanoseconds.\<close>

fun timely :: "int \<Rightarrow> stat_event \<Rightarrow> bool" where
  "timely stop (SinkRxE p tx rx f) \<longleftrightarrow> 0 \<le> tx \<and> tx \<le> rx \<and> rx < 2 ^ 63"
| "timely stop (ClientTxE now f) \<longleftrightarrow> 0 \<le> now \<and> now \<le> stop \<and> stop < 2 ^ 63"
| "timely stop e \<longleftrightarrow> True"

definition flow_ordered :: "FlowStats \<Rightarrow> bool" where
  "flow_ordered fs \<longleftrightarrow> ps_txTime (fs_first fs) \<le> ps_rxTime (fs_first fs) \<and> ps_txTime (fs_first fs) \<le> ps_rxTime (fs_last fs)"

lemma ns_of_mono: "\<lbrakk>0 \<le> s; s \<le> t; t < 2 ^ 63\<rbrakk> \<Longrightarrow> ns_of s \<le> ns_of t"
  by (simp add: ns_of_def word_le_def uint_word_of_int)

lemma flow_ordered_step:
  "\<lbrakk>timely stop e; \<forall>fs. s = Some fs \<longrightarrow> flow_ordered fs; flow_step stop f e s = Some fs'\<rbrakk> \<Longrightarrow> flow_ordered fs'"
  using ns_of_mono
  by (cases e) (auto simp: flow_ordered_def FlowStats_rx_def min_le_iff_disj le_max_iff_disj split: if_splits)

lemma flow_ordered_run:
  "\<lbrakk>\<forall>e \<in> set evs. timely stop e; \<forall>fs. s = Some fs \<longrightarrow> flow_ordered fs; fold (flow_step stop f) evs s = Some fs'\<rbrakk> \<Longrightarrow>
   flow_ordered fs'"
  by (induction evs arbitrary: s) (auto intro: flow_ordered_step)

lemma totals_sums:
  "TraceSimulation_totals ts =
    (sum_list (map (\<lambda>(f, fs). ps_rxTime (fs_last fs) - ps_txTime (fs_first fs)) (ts_flowStats ts)),
     sum_list (map (\<lambda>(f, fs). ps_rxTime (fs_first fs) - ps_txTime (fs_first fs)) (ts_flowStats ts)))"
proof -
  have "fold (\<lambda>(flowId, fs) (totalFct, totalFirstPacketLatency).
       (totalFct + (ps_rxTime (fs_last fs) - ps_txTime (fs_first fs)),
        totalFirstPacketLatency + (ps_rxTime (fs_first fs) - ps_txTime (fs_first fs)))) m (a, b) =
     (a + sum_list (map (\<lambda>(f, fs). ps_rxTime (fs_last fs) - ps_txTime (fs_first fs)) m),
      b + sum_list (map (\<lambda>(f, fs). ps_rxTime (fs_first fs) - ps_txTime (fs_first fs)) m))" for m :: "(u32 \<times> FlowStats) list" and a b
    by (induction m arbitrary: a b) (auto simp: algebra_simps)
  then show ?thesis
    by (simp add: TraceSimulation_totals_def)
qed

lemma word_diff_nat: "b \<le> a \<Longrightarrow> a - b = (word_of_nat (unat a - unat b) :: u64)"
  by (simp add: of_nat_diff word_le_nat_alt)

section \<open>A small simulation\<close>

lemma simulation2:
  "\<exists>ts. TraceSimulation_new (sort_key flow_ts) [77] 0 hosts2 (Some [row_line row0]) params2 mig = Inr ts \<and>
     ts_flowStats ts = [] \<and> ts_sentPackets ts = 0 \<and> ts_receivedPackets ts = 0 \<and> ts_droppedPackets ts = 0 \<and>
     ts_gwPackets ts = 0 \<and> ts_generatedLearning ts = 0 \<and> ts_generatedInvalidation ts = 0 \<and>
     ts_stopTime ts = 60000005000 \<and>
     map_of (ts_containerToFlows ts) 0 = Some [\<lparr>flow_ts = 5000, flow_dst = 1, flow_flowId = 7, flow_size = 1500\<rparr>]"
proof -
  obtain sb where sb: "SimulationBase_new params2 groups2 mig 0 = Inr sb"
      "map_of (sb_containerToId sb) ''A'' = Some 0" "map_of (sb_containerToId sb) ''B'' = Some 1"
    by (simp add: SimulationBase_new_def SimulationBase_init_def params2_def groups2_def Let_def
        SimulationBase_checks_def SimulationBase_AssignIds_def slots_def upt_rec)
  then have "\<forall>r \<in> set [row0]. row_ok (sb_containerToId sb) r"
    by (simp add: row_ok_def row0_def)
  from ParseTrace_ok [OF this] obtain flows where
      flows: "TraceSimulation_ParseTrace (sb_containerToId sb) (Some [row_line row0]) 0 = Inr (flows, 60000005000)"
      "flows_of flows 0 = map (row_flow (sb_containerToId sb)) (filter (\<lambda>r. map_of (sb_containerToId sb) (tr_um r) = Some 0) [row0])"
    by (auto simp: returns_def row0_def)
  then have "map_of flows 0 = Some [\<lparr>flow_ts = 5000, flow_dst = 1, flow_flowId = 7, flow_size = 1500\<rparr>]"
    using sb by (auto simp: row0_def row_flow_def flows_of_def split: option.splits)
  with sb(1) flows(1) show ?thesis
    by (simp add: TraceSimulation_new_def placement2 TraceSimulation_CalculateDestinations_def map_of_map)
qed

definition events2 :: "stat_event list" where
  "events2 = [ClientTxE 10 7, SinkRxE (Packet_create 0) 10 60 7, GatewayRxE, SinkRxE (Packet_create 0) 20 50 7]"

section \<open>Properties\<close>

text \<open>C14: The statistics of a flow are what they are named after. After any run of the callbacks, the entry of a flow
  is absent until it is first sent, and from then on holds the earliest and the latest sending and receiving times
  of its packets, the number of packets received and the number of times its order was disturbed.\<close>

theorem flow_statistics:
  assumes "f \<noteq> 0" and "ts_flowStats ts = []"
  shows "map_of (ts_flowStats (fold stats_step evs ts)) f = flow_summary (ts_stopTime ts) f evs"
  using assms by (simp add: stats_run_flow flow_steps_unknown)

theorem flow_statistics_witness:
  "\<exists>ts. TraceSimulation_new (sort_key flow_ts) [77] 0 hosts2 (Some [row_line row0]) params2 mig0 = Inr ts \<and>
     map_of (ts_flowStats (fold stats_step events2 ts)) 7 =
       Some \<lparr>fs_first = \<lparr>ps_txTime = 10, ps_rxTime = 50\<rparr>, fs_last = \<lparr>ps_txTime = 20, ps_rxTime = 60\<rparr>,
             fs_count = 2, fs_disorder = 0\<rparr>"
proof -
  obtain ts where ts: "TraceSimulation_new (sort_key flow_ts) [77] 0 hosts2 (Some [row_line row0]) params2 mig0 = Inr ts"
      "ts_flowStats ts = []" "ts_stopTime ts = 60000005000"
    using simulation2 by blast
  have "map_of (ts_flowStats (fold stats_step events2 ts)) 7 = flow_summary (ts_stopTime ts) 7 events2"
    by (rule flow_statistics) (simp_all add: ts)
  also have "\<dots> = Some \<lparr>fs_first = \<lparr>ps_txTime = 10, ps_rxTime = 50\<rparr>, fs_last = \<lparr>ps_txTime = 20, ps_rxTime = 60\<rparr>,
             fs_count = 2, fs_disorder = 0\<rparr>"
    by (simp add: flow_summary_def events2_def ts ns_of_def Let_def)
  finally show ?thesis
    using ts(1) by blast
qed

text \<open>The reported totals add up. After any run of the callbacks on a new simulation, the packets received are the
  sum over the flows, and the packets sent, dropped, seen by gateways and generated are the numbers of these events.\<close>

theorem counters_exact:
  assumes "TraceSimulation_new srt beyond uninit parsed trace params migParams = Inr ts"
  shows "let ts' = fold stats_step evs ts in
    ts_receivedPackets ts' = counts (ts_flowStats ts') \<and> distinct (map fst (ts_flowStats ts')) \<and>
    ts_sentPackets ts' = num is_send evs \<and> ts_droppedPackets ts' = num is_drop evs \<and>
    ts_gwPackets ts' = num (\<lambda>e. e = GatewayRxE) evs \<and> ts_generatedLearning ts' = num (\<lambda>e. e = LearningE) evs \<and>
    ts_generatedInvalidation ts' = num (\<lambda>e. e = InvalidationE) evs"
proof -
  have ts: "ts_flowStats ts = []" "ts_sentPackets ts = 0" "ts_receivedPackets ts = 0" "ts_droppedPackets ts = 0"
      "ts_gwPackets ts = 0" "ts_generatedLearning ts = 0" "ts_generatedInvalidation ts = 0"
    using assms by (auto simp: TraceSimulation_new_def TraceSimulation_CalculateDestinations_def monad_simps)
  then have "count_inv (fold stats_step evs ts)"
    by (intro count_inv_run) (simp add: count_inv_def counts_def)
  then show ?thesis
    using ts counter_run [OF sent_step] counter_run [OF dropped_step] counter_run [OF gw_step]
      counter_run [OF learning_step(1)] counter_run [OF learning_step(2)]
    by (simp add: count_inv_def Let_def)
qed

theorem counters_exact_witness:
  "\<exists>ts. TraceSimulation_new (sort_key flow_ts) [77] 0 hosts2 (Some [row_line row0]) params2 mig0 = Inr ts \<and>
     ts_sentPackets (fold stats_step events2 ts) = 1 \<and> ts_gwPackets (fold stats_step events2 ts) = 1 \<and>
     ts_receivedPackets (fold stats_step events2 ts) = counts (ts_flowStats (fold stats_step events2 ts))"
proof -
  obtain ts where ts: "TraceSimulation_new (sort_key flow_ts) [77] 0 hosts2 (Some [row_line row0]) params2 mig0 = Inr ts"
    using simulation2 by blast
  from counters_exact [OF ts, of events2] ts show ?thesis
    by (intro exI [of _ ts]) (simp add: Let_def num_def events2_def)
qed

text \<open>Completion times are not wrapped differences. In a run in which packets arrive after they are sent, every
  flow's first sending time is at most its first and its last receiving time, and the totals of \<open>StopSimulation\<close>
  are the sums of the true differences.\<close>

theorem completion_times_exact:
  assumes "\<forall>e \<in> set evs. timely (ts_stopTime ts) e" and "ts_flowStats ts = []"
  shows "let ts' = fold stats_step evs ts in
    TraceSimulation_totals ts' =
      (word_of_nat (sum_list (map (\<lambda>(f, fs). unat (ps_rxTime (fs_last fs)) - unat (ps_txTime (fs_first fs))) (ts_flowStats ts'))),
       word_of_nat (sum_list (map (\<lambda>(f, fs). unat (ps_rxTime (fs_first fs)) - unat (ps_txTime (fs_first fs))) (ts_flowStats ts')))) \<and>
    list_all (\<lambda>(f, fs). flow_ordered fs) (ts_flowStats ts')"
proof -
  let ?m = "ts_flowStats (fold stats_step evs ts)"
  have "distinct (map fst ?m)"
    by (rule keys_run) (simp add: assms(2))
  then have ordered: "flow_ordered fs" if "(f, fs) \<in> set ?m" for f fs
    using flow_ordered_run [OF assms(1), of None f fs] stats_run_flow [of evs ts f] that assms(2) by simp
  have sums: "sum_list (map (\<lambda>(f, fs). g fs - h fs) m) = word_of_nat (sum_list (map (\<lambda>(f, fs). unat (g fs) - unat (h fs)) m))"
    if "\<forall>(f, fs) \<in> set m. h fs \<le> (g fs :: u64)" for m :: "(u32 \<times> FlowStats) list" and g h
    using that by (induction m) (auto simp: word_diff_nat)
  show ?thesis
    using ordered unfolding Let_def totals_sums
    by (auto simp: list_all_iff flow_ordered_def intro!: sums)
qed

theorem completion_times_exact_witness:
  "\<exists>ts. TraceSimulation_new (sort_key flow_ts) [77] 0 hosts2 (Some [row_line row0]) params2 mig0 = Inr ts \<and>
     TraceSimulation_totals (fold stats_step events2 ts) = (50, 40)"
proof -
  obtain ts where ts: "TraceSimulation_new (sort_key flow_ts) [77] 0 hosts2 (Some [row_line row0]) params2 mig0 = Inr ts"
      "ts_flowStats ts = []" "ts_stopTime ts = 60000005000"
    using simulation2 by blast
  have stats: "ts_flowStats (fold stats_step events2 ts) =
      [(7, \<lparr>fs_first = \<lparr>ps_txTime = 10, ps_rxTime = 50\<rparr>, fs_last = \<lparr>ps_txTime = 20, ps_rxTime = 60\<rparr>, fs_count = 2,
            fs_disorder = 0\<rparr>)]"
    by (simp add: events2_def stats_defs ts FlowStats_rx_def ns_of_def)
  from completion_times_exact [of events2 ts] ts show ?thesis
    unfolding Let_def stats by (intro exI [of _ ts]) (simp add: events2_def)
qed

end
