(* ===== verification/Routing.thy ===== *)
theory Routing
  imports Sim_Base
begin

text \<open>
  What the links and routes of \<open>AssignPhysicalIps\<close> achieve. ns-3 looks a destination up in the networks
  of the node's own interfaces first and in the configured network routes after that, and picks any of
  the matching entries (per flow or at random). That lookup is the parameter \<open>lookup\<close>, its behaviour the
  predicate \<open>ns3_lookup\<close>. The locale \<open>forwarding_plane\<close> collects what forwarding relies on; inside it, a
  packet addressed to a host, a leaf or a spine comes closer to it with every hop, whatever entry is picked.
\<close>

section \<open>Forwarding\<close>

definition route_matches :: "route \<Rightarrow> u32 \<Rightarrow> bool" where
  "route_matches r dst \<longleftrightarrow> dst AND rt_mask r = rt_net r AND rt_mask r"

text \<open>The interfaces among which a lookup may choose.\<close>

definition matching :: "route list \<Rightarrow> u32 \<Rightarrow> nat set" where
  "matching rs dst = rt_iface ` {r \<in> set rs. route_matches r dst}"

type_synonym lookup = "route list \<Rightarrow> route list \<Rightarrow> u32 \<Rightarrow> nat option"

definition ns3_lookup :: "lookup \<Rightarrow> bool" where
  "ns3_lookup lookup \<longleftrightarrow> (\<forall>own configured dst.
     (matching own dst \<noteq> {} \<longrightarrow> lookup own configured dst \<in> Some ` matching own dst) \<and>
     (matching own dst = {} \<and> matching configured dst \<noteq> {} \<longrightarrow>
        lookup own configured dst \<in> Some ` matching configured dst))"

lemma ns3_lookupD:
  assumes "ns3_lookup lookup"
  shows "matching own dst \<noteq> {} \<Longrightarrow> lookup own configured dst \<in> Some ` matching own dst"
    and "\<lbrakk>matching own dst = {}; matching configured dst \<noteq> {}\<rbrakk> \<Longrightarrow>
      lookup own configured dst \<in> Some ` matching configured dst"
  using assms unfolding ns3_lookup_def by blast+

text \<open>The interfaces of a node as (other end, own address, network), without the loopback.\<close>

definition iface_to :: "sim_node \<Rightarrow> u32 \<Rightarrow> u32 \<Rightarrow> sim_node \<times> u32 \<times> u32" where
  "iface_to y d base = (y, base + d, base)"

fun link_end :: "sim_node \<Rightarrow> link \<times> u32 \<Rightarrow> (sim_node \<times> u32 \<times> u32) list" where
  "link_end x ((a, b), base) =
     (if x = a then [iface_to b 1 base] else if x = b then [iface_to a 2 base] else [])"

definition interfaces :: "SimulationBase \<Rightarrow> sim_node \<Rightarrow> (sim_node \<times> u32 \<times> u32) list" where
  "interfaces sb x = concat (map (link_end x) (sb_assigned sb))"

definition own_routes :: "ipv4_parser \<Rightarrow> SimulationBase \<Rightarrow> sim_node \<Rightarrow> route list" where
  "own_routes masks sb x = map (\<lambda>n. \<lparr>rt_net = snd (snd (interfaces sb x ! n)),
     rt_mask = IpUtils_GetClassCMask masks, rt_iface = n + 1\<rparr>) [0..<length (interfaces sb x)]"

definition own_addresses :: "SimulationBase \<Rightarrow> sim_node \<Rightarrow> u32 list" where
  "own_addresses sb x = map (\<lambda>i. fst (snd i)) (interfaces sb x)"

text \<open>One hop: \<open>None\<close> when the packet has arrived or cannot be forwarded.\<close>

definition forward :: "lookup \<Rightarrow> ipv4_parser \<Rightarrow> SimulationBase \<Rightarrow> u32 \<Rightarrow> sim_node \<Rightarrow> sim_node option" where
  "forward lookup masks sb dst x =
     (if dst \<in> set (own_addresses sb x) then None
      else case lookup (own_routes masks sb x) (sb_routes sb x) dst of
        None \<Rightarrow> None
      | Some n \<Rightarrow> if 1 \<le> n \<and> n \<le> length (interfaces sb x) then Some (fst (interfaces sb x ! (n - 1))) else None)"

fun hops :: "('a \<Rightarrow> 'a option) \<Rightarrow> nat \<Rightarrow> 'a \<Rightarrow> 'a option" where
  "hops f 0 x = Some x"
| "hops f (Suc k) x = (case f x of None \<Rightarrow> None | Some y \<Rightarrow> hops f k y)"

text \<open>The nodes of the network and the addresses \<open>SetupTunnel\<close> and \<open>SetupApplications\<close> give to them.\<close>

fun is_node :: "SimulationBase \<Rightarrow> sim_node \<Rightarrow> bool" where
  "is_node sb (HostN i j) \<longleftrightarrow> i < sb_leafCount sb \<and> j < length (sb_containerGroups sb ! i)"
| "is_node sb (LeafN i) \<longleftrightarrow> i < sb_leafCount sb"
| "is_node sb (SpineN i) \<longleftrightarrow> i < sb_spineCount sb"
| "is_node sb (CoreN c) \<longleftrightarrow> c < sb_coreCount sb"

fun node_address :: "ipv4_parser \<Rightarrow> SimulationBase \<Rightarrow> sim_node \<Rightarrow> u32" where
  "node_address ipv4 sb (HostN i j) = host_address ipv4 sb i j"
| "node_address ipv4 sb (LeafN i) = IpUtils_GetLeafAddress ipv4 (word_of_nat (sb_podCount sb))
     (word_of_nat (i div sb_podWidth sb)) 0 (word_of_nat (i mod sb_podWidth sb))"
| "node_address ipv4 sb (SpineN i) = IpUtils_GetSpineFromLeafAddress ipv4 (word_of_nat (sb_podCount sb))
     (word_of_nat (i div sb_podWidth sb)) (word_of_nat (i mod sb_podWidth sb)) 0"
| "node_address ipv4 sb (CoreN c) = IpUtils_GetCoreAddress ipv4 0 (word_of_nat c)"

text \<open>An upper bound on the hops that are left towards a target. There are routes to a core only on
  the hosts, on the leaves and on the spines that are connected to it.\<close>

fun leaf_dist :: "SimulationBase \<Rightarrow> sim_node \<Rightarrow> nat \<Rightarrow> nat" where
  "leaf_dist sb (HostN a b) i = (if i = a then 1 else if i div sb_podWidth sb = a div sb_podWidth sb then 3 else 5)"
| "leaf_dist sb (LeafN a) i = (if i = a then 0 else if i div sb_podWidth sb = a div sb_podWidth sb then 2 else 4)"
| "leaf_dist sb (SpineN a) i = (if i div sb_podWidth sb = a div sb_podWidth sb then 1 else 5)"
| "leaf_dist sb (CoreN a) i = 2"

fun spine_dist :: "SimulationBase \<Rightarrow> sim_node \<Rightarrow> nat \<Rightarrow> nat" where
  "spine_dist sb (HostN a b) i = (if i div sb_podWidth sb = a div sb_podWidth sb then 2 else 4)"
| "spine_dist sb (LeafN a) i = (if i div sb_podWidth sb = a div sb_podWidth sb then 1 else 3)"
| "spine_dist sb (SpineN a) i = (if i = a then 0 else if i div sb_podWidth sb = a div sb_podWidth sb then 2 else 4)"
| "spine_dist sb (CoreN a) i = 1"

fun core_dist :: "sim_node \<Rightarrow> nat" where
  "core_dist (LeafN a) = 2"
| "core_dist (CoreN a) = 0"
| "core_dist t = 3"

fun route_dist :: "SimulationBase \<Rightarrow> sim_node \<Rightarrow> sim_node \<Rightarrow> nat" where
  "route_dist sb t (HostN i j) = (if t = HostN i j then 0 else 1 + leaf_dist sb t i)"
| "route_dist sb t (LeafN i) = leaf_dist sb t i"
| "route_dist sb t (SpineN i) = spine_dist sb t i"
| "route_dist sb t (CoreN c) = core_dist t"

fun routable :: "SimulationBase \<Rightarrow> sim_node \<Rightarrow> sim_node \<Rightarrow> bool" where
  "routable sb (CoreN a) (SpineN i) \<longleftrightarrow> i mod sb_podWidth sb = a div (sb_coreCount sb div sb_podWidth sb)"
| "routable sb (CoreN a) (CoreN c) \<longleftrightarrow> c = a"
| "routable sb t x \<longleftrightarrow> True"

text \<open>The first match, as one lookup with the documented behaviour.\<close>

definition first_match :: lookup where
  "first_match own configured dst =
     map_option rt_iface (find (\<lambda>r. route_matches r dst) (own @ configured))"

lemma find_matching:
  "find (\<lambda>r. route_matches r dst) rs = None \<longleftrightarrow> matching rs dst = {}"
  "find (\<lambda>r. route_matches r dst) rs = Some r \<Longrightarrow> rt_iface r \<in> matching rs dst"
  by (auto simp: matching_def find_None_iff find_Some_iff)

lemma find_append: "find P (xs @ ys) = (case find P xs of None \<Rightarrow> find P ys | Some x \<Rightarrow> Some x)"
  by (induction xs) auto

lemma first_match_ns3: "ns3_lookup first_match"
  unfolding ns3_lookup_def
proof (intro allI conjI impI)
  fix own configured dst
  let ?P = "\<lambda>r. route_matches r dst"
  show "first_match own configured dst \<in> Some ` matching own dst" if "matching own dst \<noteq> {}"
    using that find_matching [of dst own]
    by (cases "find ?P own") (auto simp: first_match_def find_append)
  show "first_match own configured dst \<in> Some ` matching configured dst"
    if "matching own dst = {} \<and> matching configured dst \<noteq> {}"
    using that find_matching [of dst own] find_matching [of dst configured]
    by (cases "find ?P own"; cases "find ?P configured") (auto simp: first_match_def find_append)
qed

section \<open>Matching entries\<close>

lemma matching_simps [simp]:
  "matching [] dst = {}"
  "matching (r # rs) dst = (if route_matches r dst then insert (rt_iface r) (matching rs dst) else matching rs dst)"
  "matching (xs @ ys) dst = matching xs dst \<union> matching ys dst"
  by (auto simp: matching_def)

lemma matching_concat [simp]: "matching (concat (map f xs)) dst = (\<Union>x \<in> set xs. matching (f x) dst)"
  by (auto simp: matching_def)

lemma matching_map: "matching (map f xs) dst = (\<lambda>x. rt_iface (f x)) ` {x \<in> set xs. route_matches (f x) dst}"
  by (auto simp: matching_def)

section \<open>Sums over pods\<close>

lemma concat_if_eq: "concat (map (\<lambda>i. if i = a then f i else []) [0..<n]) = (if a < n then f a else [])"
  by (induction n) auto

lemma concat_blocks:
  "concat (map g [0..<n * w]) = concat (map (\<lambda>p. concat (map (\<lambda>k. g (p * w + k)) [0..<w])) [0..<n])"
proof (induction n)
  case (Suc n)
  have "[0..<Suc n * w] = [0..<n * w] @ [n * w..<n * w + w]"
    by (metis add.commute mult_Suc upt_add_eq_append zero_le)
  moreover have "[n * w..<n * w + w] = map (\<lambda>k. n * w + k) [0..<w]"
    using map_add_upt [of "n * w" w] by (simp add: add.commute)
  ultimately have "concat (map g [0..<Suc n * w]) =
      concat (map g [0..<n * w]) @ concat (map (\<lambda>k. g (n * w + k)) [0..<w])"
    by (simp only: map_append concat_append map_map comp_def)
  with Suc show ?case
    by simp
qed simp

lemma concat_if_pod:
  assumes "p < n" and "0 < w"
  shows "concat (map (\<lambda>i. if i div w = p then f i else []) [0..<n * w]) = concat (map (\<lambda>k. f (p * w + k)) [0..<w])"
proof -
  have "concat (map (\<lambda>k. if (p' * w + k) div w = p then f (p' * w + k) else []) [0..<w]) =
      (if p' = p then concat (map (\<lambda>k. f (p' * w + k)) [0..<w]) else [])" for p'
  proof -
    have *: "map (\<lambda>k. if (p' * w + k) div w = p then f (p' * w + k) else []) [0..<w] =
        map (\<lambda>k. if p' = p then f (p' * w + k) else []) [0..<w]"
      by (rule map_cong) auto
    show ?thesis
      unfolding * by (cases "p' = p") (simp_all add: map_replicate_const)
  qed
  then show ?thesis
    unfolding concat_blocks using assms(1) by (simp only: concat_if_eq if_True)
qed

lemma concat_if_offset:
  assumes "s < w"
  shows "concat (map (\<lambda>i. if i mod w = s then f i else []) [0..<n * w]) = concat (map (\<lambda>p. f (p * w + s)) [0..<n])"
proof -
  have "concat (map (\<lambda>k. if (p * w + k) mod w = s then f (p * w + k) else []) [0..<w]) = f (p * w + s)" for p
  proof -
    have "map (\<lambda>k. if (p * w + k) mod w = s then f (p * w + k) else []) [0..<w] =
        map (\<lambda>k. if k = s then f (p * w + k) else []) [0..<w]"
      by (rule map_cong) auto
    then show ?thesis
      using assms by (simp only: concat_if_eq if_True)
  qed
  then show ?thesis
    unfolding concat_blocks by (simp only:)
qed

lemma ex_blocks: "(\<exists>i < m * v. P (i div v) (i mod v)) \<longleftrightarrow> (\<exists>p < m. \<exists>l < v. P p (l :: nat))"
proof
  assume "\<exists>i < m * v. P (i div v) (i mod v)"
  then obtain i where i: "i < m * v" "P (i div v) (i mod v)"
    by blast
  then have "i div v < m" "0 < v"
    by (auto simp: less_mult_imp_div_less intro: gr0I)
  with i(2) show "\<exists>p < m. \<exists>l < v. P p l"
    using mod_less_divisor by blast
next
  assume "\<exists>p < m. \<exists>l < v. P p l"
  then obtain p l where "p < m" "l < v" "P p l"
    by blast
  then have "p * v + l < m * v" "P ((p * v + l) div v) ((p * v + l) mod v)"
    using mult_le_mono1 [of "Suc p" m v] by simp_all
  then show "\<exists>i < m * v. P (i div v) (i mod v)"
    by blast
qed

lemma matching_blocks:
  "x \<in> matching (concat (map (\<lambda>j. F (j div v) (j mod v)) [0..<m * v])) dst \<longleftrightarrow>
   (\<exists>p < m. \<exists>l < v. x \<in> matching (F p l) dst)"
  unfolding matching_concat UN_iff ex_blocks [symmetric] by auto

section \<open>The interfaces of the nodes\<close>

lemma iface_to_sel [simp]:
  "fst (iface_to y d b) = y" "fst (snd (iface_to y d b)) = b + d" "snd (snd (iface_to y d b)) = b"
  by (simp_all add: iface_to_def)

lemma block_eq: "\<lbrakk>j < v; l < v\<rbrakk> \<Longrightarrow> a * v + j = p * v + l \<longleftrightarrow> a = p \<and> j = (l :: nat)"
  by (metis div_mult_self3 div_less add.commute add_0 mod_mult_self3 mod_less less_nat_zero_code)

lemma concat_map_concat: "concat (map f (concat (map g xs))) = concat (map (\<lambda>x. concat (map f (g x))) xs)"
  by (induction xs) simp_all

lemma concat_nest: "concat (map f (nest is js)) = concat (map (\<lambda>i. concat (map (\<lambda>j. f (i, j)) (js i))) is)"
  by (induction "is") (simp_all add: nest_def comp_def)

lemma concat_map_Nil: "(\<And>x. x \<in> set xs \<Longrightarrow> f x = []) \<Longrightarrow> concat (map f xs) = []"
  by simp

lemma concat_map_if: "concat (map (\<lambda>x. if P then f x else []) xs) = (if P then concat (map f xs) else [])"
  by (simp add: map_replicate_const)

lemma interfaces_links:
  assumes "sb_assigned sb = network_links ipv4 sb"
  shows "interfaces sb x =
    concat (map (\<lambda>i. concat (map (\<lambda>j. link_end x (host_link ipv4 sb i j)) [0..<length (sb_containerGroups sb ! i)]))
      [0..<sb_leafCount sb]) @
    concat (map (\<lambda>i. concat (map (\<lambda>j. link_end x (leaf_link ipv4 sb i j)) [0..<sb_podWidth sb]) @
                     concat (map (\<lambda>j. link_end x (core_link ipv4 sb i j)) [0..<sb_coreCount sb div sb_podWidth sb]))
      [0..<sb_spineCount sb])"
  unfolding interfaces_def assms network_links_def host_pairs_def spine_cores_def
  by (simp only: map_append concat_append map_map comp_def concat_nest concat_map_concat prod.case)

locale forwarding_plane =
  fixes ipv4 masks :: ipv4_parser and lookup :: lookup and sb :: SimulationBase
  assumes ipv4: "dotted_quad ipv4" and masks: "dotted_quad masks"
    and lookup: "ns3_lookup lookup" and network: "network_ok ipv4 masks sb"
begin

abbreviation w :: nat where
  "w \<equiv> sb_podWidth sb"

abbreviation n :: nat where
  "n \<equiv> sb_podCount sb"

abbreviation q :: nat where
  "q \<equiv> sb_coreCount sb div sb_podWidth sb"

abbreviation cnt :: "nat \<Rightarrow> nat" where
  "cnt i \<equiv> length (sb_containerGroups sb ! i)"

lemma dims: "dims_ok sb"
  using network by (simp add: network_ok_def)

lemma assigned: "sb_assigned sb = network_links ipv4 sb"
  using network by (simp add: network_ok_def)

lemma routes: "sb_routes sb = routes_of ipv4 masks sb"
  using network by (simp add: network_ok_def)

lemma sizes: "sb_leafCount sb = n * w" "sb_spineCount sb = n * w" "0 < w" "w \<le> 256" "3 * n < 255"
  using dims_okD(1-3,5,8) [OF dims] by simp_all

lemma cores: "sb_coreCount sb = w * q" "w * q \<le> 256" "1 < n \<Longrightarrow> 0 < q"
proof -
  show eq: "sb_coreCount sb = w * q"
    using dims_okD(6) [OF dims] by auto
  then show "w * q \<le> 256"
    using dims_okD(7) [OF dims] by simp
  show "0 < q" if "1 < n"
    using dims_okD(10) [OF dims that] eq by (metis mult_0_right neq0_conv)
qed

lemma leaf_index: "\<lbrakk>p < n; l < w\<rbrakk> \<Longrightarrow> p * w + l < n * w"
  using mult_le_mono1 [of "Suc p" n w] by simp

lemma cnt_bound: "\<lbrakk>p < n; l < w; j < cnt (p * w + l)\<rbrakk> \<Longrightarrow> j < 256"
  using dims_okD(9) [OF dims, of "p * w + l"] leaf_index sizes(1) by fastforce

lemma interfaces_host:
  assumes "i < n * w" and "j < cnt i"
  shows "interfaces sb (HostN i j) = [iface_to (LeafN i) 1 (snd (host_link ipv4 sb i j))]"
proof -
  let ?if = "[iface_to (LeafN i) 1 (snd (host_link ipv4 sb i j))]"
  have "concat (map (\<lambda>j'. link_end (HostN i j) (host_link ipv4 sb i' j')) [0..<cnt i']) =
      (if i' = i then ?if else [])" for i'
  proof -
    have *: "map (\<lambda>j'. link_end (HostN i j) (host_link ipv4 sb i' j')) [0..<cnt i'] =
        map (\<lambda>j'. if j' = j then (if i' = i then ?if else []) else []) [0..<cnt i']"
      by (intro map_cong) (auto simp: host_link_def)
    show ?thesis
      unfolding * concat_if_eq using assms(2) by simp
  qed
  then show ?thesis
    unfolding interfaces_links [OF assigned] sizes(1)
    using assms(1) by (simp add: concat_if_eq concat_map_Nil leaf_link_def core_link_def)
qed

lemma interfaces_leaf:
  assumes "p < n" and "l < w"
  shows "interfaces sb (LeafN (p * w + l)) =
    map (\<lambda>j. iface_to (HostN (p * w + l) j) 2 (snd (host_link ipv4 sb (p * w + l) j))) [0..<cnt (p * w + l)] @
    map (\<lambda>k. iface_to (SpineN (p * w + k)) 2 (snd (leaf_link ipv4 sb (p * w + k) l))) [0..<w]"
proof -
  let ?x = "LeafN (p * w + l)"
  have hosts: "concat (map (\<lambda>j. link_end ?x (host_link ipv4 sb i j)) [0..<cnt i]) =
      (if i = p * w + l then map (\<lambda>j. iface_to (HostN i j) 2 (snd (host_link ipv4 sb i j))) [0..<cnt i] else [])" for i
    by (auto simp: host_link_def concat_map_singleton concat_map_Nil)
  have spines: "concat (map (\<lambda>j. link_end ?x (leaf_link ipv4 sb i j)) [0..<w]) @
        concat (map (\<lambda>j. link_end ?x (core_link ipv4 sb i j)) [0..<q]) =
      (if i div w = p then [iface_to (SpineN i) 2 (snd (leaf_link ipv4 sb i l))] else [])" for i
  proof -
    have *: "map (\<lambda>j. link_end ?x (leaf_link ipv4 sb i j)) [0..<w] =
        map (\<lambda>j. if j = l then (if i div w = p then [iface_to (SpineN i) 2 (snd (leaf_link ipv4 sb i l))] else []) else [])
          [0..<w]"
      using assms(2) by (intro map_cong) (simp_all add: leaf_link_def block_eq)
    show ?thesis
      unfolding * concat_if_eq using assms(2) by (simp add: concat_map_Nil core_link_def)
  qed
  show ?thesis
    unfolding interfaces_links [OF assigned] sizes(1,2) hosts spines concat_if_eq
      concat_if_pod [OF assms(1) sizes(3)]
    using leaf_index [OF assms] by (simp add: concat_map_singleton)
qed

lemma core_idx_at: "s < w \<Longrightarrow> core_idx sb (p * w + s) j = s * q + j"
  by (simp add: core_idx_def)

lemma core_octet: "\<lbrakk>s < w; j < q\<rbrakk> \<Longrightarrow> s * q + j < w * q" "\<lbrakk>s < w; j < q\<rbrakk> \<Longrightarrow> s * q + j < 256"
  using core_idx_bound [OF dims, of j s] cores(1,2) by (simp_all add: core_idx_def)

lemma interfaces_spine:
  assumes "p < n" and "s < w"
  shows "interfaces sb (SpineN (p * w + s)) =
    map (\<lambda>j. iface_to (LeafN (p * w + j)) 1 (snd (leaf_link ipv4 sb (p * w + s) j))) [0..<w] @
    map (\<lambda>j. iface_to (CoreN (s * q + j)) 2 (snd (core_link ipv4 sb (p * w + s) j))) [0..<q]"
proof -
  let ?x = "SpineN (p * w + s)"
  have spines: "concat (map (\<lambda>j. link_end ?x (leaf_link ipv4 sb i j)) [0..<w]) @
        concat (map (\<lambda>j. link_end ?x (core_link ipv4 sb i j)) [0..<q]) =
      (if i = p * w + s then
        map (\<lambda>j. iface_to (LeafN (i div w * w + j)) 1 (snd (leaf_link ipv4 sb i j))) [0..<w] @
        map (\<lambda>j. iface_to (CoreN (core_idx sb i j)) 2 (snd (core_link ipv4 sb i j))) [0..<q] else [])" for i
    by (auto simp: leaf_link_def core_link_def concat_map_singleton concat_map_Nil)
  have "concat (map (\<lambda>i. concat (map (\<lambda>j. link_end ?x (host_link ipv4 sb i j)) [0..<cnt i])) [0..<n * w]) = []"
    by (simp add: concat_map_Nil host_link_def)
  then show ?thesis
    unfolding interfaces_links [OF assigned] sizes(1,2) spines concat_if_eq
    using leaf_index [OF assms] assms(2) by (simp add: core_idx_at)
qed

lemma interfaces_core:
  assumes "s < w" and "j < q"
  shows "interfaces sb (CoreN (s * q + j)) =
    map (\<lambda>p. iface_to (SpineN (p * w + s)) 1 (snd (core_link ipv4 sb (p * w + s) j))) [0..<n]"
proof -
  let ?x = "CoreN (s * q + j)"
  have spines: "concat (map (\<lambda>j. link_end ?x (leaf_link ipv4 sb i j)) [0..<w]) @
        concat (map (\<lambda>j. link_end ?x (core_link ipv4 sb i j)) [0..<q]) =
      (if i mod w = s then [iface_to (SpineN i) 1 (snd (core_link ipv4 sb i j))] else [])" for i
  proof -
    have *: "map (\<lambda>j. link_end ?x (core_link ipv4 sb i j)) [0..<q] =
        map (\<lambda>j'. if j' = j then (if i mod w = s then [iface_to (SpineN i) 1 (snd (core_link ipv4 sb i j))] else []) else [])
          [0..<q]"
      using assms(2) by (intro map_cong) (simp_all add: core_link_def core_idx_def block_eq)
    show ?thesis
      unfolding * concat_if_eq using assms(2) by (simp add: concat_map_Nil leaf_link_def)
  qed
  have "concat (map (\<lambda>i. concat (map (\<lambda>j. link_end ?x (host_link ipv4 sb i j)) [0..<cnt i])) [0..<n * w]) = []"
    by (simp add: concat_map_Nil host_link_def)
  then show ?thesis
    unfolding interfaces_links [OF assigned] sizes(1,2) spines concat_if_offset [OF assms(1)]
    by (simp add: concat_map_singleton)
qed

text \<open>The networks and routes, as octets.\<close>

lemma link_quads:
  assumes "p < n"
  shows "\<lbrakk>l < w; j < 256\<rbrakk> \<Longrightarrow> snd (host_link ipv4 sb (p * w + l) j) = quad (p + 1) l j 0"
    and "\<lbrakk>s < w; l < w\<rbrakk> \<Longrightarrow> snd (leaf_link ipv4 sb (p * w + s) l) = quad (n + p + 1) s l 0"
    and "\<lbrakk>s < w; j < q\<rbrakk> \<Longrightarrow> snd (core_link ipv4 sb (p * w + s) j) = quad 255 (s * q + j) p 0"
proof -
  show "snd (host_link ipv4 sb (p * w + l) j) = quad (p + 1) l j 0" if "l < w" "j < 256"
    using GetNodeBasePhysicalAddress_quad [OF ipv4, of p l j] that assms sizes by (simp add: host_link_def)
  show "snd (leaf_link ipv4 sb (p * w + s) l) = quad (n + p + 1) s l 0" if "s < w" "l < w"
    using GetSwitchBaseAddress_quad [OF ipv4, of n p s l] that assms sizes by (simp add: leaf_link_def)
  show "snd (core_link ipv4 sb (p * w + s) j) = quad 255 (s * q + j) p 0" if "s < w" "j < q"
    using GetCoreSwitchBaseAddress_quad [OF ipv4, of p "s * q + j"] core_octet [OF that] that assms sizes
    by (simp add: core_link_def core_idx_at)
qed

lemma match_quads:
  assumes "a < 256" "b < 256" "c < 256" "d < 256" and "p < n"
  shows "l < w \<Longrightarrow> route_matches (route_hosts_of ipv4 masks p l i) (quad a b c d) \<longleftrightarrow> a = p + 1 \<and> b = l"
    and "l < w \<Longrightarrow> route_matches (route_leaf ipv4 masks sb p l i) (quad a b c d) \<longleftrightarrow> a = n + p + 1 \<and> b = 0 \<and> c = l"
    and "s < w \<Longrightarrow> route_matches (route_spine ipv4 masks sb p s i) (quad a b c d) \<longleftrightarrow>
      a = 2 * n + p + 1 \<and> b = s \<and> c = 0"
proof -
  show "route_matches (route_hosts_of ipv4 masks p l i) (quad a b c d) \<longleftrightarrow> a = p + 1 \<and> b = l" if "l < w"
    using that assms sizes GetNodePhysicalAddress_quad [OF ipv4, of p l 0]
    by (simp add: route_matches_def route_hosts_of_def GetClassBMask_bits [OF masks] drop_bit_mask_eq
        quad_prefix16)
  show "route_matches (route_leaf ipv4 masks sb p l i) (quad a b c d) \<longleftrightarrow> a = n + p + 1 \<and> b = 0 \<and> c = l" if "l < w"
    using that assms sizes GetLeafAddress_quad [OF ipv4, of n p 0 l]
    by (simp add: route_matches_def route_leaf_def GetClassCMask_bits [OF masks] drop_bit_mask_eq
        quad_prefix24)
  show "route_matches (route_spine ipv4 masks sb p s i) (quad a b c d) \<longleftrightarrow> a = 2 * n + p + 1 \<and> b = s \<and> c = 0"
    if "s < w"
    using that assms sizes GetSpineFromLeafAddress_quad [OF ipv4, of n p s 0]
    by (simp add: route_matches_def route_spine_def GetClassCMask_bits [OF masks] drop_bit_mask_eq
        quad_prefix24)
qed

lemma match_core:
  assumes "a < 256" "b < 256" "c < 256" "d < 256" and "k < w * q"
  shows "route_matches (route_core ipv4 masks k i) (quad a b c d) \<longleftrightarrow> a = 255 \<and> b = k \<and> c = 0"
  using assms cores GetCoreAddress_quad [OF ipv4, of 0 k]
  by (simp add: route_matches_def route_core_def GetClassCMask_bits [OF masks] drop_bit_mask_eq
      quad_prefix24)

lemma route_iface_sel [simp]:
  "rt_iface (route_hosts_of ipv4 masks p l i) = i" "rt_iface (route_leaf ipv4 masks sb p l i) = i"
  "rt_iface (route_spine ipv4 masks sb p l i) = i" "rt_iface (route_core ipv4 masks k i) = i"
  by (simp_all add: route_hosts_of_def route_leaf_def route_spine_def route_core_def)

text \<open>Which interfaces a destination may leave through, for every kind of node.\<close>

lemma matching_leaf:
  assumes "p < n" "l < w" and oct: "a < 256" "b < 256" "c < 256" "d < 256"
  shows "x \<in> matching (routes_of ipv4 masks sb (LeafN (p * w + l))) (quad a b c d) \<longleftrightarrow>
    (\<exists>p' < n. \<exists>l' < w. \<not> (l' = l \<and> p' = p) \<and> (a = p' + 1 \<and> b = l' \<or> a = n + p' + 1 \<and> b = 0 \<and> c = l') \<and>
       (\<exists>k < w. x = cnt (p * w + l) + 1 + k)) \<or>
    (\<exists>p' < n. \<exists>s < w. a = 2 * n + p' + 1 \<and> b = s \<and> c = 0 \<and>
       (if p' = p then x = cnt (p * w + l) + 1 + s else \<exists>k < w. x = cnt (p * w + l) + 1 + k)) \<or>
    (\<exists>k < w * q. a = 255 \<and> b = k \<and> c = 0 \<and> x = cnt (p * w + l) + 1 + k div q)"
proof -
  let ?up = "cnt (p * w + l) + 1" and ?dst = "quad a b c d"
  let ?H = "\<lambda>p' l'. if l' = l \<and> p' = p then [] else concat (map (\<lambda>k.
      [route_hosts_of ipv4 masks p' l' (?up + k), route_leaf ipv4 masks sb p' l' (?up + k)]) [0..<w])"
  let ?S = "\<lambda>p' s. if p' = p then [route_spine ipv4 masks sb p' s (?up + s)]
      else map (\<lambda>k. route_spine ipv4 masks sb p' s (?up + k)) [0..<w]"
  have "routes_of ipv4 masks sb (LeafN (p * w + l)) =
      concat (map (\<lambda>j. ?H (j div w) (j mod w)) [0..<n * w]) @
      concat (map (\<lambda>j. ?S (j div w) (j mod w)) [0..<n * w]) @
      map (\<lambda>j. route_core ipv4 masks j (?up + j div q)) [0..<w * q]"
    unfolding routes_of.simps routes_of_leaf_def Let_def sizes(1,2) using assms(2) cores(1) by simp
  moreover have "x \<in> matching (?H p' l') ?dst \<longleftrightarrow> \<not> (l' = l \<and> p' = p) \<and>
      (a = p' + 1 \<and> b = l' \<or> a = n + p' + 1 \<and> b = 0 \<and> c = l') \<and> (\<exists>k < w. x = ?up + k)" if "p' < n" "l' < w" for p' l'
    using match_quads [OF oct that(1)] that by auto
  moreover have "x \<in> matching (?S p' s) ?dst \<longleftrightarrow> a = 2 * n + p' + 1 \<and> b = s \<and> c = 0 \<and>
      (if p' = p then x = ?up + s else \<exists>k < w. x = ?up + k)" if "p' < n" "s < w" for p' s
    using match_quads [OF oct that(1)] that by (auto simp: matching_map)
  moreover have "x \<in> matching (map (\<lambda>j. route_core ipv4 masks j (?up + j div q)) [0..<w * q]) ?dst \<longleftrightarrow>
      (\<exists>k < w * q. a = 255 \<and> b = k \<and> c = 0 \<and> x = ?up + k div q)"
    using match_core [OF oct] by (auto simp: matching_map)
  ultimately show ?thesis
    by (simp only: matching_simps(3) Un_iff matching_blocks [where F = ?H] matching_blocks [where F = ?S] cong: conj_cong)
qed

lemma matching_spine:
  assumes "p < n" "s < w" and oct: "a < 256" "b < 256" "c < 256" "d < 256"
  shows "x \<in> matching (routes_of ipv4 masks sb (SpineN (p * w + s))) (quad a b c d) \<longleftrightarrow>
    (\<exists>p' < n. \<exists>l < w. (a = p' + 1 \<and> b = l \<or> a = n + p' + 1 \<and> b = 0 \<and> c = l) \<and>
       (if p' = p then x = l + 1 else \<exists>k < q. x = w + 1 + k)) \<or>
    (\<exists>p' < n. \<exists>s' < w. \<not> (p' = p \<and> s' = s) \<and> a = 2 * n + p' + 1 \<and> b = s' \<and> c = 0 \<and>
       (if p' = p then \<exists>k < w. x = 1 + k else \<exists>k < q. x = w + 1 + k)) \<or>
    (\<exists>k < q. a = 255 \<and> b = s * q + k \<and> c = 0 \<and> x = w + 1 + k)"
proof -
  let ?dst = "quad a b c d"
  let ?H = "\<lambda>p' l. if p = p' then [route_hosts_of ipv4 masks p' l (l + 1), route_leaf ipv4 masks sb p' l (l + 1)]
      else concat (map (\<lambda>k. [route_hosts_of ipv4 masks p' l (w + 1 + k), route_leaf ipv4 masks sb p' l (w + 1 + k)]) [0..<q])"
  let ?S = "\<lambda>p' s'. if p' = p \<and> s' = s then []
      else if p = p' then map (\<lambda>k. route_spine ipv4 masks sb p' s' (1 + k)) [0..<w]
      else map (\<lambda>k. route_spine ipv4 masks sb p' s' (w + 1 + k)) [0..<q]"
  have "routes_of ipv4 masks sb (SpineN (p * w + s)) =
      concat (map (\<lambda>j. ?H (j div w) (j mod w)) [0..<n * w]) @
      concat (map (\<lambda>j. ?S (j div w) (j mod w)) [0..<n * w]) @
      map (\<lambda>k. route_core ipv4 masks (s * q + k) (w + 1 + k)) [0..<q]"
  proof -
    have "(p * w + s) div w = p" "(p * w + s) mod w = s"
      using assms(2) by simp_all
    then show ?thesis
      unfolding routes_of.simps routes_of_spine_def Let_def sizes(1,2) by (simp only: core_idx_at [OF assms(2)])
  qed
  moreover have "x \<in> matching (?H p' l) ?dst \<longleftrightarrow> (a = p' + 1 \<and> b = l \<or> a = n + p' + 1 \<and> b = 0 \<and> c = l) \<and>
       (if p' = p then x = l + 1 else \<exists>k < q. x = w + 1 + k)" if "p' < n" "l < w" for p' l
    using match_quads [OF oct that(1)] that by auto
  moreover have "x \<in> matching (?S p' s') ?dst \<longleftrightarrow> \<not> (p' = p \<and> s' = s) \<and> a = 2 * n + p' + 1 \<and> b = s' \<and> c = 0 \<and>
       (if p' = p then \<exists>k < w. x = 1 + k else \<exists>k < q. x = w + 1 + k)" if "p' < n" "s' < w" for p' s'
    using match_quads [OF oct that(1)] that by (auto simp: matching_map)
  moreover have "x \<in> matching (map (\<lambda>k. route_core ipv4 masks (s * q + k) (w + 1 + k)) [0..<q]) ?dst \<longleftrightarrow>
      (\<exists>k < q. a = 255 \<and> b = s * q + k \<and> c = 0 \<and> x = w + 1 + k)"
    using match_core [OF oct] core_octet(1) [OF assms(2)] by (auto simp: matching_map)
  ultimately show ?thesis
    by (simp only: matching_simps(3) Un_iff matching_blocks [where F = ?H] matching_blocks [where F = ?S] cong: conj_cong)
qed

lemma matching_core:
  assumes oct: "a < 256" "b < 256" "c < 256" "d < 256"
  shows "x \<in> matching (routes_of ipv4 masks sb (CoreN k)) (quad a b c d) \<longleftrightarrow>
    (\<exists>p < n. \<exists>l < w. (a = p + 1 \<and> b = l \<or> a = 2 * n + p + 1 \<and> b = l \<and> c = 0 \<or>
       a = n + p + 1 \<and> b = 0 \<and> c = l) \<and> x = p + 1)"
proof -
  let ?dst = "quad a b c d"
  let ?L = "\<lambda>p l. [route_leaf ipv4 masks sb p l (1 + p)]"
  have *: "routes_of ipv4 masks sb (CoreN k) =
      concat (map (\<lambda>i. concat (map (\<lambda>j. [route_hosts_of ipv4 masks i j (i + 1), route_spine ipv4 masks sb i j (i + 1)])
        [0..<w])) [0..<n]) @
      concat (map (\<lambda>j. ?L (j div w) (j mod w)) [0..<n * w])"
    unfolding routes_of.simps routes_of_core_def Let_def sizes(1) by (simp add: concat_map_singleton)
  have "x \<in> matching (?L p l) ?dst \<longleftrightarrow> a = n + p + 1 \<and> b = 0 \<and> c = l \<and> x = p + 1" if "p < n" "l < w" for p l
    using match_quads [OF oct that(1)] that by auto
  moreover have "x \<in> matching [route_hosts_of ipv4 masks p l (p + 1), route_spine ipv4 masks sb p l (p + 1)] ?dst \<longleftrightarrow>
      (a = p + 1 \<and> b = l \<or> a = 2 * n + p + 1 \<and> b = l \<and> c = 0) \<and> x = p + 1" if "p < n" "l < w" for p l
    using match_quads [OF oct that(1)] that by auto
  ultimately show ?thesis
    unfolding * matching_simps(3) Un_iff matching_blocks [where F = ?L]
    unfolding matching_concat UN_iff atLeast0LessThan set_upt lessThan_iff Bex_def
    by (simp only: cong: conj_cong) blast
qed

lemma matching_own:
  "x \<in> matching (own_routes masks sb v) dst \<longleftrightarrow>
   (\<exists>m < length (interfaces sb v). x = m + 1 \<and> drop_bit 8 dst = drop_bit 8 (snd (snd (interfaces sb v ! m))))"
  by (auto simp: own_routes_def matching_map route_matches_def GetClassCMask_bits [OF masks] drop_bit_mask_eq)

lemma ex_less_add: "(\<exists>m < u + v. P m) \<longleftrightarrow> (\<exists>m < u. P m) \<or> (\<exists>m < v. P (u + (m :: nat)))"
  by (metis add_less_cancel_left le_add_diff_inverse not_less trans_less_add1)

text \<open>Nodes whose interfaces come in two groups.\<close>

lemma own_two:
  assumes "interfaces sb v = map f [0..<u] @ map g [0..<k]"
  shows "x \<in> matching (own_routes masks sb v) dst \<longleftrightarrow>
      (\<exists>m < u. x = m + 1 \<and> drop_bit 8 dst = drop_bit 8 (snd (snd (f m)))) \<or>
      (\<exists>m < k. x = u + m + 1 \<and> drop_bit 8 dst = drop_bit 8 (snd (snd (g m))))"
    and "dst \<in> set (own_addresses sb v) \<longleftrightarrow> (\<exists>m < u. dst = fst (snd (f m))) \<or> (\<exists>m < k. dst = fst (snd (g m)))"
  unfolding matching_own own_addresses_def assms
  by (auto simp: ex_less_add nth_append)

lemma own_host:
  assumes "p < n" "l < w" "j < cnt (p * w + l)" and oct: "a < 256" "b < 256" "c < 256" "d < 256"
  shows "x \<in> matching (own_routes masks sb (HostN (p * w + l) j)) (quad a b c d) \<longleftrightarrow>
      a = p + 1 \<and> b = l \<and> c = j \<and> x = 1"
    and "quad a b c d \<in> set (own_addresses sb (HostN (p * w + l) j)) \<longleftrightarrow>
      a = p + 1 \<and> b = l \<and> c = j \<and> d = 1"
  using interfaces_host [OF leaf_index [OF assms(1,2)] assms(3)] link_quads(1) [OF assms(1,2)]
    cnt_bound [OF assms(1-3)] sizes assms
  by (auto simp: matching_own own_addresses_def quad_prefix24 quad_plus quad_inject)

lemma own_leaf:
  assumes "p < n" "l < w" and oct: "a < 256" "b < 256" "c < 256" "d < 256"
  shows "x \<in> matching (own_routes masks sb (LeafN (p * w + l))) (quad a b c d) \<longleftrightarrow>
      a = p + 1 \<and> b = l \<and> c < cnt (p * w + l) \<and> x = c + 1 \<or>
      a = n + p + 1 \<and> b < w \<and> c = l \<and> x = cnt (p * w + l) + b + 1" (is ?own)
    and "quad a b c d \<in> set (own_addresses sb (LeafN (p * w + l))) \<longleftrightarrow>
      (a = p + 1 \<and> b = l \<and> c < cnt (p * w + l) \<or> a = n + p + 1 \<and> b < w \<and> c = l) \<and> d = 2" (is ?addr)
proof -
  have net: "snd (host_link ipv4 sb (p * w + l) j) = quad (p + 1) l j 0 \<and> j < 256" if "j < cnt (p * w + l)" for j
    using link_quads(1) [OF assms(1,2)] cnt_bound [OF assms(1,2) that] by simp
  have hosts: "drop_bit 8 (quad a b c d) = drop_bit 8 (snd (host_link ipv4 sb (p * w + l) j)) \<longleftrightarrow>
      a = p + 1 \<and> b = l \<and> c = j"
    "quad a b c d = snd (host_link ipv4 sb (p * w + l) j) + 2 \<longleftrightarrow> a = p + 1 \<and> b = l \<and> c = j \<and> d = 2"
    if "j < cnt (p * w + l)" for j
    using net [OF that] assms sizes by (simp_all add: quad_prefix24 quad_inject quad_plus)
  have spines: "drop_bit 8 (quad a b c d) = drop_bit 8 (snd (leaf_link ipv4 sb (p * w + s) l)) \<longleftrightarrow>
      a = n + p + 1 \<and> b = s \<and> c = l"
    "quad a b c d = snd (leaf_link ipv4 sb (p * w + s) l) + 2 \<longleftrightarrow> a = n + p + 1 \<and> b = s \<and> c = l \<and> d = 2"
    if "s < w" for s
    using link_quads(2) [OF assms(1) that assms(2)] that assms sizes
    by (simp_all add: quad_prefix24 quad_inject quad_plus)
  show ?own ?addr
    unfolding own_two [OF interfaces_leaf [OF assms(1,2)]] iface_to_sel
    by (simp_all only: hosts spines cong: conj_cong) auto
qed

lemma own_spine:
  assumes "p < n" "s < w" and oct: "a < 256" "b < 256" "c < 256" "d < 256"
  shows "x \<in> matching (own_routes masks sb (SpineN (p * w + s))) (quad a b c d) \<longleftrightarrow>
      a = n + p + 1 \<and> b = s \<and> c < w \<and> x = c + 1 \<or>
      a = 255 \<and> c = p \<and> (\<exists>j < q. b = s * q + j \<and> x = w + j + 1)" (is ?own)
    and "quad a b c d \<in> set (own_addresses sb (SpineN (p * w + s))) \<longleftrightarrow>
      a = n + p + 1 \<and> b = s \<and> c < w \<and> d = 1 \<or> a = 255 \<and> c = p \<and> (\<exists>j < q. b = s * q + j) \<and> d = 2" (is ?addr)
proof -
  have leaves: "drop_bit 8 (quad a b c d) = drop_bit 8 (snd (leaf_link ipv4 sb (p * w + s) l)) \<longleftrightarrow>
      a = n + p + 1 \<and> b = s \<and> c = l"
    "quad a b c d = snd (leaf_link ipv4 sb (p * w + s) l) + 1 \<longleftrightarrow> a = n + p + 1 \<and> b = s \<and> c = l \<and> d = 1"
    if "l < w" for l
    using link_quads(2) [OF assms(1,2) that] that assms sizes
    by (simp_all add: quad_prefix24 quad_inject quad_plus)
  have ups: "drop_bit 8 (quad a b c d) = drop_bit 8 (snd (core_link ipv4 sb (p * w + s) j)) \<longleftrightarrow>
      a = 255 \<and> b = s * q + j \<and> c = p"
    "quad a b c d = snd (core_link ipv4 sb (p * w + s) j) + 2 \<longleftrightarrow> a = 255 \<and> b = s * q + j \<and> c = p \<and> d = 2"
    if "j < q" for j
    using link_quads(3) [OF assms(1,2) that] core_octet [OF assms(2) that] assms sizes
    by (simp_all add: quad_prefix24 quad_inject quad_plus)
  show ?own ?addr
    unfolding own_two [OF interfaces_spine [OF assms(1,2)]] iface_to_sel
    by (simp_all only: leaves ups cong: conj_cong) auto
qed

lemma own_core:
  assumes "s < w" "j < q" and oct: "a < 256" "b < 256" "c < 256" "d < 256"
  shows "x \<in> matching (own_routes masks sb (CoreN (s * q + j))) (quad a b c d) \<longleftrightarrow>
      a = 255 \<and> b = s * q + j \<and> c < n \<and> x = c + 1" (is ?own)
    and "quad a b c d \<in> set (own_addresses sb (CoreN (s * q + j))) \<longleftrightarrow>
      a = 255 \<and> b = s * q + j \<and> c < n \<and> d = 1" (is ?addr)
proof -
  have downs: "drop_bit 8 (quad a b c d) = drop_bit 8 (snd (core_link ipv4 sb (p * w + s) j)) \<longleftrightarrow>
      a = 255 \<and> b = s * q + j \<and> c = p"
    "quad a b c d = snd (core_link ipv4 sb (p * w + s) j) + 1 \<longleftrightarrow> a = 255 \<and> b = s * q + j \<and> c = p \<and> d = 1"
    if "p < n" for p
    using link_quads(3) [OF that assms(1,2)] core_octet [OF assms(1,2)] assms sizes that
    by (simp_all add: quad_prefix24 quad_inject quad_plus)
  have "interfaces sb (CoreN (s * q + j)) = map (\<lambda>p. iface_to (SpineN (p * w + s)) 1
      (snd (core_link ipv4 sb (p * w + s) j))) [0..<n] @ map undefined [0..<0]"
    using interfaces_core [OF assms(1,2)] by simp
  from own_two [OF this] show ?own ?addr
    unfolding iface_to_sel by (simp_all only: downs cong: conj_cong) auto
qed

section \<open>One hop\<close>

definition candidates :: "sim_node \<Rightarrow> u32 \<Rightarrow> nat set" where
  "candidates x dst = (if matching (own_routes masks sb x) dst = {} then matching (sb_routes sb x) dst
     else matching (own_routes masks sb x) dst)"

lemma forwardI:
  assumes "dst \<notin> set (own_addresses sb x)" and "candidates x dst = S" and "S \<noteq> {}"
    and "\<And>m. m \<in> S \<Longrightarrow> \<exists>k < length (interfaces sb x). m = k + 1 \<and> Q (fst (interfaces sb x ! k))"
  shows "\<exists>y. forward lookup masks sb dst x = Some y \<and> Q y"
proof -
  have "lookup (own_routes masks sb x) (sb_routes sb x) dst \<in> Some ` S"
    using ns3_lookupD [OF lookup, of "own_routes masks sb x" dst "sb_routes sb x"] assms(2,3)
    by (simp add: candidates_def split: if_splits)
  then obtain m where m: "m \<in> S" "lookup (own_routes masks sb x) (sb_routes sb x) dst = Some m"
    by blast
  from assms(4) [OF m(1)] m(2) assms(1) show ?thesis
    by (auto simp: forward_def)
qed

lemma candidates_iff:
  "x \<in> candidates v dst \<longleftrightarrow> x \<in> matching (own_routes masks sb v) dst \<or>
     (\<forall>m. m \<notin> matching (own_routes masks sb v) dst) \<and> x \<in> matching (routes_of ipv4 masks sb v) dst"
  by (auto simp: candidates_def routes)

lemma host_hop:
  assumes "p < n" "l < w" "j < cnt (p * w + l)" "a < 256" "b < 256" "c < 256" "d < 256"
    and "\<not> (a = p + 1 \<and> b = l \<and> c = j)"
  shows "forward lookup masks sb (quad a b c d) (HostN (p * w + l) j) = Some (LeafN (p * w + l))"
proof -
  have "candidates (HostN (p * w + l) j) (quad a b c d) = {1}"
    using own_host(1) [OF assms(1-7)] assms(8)
    by (auto simp: candidates_def routes routes_host_def route_matches_def)
  then show ?thesis
    using forwardI [where Q = "\<lambda>y. y = LeafN (p * w + l)" and x = "HostN (p * w + l) j" and dst = "quad a b c d"]
      own_host(2) [OF assms(1-7)] assms(8) interfaces_host [OF leaf_index [OF assms(1,2)] assms(3)]
    by auto
qed

text \<open>A leaf hands a packet to one of its hosts, or up to a spine \<open>k\<close> with \<open>R k\<close>.\<close>

lemma leaf_hop_down:
  assumes "p < n" "l < w" "j < cnt (p * w + l)"
  shows "forward lookup masks sb (quad (p + 1) l j 1) (LeafN (p * w + l)) = Some (HostN (p * w + l) j)"
proof -
  have oct: "p + 1 < 256" "l < 256" "j < 256" "(1 :: nat) < 256"
    using assms(1,2) sizes(4,5) cnt_bound [OF assms] by simp_all
  have "x \<in> candidates (LeafN (p * w + l)) (quad (p + 1) l j 1) \<longleftrightarrow> x = j + 1" for x
    unfolding candidates_iff own_leaf(1) [OF assms(1,2) oct] using assms(1,3) by auto
  then have "candidates (LeafN (p * w + l)) (quad (p + 1) l j 1) = {j + 1}"
    by blast
  moreover have "quad (p + 1) l j 1 \<notin> set (own_addresses sb (LeafN (p * w + l)))"
    unfolding own_leaf(2) [OF assms(1,2) oct] by simp
  moreover have "\<exists>k < length (interfaces sb (LeafN (p * w + l))). m = k + 1 \<and>
      fst (interfaces sb (LeafN (p * w + l)) ! k) = HostN (p * w + l) j" if "m \<in> {j + 1}" for m
    unfolding interfaces_leaf [OF assms(1,2)] using that assms(3) by (auto simp: nth_append)
  ultimately show ?thesis
    using forwardI [where Q = "\<lambda>y. y = HostN (p * w + l) j"] by blast
qed

lemma leaf_hop_up:
  assumes "p < n" "l < w" "a < 256" "b < 256" "c < 256" "d < 256"
    and "\<And>x. x \<in> candidates (LeafN (p * w + l)) (quad a b c d) \<longleftrightarrow> (\<exists>k < w. R k \<and> x = cnt (p * w + l) + 1 + k)"
    and "\<exists>k < w. R k" and "quad a b c d \<notin> set (own_addresses sb (LeafN (p * w + l)))"
  shows "\<exists>k < w. R k \<and> forward lookup masks sb (quad a b c d) (LeafN (p * w + l)) = Some (SpineN (p * w + k))"
proof -
  let ?S = "{cnt (p * w + l) + 1 + k |k. k < w \<and> R k}"
  have "candidates (LeafN (p * w + l)) (quad a b c d) = ?S" "?S \<noteq> {}"
    using assms(7,8) by auto
  from forwardI [where Q = "\<lambda>y. \<exists>k < w. R k \<and> y = SpineN (p * w + k)", OF assms(9) this] show ?thesis
    unfolding interfaces_leaf [OF assms(1,2)] by (fastforce simp: nth_append)
qed

text \<open>A spine hands a packet down to a leaf \<open>k\<close> with \<open>R k\<close>, or up to any of its cores.\<close>

lemma spine_hop_down:
  assumes "p < n" "s < w" "a < 256" "b < 256" "c < 256" "d < 256"
    and "\<And>x. x \<in> candidates (SpineN (p * w + s)) (quad a b c d) \<longleftrightarrow> (\<exists>k < w. R k \<and> x = k + 1)"
    and "\<exists>k < w. R k" and "quad a b c d \<notin> set (own_addresses sb (SpineN (p * w + s)))"
  shows "\<exists>k < w. R k \<and> forward lookup masks sb (quad a b c d) (SpineN (p * w + s)) = Some (LeafN (p * w + k))"
proof -
  let ?S = "{k + 1 |k. k < w \<and> R k}"
  have "candidates (SpineN (p * w + s)) (quad a b c d) = ?S" "?S \<noteq> {}"
    using assms(7,8) by auto
  from forwardI [where Q = "\<lambda>y. \<exists>k < w. R k \<and> y = LeafN (p * w + k)", OF assms(9) this] show ?thesis
    unfolding interfaces_spine [OF assms(1,2)] by (fastforce simp: nth_append)
qed

lemma spine_hop_up:
  assumes "p < n" "s < w" "a < 256" "b < 256" "c < 256" "d < 256"
    and "\<And>x. x \<in> candidates (SpineN (p * w + s)) (quad a b c d) \<longleftrightarrow> (\<exists>k < q. R k \<and> x = w + 1 + k)"
    and "\<exists>k < q. R k" and "quad a b c d \<notin> set (own_addresses sb (SpineN (p * w + s)))"
  shows "\<exists>k < q. R k \<and> forward lookup masks sb (quad a b c d) (SpineN (p * w + s)) = Some (CoreN (s * q + k))"
proof -
  let ?S = "{w + 1 + k |k. k < q \<and> R k}"
  have "candidates (SpineN (p * w + s)) (quad a b c d) = ?S" "?S \<noteq> {}"
    using assms(7,8) by auto
  from forwardI [where Q = "\<lambda>y. \<exists>k < q. R k \<and> y = CoreN (s * q + k)", OF assms(9) this] show ?thesis
    unfolding interfaces_spine [OF assms(1,2)] by (fastforce simp: nth_append)
qed

lemma core_hop:
  assumes "s < w" "j < q" "p < n" "l < w" "a < 256" "b < 256" "c < 256" "d < 256"
    and "a = p + 1 \<and> b = l \<or> a = 2 * n + p + 1 \<and> b = l \<and> c = 0 \<or> a = n + p + 1 \<and> b = 0 \<and> c = l"
  shows "forward lookup masks sb (quad a b c d) (CoreN (s * q + j)) = Some (SpineN (p * w + s))"
proof -
  have "a \<noteq> 255"
    using assms(3,9) sizes by auto
  moreover have "x \<in> candidates (CoreN (s * q + j)) (quad a b c d) \<longleftrightarrow> x = p + 1" for x
    unfolding candidates_iff own_core [OF assms(1,2,5-8)] matching_core [OF assms(5-8)]
    using assms(3,4,9) \<open>a \<noteq> 255\<close> by auto
  then have "candidates (CoreN (s * q + j)) (quad a b c d) = {p + 1}"
    by blast
  ultimately show ?thesis
    using forwardI [where Q = "\<lambda>y. y = SpineN (p * w + s)" and x = "CoreN (s * q + j)" and dst = "quad a b c d"]
      own_core(2) [OF assms(1,2,5-8)] interfaces_core [OF assms(1,2)] assms(3)
    by auto
qed

section \<open>Towards the target\<close>

text \<open>Coordinates of a node.\<close>

lemma pod_coords:
  assumes "i < n * w"
  obtains p l where "i = p * w + l" "p < n" "l < w"
proof
  show "i = i div w * w + i mod w"
    by simp
  show "i div w < n" "i mod w < w"
    using assms sizes(3) by (simp_all add: less_mult_imp_div_less)
qed

lemma core_coords:
  assumes "k < sb_coreCount sb"
  obtains s j where "k = s * q + j" "s < w" "j < q"
proof
  have k: "k < w * q"
    using assms cores(1) by simp
  then have "0 < q"
    by (metis less_nat_zero_code mult_0_right neq0_conv)
  then show "k div q < w" "k mod q < q"
    using k by (simp_all add: less_mult_imp_div_less)
  show "k = k div q * q + k mod q"
    by (rule div_mult_mod_eq [symmetric])
qed

lemma node_quads:
  assumes "p < n" "l < w"
  shows "j < 256 \<Longrightarrow> node_address ipv4 sb (HostN (p * w + l) j) = quad (p + 1) l j 1"
    and "node_address ipv4 sb (LeafN (p * w + l)) = quad (n + p + 1) 0 l 2"
    and "node_address ipv4 sb (SpineN (p * w + l)) = quad (2 * n + p + 1) l 0 1"
  using assms sizes GetNodePhysicalAddress_quad [OF ipv4, of p l j] GetLeafAddress_quad [OF ipv4, of n p 0 l]
    GetSpineFromLeafAddress_quad [OF ipv4, of n p l 0]
  by (simp_all add: host_address_def)

lemma node_quad_core: "c < w * q \<Longrightarrow> node_address ipv4 sb (CoreN c) = quad 255 c 0 1"
  using GetCoreAddress_quad [OF ipv4, of 0 c] cores(2) by simp

text \<open>The spines a leaf may choose, the leaves and cores a spine may choose.\<close>

lemma leaf_candidates:
  assumes "p < n" "l < w" "p' < n" "l' < w" "c < 256" "d < 256"
  shows "\<not> (p' = p \<and> l' = l) \<Longrightarrow> x \<in> candidates (LeafN (p * w + l)) (quad (p' + 1) l' c d) \<longleftrightarrow>
      (\<exists>k < w. True \<and> x = cnt (p * w + l) + 1 + k)"
    and "\<not> (p' = p \<and> l' = l) \<Longrightarrow> x \<in> candidates (LeafN (p * w + l)) (quad (n + p' + 1) 0 l' d) \<longleftrightarrow>
      (\<exists>k < w. True \<and> x = cnt (p * w + l) + 1 + k)"
    and "x \<in> candidates (LeafN (p * w + l)) (quad (2 * n + p' + 1) l' 0 d) \<longleftrightarrow>
      (\<exists>k < w. (p' = p \<longrightarrow> k = l') \<and> x = cnt (p * w + l) + 1 + k)"
proof -
  have oct: "p' + 1 < 256" "n + p' + 1 < 256" "2 * n + p' + 1 < 256" "l' < 256" "(0 :: nat) < 256"
    using assms sizes by simp_all
  note sets = own_leaf(1) [OF assms(1,2)] matching_leaf [OF assms(1,2)]
  have ne: "p' + 1 \<noteq> 255" "n + p' + 1 \<noteq> 255" "2 * n + p' + 1 \<noteq> 255"
    using assms(3) sizes(5) by linarith+
  show "x \<in> candidates (LeafN (p * w + l)) (quad (p' + 1) l' c d) \<longleftrightarrow> (\<exists>k < w. True \<and> x = cnt (p * w + l) + 1 + k)"
    if "\<not> (p' = p \<and> l' = l)"
    unfolding candidates_iff sets [OF oct(1,4) assms(5,6)] using assms(1,3,4) that ne by auto
  show "x \<in> candidates (LeafN (p * w + l)) (quad (n + p' + 1) 0 l' d) \<longleftrightarrow> (\<exists>k < w. True \<and> x = cnt (p * w + l) + 1 + k)"
    if "\<not> (p' = p \<and> l' = l)"
    unfolding candidates_iff sets [OF oct(2,5,4) assms(6)] using assms(1,3,4) that ne by auto
  show "x \<in> candidates (LeafN (p * w + l)) (quad (2 * n + p' + 1) l' 0 d) \<longleftrightarrow>
      (\<exists>k < w. (p' = p \<longrightarrow> k = l') \<and> x = cnt (p * w + l) + 1 + k)"
    unfolding candidates_iff sets [OF oct(3,4,5) assms(6)] using assms(1,3,4) ne by auto
qed

lemma leaf_candidates_core:
  assumes "p < n" "l < w" "s < w" "j < q"
  shows "x \<in> candidates (LeafN (p * w + l)) (quad 255 (s * q + j) 0 1) \<longleftrightarrow>
    (\<exists>k < w. k = s \<and> x = cnt (p * w + l) + 1 + k)"
proof -
  have oct: "(255 :: nat) < 256" "s * q + j < 256" "(0 :: nat) < 256" "(1 :: nat) < 256"
    using core_octet(2) [OF assms(3,4)] by simp_all
  have [simp]: "(s * q + j) div q = s"
    using assms(4) by simp
  show ?thesis
    unfolding candidates_iff own_leaf(1) [OF assms(1,2) oct] matching_leaf [OF assms(1,2) oct]
    using assms sizes(5) core_octet(1) [OF assms(3,4)] by auto
qed

lemma spine_candidates:
  assumes "p < n" "s < w" "p' < n" "l' < w" "c < 256" "d < 256"
  shows "x \<in> candidates (SpineN (p * w + s)) (quad (p' + 1) l' c d) \<longleftrightarrow>
      (if p' = p then \<exists>k < w. k = l' \<and> x = k + 1 else \<exists>k < q. True \<and> x = w + 1 + k)"
    and "x \<in> candidates (SpineN (p * w + s)) (quad (n + p' + 1) 0 l' d) \<longleftrightarrow>
      (if p' = p then \<exists>k < w. k = l' \<and> x = k + 1 else \<exists>k < q. True \<and> x = w + 1 + k)"
    and "\<not> (p' = p \<and> l' = s) \<Longrightarrow> x \<in> candidates (SpineN (p * w + s)) (quad (2 * n + p' + 1) l' 0 d) \<longleftrightarrow>
      (if p' = p then \<exists>k < w. True \<and> x = k + 1 else \<exists>k < q. True \<and> x = w + 1 + k)"
proof -
  have oct: "p' + 1 < 256" "n + p' + 1 < 256" "2 * n + p' + 1 < 256" "l' < 256" "(0 :: nat) < 256"
    using assms sizes by simp_all
  note sets = own_spine(1) [OF assms(1,2)] matching_spine [OF assms(1,2)]
  have ne: "p' + 1 \<noteq> 255" "n + p' + 1 \<noteq> 255" "2 * n + p' + 1 \<noteq> 255"
    using assms(3) sizes(5) by linarith+
  show "x \<in> candidates (SpineN (p * w + s)) (quad (p' + 1) l' c d) \<longleftrightarrow>
      (if p' = p then \<exists>k < w. k = l' \<and> x = k + 1 else \<exists>k < q. True \<and> x = w + 1 + k)"
    unfolding candidates_iff sets [OF oct(1,4) assms(5,6)] using assms(1,3,4) ne by auto
  show "x \<in> candidates (SpineN (p * w + s)) (quad (n + p' + 1) 0 l' d) \<longleftrightarrow>
      (if p' = p then \<exists>k < w. k = l' \<and> x = k + 1 else \<exists>k < q. True \<and> x = w + 1 + k)"
    unfolding candidates_iff sets [OF oct(2,5,4) assms(6)] using assms(1,3,4) ne by auto
  show "x \<in> candidates (SpineN (p * w + s)) (quad (2 * n + p' + 1) l' 0 d) \<longleftrightarrow>
      (if p' = p then \<exists>k < w. True \<and> x = k + 1 else \<exists>k < q. True \<and> x = w + 1 + k)" if "\<not> (p' = p \<and> l' = s)"
    unfolding candidates_iff sets [OF oct(3,4,5) assms(6)] using assms(1,3,4) that ne by auto
qed

lemma spine_candidates_core:
  assumes "p < n" "s < w" "j < q"
  shows "x \<in> candidates (SpineN (p * w + s)) (quad 255 (s * q + j) 0 1) \<longleftrightarrow> (\<exists>k < q. k = j \<and> x = w + 1 + k)"
proof -
  have oct: "(255 :: nat) < 256" "s * q + j < 256" "(0 :: nat) < 256" "(1 :: nat) < 256"
    using core_octet(2) [OF assms(2,3)] by simp_all
  show ?thesis
    unfolding candidates_iff own_spine(1) [OF assms(1,2) oct] matching_spine [OF assms(1,2) oct]
    using assms sizes(5) by auto
qed

definition closer :: "sim_node \<Rightarrow> sim_node \<Rightarrow> sim_node \<Rightarrow> bool" where
  "closer t x y \<longleftrightarrow> is_node sb y \<and> routable sb t y \<and> route_dist sb t y < route_dist sb t x"

lemma is_node_at:
  assumes "p < n" "l < w"
  shows "is_node sb (LeafN (p * w + l))" "is_node sb (SpineN (p * w + l))"
    "j < cnt (p * w + l) \<Longrightarrow> is_node sb (HostN (p * w + l) j)"
  using leaf_index [OF assms] sizes(1,2) by simp_all

lemma is_core_at: "\<lbrakk>s < w; j < q\<rbrakk> \<Longrightarrow> is_node sb (CoreN (s * q + j))"
  using core_octet(1) cores(1) by simp

text \<open>The four kinds of targets, by their coordinates.\<close>

lemma target_cases:
  assumes "is_node sb t"
  obtains (host) p l j where "t = HostN (p * w + l) j" "p < n" "l < w" "j < cnt (p * w + l)" "j < 256"
      "node_address ipv4 sb t = quad (p + 1) l j 1"
  | (leaf) p l where "t = LeafN (p * w + l)" "p < n" "l < w" "node_address ipv4 sb t = quad (n + p + 1) 0 l 2"
  | (spine) p s where "t = SpineN (p * w + s)" "p < n" "s < w" "node_address ipv4 sb t = quad (2 * n + p + 1) s 0 1"
  | (core) s j where "t = CoreN (s * q + j)" "s < w" "j < q" "node_address ipv4 sb t = quad 255 (s * q + j) 0 1"
proof (cases t)
  case (HostN i j)
  with assms obtain p l where "i = p * w + l" "p < n" "l < w"
    using pod_coords [of i] sizes(1) by auto
  with HostN assms show ?thesis
    using host [of p l j] node_quads(1) [of p l j] cnt_bound [of p l j] by simp
next
  case (LeafN i)
  with assms obtain p l where "i = p * w + l" "p < n" "l < w"
    using pod_coords [of i] sizes(1) by auto
  with LeafN show ?thesis
    using leaf [of p l] node_quads(2) [of p l] by simp
next
  case (SpineN i)
  with assms obtain p l where "i = p * w + l" "p < n" "l < w"
    using pod_coords [of i] sizes(2) by auto
  with SpineN show ?thesis
    using spine [of p l] node_quads(3) [of p l] by simp
next
  case (CoreN k)
  with assms obtain s j where "k = s * q + j" "s < w" "j < q"
    using core_coords [of k] by auto
  with CoreN show ?thesis
    using core [of s j] node_quad_core [of k] core_octet(1) [of s j] by simp
qed

lemma leaf_to_host:
  assumes "p < n" "l < w" "p' < n" "l' < w" "j < 256" and "\<not> (p' = p \<and> l' = l)"
  shows "\<exists>k < w. forward lookup masks sb (quad (p' + 1) l' j 1) (LeafN (p * w + l)) = Some (SpineN (p * w + k))"
proof -
  have oct: "p' + 1 < 256" "l' < 256" "j < 256" "(1 :: nat) < 256"
    using assms sizes by simp_all
  have "quad (p' + 1) l' j 1 \<notin> set (own_addresses sb (LeafN (p * w + l)))"
    using own_leaf(2) [OF assms(1,2) oct] by simp
  from leaf_hop_up [OF assms(1,2) oct leaf_candidates(1) [OF assms(1-4) oct(3,4) assms(6)] _ this]
  show ?thesis
    using sizes(3) by blast
qed

lemma leaf_to_leaf:
  assumes "p < n" "l < w" "p' < n" "l' < w" and "\<not> (p' = p \<and> l' = l)"
  shows "\<exists>k < w. forward lookup masks sb (quad (n + p' + 1) 0 l' 2) (LeafN (p * w + l)) = Some (SpineN (p * w + k))"
proof -
  have oct: "n + p' + 1 < 256" "(0 :: nat) < 256" "l' < 256" "(2 :: nat) < 256"
    using assms sizes by simp_all
  have "quad (n + p' + 1) 0 l' 2 \<notin> set (own_addresses sb (LeafN (p * w + l)))"
    using own_leaf(2) [OF assms(1,2) oct] assms(1,3,5) by auto
  from leaf_hop_up [OF assms(1,2) oct leaf_candidates(2) [OF assms(1-4) oct(2,4) assms(5)] _ this]
  show ?thesis
    using sizes(3) by blast
qed

lemma leaf_to_spine:
  assumes "p < n" "l < w" "p' < n" "s < w"
  shows "\<exists>k < w. (p' = p \<longrightarrow> k = s) \<and>
    forward lookup masks sb (quad (2 * n + p' + 1) s 0 1) (LeafN (p * w + l)) = Some (SpineN (p * w + k))"
proof -
  have oct: "2 * n + p' + 1 < 256" "s < 256" "(0 :: nat) < 256" "(1 :: nat) < 256"
    using assms sizes by simp_all
  have "quad (2 * n + p' + 1) s 0 1 \<notin> set (own_addresses sb (LeafN (p * w + l)))"
    using own_leaf(2) [OF assms(1,2) oct] by simp
  from leaf_hop_up [OF assms(1,2) oct leaf_candidates(3) [OF assms oct(3,4)] _ this]
  show ?thesis
    using assms(4) by blast
qed

lemma leaf_to_core:
  assumes "p < n" "l < w" "s < w" "j < q"
  shows "forward lookup masks sb (quad 255 (s * q + j) 0 1) (LeafN (p * w + l)) = Some (SpineN (p * w + s))"
proof -
  have oct: "(255 :: nat) < 256" "s * q + j < 256" "(0 :: nat) < 256" "(1 :: nat) < 256"
    using core_octet(2) [OF assms(3,4)] by simp_all
  have "quad 255 (s * q + j) 0 1 \<notin> set (own_addresses sb (LeafN (p * w + l)))"
    using own_leaf(2) [OF assms(1,2) oct] by simp
  from leaf_hop_up [OF assms(1,2) oct leaf_candidates_core [OF assms] _ this]
  show ?thesis
    using assms(3) by blast
qed

lemma leaf_progress:
  assumes "is_node sb t" and "p < n" "l < w" and "t \<noteq> LeafN (p * w + l)"
  shows "\<exists>y. forward lookup masks sb (node_address ipv4 sb t) (LeafN (p * w + l)) = Some y \<and>
    closer t (LeafN (p * w + l)) y"
  using assms(1)
proof (cases rule: target_cases)
  case (host p' l' j)
  show ?thesis
  proof (cases "p' = p \<and> l' = l")
    case True
    then show ?thesis
      using leaf_hop_down [of p l j] host is_node_at(3) by (simp add: closer_def)
  next
    case False
    then show ?thesis
      using leaf_to_host [OF assms(2,3) host(2,3,5)] host assms is_node_at(2) [OF assms(2)]
      by (auto simp: closer_def block_eq)
  qed
next
  case (leaf p' l')
  have "\<not> (p' = p \<and> l' = l)"
    using leaf(1) assms(4) by blast
  then show ?thesis
    using leaf_to_leaf [OF assms(2,3) leaf(2,3)] leaf assms is_node_at(2) [OF assms(2)]
    by (auto simp: closer_def block_eq)
next
  case (spine p' s)
  then show ?thesis
    using leaf_to_spine [OF assms(2,3) spine(2,3)] assms is_node_at(2) [OF assms(2)]
    by (auto simp: closer_def block_eq)
next
  case (core s j)
  then show ?thesis
    using leaf_to_core [OF assms(2,3) core(2,3)] assms is_node_at(2) [OF assms(2) core(2)]
    by (auto simp: closer_def)
qed

text \<open>A spine, by the pod of the target.\<close>

lemma several_pods: "\<lbrakk>p < n; p' < n; p' \<noteq> p\<rbrakk> \<Longrightarrow> \<exists>k < q. True"
  using cores(3) by force

lemma spine_to_pod:
  assumes "p < n" "s < w" "p' < n" "l < w" "j < 256"
  shows "forward lookup masks sb (quad (p' + 1) l j 1) (SpineN (p * w + s)) \<in>
      (if p' = p then {Some (LeafN (p * w + l))} else {Some (CoreN (s * q + k)) |k. k < q})" (is ?host)
    and "forward lookup masks sb (quad (n + p' + 1) 0 l 2) (SpineN (p * w + s)) \<in>
      (if p' = p then {Some (LeafN (p * w + l))} else {Some (CoreN (s * q + k)) |k. k < q})" (is ?leaf)
proof -
  have oct: "p' + 1 < 256" "n + p' + 1 < 256" "l < 256" "j < 256" "(0 :: nat) < 256" "(1 :: nat) < 256" "(2 :: nat) < 256"
    using assms sizes by simp_all
  have own: "quad (p' + 1) l j 1 \<notin> set (own_addresses sb (SpineN (p * w + s)))"
      "quad (n + p' + 1) 0 l 2 \<notin> set (own_addresses sb (SpineN (p * w + s)))"
    using own_spine(2) [OF assms(1,2) oct(1,3,4,6)] own_spine(2) [OF assms(1,2) oct(2,5,3,7)] assms(3) sizes(5) by auto
  note cand = spine_candidates(1) [OF assms oct(6)] spine_candidates(2) [OF assms oct(7)]
  show ?host
  proof (cases "p' = p")
    case True
    with spine_hop_down [OF assms(1,2) oct(1,3,4,6) cand(1) [unfolded if_P [OF True]] _ own(1)] assms(4) show ?thesis
      by auto
  next
    case False
    from spine_hop_up [OF assms(1,2) oct(1,3,4,6) cand(1) [unfolded if_not_P [OF False]] several_pods own(1)] assms(1,3) False
    show ?thesis by auto
  qed
  show ?leaf
  proof (cases "p' = p")
    case True
    with spine_hop_down [OF assms(1,2) oct(2,5,3,7) cand(2) [unfolded if_P [OF True]] _ own(2)] assms(4) show ?thesis
      by auto
  next
    case False
    from spine_hop_up [OF assms(1,2) oct(2,5,3,7) cand(2) [unfolded if_not_P [OF False]] several_pods own(2)] assms(1,3) False
    show ?thesis by auto
  qed
qed

lemma spine_to_spine:
  assumes "p < n" "s < w" "p' < n" "s' < w" and "\<not> (p' = p \<and> s' = s)"
  shows "forward lookup masks sb (quad (2 * n + p' + 1) s' 0 1) (SpineN (p * w + s)) \<in>
    (if p' = p then {Some (LeafN (p * w + k)) |k. k < w} else {Some (CoreN (s * q + k)) |k. k < q})"
proof -
  have oct: "2 * n + p' + 1 < 256" "s' < 256" "(0 :: nat) < 256" "(1 :: nat) < 256"
    using assms sizes by simp_all
  have own: "quad (2 * n + p' + 1) s' 0 1 \<notin> set (own_addresses sb (SpineN (p * w + s)))"
    using own_spine(2) [OF assms(1,2) oct] assms(1) by auto
  note cand = spine_candidates(3) [OF assms(1-4) oct(3,4) assms(5)]
  show ?thesis
  proof (cases "p' = p")
    case True
    with spine_hop_down [OF assms(1,2) oct cand [unfolded if_P [OF True]] _ own] sizes(3) show ?thesis
      by auto
  next
    case False
    from spine_hop_up [OF assms(1,2) oct cand [unfolded if_not_P [OF False]] several_pods own] assms(1,3) False
    show ?thesis by auto
  qed
qed

lemma spine_to_core:
  assumes "p < n" "s < w" "j < q"
  shows "forward lookup masks sb (quad 255 (s * q + j) 0 1) (SpineN (p * w + s)) = Some (CoreN (s * q + j))"
proof -
  have oct: "(255 :: nat) < 256" "s * q + j < 256" "(0 :: nat) < 256" "(1 :: nat) < 256"
    using core_octet(2) [OF assms(2,3)] by simp_all
  have "quad 255 (s * q + j) 0 1 \<notin> set (own_addresses sb (SpineN (p * w + s)))"
    using own_spine(2) [OF assms(1,2) oct] assms(1) sizes(5) by auto
  from spine_hop_up [OF assms(1,2) oct spine_candidates_core [OF assms] _ this] show ?thesis
    using assms(3) by blast
qed

lemma spine_progress:
  assumes "is_node sb t" and "p < n" "s < w" and "t \<noteq> SpineN (p * w + s)" and "routable sb t (SpineN (p * w + s))"
  shows "\<exists>y. forward lookup masks sb (node_address ipv4 sb t) (SpineN (p * w + s)) = Some y \<and>
    closer t (SpineN (p * w + s)) y"
  using assms(1)
proof (cases rule: target_cases)
  case (host p' l j)
  then show ?thesis
    using spine_to_pod(1) [OF assms(2,3) host(2,3,5)] is_node_at(1) [OF assms(2) host(3)] is_core_at [OF assms(3)]
    by (auto simp: closer_def assms split: if_splits)
next
  case (leaf p' l)
  then show ?thesis
    using spine_to_pod(2) [OF assms(2,3) leaf(2,3), of 0] is_node_at(1) [OF assms(2) leaf(3)] is_core_at [OF assms(3)]
    by (auto simp: closer_def assms split: if_splits)
next
  case (spine p' s')
  have "\<not> (p' = p \<and> s' = s)"
    using spine(1) assms(4) by blast
  then show ?thesis
    using spine_to_spine [OF assms(2,3) spine(2,3)] spine is_node_at(1) [OF assms(2)] is_core_at [OF assms(3)]
    by (auto simp: closer_def assms block_eq split: if_splits)
next
  case (core s' j)
  then have "s' = s"
    using assms(3,5) by simp
  then show ?thesis
    using spine_to_core [OF assms(2,3) core(3)] core is_core_at by (simp add: closer_def)
qed

lemma core_progress:
  assumes "is_node sb t" and "s < w" "j < q" and "t \<noteq> CoreN (s * q + j)" and "routable sb t (CoreN (s * q + j))"
  shows "\<exists>y. forward lookup masks sb (node_address ipv4 sb t) (CoreN (s * q + j)) = Some y \<and>
    closer t (CoreN (s * q + j)) y"
  using assms(1)
proof (cases rule: target_cases)
  case (host p l i)
  then show ?thesis
    using core_hop [OF assms(2,3) host(2,3), of "p + 1" l i 1] is_node_at(2) [OF host(2) assms(2)] assms(2) sizes
    by (simp add: closer_def)
next
  case (leaf p l)
  then show ?thesis
    using core_hop [OF assms(2,3) leaf(2,3), of "n + p + 1" 0 l 2] is_node_at(2) [OF leaf(2) assms(2)] assms(2) sizes
    by (simp add: closer_def)
next
  case (spine p l)
  then show ?thesis
    using core_hop [OF assms(2,3) spine(2,3), of "2 * n + p + 1" l 0 1] is_node_at(2) [OF spine(2) assms(2)] assms(2) sizes
    by (simp add: closer_def)
next
  case (core s' j')
  with assms(4,5) show ?thesis
    by simp
qed

lemma host_progress:
  assumes "is_node sb t" and "p < n" "l < w" "j < cnt (p * w + l)" and "t \<noteq> HostN (p * w + l) j"
  shows "\<exists>y. forward lookup masks sb (node_address ipv4 sb t) (HostN (p * w + l) j) = Some y \<and>
    closer t (HostN (p * w + l) j) y"
proof -
  have "\<exists>a b c d. node_address ipv4 sb t = quad a b c d \<and> a < 256 \<and> b < 256 \<and> c < 256 \<and> d < 256 \<and>
      \<not> (a = p + 1 \<and> b = l \<and> c = j)"
    using assms(1)
  proof (cases rule: target_cases)
    case (host p' l' j')
    have "\<not> (p' = p \<and> l' = l \<and> j' = j)"
      using host(1) assms(5) by blast
    then show ?thesis
      using host sizes by (intro exI [of _ "p' + 1"] exI [of _ l'] exI [of _ j'] exI [of _ 1]) auto
  next
    case (leaf p' l')
    then show ?thesis
      using assms(2) sizes by (intro exI [of _ "n + p' + 1"] exI [of _ 0] exI [of _ l'] exI [of _ 2]) auto
  next
    case (spine p' s)
    then show ?thesis
      using assms(2) sizes by (intro exI [of _ "2 * n + p' + 1"] exI [of _ s] exI [of _ 0] exI [of _ 1]) auto
  next
    case (core s k)
    then show ?thesis
      using assms(2) sizes core_octet(2) [OF core(2,3)]
      by (intro exI [of _ 255] exI [of _ "s * q + k"] exI [of _ 0] exI [of _ 1]) auto
  qed
  then show ?thesis
    using host_hop [OF assms(2-4)] is_node_at(1) [OF assms(2,3)] assms(5)
    by (cases t) (auto simp: closer_def)
qed

lemma progress:
  assumes "is_node sb t" "is_node sb x" "routable sb t x" "x \<noteq> t"
  shows "\<exists>y. forward lookup masks sb (node_address ipv4 sb t) x = Some y \<and> closer t x y"
  using assms(2)
proof (cases rule: target_cases)
  case (host p l j)
  then show ?thesis
    using host_progress [OF assms(1) host(2-4)] assms(4) by simp
next
  case (leaf p l)
  then show ?thesis
    using leaf_progress [OF assms(1) leaf(2,3)] assms(4) by simp
next
  case (spine p s)
  then show ?thesis
    using spine_progress [OF assms(1) spine(2,3)] assms(3,4) by simp
next
  case (core s j)
  then show ?thesis
    using core_progress [OF assms(1) core(2,3)] assms(3,4) by simp
qed

lemma reaches:
  assumes "is_node sb t" "is_node sb x" "routable sb t x"
  shows "\<exists>k \<le> route_dist sb t x. hops (forward lookup masks sb (node_address ipv4 sb t)) k x = Some t"
  using assms(2,3)
proof (induction "route_dist sb t x" arbitrary: x rule: less_induct)
  case less
  show ?case
  proof (cases "x = t")
    case True
    have "hops f 0 x = Some t" for f
      using True by simp
    then show ?thesis by blast
  next
    case False
    then obtain y where y: "forward lookup masks sb (node_address ipv4 sb t) x = Some y" "closer t x y"
      using progress [OF assms(1) less(2,3)] by blast
    then obtain k where k: "k \<le> route_dist sb t y"
        "hops (forward lookup masks sb (node_address ipv4 sb t)) k y = Some t"
      using less(1) by (auto simp: closer_def)
    have "hops (forward lookup masks sb (node_address ipv4 sb t)) (Suc k) x = Some t"
      using y(1) k(2) by simp
    moreover have "Suc k \<le> route_dist sb t x"
      using y(2) k(1) by (simp add: closer_def)
    ultimately show ?thesis by blast
  qed
qed

end

lemma route_dist_bound: "route_dist sb t x \<le> 6"
  by (cases x; cases t) simp_all

section \<open>A concrete fat tree\<close>

text \<open>Two pods of two leaves, two cores, one host per leaf; the third host is a gateway.\<close>

definition params1 :: SimulationParameters where
  "params1 = \<lparr>SimMode = SwitchV2P, NetworkTopology = FATTREE, NumOfPorts = 8, NumOfCore = 2, PodWidth = 2,
     GatewayLeaves = [2], RandomRouting = False, GatewayPerFlowLoadBalancing = False, UdpMode = True\<rparr>"

definition groups1 :: ContainerGroups where
  "groups1 = [[[''A'']], [[''B'']], [[''Gateway0'']], [[''C'']]]"

lemma octets1: "octets_ok params1 groups1"
  by (simp add: octets_ok_def params1_def groups1_def)

lemma sb1_ok: "\<exists>sb. SimulationBase_new params1 groups1 mig0 0 = Inr sb \<and> sb_leafCount sb = 4 \<and> sb_podWidth sb = 2 \<and>
    sb_spineCount sb = 4 \<and> sb_coreCount sb = 2 \<and> sb_podCount sb = 2 \<and> sb_containerGroups sb = groups1"
  by (simp add: SimulationBase_new_def SimulationBase_init_def params1_def groups1_def Let_def
      SimulationBase_checks_def SimulationBase_AssignIds_def slots_def)

text \<open>The network the program builds from them, an instance of the interface.\<close>

definition network1 :: SimulationBase where
  "network1 = (case bindE (SimulationBase_new params1 groups1 mig0 0) (\<lambda>sb.
       bindE (SimulationBase_CreateTopology sb) (SimulationBase_AssignPhysicalIps parse_quad parse_quad)) of
     Inr sb \<Rightarrow> sb | Inl _ \<Rightarrow> undefined)"

lemma set_up_ok:
  assumes "SimulationBase_new params groups migParams uninit = Inr sb" and "octets_ok params groups"
  shows "returns (bindE (SimulationBase_CreateTopology sb) (SimulationBase_AssignPhysicalIps ipv4 masks))
    (\<lambda>net. network_ok ipv4 masks net \<and> (\<exists>A B C links rs. net = sb\<lparr>sb_nodeToSwDevice := A, sb_swToSwDevice := B,
       sb_coreToSpineDevice := C, sb_assigned := links, sb_routes := rs\<rparr>))"
proof (rule returns_bind [OF CreateTopology_ok], goal_cases)
  case (3 sb')
  then have "dims_ok sb'"
    using SimulationBase_new_dims [OF assms] by auto
  from 3 obtain A B C where sb':
      "sb' = sb\<lparr>sb_nodeToSwDevice := A, sb_swToSwDevice := B, sb_coreToSpineDevice := C\<rparr>"
    by blast
  from \<open>dims_ok sb'\<close> conjunct1 [OF 3] show ?case
  proof (rule returns_mono [OF AssignPhysicalIps_ok])
    fix net
    assume net: "network_ok ipv4 masks net \<and> (\<exists>links rs. net = sb'\<lparr>sb_assigned := links, sb_routes := rs\<rparr>)"
    then obtain links rs where "net = sb\<lparr>sb_nodeToSwDevice := A, sb_swToSwDevice := B, sb_coreToSpineDevice := C,
        sb_assigned := links, sb_routes := rs\<rparr>"
      unfolding sb' by (elim conjE exE)
    with net show "network_ok ipv4 masks net \<and> (\<exists>A B C links rs. net = sb\<lparr>sb_nodeToSwDevice := A,
        sb_swToSwDevice := B, sb_coreToSpineDevice := C, sb_assigned := links, sb_routes := rs\<rparr>)"
      by (intro conjI exI) simp_all
  qed
qed (use SimulationBase_new_dims [OF assms] in auto)

lemma network1_ok: "network_ok parse_quad parse_quad network1"
proof -
  obtain sb where "SimulationBase_new params1 groups1 mig0 0 = Inr sb"
    using sb1_ok by blast
  with set_up_ok [OF this octets1, of parse_quad parse_quad] show ?thesis
    by (auto simp: network1_def returns_def)
qed

interpretation fat_tree: forwarding_plane parse_quad parse_quad first_match network1
  by unfold_locales (simp_all add: parse_quad_dotted first_match_ns3 network1_ok)

section \<open>Properties\<close>

text \<open>C10: The static routes work. Whatever matching entry ns-3 picks at each hop, in the network that the
  constructor, \<open>CreateTopology\<close> and \<open>AssignPhysicalIps\<close> build, a packet addressed to a host, a leaf or a spine
  reaches it from every node in at most six hops, and one addressed to a core reaches it from every host, leaf
  and connected spine. The set-up itself never fails.\<close>

theorem routing_reaches:
  assumes "dotted_quad ipv4" and "dotted_quad masks" and "ns3_lookup lookup"
    and "SimulationBase_new params groups migParams uninit = Inr sb" and "octets_ok params groups"
  shows "returns (bindE (SimulationBase_CreateTopology sb) (SimulationBase_AssignPhysicalIps ipv4 masks))
    (\<lambda>net. \<forall>t x. is_node sb t \<and> is_node sb x \<and> routable sb t x \<longrightarrow>
       (\<exists>k \<le> 6. hops (forward lookup masks net (node_address ipv4 sb t)) k x = Some t))"
proof (rule returns_mono [OF set_up_ok [OF assms(4,5)]], elim conjE exE, intro allI impI)
  fix net t x A B C links rs
  assume net: "network_ok ipv4 masks net" "net = sb\<lparr>sb_nodeToSwDevice := A, sb_swToSwDevice := B,
      sb_coreToSpineDevice := C, sb_assigned := links, sb_routes := rs\<rparr>"
    and "is_node sb t \<and> is_node sb x \<and> routable sb t x"
  then have "is_node net t" "is_node net x" "routable net t x" "node_address ipv4 net t = node_address ipv4 sb t"
    unfolding net(2) by (cases t; cases x; simp add: host_address_def)+
  with forwarding_plane.reaches [OF forwarding_plane.intro [OF assms(1-3) net(1)]] route_dist_bound [of net t x]
  show "\<exists>k \<le> 6. hops (forward lookup masks net (node_address ipv4 sb t)) k x = Some t"
    by (metis le_trans)
qed

theorem routing_reaches_witness:
  "\<exists>sb. SimulationBase_new params1 groups1 mig0 0 = Inr sb \<and>
     returns (bindE (SimulationBase_CreateTopology sb) (SimulationBase_AssignPhysicalIps parse_quad parse_quad))
       (\<lambda>net. \<exists>k \<le> 6. hops (forward first_match parse_quad net (node_address parse_quad sb (HostN 3 0))) k (HostN 0 0) =
          Some (HostN 3 0))"
proof -
  obtain sb where sb: "SimulationBase_new params1 groups1 mig0 0 = Inr sb" "sb_leafCount sb = 4" "sb_containerGroups sb = groups1"
    using sb1_ok by blast
  from routing_reaches [OF parse_quad_dotted parse_quad_dotted first_match_ns3 sb(1) octets1]
  have "returns (bindE (SimulationBase_CreateTopology sb) (SimulationBase_AssignPhysicalIps parse_quad parse_quad))
       (\<lambda>net. \<exists>k \<le> 6. hops (forward first_match parse_quad net (node_address parse_quad sb (HostN 3 0))) k (HostN 0 0) =
          Some (HostN 3 0))"
  proof (rule returns_mono)
    have "is_node sb (HostN 3 0)" "is_node sb (HostN 0 0)" "routable sb (HostN 3 0) (HostN 0 0)"
      using sb(2,3) by (simp_all add: groups1_def)
    then show "\<forall>t x. is_node sb t \<and> is_node sb x \<and> routable sb t x \<longrightarrow>
        (\<exists>k \<le> 6. hops (forward first_match parse_quad net (node_address parse_quad sb t)) k x = Some t) \<Longrightarrow>
      \<exists>k \<le> 6. hops (forward first_match parse_quad net (node_address parse_quad sb (HostN 3 0))) k (HostN 0 0) =
        Some (HostN 3 0)" for net
      by blast
  qed
  with sb(1) show ?thesis by blast
qed

end
