(* ===== verification/Tunnel.thy ===== *)
theory Tunnel
  imports Routing
begin

text \<open>
  What \<open>AssignIds\<close> and \<open>SetupTunnel\<close> of \<^verbatim>\<open>sim-base.cc\<close> establish when the container names are different:
  the containers are numbered without gaps in the order of the placement, the address table maps each of
  them to its host and nothing else, and every tunnel endpoint knows its address, the gateways and a
  gateway range that is not 0.
\<close>

section \<open>Identifiers\<close>

definition names_ok :: "ContainerGroups \<Rightarrow> bool" where
  "names_ok groups \<longleftrightarrow> distinct (map snd (slots groups)) \<and> length (slots groups) < 2 ^ 32"

definition gateway_slots :: "ContainerGroups \<Rightarrow> (nat \<times> nat) list" where
  "gateway_slots groups = map fst (filter (\<lambda>(_, c). contains c ''Gateway'') (slots groups))"

lemma update_fresh: "k \<notin> fst ` set al \<Longrightarrow> AList.update k v al = al @ [(k, v)]"
  by (induction al) auto

lemma AssignIds_loop_ids:
  assumes "distinct (map snd xs)" and "snd ` set xs \<inter> fst ` set (sb_containerToId sb) = {}"
  shows "sb_containerToId (AssignIds_loop xs i sb) =
      sb_containerToId sb @ zip (map snd xs) (map (\<lambda>k. i + word_of_nat k) [0..<length xs])"
    and "sb_gws (AssignIds_loop xs i sb) = sb_gws sb @
      map (\<lambda>((i, j), c). (word_of_nat i, word_of_nat j)) (filter (\<lambda>(_, c). contains c ''Gateway'') xs)"
  using assms
proof (induction xs i sb rule: AssignIds_loop.induct)
  case (2 a b c xs i sb)
  have shift: "map (\<lambda>k. i + word_of_nat k) [0..<length (((a, b), c) # xs)] =
      i # map (\<lambda>k. (i + 1) + word_of_nat k) [0..<length xs]"
    by (subst upt_conv_Cons) (simp_all add: map_Suc_upt [symmetric] comp_def algebra_simps del: upt_Suc map_Suc_upt)
  { case 1
    then show ?case
      using 2(1) unfolding shift by (simp add: update_fresh image_iff)
  next
    case 2
    then show ?case
      using "2.IH"(2) by (simp add: update_fresh image_iff) }
qed simp_all

definition id_at :: "ContainerGroups \<Rightarrow> string \<Rightarrow> u32" where
  "id_at groups c = the (map_of (zip (map snd (slots groups)) (map word_of_nat [0..<length (slots groups)])) c)"

lemma SimulationBase_new_ids:
  assumes "SimulationBase_new params groups migParams uninit = Inr sb" and "names_ok groups"
  shows "sb_containerToId sb = zip (map snd (slots groups)) (map word_of_nat [0..<length (slots groups)])"
    and "sb_gws sb = map (\<lambda>(i, j). (word_of_nat i, word_of_nat j)) (gateway_slots groups)"
    and "sb_containerGroups sb = groups" and "sb_gwAddresses sb = []" and "sb_virtualToPhysical sb = Map.empty"
proof -
  obtain sb0 where sb0: "SimulationBase_init params groups migParams uninit = Inr sb0" "sb = SimulationBase_AssignIds sb0"
    using assms(1) by (auto simp: SimulationBase_new_def monad_simps)
  then have fresh: "sb_containerToId sb0 = []" "sb_gws sb0 = []" and groups: "sb_containerGroups sb0 = groups"
      and rest: "sb_gwAddresses sb0 = []" "sb_virtualToPhysical sb0 = Map.empty"
    by (auto simp: SimulationBase_init_def Let_def monad_simps)
  note ids = AssignIds_loop_ids [of "slots groups" sb0 0]
  show "sb_containerToId sb = zip (map snd (slots groups)) (map word_of_nat [0..<length (slots groups)])"
      "sb_gws sb = map (\<lambda>(i, j). (word_of_nat i, word_of_nat j)) (gateway_slots groups)"
    using ids assms(2) fresh unfolding sb0(2) SimulationBase_AssignIds_def groups names_ok_def gateway_slots_def
    by (simp_all add: case_prod_beta comp_def)
  show "sb_containerGroups sb = groups" "sb_gwAddresses sb = []" "sb_virtualToPhysical sb = Map.empty"
    using AssignIds_frame [of sb0] groups rest unfolding sb0(2) by auto
qed

lemma id_at_nth:
  assumes "names_ok groups" and "k < length (slots groups)"
  shows "id_at groups (snd (slots groups ! k)) = word_of_nat k"
    and "map_of (zip (map snd (slots groups)) (map word_of_nat [0..<length (slots groups)])) (snd (slots groups ! k)) =
      Some (word_of_nat k :: u32)"
proof -
  let ?ids = "zip (map snd (slots groups)) (map word_of_nat [0..<length (slots groups)]) :: (string \<times> u32) list"
  have "(snd (slots groups ! k), word_of_nat k) \<in> set ?ids"
    using assms(2) by (auto simp: set_zip intro!: exI [of _ k])
  moreover have "distinct (map fst ?ids)"
    using assms(1) by (simp add: names_ok_def)
  ultimately show "map_of ?ids (snd (slots groups ! k)) = Some (word_of_nat k)"
    by simp
  then show "id_at groups (snd (slots groups ! k)) = word_of_nat k"
    by (simp add: id_at_def)
qed

section \<open>The address table\<close>

lemma fold_upd_notin: "k \<notin> key ` set xs \<Longrightarrow> fold (\<lambda>x m. m(key x \<mapsto> val x)) xs m k = m k"
  by (induction xs arbitrary: m) auto

lemma fold_upd_in:
  "\<lbrakk>distinct (map key xs); x \<in> set xs\<rbrakk> \<Longrightarrow> fold (\<lambda>x m. m(key x \<mapsto> val x)) xs m (key x) = Some (val x)"
  by (induction xs arbitrary: m) (auto simp: fold_upd_notin)

text \<open>The table \<open>SetupTunnel\<close> has after the containers of some hosts.\<close>

definition table_of :: "ipv4_parser \<Rightarrow> SimulationBase \<Rightarrow> ((nat \<times> nat) \<times> string) list \<Rightarrow> (u32 \<rightharpoonup> u32) \<Rightarrow> (u32 \<rightharpoonup> u32)" where
  "table_of ipv4 sb = fold (\<lambda>s m. m(id_at (sb_containerGroups sb) (snd s) \<mapsto> host_address ipv4 sb (fst (fst s)) (snd (fst s))))"

text \<open>What the tunnel set-up leaves alone.\<close>

definition same_plan :: "SimulationBase \<Rightarrow> SimulationBase \<Rightarrow> bool" where
  "same_plan a b \<longleftrightarrow> sb_containerGroups a = sb_containerGroups b \<and> sb_podWidth a = sb_podWidth b \<and>
     sb_podCount a = sb_podCount b \<and> sb_leafCount a = sb_leafCount b \<and> sb_containerToId a = sb_containerToId b \<and>
     sb_gws a = sb_gws b \<and> sb_gwAddresses a = sb_gwAddresses b \<and> sb_spineCount a = sb_spineCount b \<and>
     sb_coreCount a = sb_coreCount b \<and> sb_simParameters a = sb_simParameters b \<and>
     sb_assigned a = sb_assigned b \<and> sb_routes a = sb_routes b"

lemma same_plan_refl [simp]: "same_plan sb sb"
  by (simp add: same_plan_def)

lemma same_plan_trans: "\<lbrakk>same_plan a b; same_plan b c\<rbrakk> \<Longrightarrow> same_plan a c"
  by (simp add: same_plan_def)

lemma same_plan_host: "same_plan a b \<Longrightarrow> host_address ipv4 a = host_address ipv4 b"
  by (simp add: same_plan_def host_address_def fun_eq_iff)

lemma same_plan_table: "same_plan a b \<Longrightarrow> table_of ipv4 a = table_of ipv4 b"
  by (simp add: table_of_def same_plan_host) (simp add: same_plan_def)

definition ids_known :: "SimulationBase \<Rightarrow> bool" where
  "ids_known sb \<longleftrightarrow> sb_containerToId sb = zip (map snd (slots (sb_containerGroups sb)))
     (map word_of_nat [0..<length (slots (sb_containerGroups sb))])"

lemma same_plan_ids: "same_plan a b \<Longrightarrow> ids_known a = ids_known b"
  by (simp add: same_plan_def ids_known_def)

lemma SetupTunnel_container_known:
  assumes "ids_known sb" and "c \<in> snd ` set (slots (sb_containerGroups sb))"
  shows "SetupTunnel_container ipv4 masks i j c sb =
    (let a = id_at (sb_containerGroups sb) c; addrs = sb_virtualAddresses sb in
     sb\<lparr>sb_virtualAddresses := addrs[i := (addrs ! i)[j := addrs ! i ! j @ [(a, IpUtils_GetClassAMask masks)]]],
        sb_virtualToPhysical := (sb_virtualToPhysical sb)(a \<mapsto> host_address ipv4 sb i j)\<rparr>)"
proof -
  have "map fst (sb_containerToId sb) = map snd (slots (sb_containerGroups sb))"
    using assms(1) by (simp add: ids_known_def)
  then have "c \<in> fst ` set (sb_containerToId sb)"
    using assms(2) by (metis set_map)
  then obtain v where v: "map_of (sb_containerToId sb) c = Some v"
    by (metis map_of_eq_None_iff not_None_eq)
  then have "id_at (sb_containerGroups sb) c = v"
    using assms(1) by (simp add: id_at_def ids_known_def)
  with v show ?thesis
    by (simp add: SetupTunnel_container_def id_of_def IpUtils_GetContainerVirtualAddress_def Let_def)
qed

lemma fold_containers:
  assumes "ids_known sb" and "set cs \<subseteq> snd ` set (slots (sb_containerGroups sb))"
    and "in_vec2 (sb_virtualAddresses sb) i j"
  shows "fold (SetupTunnel_container ipv4 masks i j) cs sb =
    (let addrs = sb_virtualAddresses sb in
     sb\<lparr>sb_virtualAddresses := addrs[i := (addrs ! i)[j := addrs ! i ! j @
          map (\<lambda>c. (id_at (sb_containerGroups sb) c, IpUtils_GetClassAMask masks)) cs]],
        sb_virtualToPhysical := table_of ipv4 sb (map (Pair (i, j)) cs) (sb_virtualToPhysical sb)\<rparr>)"
  using assms
proof (induction cs arbitrary: sb)
  case Nil
  then show ?case by (simp add: table_of_def)
next
  case (Cons c cs)
  let ?addrs = "sb_virtualAddresses sb"
  define sb' where "sb' = SetupTunnel_container ipv4 masks i j c sb"
  have sb': "sb' = sb\<lparr>sb_virtualAddresses := ?addrs[i := (?addrs ! i)[j := ?addrs ! i ! j @
          [(id_at (sb_containerGroups sb) c, IpUtils_GetClassAMask masks)]]],
        sb_virtualToPhysical := (sb_virtualToPhysical sb)(id_at (sb_containerGroups sb) c \<mapsto> host_address ipv4 sb i j)\<rparr>"
    using SetupTunnel_container_known [OF Cons.prems(1), of c] Cons.prems(2) by (simp add: sb'_def Let_def)
  then have plan: "same_plan sb' sb"
    by (simp add: same_plan_def)
  have "in_vec2 (sb_virtualAddresses sb') i j"
    using Cons.prems(3) by (simp add: sb')
  then have "fold (SetupTunnel_container ipv4 masks i j) cs sb' =
    (let addrs = sb_virtualAddresses sb' in
     sb'\<lparr>sb_virtualAddresses := addrs[i := (addrs ! i)[j := addrs ! i ! j @
          map (\<lambda>c. (id_at (sb_containerGroups sb) c, IpUtils_GetClassAMask masks)) cs]],
        sb_virtualToPhysical := table_of ipv4 sb (map (Pair (i, j)) cs) (sb_virtualToPhysical sb')\<rparr>)"
    using Cons.IH [of sb'] Cons.prems(1,2) same_plan_ids [OF plan] plan same_plan_table [OF plan]
    by (simp add: same_plan_def)
  then show ?case
    using Cons.prems(3) by (simp add: sb'_def [symmetric] sb' table_of_def in_vec2_def Let_def)
qed

section \<open>The tunnel endpoints\<close>

definition endpoint_ok :: "ipv4_parser \<Rightarrow> SimulationBase \<Rightarrow> nat \<Rightarrow> nat \<Rightarrow> SocketHelper \<Rightarrow> bool" where
  "endpoint_ok ipv4 sb i j sh \<longleftrightarrow> sh_physicalAddress sh = host_address ipv4 sb i j \<and>
     sh_gatewayAddresses sh = sb_gwAddresses sb \<and>
     sh_gatewayRange sh = length (sb_containerToId sb) div length (sb_gws sb)"

lemma same_plan_endpoint: "same_plan a b \<Longrightarrow> endpoint_ok ipv4 a i j sh = endpoint_ok ipv4 b i j sh"
  by (simp add: endpoint_ok_def same_plan_host) (simp add: same_plan_def)

definition tunnel_shape :: "SimulationBase \<Rightarrow> bool" where
  "tunnel_shape sb \<longleftrightarrow> (\<forall>(i, j) \<in> set (host_pairs sb). in_vec2 (sb_virtualAddresses sb) i j \<and>
     in_vec2 (sb_socketHelpers sb) i j \<and> set (sb_containerGroups sb ! i ! j) \<subseteq> snd ` set (slots (sb_containerGroups sb)))"

text \<open>What setting up some hosts has done: the table and the addresses of their containers, their
  endpoints, and nothing else.\<close>

definition pair_slots :: "SimulationBase \<Rightarrow> (nat \<times> nat) list \<Rightarrow> ((nat \<times> nat) \<times> string) list" where
  "pair_slots sb ps = concat (map (\<lambda>(i, j). map (Pair (i, j)) (sb_containerGroups sb ! i ! j)) ps)"

definition tunnel_done ::
  "ipv4_parser \<Rightarrow> ipv4_parser \<Rightarrow> (nat \<times> nat) list \<Rightarrow> SimulationBase \<Rightarrow> SimulationBase \<Rightarrow> bool" where
  "tunnel_done ipv4 masks ps sb sb' \<longleftrightarrow> same_plan sb' sb \<and>
     sb_virtualToPhysical sb' = table_of ipv4 sb (pair_slots sb ps) (sb_virtualToPhysical sb) \<and>
     (\<forall>a b. sb_virtualAddresses sb' ! a ! b = sb_virtualAddresses sb ! a ! b @ (if (a, b) \<in> set ps
        then map (\<lambda>c. (id_at (sb_containerGroups sb) c, IpUtils_GetClassAMask masks)) (sb_containerGroups sb ! a ! b) else [])) \<and>
     (\<forall>a b. (a, b) \<in> set ps \<longrightarrow> endpoint_ok ipv4 sb a b (sb_socketHelpers sb' ! a ! b)) \<and>
     (\<forall>a b. (a, b) \<notin> set ps \<longrightarrow> sb_socketHelpers sb' ! a ! b = sb_socketHelpers sb ! a ! b) \<and>
     (\<forall>a b. in_vec2 (sb_socketHelpers sb') a b \<longleftrightarrow> in_vec2 (sb_socketHelpers sb) a b) \<and>
     (\<forall>a b. in_vec2 (sb_virtualAddresses sb') a b \<longleftrightarrow> in_vec2 (sb_virtualAddresses sb) a b)"

lemma tunnel_done_Cons:
  assumes "tunnel_done ipv4 masks [p] sb sb'" and "tunnel_done ipv4 masks ps sb' sb''" and "p \<notin> set ps"
  shows "tunnel_done ipv4 masks (p # ps) sb sb''"
proof -
  have plan: "same_plan sb' sb"
    using assms(1) by (simp add: tunnel_done_def)
  show ?thesis
    using assms same_plan_trans [OF _ plan] same_plan_table [OF plan] same_plan_endpoint [OF plan] plan
    unfolding tunnel_done_def by (cases p) (auto simp: pair_slots_def table_of_def same_plan_def)
qed

lemma SetupTunnel_host_ok:
  assumes "ids_known sb" and "tunnel_shape sb" and "sb_gws sb \<noteq> []" and "(i, j) \<in> set (host_pairs sb)"
  shows "returns (SetupTunnel_host ipv4 masks i j sb) (\<lambda>sb'. tunnel_shape sb' \<and> tunnel_done ipv4 masks [(i, j)] sb sb')"
proof -
  have shape: "in_vec2 (sb_virtualAddresses sb) i j" "in_vec2 (sb_socketHelpers sb) i j"
      "set (sb_containerGroups sb ! i ! j) \<subseteq> snd ` set (slots (sb_containerGroups sb))"
    using assms(2,4) by (auto simp: tunnel_shape_def)
  have pairs: "host_pairs (sb\<lparr>sb_virtualAddresses := A, sb_virtualToPhysical := t, sb_socketHelpers := h\<rparr>) = host_pairs sb"
    for A t h by (simp add: host_pairs_def)
  show ?thesis
    using assms(2,3) shape(1,2)
    unfolding SetupTunnel_host_def fold_containers [OF assms(1) shape(3,1)] Let_def
    by (simp add: same_plan_def tunnel_shape_def tunnel_done_def pairs nth_vec2_update endpoint_ok_def
        host_address_def pair_slots_def)
qed

lemma SetupTunnel_loop_ok:
  assumes "ids_known sb" and "tunnel_shape sb" and "sb_gws sb \<noteq> []" and "set ps \<subseteq> set (host_pairs sb)" and "distinct ps"
  shows "returns (SetupTunnel_loop ipv4 masks ps sb) (tunnel_done ipv4 masks ps sb)"
  using assms
proof (induction ps arbitrary: sb)
  case Nil
  then show ?case by (simp add: tunnel_done_def pair_slots_def table_of_def)
next
  case (Cons p ps)
  obtain i j where p: "p = (i, j)"
    by (cases p)
  with Cons.prems have "returns (SetupTunnel_host ipv4 masks i j sb) (\<lambda>sb'. tunnel_shape sb' \<and> tunnel_done ipv4 masks [p] sb sb')"
    using SetupTunnel_host_ok by simp
  then show ?case
    unfolding p SetupTunnel_loop.simps returns_bind_iff
  proof (rule returns_mono, elim conjE)
    fix sb'
    assume sb': "tunnel_shape sb'" "tunnel_done ipv4 masks [(i, j)] sb sb'"
    then have plan: "same_plan sb' sb" "host_pairs sb' = host_pairs sb"
      by (simp_all add: tunnel_done_def host_pairs_def same_plan_def)
    then have "returns (SetupTunnel_loop ipv4 masks ps sb') (tunnel_done ipv4 masks ps sb')"
      using Cons.IH [of sb'] Cons.prems sb'(1) same_plan_ids [OF plan(1)] by (simp add: same_plan_def)
    then show "returns (SetupTunnel_loop ipv4 masks ps sb') (tunnel_done ipv4 masks ((i, j) # ps) sb)"
      using Cons.prems(5) p by (auto intro: returns_mono tunnel_done_Cons [OF sb'(2)])
  qed
qed

section \<open>From the constructor to the tunnel\<close>

lemma slots_pairs:
  assumes "sb_leafCount sb = length (sb_containerGroups sb)"
  shows "slots (sb_containerGroups sb) = pair_slots sb (host_pairs sb)"
  unfolding slots_def pair_slots_def host_pairs_def concat_nest assms by simp

lemma distinct_nest: "\<lbrakk>distinct is; \<And>i. distinct (f i)\<rbrakk> \<Longrightarrow> distinct (nest is f)"
  by (induction "is") (auto simp: nest_def distinct_map inj_on_def)

lemma distinct_host_pairs: "distinct (host_pairs sb)"
  by (simp add: host_pairs_def distinct_nest)

lemma SimulationBase_new_shape:
  assumes "SimulationBase_new params groups migParams uninit = Inr sb" and "octets_ok params groups"
  shows "sb_virtualAddresses sb = map (\<lambda>nodes. replicate (length nodes) []) groups"
    and "map (map sh_simParams) (sb_socketHelpers sb) = map (\<lambda>nodes. replicate (length nodes) params) groups"
    and "sb_containerGroups sb = groups" and "sb_simParameters sb = params"
proof -
  obtain sb0 where sb0: "SimulationBase_init params groups migParams uninit = Inr sb0" "sb = SimulationBase_AssignIds sb0"
    using assms(1) by (auto simp: SimulationBase_new_def monad_simps)
  moreover have "length groups mod 2 ^ 32 = length groups"
    using assms(2) by (simp add: octets_ok_def)
  ultimately have "sb_virtualAddresses sb0 = map (\<lambda>nodes. replicate (length nodes) []) groups"
      "map (map sh_simParams) (sb_socketHelpers sb0) = map (\<lambda>nodes. replicate (length nodes) params) groups"
      "sb_containerGroups sb0 = groups" "sb_simParameters sb0 = params"
    by (auto simp: SimulationBase_init_def Let_def monad_simps SocketHelper_new_def)
  then show "sb_virtualAddresses sb = map (\<lambda>nodes. replicate (length nodes) []) groups"
      "map (map sh_simParams) (sb_socketHelpers sb) = map (\<lambda>nodes. replicate (length nodes) params) groups"
      "sb_containerGroups sb = groups" "sb_simParameters sb = params"
    using AssignIds_frame [of sb0] unfolding sb0(2) by auto
qed

lemma in_vec2_map_replicate:
  "in_vec2 (map (\<lambda>nodes. replicate (length nodes) x) groups) i j \<longleftrightarrow> i < length groups \<and> j < length (groups ! i)"
  by (auto simp: in_vec2_def)

lemma in_vec2_map: "in_vec2 (map (map f) m) i j \<longleftrightarrow> in_vec2 m i j"
  by (auto simp: in_vec2_def)

lemma SimulationBase_new_tunnel_shape:
  assumes "SimulationBase_new params groups migParams uninit = Inr sb" and "octets_ok params groups"
  shows "tunnel_shape sb"
proof -
  have len: "sb_leafCount sb = length (sb_containerGroups sb)"
    using SimulationBase_new_dims [OF assms] dims_okD(4) by metis
  note groups = SimulationBase_new_shape(3) [OF assms]
  show ?thesis
    unfolding tunnel_shape_def
  proof (clarify, intro conjI)
    fix i j
    assume ij: "(i, j) \<in> set (host_pairs sb)"
    show "in_vec2 (sb_virtualAddresses sb) i j"
      using ij len groups unfolding SimulationBase_new_shape(1) [OF assms] in_vec2_map_replicate
      by (simp add: host_pairs_iff)
    have "in_vec2 (map (map sh_simParams) (sb_socketHelpers sb)) i j"
      using ij len groups unfolding SimulationBase_new_shape(2) [OF assms] in_vec2_map_replicate
      by (simp add: host_pairs_iff)
    then show "in_vec2 (sb_socketHelpers sb) i j"
      by (simp only: in_vec2_map)
    show "set (sb_containerGroups sb ! i ! j) \<subseteq> snd ` set (slots (sb_containerGroups sb))"
      unfolding slots_pairs [OF len] pair_slots_def using ij by force
  qed
qed

lemma gateway_slots_subset: "set (gateway_slots groups) \<subseteq> fst ` set (slots groups)"
  by (auto simp: gateway_slots_def)

lemma gateway_slots_length: "length (gateway_slots groups) \<le> length (slots groups)"
  by (simp add: gateway_slots_def)

lemma slots_in_pairs:
  assumes "sb_leafCount sb = length (sb_containerGroups sb)" and "((i, j), c) \<in> set (slots (sb_containerGroups sb))"
  shows "(i, j) \<in> set (host_pairs sb)"
  using assms(2) unfolding slots_pairs [OF assms(1)] pair_slots_def by auto

text \<open>The addresses of the gateways, without the detour through \<open>uint32_t\<close>.\<close>

lemma gateway_addresses:
  assumes "dims_ok sb" and "sb_gws sb = map (\<lambda>(i, j). (word_of_nat i, word_of_nat j)) (gateway_slots (sb_containerGroups sb))"
    and "length (sb_containerGroups sb) < 2 ^ 32"
  shows "map (\<lambda>(leaf, node). IpUtils_GetNodePhysicalAddress ipv4 (word_of_nat (unat leaf div sb_podWidth sb))
      (word_of_nat (unat leaf mod sb_podWidth sb)) node) (sb_gws sb) =
    map (\<lambda>(i, j). host_address ipv4 sb i j) (gateway_slots (sb_containerGroups sb))"
  unfolding assms(2) map_map
proof (rule map_cong [OF refl], clarsimp)
  fix i j
  assume "(i, j) \<in> set (gateway_slots (sb_containerGroups sb))"
  then obtain c where "((i, j), c) \<in> set (slots (sb_containerGroups sb))"
    using gateway_slots_subset by force
  then have "i < sb_leafCount sb"
    using slots_in_pairs [of sb i j c] dims_okD(4) [OF assms(1)] by (simp add: host_pairs_iff)
  then have "i < 4294967296"
    using assms(3) dims_okD(4) [OF assms(1)] by simp
  then show "IpUtils_GetNodePhysicalAddress ipv4 (word_of_nat (unat (word_of_nat i :: u32) div sb_podWidth sb))
      (word_of_nat (unat (word_of_nat i :: u32) mod sb_podWidth sb)) (word_of_nat j) = host_address ipv4 sb i j"
    by (simp add: host_address_def)
qed

lemma id_list: "names_ok groups \<Longrightarrow>
    map (\<lambda>s. id_at groups (snd s)) (slots groups) = map word_of_nat [0..<length (slots groups)]"
  by (rule nth_equalityI) (simp_all add: id_at_nth(1))

lemma id_inj:
  assumes "names_ok groups"
  shows "distinct (map (\<lambda>s. id_at groups (snd s)) (slots groups))"
proof -
  have "inj_on (word_of_nat :: nat \<Rightarrow> u32) {0..<length (slots groups)}"
  proof (rule inj_on_inverseI [where g = unat])
    show "unat (word_of_nat x :: u32) = x" if "x \<in> {0..<length (slots groups)}" for x
      using that assms by (simp add: names_ok_def)
  qed
  then show ?thesis
    unfolding id_list [OF assms] by (simp add: distinct_map)
qed

text \<open>The final table.\<close>

lemma table_of_slots:
  assumes "names_ok (sb_containerGroups sb)"
  shows "k < length (slots (sb_containerGroups sb)) \<Longrightarrow>
      table_of ipv4 sb (slots (sb_containerGroups sb)) Map.empty (word_of_nat k) =
      Some (case slots (sb_containerGroups sb) ! k of ((i, j), c) \<Rightarrow> host_address ipv4 sb i j)"
    and "dom (table_of ipv4 sb (slots (sb_containerGroups sb)) Map.empty) =
      word_of_nat ` {..<length (slots (sb_containerGroups sb))}"
proof -
  let ?S = "slots (sb_containerGroups sb)" and ?id = "\<lambda>s. id_at (sb_containerGroups sb) (snd s)"
  show in_table: "table_of ipv4 sb ?S Map.empty (word_of_nat k) =
      Some (case ?S ! k of ((i, j), c) \<Rightarrow> host_address ipv4 sb i j)" if "k < length ?S" for k
    using fold_upd_in [OF id_inj [OF assms] nth_mem [OF that], of "\<lambda>s. host_address ipv4 sb (fst (fst s)) (snd (fst s))" Map.empty]
      id_at_nth(1) [OF assms that] by (simp add: table_of_def case_prod_beta)
  have ids: "?id ` set ?S = word_of_nat ` {..<length ?S}"
    using arg_cong [where f = set, OF id_list [OF assms]] by (simp add: atLeast0LessThan)
  show "dom (table_of ipv4 sb ?S Map.empty) = word_of_nat ` {..<length ?S}"
  proof (intro equalityI subsetI)
    fix a
    assume "a \<in> dom (table_of ipv4 sb ?S Map.empty)"
    then show "a \<in> word_of_nat ` {..<length ?S}"
      unfolding ids [symmetric] table_of_def
      by (rule contrapos_pp) (simp add: fold_upd_notin domIff)
  qed (auto simp: in_table)
qed

text \<open>The first loop of \<open>SetupTunnel\<close>.\<close>

definition with_gateways :: "ipv4_parser \<Rightarrow> SimulationBase \<Rightarrow> SimulationBase" where
  "with_gateways ipv4 sb = sb\<lparr>sb_gwAddresses := sb_gwAddresses sb @ map (\<lambda>(leaf, node). IpUtils_GetNodePhysicalAddress ipv4
       (word_of_nat (unat leaf div sb_podWidth sb)) (word_of_nat (unat leaf mod sb_podWidth sb)) node) (sb_gws sb)\<rparr>"

lemma SetupTunnel_ok:
  assumes "ids_known sb" and "tunnel_shape sb" and "sb_gws sb \<noteq> []"
  shows "returns (SimulationBase_SetupTunnel ipv4 masks sb) (\<lambda>net. \<exists>sb'.
    tunnel_done ipv4 masks (host_pairs sb) (with_gateways ipv4 sb) sb' \<and> net = share_table sb')"
proof -
  let ?sb = "with_gateways ipv4 sb"
  have pairs: "host_pairs ?sb = host_pairs sb"
    by (simp add: with_gateways_def host_pairs_def)
  have "ids_known ?sb" "tunnel_shape ?sb" "sb_gws ?sb \<noteq> []"
    using assms pairs by (simp_all add: with_gateways_def ids_known_def tunnel_shape_def)
  then have "returns (SetupTunnel_loop ipv4 masks (host_pairs ?sb) ?sb) (tunnel_done ipv4 masks (host_pairs ?sb) ?sb)"
    by (rule SetupTunnel_loop_ok [OF _ _ _ subset_refl distinct_host_pairs])
  then show ?thesis
    unfolding SimulationBase_SetupTunnel_def Let_def with_gateways_def [symmetric] returns_bind_iff returns_Inr pairs
    by (elim returns_mono) blast
qed

text \<open>What the endpoints and the table hold when \<open>SetupTunnel\<close> is done.\<close>

definition tunnel_ready :: "ipv4_parser \<Rightarrow> ContainerGroups \<Rightarrow> SimulationBase \<Rightarrow> SimulationBase \<Rightarrow> bool" where
  "tunnel_ready ipv4 groups sb net \<longleftrightarrow>
     (\<forall>k < length (slots groups). case slots groups ! k of ((i, j), c) \<Rightarrow>
        map_of (sb_containerToId net) c = Some (word_of_nat k) \<and>
        sb_virtualToPhysical net (IpUtils_GetContainerVirtualAddress (word_of_nat k)) = Some (host_address ipv4 sb i j)) \<and>
     dom (sb_virtualToPhysical net) = word_of_nat ` {..<length (slots groups)} \<and>
     sb_gwAddresses net = map (\<lambda>(i, j). host_address ipv4 sb i j) (gateway_slots groups) \<and>
     (\<forall>i < length groups. \<forall>j < length (groups ! i). let sh = sb_socketHelpers net ! i ! j in
        sh_physicalAddress sh = host_address ipv4 sb i j \<and>
        sh_virtualToPhysical sh = sb_virtualToPhysical net \<and>
        sh_gatewayAddresses sh = sb_gwAddresses net \<and>
        sh_gatewayRange sh = length (slots groups) div length (gateway_slots groups) \<and> 0 < sh_gatewayRange sh)"

lemma tunnel_done_ready:
  assumes "tunnel_done ipv4 masks (host_pairs sb) (with_gateways ipv4 sb) sb'"
    and "dims_ok sb" and "ids_known sb" and "tunnel_shape sb" and "names_ok (sb_containerGroups sb)"
    and "sb_gws sb = map (\<lambda>(i, j). (word_of_nat i, word_of_nat j)) (gateway_slots (sb_containerGroups sb))"
    and "length (sb_containerGroups sb) < 2 ^ 32" and "gateway_slots (sb_containerGroups sb) \<noteq> []"
    and "sb_gwAddresses sb = []" and "sb_virtualToPhysical sb = Map.empty"
  shows "tunnel_ready ipv4 (sb_containerGroups sb) sb (share_table sb')"
proof -
  let ?g = "sb_containerGroups sb"
  have len: "sb_leafCount sb = length ?g"
    using dims_okD(4) [OF assms(2)] by simp
  have gws: "sb_gwAddresses sb' = map (\<lambda>(i, j). host_address ipv4 sb i j) (gateway_slots ?g)"
    and ids: "sb_containerToId sb' = zip (map snd (slots ?g)) (map word_of_nat [0..<length (slots ?g)])"
    using assms(1,3,9) gateway_addresses [OF assms(2,6,7), of ipv4]
    by (simp_all add: tunnel_done_def same_plan_def with_gateways_def ids_known_def)
  have table: "sb_virtualToPhysical sb' = table_of ipv4 sb (slots ?g) Map.empty"
    using assms(1,10) unfolding slots_pairs [OF len]
    by (simp add: tunnel_done_def with_gateways_def pair_slots_def table_of_def host_address_def)
  have "0 < length (slots ?g) div length (gateway_slots ?g)"
    using gateway_slots_length [of ?g] assms(8) by (simp add: div_greater_zero_iff)
  moreover have "endpoint_ok ipv4 (with_gateways ipv4 sb) i j (sb_socketHelpers sb' ! i ! j)"
      "in_vec2 (sb_socketHelpers sb') i j" if "i < length ?g" "j < length (?g ! i)" for i j
    using assms(1,4) that len by (auto simp: tunnel_done_def host_pairs_iff tunnel_shape_def with_gateways_def)
  ultimately show ?thesis
    using gws ids table table_of_slots [OF assms(5)] id_at_nth(2) [OF assms(5)] assms(3,6,9)
      gateway_addresses [OF assms(2,6,7), of ipv4]
    unfolding tunnel_ready_def share_table_def Let_def
    by (auto simp: endpoint_ok_def with_gateways_def ids_known_def host_address_def in_vec2_def case_prod_beta
        IpUtils_GetContainerVirtualAddress_def)
qed

text \<open>The configuration of the endpoints is that of the constructor.\<close>

definition helper_config :: "SocketHelper \<Rightarrow> SimulationParameters \<times> MigrationParams \<times> u32" where
  "helper_config sh = (sh_simParams sh, sh_migrationParams sh, sh_misdeliveryCount sh)"

abbreviation endpoint_config :: "SimulationBase \<Rightarrow> (SimulationParameters \<times> MigrationParams \<times> u32) list list" where
  "endpoint_config sb \<equiv> map (map helper_config) (sb_socketHelpers sb)"

lemma endpoint_config_update: "f (h ! i ! j) = f sh \<Longrightarrow> map (map f) (h[i := (h ! i)[j := sh]]) = map (map f) h"
proof -
  assume "f (h ! i ! j) = f sh"
  then have "map f ((h ! i)[j := sh]) = map f (h ! i)"
    by (cases "j < length (h ! i)") (simp_all add: map_update list_update_same_conv list_update_beyond)
  then show "map (map f) (h[i := (h ! i)[j := sh]]) = map (map f) h"
    by (cases "i < length h") (simp_all add: map_update list_update_same_conv list_update_beyond)
qed

lemma SetupTunnel_container_helpers: "sb_socketHelpers (SetupTunnel_container ipv4 masks i j c sb) = sb_socketHelpers sb"
  by (simp add: SetupTunnel_container_def id_of_def Let_def split: option.splits)

lemma SetupTunnel_host_config:
  "SetupTunnel_host ipv4 masks i j sb = Inr sb' \<Longrightarrow> endpoint_config sb' = endpoint_config sb"
proof -
  assume run: "SetupTunnel_host ipv4 masks i j sb = Inr sb'"
  have "sb_socketHelpers (fold (SetupTunnel_container ipv4 masks i j) cs sb) = sb_socketHelpers sb" for cs
    by (induction cs arbitrary: sb) (simp_all add: SetupTunnel_container_helpers)
  with run show ?thesis
    by (auto simp: SetupTunnel_host_def Let_def monad_simps helper_config_def intro!: endpoint_config_update)
qed

lemma SetupTunnel_loop_config:
  "SetupTunnel_loop ipv4 masks ps sb = Inr sb' \<Longrightarrow> endpoint_config sb' = endpoint_config sb"
  by (induction ipv4 masks ps sb rule: SetupTunnel_loop.induct)
     (auto simp: monad_simps dest!: SetupTunnel_host_config)

lemma SetupTunnel_config:
  assumes "SimulationBase_SetupTunnel ipv4 masks sb = Inr net"
  shows "endpoint_config net = endpoint_config sb"
proof -
  obtain gws ps sb' where "SetupTunnel_loop ipv4 masks ps (sb\<lparr>sb_gwAddresses := gws\<rparr>) = Inr sb'" "net = share_table sb'"
    using assms by (auto simp: SimulationBase_SetupTunnel_def Let_def monad_simps)
  moreover have "helper_config (sh\<lparr>sh_virtualToPhysical := vtp\<rparr>) = helper_config sh" for sh vtp
    by (simp add: helper_config_def)
  ultimately show ?thesis
    using SetupTunnel_loop_config [of ipv4 masks ps "sb\<lparr>sb_gwAddresses := gws\<rparr>" sb']
    by (simp add: share_table_def comp_def)
qed

text \<open>All that the set-up before the applications leaves: besides the above, the plan of the constructor is
  unchanged, the links are those of the topology, the
  endpoints are configured as the constructor did, and the virtual interface of every host has exactly the addresses of its containers.\<close>

definition prepared :: "ipv4_parser \<Rightarrow> ipv4_parser \<Rightarrow> SimulationBase \<Rightarrow> SimulationBase \<Rightarrow> bool" where
  "prepared ipv4 masks sb net \<longleftrightarrow> tunnel_ready ipv4 (sb_containerGroups sb) sb net \<and>
     same_plan net (with_gateways ipv4 (sb\<lparr>sb_assigned := network_links ipv4 sb, sb_routes := routes_of ipv4 masks sb\<rparr>)) \<and>
     (\<forall>i j. (i, j) \<in> set (host_pairs sb) \<longrightarrow> in_vec2 (sb_virtualAddresses net) i j \<and>
        sb_virtualAddresses net ! i ! j =
          map (\<lambda>c. (id_at (sb_containerGroups sb) c, IpUtils_GetClassAMask masks)) (sb_containerGroups sb ! i ! j)) \<and>
     endpoint_config net = endpoint_config sb"

definition no_addresses :: "SimulationBase \<Rightarrow> bool" where
  "no_addresses sb \<longleftrightarrow> (\<forall>(i, j) \<in> set (host_pairs sb). sb_virtualAddresses sb ! i ! j = [])"

lemma SimulationBase_new_no_addresses:
  assumes "SimulationBase_new params groups migParams uninit = Inr sb" and "octets_ok params groups"
  shows "no_addresses sb"
proof -
  have "sb_leafCount sb = length (sb_containerGroups sb)"
    using SimulationBase_new_dims [OF assms] dims_okD(4) by metis
  then show ?thesis
    using SimulationBase_new_shape(1,3) [OF assms] by (auto simp: no_addresses_def host_pairs_iff)
qed

lemma prepare_ok:
  assumes "SimulationBase_new params groups migParams uninit = Inr sb" and "octets_ok params groups"
    and "names_ok groups" and "gateway_slots groups \<noteq> []"
  shows "returns (SimulationBase_prepare ipv4 masks sb) (prepared ipv4 masks sb)"
proof -
  note new = SimulationBase_new_ids [OF assms(1,3)]
  have "returns (bindE (bindE (SimulationBase_CreateTopology sb) (SimulationBase_AssignPhysicalIps ipv4 masks))
      (SimulationBase_SetupTunnel ipv4 masks)) (prepared ipv4 masks sb)"
  proof (rule returns_bind [OF set_up_ok [OF assms(1,2)]], elim conjE exE)
    fix sb1 A B C links rs
    assume ok: "network_ok ipv4 masks sb1" and sb1: "sb1 = sb\<lparr>sb_nodeToSwDevice := A, sb_swToSwDevice := B,
        sb_coreToSpineDevice := C, sb_assigned := links, sb_routes := rs\<rparr>"
    have pairs: "host_pairs sb1 = host_pairs sb"
      by (simp add: sb1 host_pairs_def)
    have ids: "ids_known sb1" and shape: "tunnel_shape sb1" and gws: "sb_gws sb1 \<noteq> []"
      using new SimulationBase_new_tunnel_shape [OF assms(1,2)] assms(4) pairs
      by (simp_all add: sb1 ids_known_def tunnel_shape_def)
    have none: "no_addresses sb1"
      using SimulationBase_new_no_addresses [OF assms(1,2)] pairs by (simp add: no_addresses_def sb1)
    have "prepared ipv4 masks sb1 (share_table sb')"
      if "tunnel_done ipv4 masks (host_pairs sb1) (with_gateways ipv4 sb1) sb'"
        "endpoint_config (share_table sb') = endpoint_config sb1" for sb'
    proof -
      have "tunnel_ready ipv4 (sb_containerGroups sb1) sb1 (share_table sb')"
        using tunnel_done_ready [OF that(1) _ ids shape] ok new assms(2-4)
        by (simp add: sb1 network_ok_def octets_ok_def)
      with that none shape ok show ?thesis
        by (auto simp: network_ok_def prepared_def tunnel_done_def share_table_def same_plan_def no_addresses_def tunnel_shape_def
            with_gateways_def)
    qed
    moreover have "network_links ipv4 sb1 = network_links ipv4 sb" "routes_of ipv4 masks sb1 = routes_of ipv4 masks sb"
      by (rule routes_of_cong; simp add: sb1)+
    then have "prepared ipv4 masks sb1 = prepared ipv4 masks sb"
      by (simp add: fun_eq_iff prepared_def tunnel_ready_def sb1 host_address_def with_gateways_def same_plan_def
          host_pairs_def)
    ultimately show "returns (SimulationBase_SetupTunnel ipv4 masks sb1) (prepared ipv4 masks sb)"
      using SetupTunnel_ok [OF ids shape gws, of ipv4 masks] SetupTunnel_config [of ipv4 masks sb1]
      by (auto simp: returns_def)
  qed
  then show ?thesis
    by (simp add: SimulationBase_prepare_def bindE_assoc)
qed

lemma prepared_plan:
  assumes "prepared ipv4 masks sb net"
  shows "host_address ipv4' net = host_address ipv4' sb" "sb_containerGroups net = sb_containerGroups sb"
    "sb_simParameters net = sb_simParameters sb" "sb_gws net = sb_gws sb" "sb_leafCount net = sb_leafCount sb"
    "sb_spineCount net = sb_spineCount sb" "sb_coreCount net = sb_coreCount sb" "sb_podWidth net = sb_podWidth sb"
    "sb_podCount net = sb_podCount sb" "host_pairs net = host_pairs sb" "sb_containerToId net = sb_containerToId sb"
    "sb_assigned net = network_links ipv4 sb" "sb_routes net = routes_of ipv4 masks sb"
  using assms by (auto simp: prepared_def same_plan_def with_gateways_def host_address_def host_pairs_def fun_eq_iff)

text \<open>The switches in the order of the containers: leaves, spines, cores.\<close>

definition switch_nodes :: "SimulationBase \<Rightarrow> sim_node list" where
  "switch_nodes sb = map LeafN [0..<sb_leafCount sb] @ map SpineN [0..<sb_spineCount sb] @ map CoreN [0..<sb_coreCount sb]"

section \<open>Properties\<close>

lemma names1: "names_ok groups1" "gateway_slots groups1 = [(2, 0)]" "length (slots groups1) = 4"
  by (simp_all add: names_ok_def gateway_slots_def groups1_def slots_def upt_rec)

text \<open>C11: With different container names and at least one gateway, the set-up of the simulation succeeds.
  Containers are numbered from 0 in the order of the placement, the address table maps exactly these numbers,
  each to the address of its host, and every tunnel endpoint has the address of its host, shares the table,
  knows the addresses of all gateways and has a gateway range that is not 0.\<close>

theorem tunnel_set_up:
  assumes "SimulationBase_new params groups migParams uninit = Inr sb" and "octets_ok params groups"
    and "names_ok groups" and "gateway_slots groups \<noteq> []"
  shows "returns (SimulationBase_prepare ipv4 masks sb) (tunnel_ready ipv4 groups sb)"
  using prepare_ok [OF assms, of ipv4 masks] SimulationBase_new_ids [OF assms(1,3)]
  by (auto simp: prepared_def elim: returns_mono)

theorem tunnel_set_up_witness:
  "\<exists>sb. SimulationBase_new params1 groups1 mig0 0 = Inr sb \<and>
     returns (SimulationBase_prepare parse_quad parse_quad sb)
       (\<lambda>net. sb_virtualToPhysical net 3 = Some (quad 2 1 0 1) \<and> sb_gwAddresses net = [quad 2 0 0 1])"
proof -
  obtain sb where sb: "SimulationBase_new params1 groups1 mig0 0 = Inr sb" "sb_podWidth sb = 2"
    using sb1_ok by blast
  have "returns (SimulationBase_prepare parse_quad parse_quad sb) (tunnel_ready parse_quad groups1 sb)"
    by (rule tunnel_set_up [OF sb(1) octets1 names1(1)]) (simp add: names1)
  moreover have "slots groups1 ! 3 = ((3, 0), ''C'')"
    by (simp add: groups1_def slots_def upt_rec)
  moreover have "host_address parse_quad sb 3 0 = quad (1 + 1) 1 0 1" "host_address parse_quad sb 2 0 = quad (1 + 1) 0 0 1"
    using GetNodePhysicalAddress_quad [OF parse_quad_dotted, of 1 1 0] GetNodePhysicalAddress_quad [OF parse_quad_dotted, of 1 0 0]
    by (simp_all add: host_address_def sb(2))
  ultimately have "returns (SimulationBase_prepare parse_quad parse_quad sb)
       (\<lambda>net. sb_virtualToPhysical net 3 = Some (quad (1 + 1) 1 0 1) \<and> sb_gwAddresses net = [quad (1 + 1) 0 0 1])"
    by (elim returns_mono) (auto simp: tunnel_ready_def names1 IpUtils_GetContainerVirtualAddress_def dest: spec [of _ 3])
  with sb(1) show ?thesis unfolding one_add_one by blast
qed

end
