(* ===== verification/Trace_Apps.thy ===== *)
theory Trace_Apps
  imports Trace_Stats Tunnel
begin

text \<open>
  \<open>SetupApplications\<close> of \<^verbatim>\<open>trace-sim.cc\<close>: which application runs on which node in
  each mode. Installing an application is an entry in a list, with its times where the code sets them one by one; the
  trace sources it connects are in \<open>Trace_Sources\<close>.
\<close>

section \<open>Applications of the hosts\<close>

definition micro :: "u64 \<Rightarrow> int" where
  "micro t = int (unat t) * 1000"

definition uses_udp :: "TraceSimulation \<Rightarrow> bool" where
  "uses_udp ts \<longleftrightarrow> mig_migration (ts_migrationParams ts) \<or> UdpMode (sb_simParameters (ts_base ts))"

text \<open>One container: a server if it is a destination, a client if it has flows. The server of the migrating
  container stops at the migration, and its place is remembered.\<close>

definition SetupApplications_container ::
  "ipv4_parser \<Rightarrow> nat \<Rightarrow> nat \<Rightarrow> string \<Rightarrow> TraceSimulation \<times> sim_app list \<Rightarrow> TraceSimulation \<times> sim_app list" where
  "SetupApplications_container ipv4 leaf node c = (\<lambda>(ts, apps).
     if contains c ''Gateway'' then (ts, apps)
     else
       (case id_of c (ts_base ts) of (containerId, sb) \<Rightarrow>
        let ts = ts\<lparr>ts_base := sb\<rparr>;
            mig = ts_migrationParams ts;
            migrates = (mig_migration mig \<and> containerId = mig_containerId mig);
            a = IpUtils_GetContainerVirtualAddress containerId;
            server = (sint containerId \<in> ts_destinations ts);
            sinks = (if server then [SinkApp (HostN leaf node) a (uses_udp ts) (Some (host_address ipv4 sb leaf node)) (ts_startTime ts)
                       (if migrates then micro (mig_ts mig) else ts_stopTime ts)] else []);
            clients = (case map_of (ts_containerToFlows ts) containerId of
                None \<Rightarrow> []
              | Some flows \<Rightarrow> [ClientAppOn (HostN leaf node) flows a (host_address ipv4 sb leaf node) (uses_udp ts)]) in
        (if server \<and> migrates
         then ts\<lparr>ts_migrationSrcLeaf := word_of_nat leaf, ts_migrationSrcHost := word_of_nat node\<rparr> else ts,
         apps @ sinks @ clients)))"

definition SetupApplications_host ::
  "ipv4_parser \<Rightarrow> nat \<times> nat \<Rightarrow> TraceSimulation \<times> sim_app list \<Rightarrow> TraceSimulation \<times> sim_app list" where
  "SetupApplications_host ipv4 = (\<lambda>(leaf, node) (ts, apps).
     let mig = ts_migrationParams ts;
         target = (if mig_migration mig \<and> node = unat (mig_dstHost mig) \<and> leaf = unat (mig_dstLeaf mig)
           then [SinkApp (HostN leaf node) (IpUtils_GetContainerVirtualAddress (mig_containerId mig)) True None
                   (micro (mig_ts mig)) (ts_stopTime ts)] else []) in
     fold (SetupApplications_container ipv4 leaf node) (sb_containerGroups (ts_base ts) ! leaf ! node) (ts, apps @ target))"

section \<open>Applications of the switches\<close>

definition gateway_leaves :: "SimulationBase \<Rightarrow> nat set" where
  "gateway_leaves sb = (\<lambda>(leaf, node). unat leaf) ` set (sb_gws sb)"

definition gateway_pods :: "SimulationBase \<Rightarrow> nat set" where
  "gateway_pods sb = (\<lambda>(leaf, node). unat leaf div sb_podWidth sb) ` set (sb_gws sb)"

definition SetupApplications_v2p :: "ipv4_parser \<Rightarrow> SimulationBase \<Rightarrow> sim_app list" where
  "SetupApplications_v2p ipv4 sb =
     (let mode = SimMode (sb_simParameters sb) in
      map (\<lambda>leaf. P4App (LeafN leaf) (IpUtils_GetLeafAddress ipv4 (word_of_nat (sb_podCount sb))
              (word_of_nat (leaf div sb_podWidth sb)) 0 (word_of_nat (leaf mod sb_podWidth sb)))
            (if leaf \<in> gateway_leaves sb then GW_LEAF else LEAF) mode) [0..<sb_leafCount sb] @
      map (\<lambda>spine. P4App (SpineN spine) (IpUtils_GetSpineFromLeafAddress ipv4 (word_of_nat (sb_podCount sb))
              (word_of_nat (spine div sb_podWidth sb)) (word_of_nat (spine mod sb_podWidth sb)) 0)
            (if spine div sb_podWidth sb \<in> gateway_pods sb then GW_SPINE else SPINE) mode) [0..<sb_spineCount sb] @
      map (\<lambda>core. P4App (CoreN core) (IpUtils_GetCoreAddress ipv4 0 (word_of_nat core)) CORE mode) [0..<sb_coreCount sb])"

definition no_cache_spines :: "SimulationBase \<Rightarrow> sim_app list" where
  "no_cache_spines sb = map (\<lambda>i. CtrlApp (SpineN i) NoCache) [0..<sb_spineCount sb] @
     map (\<lambda>i. CtrlApp (CoreN i) NoCache) [0..<sb_coreCount sb]"

text \<open>A \<open>set<uint32_t>\<close> is walked in increasing order.\<close>

definition SetupApplications_gwCache :: "ipv4_parser \<Rightarrow> SimulationBase \<Rightarrow> sim_app list" where
  "SetupApplications_gwCache ipv4 sb =
     map (\<lambda>leaf. P4App (LeafN leaf) (IpUtils_GetLeafAddress ipv4 (word_of_nat (sb_podCount sb))
             (word_of_nat (leaf div sb_podWidth sb)) 0 (word_of_nat (leaf mod sb_podWidth sb))) GW_LEAF LocalLearning)
       (sorted_list_of_set (gateway_leaves sb)) @
     map (\<lambda>i. CtrlApp (LeafN i) NoCache) (filter (\<lambda>i. i \<notin> gateway_leaves sb) [0..<sb_leafCount sb]) @
     no_cache_spines sb"

definition SetupApplications_bluebird :: "ipv4_parser \<Rightarrow> SimulationBase \<Rightarrow> sim_app list" where
  "SetupApplications_bluebird ipv4 sb =
     map (\<lambda>leaf. P4App (LeafN leaf) (IpUtils_GetLeafAddress ipv4 (word_of_nat (sb_podCount sb))
             (word_of_nat (leaf div sb_podWidth sb)) 0 (word_of_nat (leaf mod sb_podWidth sb))) LEAF
           (SimMode (sb_simParameters sb))) [0..<sb_leafCount sb] @
     no_cache_spines sb"

definition SetupApplications_switches :: "ipv4_parser \<Rightarrow> SimulationBase \<Rightarrow> sim_app list" where
  "SetupApplications_switches ipv4 sb =
     (let mode = SimMode (sb_simParameters sb) in
      if mode = SwitchV2P \<or> mode = LocalLearning then SetupApplications_v2p ipv4 sb
      else if mode = GwCache then SetupApplications_gwCache ipv4 sb
      else if mode = Bluebird then SetupApplications_bluebird ipv4 sb
      else map (\<lambda>i. CtrlApp (LeafN i) mode) [0..<sb_leafCount sb] @ map (\<lambda>i. CtrlApp (SpineN i) mode) [0..<sb_spineCount sb] @
           map (\<lambda>i. CtrlApp (CoreN i) mode) [0..<sb_coreCount sb])"

text \<open>The whole function: the installed applications and the time of the migration, if there is one. Without a
  gateway the controller has no node to run on.\<close>

definition TraceSimulation_SetupApplications ::
  "ipv4_parser \<Rightarrow> TraceSimulation \<Rightarrow> (TraceSimulation \<times> sim_app list \<times> int option) res" where
  "TraceSimulation_SetupApplications ipv4 ts =
     (case fold (SetupApplications_host ipv4) (nest [0..<length (sb_containerGroups (ts_base ts))]
             (\<lambda>leaf. [0..<length (sb_containerGroups (ts_base ts) ! leaf)])) (ts, []) of (ts, apps) \<Rightarrow>
      let sb = ts_base ts;
          gws = map (\<lambda>(leaf, node). HostN (unat leaf) (unat node)) (sb_gws sb) in
      bindE (if SimMode (sb_simParameters sb) = Controller
             then bindE (vec_at gws 0) (\<lambda>g. Inr [IlpApp g]) else Inr []) (\<lambda>controller.
      Inr (ts, apps @ SetupApplications_switches ipv4 sb @ map GatewayAppOn gws @ controller,
           if mig_migration (ts_migrationParams ts) then Some (micro (mig_ts (ts_migrationParams ts))) else None)))"

section \<open>The whole set-up of the run\<close>

text \<open>\<open>Run\<close> before the simulator starts.\<close>

definition TraceSimulation_Run ::
  "ipv4_parser \<Rightarrow> ipv4_parser \<Rightarrow> TraceSimulation \<Rightarrow> (TraceSimulation \<times> sim_app list \<times> int option) res" where
  "TraceSimulation_Run ipv4 masks ts =
     bindE (SimulationBase_prepare ipv4 masks (ts_base ts)) (\<lambda>sb.
       TraceSimulation_SetupApplications ipv4 (ts\<lparr>ts_base := sb\<rparr>))"

section \<open>The applications in closed form\<close>

definition migrating :: "TraceSimulation \<Rightarrow> u32 \<Rightarrow> bool" where
  "migrating ts k \<longleftrightarrow> mig_migration (ts_migrationParams ts) \<and> k = mig_containerId (ts_migrationParams ts)"

definition sinks_at :: "ipv4_parser \<Rightarrow> TraceSimulation \<Rightarrow> nat \<Rightarrow> nat \<Rightarrow> u32 \<Rightarrow> sim_app list" where
  "sinks_at ipv4 ts i j k = (if sint k \<in> ts_destinations ts
     then [SinkApp (HostN i j) k (uses_udp ts) (Some (host_address ipv4 (ts_base ts) i j)) (ts_startTime ts)
             (if migrating ts k then micro (mig_ts (ts_migrationParams ts)) else ts_stopTime ts)] else [])"

definition clients_at :: "ipv4_parser \<Rightarrow> TraceSimulation \<Rightarrow> nat \<Rightarrow> nat \<Rightarrow> u32 \<Rightarrow> sim_app list" where
  "clients_at ipv4 ts i j k = (case map_of (ts_containerToFlows ts) k of None \<Rightarrow> []
     | Some flows \<Rightarrow> [ClientAppOn (HostN i j) flows k (host_address ipv4 (ts_base ts) i j) (uses_udp ts)])"

definition target_apps :: "TraceSimulation \<Rightarrow> nat \<times> nat \<Rightarrow> sim_app list" where
  "target_apps ts = (\<lambda>(i, j). let mig = ts_migrationParams ts in
     if mig_migration mig \<and> j = unat (mig_dstHost mig) \<and> i = unat (mig_dstLeaf mig)
     then [SinkApp (HostN i j) (mig_containerId mig) True None (micro (mig_ts mig)) (ts_stopTime ts)] else [])"

definition slot_apps :: "ipv4_parser \<Rightarrow> TraceSimulation \<Rightarrow> (nat \<times> nat) \<times> string \<Rightarrow> sim_app list" where
  "slot_apps ipv4 ts = (\<lambda>((i, j), c). let k = id_at (sb_containerGroups (ts_base ts)) c in
     if contains c ''Gateway'' then [] else sinks_at ipv4 ts i j k @ clients_at ipv4 ts i j k)"

definition moved_from :: "TraceSimulation \<Rightarrow> (nat \<times> nat) \<times> string \<Rightarrow> u32 \<times> u32 \<Rightarrow> u32 \<times> u32" where
  "moved_from ts = (\<lambda>((i, j), c) src. let k = id_at (sb_containerGroups (ts_base ts)) c in
     if \<not> contains c ''Gateway'' \<and> sint k \<in> ts_destinations ts \<and> migrating ts k
     then (word_of_nat i, word_of_nat j) else src)"

definition at_source :: "TraceSimulation \<Rightarrow> u32 \<times> u32 \<Rightarrow> TraceSimulation" where
  "at_source ts src = ts\<lparr>ts_migrationSrcLeaf := fst src, ts_migrationSrcHost := snd src\<rparr>"

lemma id_of_known:
  assumes "ids_known sb" and "c \<in> snd ` set (slots (sb_containerGroups sb))"
  shows "id_of c sb = (id_at (sb_containerGroups sb) c, sb)"
proof -
  have "map fst (sb_containerToId sb) = map snd (slots (sb_containerGroups sb))"
    using assms(1) by (simp add: ids_known_def)
  then have "c \<in> fst ` set (sb_containerToId sb)"
    using assms(2) by (metis set_map)
  then obtain v where "map_of (sb_containerToId sb) c = Some v"
    by (metis map_of_eq_None_iff not_None_eq)
  with assms(1) show ?thesis
    by (simp add: id_of_def id_at_def ids_known_def)
qed

lemma container_step:
  assumes "ids_known (ts_base ts)" and "c \<in> snd ` set (slots (sb_containerGroups (ts_base ts)))"
  shows "SetupApplications_container ipv4 i j c (at_source ts src, apps) =
    (at_source ts (moved_from ts ((i, j), c) src), apps @ slot_apps ipv4 ts ((i, j), c))"
proof (cases "contains c ''Gateway''")
  case True
  then show ?thesis
    by (simp add: SetupApplications_container_def moved_from_def slot_apps_def)
next
  case False
  have base: "ts_base (at_source ts src) = ts_base ts" "ts_destinations (at_source ts src) = ts_destinations ts"
      "ts_migrationParams (at_source ts src) = ts_migrationParams ts" "ts_startTime (at_source ts src) = ts_startTime ts"
      "ts_stopTime (at_source ts src) = ts_stopTime ts" "ts_containerToFlows (at_source ts src) = ts_containerToFlows ts"
      "uses_udp (at_source ts src) = uses_udp ts" "(at_source ts src)\<lparr>ts_base := ts_base ts\<rparr> = at_source ts src"
    by (simp_all add: at_source_def uses_udp_def)
  have src: "(at_source ts src)\<lparr>ts_migrationSrcLeaf := a, ts_migrationSrcHost := b\<rparr> = at_source ts (a, b)" for a b
    by (simp add: at_source_def)
  show ?thesis
    using False unfolding SetupApplications_container_def moved_from_def slot_apps_def sinks_at_def clients_at_def
      IpUtils_GetContainerVirtualAddress_def Let_def prod.case base id_of_known [OF assms] src
    by (auto simp: migrating_def)
qed

lemma containers_fold:
  assumes "ids_known (ts_base ts)" and "set cs \<subseteq> snd ` set (slots (sb_containerGroups (ts_base ts)))"
  shows "fold (SetupApplications_container ipv4 i j) cs (at_source ts src, apps) =
    (at_source ts (fold (moved_from ts) (map (Pair (i, j)) cs) src),
     apps @ concat (map (slot_apps ipv4 ts) (map (Pair (i, j)) cs)))"
  using assms(2) by (induction cs arbitrary: src apps) (simp_all add: container_step [OF assms(1)])

definition host_apps :: "ipv4_parser \<Rightarrow> TraceSimulation \<Rightarrow> nat \<times> nat \<Rightarrow> sim_app list" where
  "host_apps ipv4 ts p = target_apps ts p @
     concat (map (slot_apps ipv4 ts) (map (Pair p) (sb_containerGroups (ts_base ts) ! fst p ! snd p)))"

lemma hosts_fold:
  assumes "ids_known (ts_base ts)"
    and "\<forall>(i, j) \<in> set ps. set (sb_containerGroups (ts_base ts) ! i ! j) \<subseteq> snd ` set (slots (sb_containerGroups (ts_base ts)))"
  shows "fold (SetupApplications_host ipv4) ps (at_source ts src, apps) =
    (at_source ts (fold (moved_from ts) (pair_slots (ts_base ts) ps) src), apps @ concat (map (host_apps ipv4 ts) ps))"
  using assms(2)
proof (induction ps arbitrary: src apps)
  case (Cons p ps)
  obtain i j where p: "p = (i, j)"
    by (cases p)
  have "SetupApplications_host ipv4 p (at_source ts src, apps) =
      fold (SetupApplications_container ipv4 i j) (sb_containerGroups (ts_base ts) ! i ! j)
        (at_source ts src, apps @ target_apps ts p)"
    by (simp add: p SetupApplications_host_def target_apps_def at_source_def Let_def IpUtils_GetContainerVirtualAddress_def)
  with Cons show ?case
    using containers_fold [OF assms(1), of "sb_containerGroups (ts_base ts) ! i ! j"]
    by (simp add: p pair_slots_def host_apps_def)
qed (simp add: pair_slots_def)

lemma nest_host_pairs: "sb_leafCount sb = length (sb_containerGroups sb) \<Longrightarrow>
    nest [0..<length (sb_containerGroups sb)] (\<lambda>i. [0..<length (sb_containerGroups sb ! i)]) = host_pairs sb"
  by (simp add: host_pairs_def)

definition gateway_nodes :: "SimulationBase \<Rightarrow> sim_node list" where
  "gateway_nodes sb = map (\<lambda>(leaf, node). HostN (unat leaf) (unat node)) (sb_gws sb)"

definition other_apps :: "ipv4_parser \<Rightarrow> SimulationBase \<Rightarrow> sim_app list" where
  "other_apps ipv4 sb = SetupApplications_switches ipv4 sb @ map GatewayAppOn (gateway_nodes sb) @
     (if SimMode (sb_simParameters sb) = Controller then [IlpApp (hd (gateway_nodes sb))] else [])"

lemma SetupApplications_closed:
  assumes "ids_known (ts_base ts)" and "sb_leafCount (ts_base ts) = length (sb_containerGroups (ts_base ts))"
    and "sb_gws (ts_base ts) \<noteq> []"
  shows "TraceSimulation_SetupApplications ipv4 ts =
    Inr (at_source ts (fold (moved_from ts) (slots (sb_containerGroups (ts_base ts))) (ts_migrationSrcLeaf ts, ts_migrationSrcHost ts)),
         concat (map (host_apps ipv4 ts) (host_pairs (ts_base ts))) @ other_apps ipv4 (ts_base ts),
         if mig_migration (ts_migrationParams ts) then Some (micro (mig_ts (ts_migrationParams ts))) else None)"
proof -
  let ?src = "(ts_migrationSrcLeaf ts, ts_migrationSrcHost ts)"
  have ts: "(ts, apps) = (at_source ts ?src, apps)" for apps :: "sim_app list"
    by (simp add: at_source_def)
  have sub: "\<forall>(i, j) \<in> set (host_pairs (ts_base ts)). set (sb_containerGroups (ts_base ts) ! i ! j) \<subseteq>
      snd ` set (slots (sb_containerGroups (ts_base ts)))"
    unfolding slots_pairs [OF assms(2)] pair_slots_def by force
  have "fold (SetupApplications_host ipv4) (host_pairs (ts_base ts)) (ts, []) =
      (at_source ts (fold (moved_from ts) (slots (sb_containerGroups (ts_base ts))) ?src),
       concat (map (host_apps ipv4 ts) (host_pairs (ts_base ts))))"
    unfolding ts [of "[]"] hosts_fold [OF assms(1) sub] slots_pairs [OF assms(2)] by simp
  moreover have "ts_base (at_source ts s) = ts_base ts" "ts_migrationParams (at_source ts s) = ts_migrationParams ts" for s
    by (simp_all add: at_source_def)
  moreover have "vec_at (gateway_nodes (ts_base ts)) 0 = Inr (hd (gateway_nodes (ts_base ts)))"
    using assms(3) by (simp add: gateway_nodes_def vec_at_def hd_conv_nth)
  ultimately show ?thesis
    unfolding TraceSimulation_SetupApplications_def nest_host_pairs [OF assms(2)] Let_def
    by (simp add: other_apps_def gateway_nodes_def)
qed

section \<open>The applications of a container\<close>

fun is_sink :: "u32 \<Rightarrow> sim_app \<Rightarrow> bool" where
  "is_sink k (SinkApp n a u p s e) \<longleftrightarrow> a = k"
| "is_sink k _ \<longleftrightarrow> False"

fun is_client :: "u32 \<Rightarrow> sim_app \<Rightarrow> bool" where
  "is_client k (ClientAppOn n fl a p u) \<longleftrightarrow> a = k"
| "is_client k _ \<longleftrightarrow> False"

fun switch_of :: "sim_app \<Rightarrow> sim_node option" where
  "switch_of (P4App n a t m) = Some n"
| "switch_of (CtrlApp n m) = Some n"
| "switch_of _ = None"

lemma switches_are_switches: "a \<in> set (SetupApplications_switches ipv4 sb) \<Longrightarrow> switch_of a \<noteq> None"
  by (auto simp: SetupApplications_switches_def SetupApplications_v2p_def SetupApplications_gwCache_def
      SetupApplications_bluebird_def no_cache_spines_def Let_def split: if_splits)

lemma no_endpoint: "switch_of a \<noteq> None \<Longrightarrow> \<not> is_sink k a \<and> \<not> is_client k a"
  by (cases a) auto

lemma other_apps_endpoints: "filter (is_sink k) (other_apps ipv4 sb) = []" "filter (is_client k) (other_apps ipv4 sb) = []"
  using no_endpoint [OF switches_are_switches [of _ ipv4 sb]] by (auto simp: other_apps_def filter_empty_conv)

lemma filter_slot_apps:
  "filter (is_sink k) (slot_apps ipv4 ts ((i, j), c)) =
     (if id_at (sb_containerGroups (ts_base ts)) c = k
      then if contains c ''Gateway'' then [] else sinks_at ipv4 ts i j k else [])"
  "filter (is_client k) (slot_apps ipv4 ts ((i, j), c)) =
     (if id_at (sb_containerGroups (ts_base ts)) c = k
      then if contains c ''Gateway'' then [] else clients_at ipv4 ts i j k else [])"
  by (auto simp: slot_apps_def sinks_at_def clients_at_def Let_def split: option.splits)

lemma concat_map_once:
  assumes "distinct (map key xs)" and "x \<in> set xs" and "\<And>y. f y = (if key y = key x then g y else [])"
  shows "concat (map f xs) = g x"
proof -
  have "concat (map f ys) = []" if "key x \<notin> key ` set ys" for ys
    using that by (induction ys) (auto simp: assms(3))
  with assms(1,2) show ?thesis
    by (induction xs) (auto simp: assms(3))
qed

lemma fold_once:
  assumes "distinct (map key xs)" and "x \<in> set xs" and "\<And>y s. f y s = (if key y = key x \<and> Q y then g y else s)" and "Q x"
  shows "fold f xs s = g x"
proof -
  have "fold f ys s = s" if "key x \<notin> key ` set ys" for ys s
    using that by (induction ys arbitrary: s) (auto simp: assms(3))
  with assms(1,2,4) show ?thesis
    by (induction xs arbitrary: s) (auto simp: assms(3))
qed

lemma client_filter:
  "filter (is_client v) (concat (map (host_apps ipv4 ts) ps)) =
     concat (map (filter (is_client v) \<circ> slot_apps ipv4 ts) (pair_slots (ts_base ts) ps))"
proof -
  have "filter (is_client v) (target_apps ts p) = []" for p
    by (cases p) (simp add: target_apps_def Let_def)
  then show ?thesis
    by (induction ps) (auto simp: pair_slots_def host_apps_def filter_concat comp_def)
qed

lemma sink_filter:
  "mset (filter (is_sink v) (concat (map (host_apps ipv4 ts) ps))) =
     mset (concat (map (filter (is_sink v) \<circ> target_apps ts) ps)) +
     mset (concat (map (filter (is_sink v) \<circ> slot_apps ipv4 ts) (pair_slots (ts_base ts) ps)))"
  by (induction ps) (auto simp: pair_slots_def host_apps_def filter_concat comp_def)

definition target_sink :: "TraceSimulation \<Rightarrow> sim_app" where
  "target_sink ts = (let mig = ts_migrationParams ts in
     SinkApp (HostN (unat (mig_dstLeaf mig)) (unat (mig_dstHost mig))) (mig_containerId mig) True None
       (micro (mig_ts mig)) (ts_stopTime ts))"

lemma target_filter:
  assumes "distinct ps"
  shows "concat (map (filter (is_sink v) \<circ> target_apps ts) ps) =
    (if migrating ts v \<and> (unat (mig_dstLeaf (ts_migrationParams ts)), unat (mig_dstHost (ts_migrationParams ts))) \<in> set ps
     then [target_sink ts] else [])"
proof -
  have "filter (is_sink v) (target_apps ts p) =
      (if p = (unat (mig_dstLeaf (ts_migrationParams ts)), unat (mig_dstHost (ts_migrationParams ts)))
       then if migrating ts v then [target_sink ts] else [] else [])" for p
    by (cases p) (auto simp: target_apps_def target_sink_def migrating_def Let_def)
  then show ?thesis
    using assms by (induction ps) auto
qed

text \<open>What the set-up installs for every container that is not a gateway: a client with its flows, if it has
  flows, and a server, if it is a destination, on the host the address table names. The migrating container has a
  second server on its new host, which starts when the first stops, and its first host is recorded.\<close>

definition deployed ::
  "ipv4_parser \<Rightarrow> TraceSimulation \<Rightarrow> TraceSimulation \<Rightarrow> sim_app list \<Rightarrow> bool" where
  "deployed ipv4 ts ts' apps \<longleftrightarrow> (let groups = sb_containerGroups (ts_base ts); mig = ts_migrationParams ts in
     \<forall>k < length (slots groups). case slots groups ! k of ((i, j), c) \<Rightarrow> \<not> contains c ''Gateway'' \<longrightarrow>
       (let v = word_of_nat k; here = host_address ipv4 (ts_base ts) i j in
        sb_virtualToPhysical (ts_base ts') v = Some here \<and>
        filter (is_client v) apps = (case map_of (ts_containerToFlows ts) v of None \<Rightarrow> []
          | Some flows \<Rightarrow> [ClientAppOn (HostN i j) flows v here (uses_udp ts)]) \<and>
        mset (filter (is_sink v) apps) =
          (if sint v \<in> ts_destinations ts
           then {#SinkApp (HostN i j) v (uses_udp ts) (Some here) (ts_startTime ts)
                   (if migrating ts v then micro (mig_ts mig) else ts_stopTime ts)#} else {#}) +
          (if migrating ts v \<and> in_vec2 groups (unat (mig_dstLeaf mig)) (unat (mig_dstHost mig))
           then {#target_sink ts#} else {#}) \<and>
        (migrating ts v \<and> sint v \<in> ts_destinations ts \<longrightarrow>
           ts_migrationSrcLeaf ts' = word_of_nat i \<and> ts_migrationSrcHost ts' = word_of_nat j)))"

lemma deployed_closed:
  fixes ipv4 :: ipv4_parser
  assumes "names_ok (sb_containerGroups (ts_base ts))"
    and "sb_leafCount (ts_base ts) = length (sb_containerGroups (ts_base ts))"
    and "k < length (slots (sb_containerGroups (ts_base ts)))"
    and "slots (sb_containerGroups (ts_base ts)) ! k = ((i, j), c)" and "\<not> contains c ''Gateway''"
  defines "apps \<equiv> concat (map (host_apps ipv4 ts) (host_pairs (ts_base ts))) @ other_apps ipv4 (ts_base ts)"
  shows "filter (is_client (word_of_nat k)) apps = clients_at ipv4 ts i j (word_of_nat k)"
    and "mset (filter (is_sink (word_of_nat k)) apps) = mset (sinks_at ipv4 ts i j (word_of_nat k)) +
      (if migrating ts (word_of_nat k) \<and> in_vec2 (sb_containerGroups (ts_base ts))
           (unat (mig_dstLeaf (ts_migrationParams ts))) (unat (mig_dstHost (ts_migrationParams ts)))
       then {#target_sink ts#} else {#})"
    and "migrating ts (word_of_nat k) \<Longrightarrow> sint (word_of_nat k :: u32) \<in> ts_destinations ts \<Longrightarrow>
      fold (moved_from ts) (slots (sb_containerGroups (ts_base ts))) src = (word_of_nat i, word_of_nat j)"
proof -
  let ?g = "sb_containerGroups (ts_base ts)" and ?S = "slots (sb_containerGroups (ts_base ts))"
  have x: "((i, j), c) \<in> set ?S" and id: "id_at ?g c = word_of_nat k"
    using assms(3,4) id_at_nth(1) [OF assms(1,3)] nth_mem [of k ?S] by simp_all
  note once = id_inj [OF assms(1)] x
  have "concat (map (filter (is_client (word_of_nat k)) \<circ> slot_apps ipv4 ts) ?S) = clients_at ipv4 ts i j (word_of_nat k)"
    using concat_map_once [OF once, of "filter (is_client (word_of_nat k)) \<circ> slot_apps ipv4 ts"
        "\<lambda>((i, j), c). if contains c ''Gateway'' then [] else clients_at ipv4 ts i j (word_of_nat k)"] assms(5)
    by (auto simp: filter_slot_apps id)
  then show "filter (is_client (word_of_nat k)) apps = clients_at ipv4 ts i j (word_of_nat k)"
    by (simp add: apps_def client_filter slots_pairs [OF assms(2)] other_apps_endpoints)
  have "concat (map (filter (is_sink (word_of_nat k)) \<circ> slot_apps ipv4 ts) ?S) = sinks_at ipv4 ts i j (word_of_nat k)"
    using concat_map_once [OF once, of "filter (is_sink (word_of_nat k)) \<circ> slot_apps ipv4 ts"
        "\<lambda>((i, j), c). if contains c ''Gateway'' then [] else sinks_at ipv4 ts i j (word_of_nat k)"] assms(5)
    by (auto simp: filter_slot_apps id)
  then show "mset (filter (is_sink (word_of_nat k)) apps) = mset (sinks_at ipv4 ts i j (word_of_nat k)) +
      (if migrating ts (word_of_nat k) \<and> in_vec2 ?g
           (unat (mig_dstLeaf (ts_migrationParams ts))) (unat (mig_dstHost (ts_migrationParams ts)))
       then {#target_sink ts#} else {#})"
    using assms(2)
    unfolding apps_def filter_append other_apps_endpoints append_Nil2 sink_filter slots_pairs [OF assms(2)]
      target_filter [OF distinct_host_pairs] by (auto simp: host_pairs_iff in_vec2_def)
  show "fold (moved_from ts) ?S src = (word_of_nat i, word_of_nat j)"
    if "migrating ts (word_of_nat k)" "sint (word_of_nat k :: u32) \<in> ts_destinations ts"
    using fold_once [OF once, of "moved_from ts" "\<lambda>((i, j), c). \<not> contains c ''Gateway''"
        "\<lambda>((i, j), c). (word_of_nat i, word_of_nat j)"] that assms(5) id
    by (fastforce simp: moved_from_def migrating_def Let_def)
qed

section \<open>The whole set-up\<close>

lemma Run_closed:
  assumes "SimulationBase_new params groups migParams uninit = Inr (ts_base ts)" and "octets_ok params groups"
    and "names_ok groups" and "gateway_slots groups \<noteq> []"
  shows "returns (TraceSimulation_Run ipv4 masks ts) (\<lambda>(ts', apps, t). \<exists>net. prepared ipv4 masks (ts_base ts) net \<and>
    ts' = at_source (ts\<lparr>ts_base := net\<rparr>) (fold (moved_from (ts\<lparr>ts_base := net\<rparr>)) (slots groups)
        (ts_migrationSrcLeaf ts, ts_migrationSrcHost ts)) \<and>
    apps = concat (map (host_apps ipv4 (ts\<lparr>ts_base := net\<rparr>)) (host_pairs net)) @ other_apps ipv4 net \<and>
    t = (if mig_migration (ts_migrationParams ts) then Some (micro (mig_ts (ts_migrationParams ts))) else None))"
  unfolding TraceSimulation_Run_def returns_bind_iff
proof (rule returns_mono [OF prepare_ok [OF assms]])
  fix net
  assume net: "prepared ipv4 masks (ts_base ts) net"
  note new = SimulationBase_new_ids [OF assms(1,3)]
  note plan = prepared_plan [OF net]
  have "sb_leafCount (ts_base ts) = length groups"
    using SimulationBase_new_dims [OF assms(1,2)] dims_okD(4) new(3) by metis
  with plan new assms(4) have "ids_known net" "sb_leafCount net = length (sb_containerGroups net)" "sb_gws net \<noteq> []"
      "sb_containerGroups net = groups"
    by (simp_all add: ids_known_def)
  with net show "returns (TraceSimulation_SetupApplications ipv4 (ts\<lparr>ts_base := net\<rparr>)) (\<lambda>(ts', apps, t). \<exists>net.
      prepared ipv4 masks (ts_base ts) net \<and>
      ts' = at_source (ts\<lparr>ts_base := net\<rparr>) (fold (moved_from (ts\<lparr>ts_base := net\<rparr>)) (slots groups)
        (ts_migrationSrcLeaf ts, ts_migrationSrcHost ts)) \<and>
      apps = concat (map (host_apps ipv4 (ts\<lparr>ts_base := net\<rparr>)) (host_pairs net)) @ other_apps ipv4 net \<and>
      t = (if mig_migration (ts_migrationParams ts) then Some (micro (mig_ts (ts_migrationParams ts))) else None))"
    using SetupApplications_closed [of "ts\<lparr>ts_base := net\<rparr>" ipv4] by auto
qed

lemma node_address_cong:
  "\<lbrakk>sb_podWidth a = sb_podWidth b; sb_podCount a = sb_podCount b\<rbrakk> \<Longrightarrow> node_address ipv4 a n = node_address ipv4 b n"
  by (cases n) (simp_all add: host_address_def)

lemma clients_at_base: "sb_podWidth net = sb_podWidth (ts_base ts) \<Longrightarrow> sb_simParameters net = sb_simParameters (ts_base ts) \<Longrightarrow>
    clients_at ipv4 (ts\<lparr>ts_base := net\<rparr>) = clients_at ipv4 ts \<and> sinks_at ipv4 (ts\<lparr>ts_base := net\<rparr>) = sinks_at ipv4 ts"
  by (simp add: clients_at_def sinks_at_def fun_eq_iff host_address_def uses_udp_def migrating_def split: option.splits)

lemma deployed_base:
  assumes "prepared ipv4 masks (ts_base ts) net"
  shows "deployed ipv4 (ts\<lparr>ts_base := net\<rparr>) = deployed ipv4 ts"
proof -
  let ?ts = "ts\<lparr>ts_base := net\<rparr>"
  note plan = prepared_plan(1-3) [OF assms]
  have same: "migrating ?ts = migrating ts" "uses_udp ?ts = uses_udp ts" "target_sink ?ts = target_sink ts"
    using plan(3) by (simp_all add: migrating_def fun_eq_iff uses_udp_def target_sink_def)
  have fields: "ts_base ?ts = net" "ts_destinations ?ts = ts_destinations ts" "ts_migrationParams ?ts = ts_migrationParams ts"
      "ts_startTime ?ts = ts_startTime ts" "ts_stopTime ?ts = ts_stopTime ts" "ts_containerToFlows ?ts = ts_containerToFlows ts"
    by simp_all
  show ?thesis
    by (intro ext) (simp only: deployed_def fields same plan)
qed

lemma deployed_closed_all:
  assumes "names_ok (sb_containerGroups (ts_base ts))"
    and "sb_leafCount (ts_base ts) = length (sb_containerGroups (ts_base ts))"
    and "tunnel_ready ipv4 (sb_containerGroups (ts_base ts)) sb (ts_base ts)" and "host_address ipv4 sb = host_address ipv4 (ts_base ts)"
  shows "deployed ipv4 ts (at_source ts (fold (moved_from ts) (slots (sb_containerGroups (ts_base ts))) src))
    (concat (map (host_apps ipv4 ts) (host_pairs (ts_base ts))) @ other_apps ipv4 (ts_base ts))" (is "deployed ipv4 ts ?ts' ?apps")
proof -
  let ?S = "slots (sb_containerGroups (ts_base ts))"
  have one: "sb_virtualToPhysical (ts_base ?ts') (word_of_nat k) = Some (host_address ipv4 (ts_base ts) i j)"
      "migrating ts (word_of_nat k) \<and> sint (word_of_nat k :: u32) \<in> ts_destinations ts \<longrightarrow>
         ts_migrationSrcLeaf ?ts' = word_of_nat i \<and> ts_migrationSrcHost ?ts' = word_of_nat j"
    if k: "k < length ?S" "?S ! k = ((i, j), c)" "\<not> contains c ''Gateway''" for k i j c
  proof -
    show "sb_virtualToPhysical (ts_base ?ts') (word_of_nat k) = Some (host_address ipv4 (ts_base ts) i j)"
      using assms(3,4) k(1,2) by (fastforce simp: tunnel_ready_def at_source_def IpUtils_GetContainerVirtualAddress_def)
    show "migrating ts (word_of_nat k) \<and> sint (word_of_nat k :: u32) \<in> ts_destinations ts \<longrightarrow>
         ts_migrationSrcLeaf ?ts' = word_of_nat i \<and> ts_migrationSrcHost ?ts' = word_of_nat j"
      using deployed_closed(3) [OF assms(1,2) k] by (simp add: at_source_def)
  qed
  note apps = deployed_closed(1,2) [OF assms(1,2), unfolded clients_at_def sinks_at_def]
  show ?thesis
    unfolding deployed_def Let_def
  proof (intro allI impI, clarify)
    fix k i j c
    assume k: "k < length ?S" "?S ! k = ((i, j), c)" "\<not> contains c ''Gateway''"
    note facts = one [OF k] apps [OF k, of ipv4]
    show "sb_virtualToPhysical (ts_base ?ts') (word_of_nat k) = Some (host_address ipv4 (ts_base ts) i j) \<and>
      filter (is_client (word_of_nat k)) ?apps = (case map_of (ts_containerToFlows ts) (word_of_nat k) of None \<Rightarrow> []
        | Some flows \<Rightarrow> [ClientAppOn (HostN i j) flows (word_of_nat k) (host_address ipv4 (ts_base ts) i j) (uses_udp ts)]) \<and>
      mset (filter (is_sink (word_of_nat k)) ?apps) =
        (if sint (word_of_nat k :: u32) \<in> ts_destinations ts
         then {#SinkApp (HostN i j) (word_of_nat k) (uses_udp ts) (Some (host_address ipv4 (ts_base ts) i j)) (ts_startTime ts)
                 (if migrating ts (word_of_nat k) then micro (mig_ts (ts_migrationParams ts)) else ts_stopTime ts)#} else {#}) +
        (if migrating ts (word_of_nat k) \<and> in_vec2 (sb_containerGroups (ts_base ts))
              (unat (mig_dstLeaf (ts_migrationParams ts))) (unat (mig_dstHost (ts_migrationParams ts)))
         then {#target_sink ts#} else {#}) \<and>
      (migrating ts (word_of_nat k) \<and> sint (word_of_nat k :: u32) \<in> ts_destinations ts \<longrightarrow>
         ts_migrationSrcLeaf ?ts' = word_of_nat i \<and> ts_migrationSrcHost ?ts' = word_of_nat j)"
      unfolding facts(3,4) by (intro conjI facts(1,2) refl) simp
  qed
qed

text \<open>C12: The applications fit the trace and the placement. With different container names and at least one
  gateway, the set-up of the simulation succeeds, and for every container that is not a gateway it installs exactly
  one client with the flows of the trace if there are any, and exactly one server if some flow goes to the
  container, both on the host to which the address table maps the container. The container that migrates has a
  second server on its new host that starts when the first one stops, and its old host is recorded for the
  migration.\<close>

theorem applications_deployed:
  assumes "SimulationBase_new params groups migParams uninit = Inr (ts_base ts)" and "octets_ok params groups"
    and "names_ok groups" and "gateway_slots groups \<noteq> []"
  shows "returns (TraceSimulation_Run ipv4 masks ts) (\<lambda>(ts', apps, t). deployed ipv4 ts ts' apps)"
proof (rule returns_mono [OF Run_closed [OF assms, of ipv4 masks]], clarify)
  fix net
  let ?ts = "ts\<lparr>ts_base := net\<rparr>"
  assume net: "prepared ipv4 masks (ts_base ts) net"
  note plan = prepared_plan [OF net] and new = SimulationBase_new_ids(3) [OF assms(1,3)]
  have "sb_leafCount (ts_base ts) = length groups"
    using SimulationBase_new_dims [OF assms(1,2)] dims_okD(4) new by metis
  moreover have "tunnel_ready ipv4 groups (ts_base ts) net"
    using net new by (simp add: prepared_def)
  ultimately show "deployed ipv4 ts (at_source ?ts (fold (moved_from ?ts) (slots groups) (ts_migrationSrcLeaf ts, ts_migrationSrcHost ts)))
      (concat (map (host_apps ipv4 ?ts) (host_pairs net)) @ other_apps ipv4 net)"
    using deployed_closed_all [of ?ts ipv4 "ts_base ts"] assms(3) plan(1,2,5) new by (simp add: deployed_base [OF net])
qed

text \<open>A simulation on the concrete fat tree: container 0 sends to container 1, which moves from the second leaf to
  the fourth.\<close>

definition flow1 :: Flow where
  "flow1 = \<lparr>flow_ts = 5000, flow_dst = 1, flow_flowId = 7, flow_size = 1500\<rparr>"

definition sim_on :: "SimulationBase \<Rightarrow> TraceSimulation" where
  "sim_on sb = \<lparr>ts_base = sb, ts_receivedPackets = 0, ts_sentPackets = 0, ts_gwPackets = 0, ts_generatedLearning = 0,
     ts_generatedInvalidation = 0, ts_droppedPackets = 0, ts_totalPacketLatency = 0, ts_totalPacketHops = 0,
     ts_startTime = 0, ts_stopTime = 60000005000, ts_containerToFlows = [(0, [flow1])],
     ts_switchToProcessedPackets = [], ts_switchToCacheHits = [], ts_switchToProcessedBytes = [],
     ts_switchToFirstCacheHits = [], ts_flowStats = [], ts_destinations = {1}, ts_migrationParams = mig0,
     ts_migrationSrcLeaf = 0, ts_migrationSrcHost = 0\<rparr>"

lemma slots1: "slots groups1 = [((0, 0), ''A''), ((1, 0), ''B''), ((2, 0), ''Gateway0''), ((3, 0), ''C'')]"
  by (simp add: slots_def groups1_def upt_rec)

lemma in_groups1: "in_vec2 groups1 3 0"
  by (simp add: in_vec2_def groups1_def)

lemma sim_on_simps [simp]:
  "ts_base (sim_on sb) = sb" "ts_destinations (sim_on sb) = {1}" "ts_migrationParams (sim_on sb) = mig0"
  "ts_startTime (sim_on sb) = 0" "ts_stopTime (sim_on sb) = 60000005000" "ts_containerToFlows (sim_on sb) = [(0, [flow1])]"
  "uses_udp (sim_on sb)" "migrating (sim_on sb) k \<longleftrightarrow> k = 1"
  "target_sink (sim_on sb) = SinkApp (HostN 3 0) 1 True None 5000 60000005000"
  by (simp_all add: sim_on_def uses_udp_def migrating_def mig0_def target_sink_def micro_def)

theorem applications_deployed_witness:
  "\<exists>sb. SimulationBase_new params1 groups1 mig0 0 = Inr sb \<and>
     returns (TraceSimulation_Run parse_quad parse_quad (sim_on sb)) (\<lambda>(ts', apps, t).
       filter (is_client 0) apps = [ClientAppOn (HostN 0 0) [flow1] 0 (host_address parse_quad sb 0 0) True] \<and>
       mset (filter (is_sink 1) apps) =
         {#SinkApp (HostN 1 0) 1 True (Some (host_address parse_quad sb 1 0)) 0 5000,
           SinkApp (HostN 3 0) 1 True None 5000 60000005000#} \<and>
       ts_migrationSrcLeaf ts' = 1 \<and> ts_migrationSrcHost ts' = 0)"
proof -
  obtain sb where sb: "SimulationBase_new params1 groups1 mig0 0 = Inr sb" "sb_containerGroups sb = groups1"
    using sb1_ok by blast
  have "returns (TraceSimulation_Run parse_quad parse_quad (sim_on sb)) (\<lambda>(ts', apps, t). deployed parse_quad (sim_on sb) ts' apps)"
    by (rule applications_deployed [of params1 groups1 mig0 0, OF _ octets1 names1(1)]) (simp_all add: sim_on_def sb(1) names1)
  then have "returns (TraceSimulation_Run parse_quad parse_quad (sim_on sb)) (\<lambda>(ts', apps, t).
       filter (is_client 0) apps = [ClientAppOn (HostN 0 0) [flow1] 0 (host_address parse_quad sb 0 0) True] \<and>
       mset (filter (is_sink 1) apps) =
         {#SinkApp (HostN 1 0) 1 True (Some (host_address parse_quad sb 1 0)) 0 5000,
           SinkApp (HostN 3 0) 1 True None 5000 60000005000#} \<and>
       ts_migrationSrcLeaf ts' = 1 \<and> ts_migrationSrcHost ts' = 0)"
  proof (rule returns_mono, clarify)
    fix ts' apps
    assume "deployed parse_quad (sim_on sb) ts' apps"
    note all = this [unfolded deployed_def sim_on_simps sb(2) Let_def, rule_format]
    show "filter (is_client 0) apps = [ClientAppOn (HostN 0 0) [flow1] 0 (host_address parse_quad sb 0 0) True] \<and>
       mset (filter (is_sink 1) apps) =
         {#SinkApp (HostN 1 0) 1 True (Some (host_address parse_quad sb 1 0)) 0 5000,
           SinkApp (HostN 3 0) 1 True None 5000 60000005000#} \<and>
       ts_migrationSrcLeaf ts' = 1 \<and> ts_migrationSrcHost ts' = 0"
      using all [of 0] all [of 1] by (simp add: slots1 mig0_def micro_def in_groups1 add_mset_commute)
  qed
  with sb(1) show ?thesis by blast
qed

section \<open>One application on every switch\<close>

fun role_ok :: "ContainerGroups \<Rightarrow> nat \<Rightarrow> sim_node \<Rightarrow> SwitchType \<Rightarrow> bool" where
  "role_ok groups w (HostN i j) t \<longleftrightarrow> False"
| "role_ok groups w (LeafN i) t \<longleftrightarrow> t = (if i \<in> fst ` set (gateway_slots groups) then GW_LEAF else LEAF)"
| "role_ok groups w (SpineN i) t \<longleftrightarrow>
     t = (if i div w \<in> (\<lambda>s. fst s div w) ` set (gateway_slots groups) then GW_SPINE else SPINE)"
| "role_ok groups w (CoreN i) t \<longleftrightarrow> t = CORE"

abbreviation switch_places :: "sim_app list \<Rightarrow> sim_node list" where
  "switch_places \<equiv> List.map_filter switch_of"

lemma switch_places_append: "switch_places (xs @ ys) = switch_places xs @ switch_places ys"
  by (simp add: List.map_filter_def)

lemma switch_places_map:
  "switch_places (map (\<lambda>i. P4App (n i) (a i) (t i) (m i)) xs) = map n xs"
  "switch_places (map (\<lambda>i. CtrlApp (n i) (m' i)) xs) = map n xs"
  by (simp_all add: List.map_filter_def comp_def)

lemma switch_places_none: "\<forall>a \<in> set xs. switch_of a = None \<Longrightarrow> switch_places xs = []"
  by (simp add: List.map_filter_def filter_empty_conv)

lemma host_apps_none: "\<forall>a \<in> set (concat (map (host_apps ipv4 ts) ps)). switch_of a = None"
  by (auto simp: host_apps_def target_apps_def slot_apps_def sinks_at_def clients_at_def Let_def
      split: if_splits option.splits)

lemma leaves_split:
  assumes "G \<subseteq> {0..<n}"
  shows "mset (map f (sorted_list_of_set G)) + mset (map f (filter (\<lambda>i. i \<notin> G) [0..<n])) = mset (map f [0..<n])"
proof -
  have "sorted_list_of_set G = filter (\<lambda>i. i \<in> G) [0..<n]"
    using assms finite_subset [OF assms] by (intro sorted_distinct_set_unique) (auto simp: sorted_wrt_filter)
  then show ?thesis
    using multiset_partition [of "mset [0..<n]" "\<lambda>i. i \<in> G"] by (metis mset_map mset_filter image_mset_union)
qed

lemma switches_everywhere:
  assumes "gateway_leaves sb \<subseteq> {0..<sb_leafCount sb}"
  shows "mset (switch_places (SetupApplications_switches ipv4 sb)) = mset (switch_nodes sb)"
proof -
  have "mset (switch_places (SetupApplications_gwCache ipv4 sb)) = mset (switch_nodes sb)"
    unfolding SetupApplications_gwCache_def no_cache_spines_def switch_places_append switch_places_map switch_nodes_def
      mset_append add.assoc [symmetric] leaves_split [OF assms, of LeafN] ..
  then show ?thesis
    by (simp add: SetupApplications_switches_def SetupApplications_v2p_def SetupApplications_bluebird_def
        no_cache_spines_def switch_places_append switch_places_map switch_nodes_def Let_def)
qed

lemma gateway_places:
  assumes "sb_gws sb = map (\<lambda>(i, j). (word_of_nat i, word_of_nat j)) gs" and "\<forall>(i, j) \<in> set gs. i < 2 ^ 32"
  shows "gateway_leaves sb = fst ` set gs" and "gateway_pods sb = (\<lambda>s. fst s div sb_podWidth sb) ` set gs"
  using assms(2) unfolding gateway_leaves_def gateway_pods_def assms(1) set_map image_image
  by (auto intro!: image_cong)

lemma switch_apps_ok:
  assumes "gateway_leaves sb = fst ` set (gateway_slots groups)"
    and "gateway_pods sb = (\<lambda>s. fst s div sb_podWidth sb) ` set (gateway_slots groups)"
    and "P4App n a t m \<in> set (SetupApplications_switches ipv4 sb)"
  defines "mode \<equiv> SimMode (sb_simParameters sb)"
  shows "a = node_address ipv4 sb n" and "m = (if mode = GwCache then LocalLearning else mode)"
    and "if mode = Bluebird then t = LEAF else role_ok groups (sb_podWidth sb) n t"
  using assms(3)
  by (auto simp: SetupApplications_switches_def SetupApplications_v2p_def SetupApplications_gwCache_def
      SetupApplications_bluebird_def no_cache_spines_def Let_def assms(1,2) mode_def image_iff Bex_def split: if_splits)

text \<open>C18: Every switch runs exactly one switch application, in every mode: the set-up gives each leaf, spine and
  core one, and nothing else. A programmable switch is installed with the address of its node, to which the other
  switches send learning packets, with the mode of the simulation (a gateway cache learns locally), and with the
  role of its place: the leaves of gateways and the spines of their pods are gateway switches.\<close>

theorem one_app_per_switch:
  assumes "SimulationBase_new params groups migParams uninit = Inr (ts_base ts)" and "octets_ok params groups"
    and "names_ok groups" and "gateway_slots groups \<noteq> []"
  shows "returns (TraceSimulation_Run ipv4 masks ts) (\<lambda>(ts', apps, t).
    mset (List.map_filter switch_of apps) = mset (switch_nodes (ts_base ts)) \<and>
    (\<forall>n a r m. P4App n a r m \<in> set apps \<longrightarrow>
       a = node_address ipv4 (ts_base ts) n \<and> m = (if SimMode params = GwCache then LocalLearning else SimMode params) \<and>
       (if SimMode params = Bluebird then r = LEAF else role_ok groups (sb_podWidth (ts_base ts)) n r)))"
proof (rule returns_mono [OF Run_closed [OF assms, of ipv4 masks]], clarify)
  fix net
  let ?ts = "ts\<lparr>ts_base := net\<rparr>"
  assume net: "prepared ipv4 masks (ts_base ts) net"
  note plan = prepared_plan [OF net] and new = SimulationBase_new_ids [OF assms(1,3)]
  have len: "sb_leafCount (ts_base ts) = length groups" "length groups < 2 ^ 32"
    using SimulationBase_new_dims [OF assms(1,2)] dims_okD(4) new(3) assms(2) by (metis, simp add: octets_ok_def)
  have "i < length groups" if "(i, j) \<in> set (gateway_slots groups)" for i j
    using that gateway_slots_subset [of groups] slots_in_pairs [of "ts_base ts" i j] len new(3)
    by (force simp: host_pairs_iff)
  then have gw: "\<forall>(i, j) \<in> set (gateway_slots groups). i < length groups \<and> i < 2 ^ 32"
    using len(2) by (auto intro: less_trans)
  have leaves: "gateway_leaves net = fst ` set (gateway_slots groups)"
      "gateway_pods net = (\<lambda>s. fst s div sb_podWidth net) ` set (gateway_slots groups)"
    using gateway_places [OF trans [OF plan(4) new(2)]] gw by blast+
  have mode: "SimMode (sb_simParameters net) = SimMode params"
    using plan(3) SimulationBase_new_shape(4) [OF assms(1,2)] by simp
  have addr: "node_address ipv4 net n = node_address ipv4 (ts_base ts) n" for n
    by (rule node_address_cong) (simp_all add: plan)
  let ?hosts = "concat (map (host_apps ipv4 ?ts) (host_pairs net))"
  have "switch_places (?hosts @ other_apps ipv4 net) = switch_places (SetupApplications_switches ipv4 net)"
    unfolding switch_places_append other_apps_def switch_places_none [OF host_apps_none]
    by (simp add: List.map_filter_def comp_def)
  moreover have "switch_nodes net = switch_nodes (ts_base ts)"
    by (simp add: switch_nodes_def plan)
  moreover have "gateway_leaves net \<subseteq> {0..<sb_leafCount net}"
    using gw leaves(1) plan(5) len(1) by auto
  moreover have "P4App n a r m \<in> set (SetupApplications_switches ipv4 net)"
    if "P4App n a r m \<in> set (?hosts @ other_apps ipv4 net)" for n a r m
    using that bspec [OF host_apps_none, of "P4App n a r m" ipv4 ?ts "host_pairs net"]
    by (auto simp only: other_apps_def set_append Un_iff set_map switch_of.simps split: if_splits) auto
  ultimately show "mset (switch_places (?hosts @ other_apps ipv4 net)) = mset (switch_nodes (ts_base ts)) \<and>
    (\<forall>n a r m. P4App n a r m \<in> set (?hosts @ other_apps ipv4 net) \<longrightarrow>
       a = node_address ipv4 (ts_base ts) n \<and> m = (if SimMode params = GwCache then LocalLearning else SimMode params) \<and>
       (if SimMode params = Bluebird then r = LEAF else role_ok groups (sb_podWidth (ts_base ts)) n r))"
    using switches_everywhere [of net ipv4] switch_apps_ok [OF leaves, of _ _ _ _ ipv4, unfolded mode addr plan(8)]
    by (intro conjI allI impI) (simp, blast+)
qed

theorem one_app_per_switch_witness:
  "\<exists>sb. SimulationBase_new params1 groups1 mig0 0 = Inr sb \<and>
     returns (TraceSimulation_Run parse_quad parse_quad (sim_on sb)) (\<lambda>(ts', apps, t).
       size (mset (List.map_filter switch_of apps)) = 10 \<and> CoreN 1 \<in># mset (List.map_filter switch_of apps) \<and>
       (\<forall>a r m. P4App (LeafN 2) a r m \<in> set apps \<longrightarrow> r = GW_LEAF))"
proof -
  obtain sb where sb: "SimulationBase_new params1 groups1 mig0 0 = Inr sb" "sb_leafCount sb = 4" "sb_spineCount sb = 4"
      "sb_coreCount sb = 2"
    using sb1_ok by blast
  note installed = one_app_per_switch [of params1 groups1 mig0 0 "sim_on sb" parse_quad parse_quad, OF _ octets1 names1(1)]
  have "returns (TraceSimulation_Run parse_quad parse_quad (sim_on sb)) (\<lambda>(ts', apps, t).
       size (mset (List.map_filter switch_of apps)) = 10 \<and> CoreN 1 \<in># mset (List.map_filter switch_of apps) \<and>
       (\<forall>a r m. P4App (LeafN 2) a r m \<in> set apps \<longrightarrow> r = GW_LEAF))"
  proof (rule returns_mono [OF installed], unfold sim_on_simps, rule sb(1), simp add: names1, clarify, intro conjI allI impI)
    fix apps a r m
    assume all: "mset (switch_places apps) = mset (switch_nodes sb)" "\<forall>n a r m. P4App n a r m \<in> set apps \<longrightarrow>
       a = node_address parse_quad sb n \<and> m = (if SimMode params1 = GwCache then LocalLearning else SimMode params1) \<and>
       (if SimMode params1 = Bluebird then r = LEAF else role_ok groups1 (sb_podWidth sb) n r)"
    show "size (mset (switch_places apps)) = 10" "CoreN 1 \<in># mset (switch_places apps)"
      unfolding all(1) by (simp_all add: switch_nodes_def sb(2-))
    assume "P4App (LeafN 2) a r m \<in> set apps"
    with all(2) have "if SimMode params1 = Bluebird then r = LEAF else role_ok groups1 (sb_podWidth sb) (LeafN 2) r"
      by blast
    then show "r = GW_LEAF"
      by (simp add: params1_def names1)
  qed
  with sb(1) show ?thesis by blast
qed

end
