(* ===== verification/Routed_Delivery.thy ===== *)
theory Routed_Delivery
  imports Network_Delivery Trace_Apps
begin

text \<open>
  Packets on their way through the network that the set-up builds: the routes of \<^verbatim>\<open>sim-base.cc\<close> forward, the
  interceptor of \<^verbatim>\<open>p4-switch-app.cc\<close> handles the packet at every switch it passes and may change where it goes. Between
  any two hops anything else may happen in the network, so that the caches a packet finds are not those of the moment
  it was sent. ns-3 decrements the TTL of a packet at each hop; it is left open, as a walk has at most twelve hops.
\<close>

section \<open>Walks\<close>

text \<open>The state of the network, the node where the packet is, and the packet. \<open>lookup\<close> chooses among equal routes, \<open>rnd\<close> is the
  random number the switch draws; switch \<open>i\<close> runs on node \<open>switch_nodes sb ! i\<close>.\<close>

type_synonym located = "Net \<times> sim_node \<times> Packet"

inductive routed_hop ::
  "net_env \<Rightarrow> ipv4_parser \<Rightarrow> SimulationBase \<Rightarrow> lookup \<Rightarrow> real \<Rightarrow> located \<Rightarrow> located \<Rightarrow> bool" for N masks sb lookup rnd where
  from_host: "\<lbrakk>p \<in> set (nt_flight s); pkt_headers p = HIp ip # hs; forward lookup masks sb (ip_dst ip) (HostN i j) = Some y\<rbrakk> \<Longrightarrow>
     routed_hop N masks sb lookup rnd (s, HostN i j, p) (s, y, p)"
| at_switch: "\<lbrakk>nt_flight s = xs @ p # ys; pkt_headers p = HIp ip # hs; i < length (nt_switches s); i < length (switch_nodes sb);
     P4SwitchApp_ReceivePacket (ne_env N) rnd \<lparr>cx_pkt = p\<lparr>pkt_headers := hs\<rparr>, cx_ip = ip,
       cx_sw = nt_switches s ! i, cx_eff = []\<rparr> = Inr (True, cx);
     forward lookup masks sb (ip_dst (cx_ip cx)) (switch_nodes sb ! i) = Some y;
     q = AddHeader (HIp ((cx_ip cx)\<lparr>ip_ttl := t\<rparr>)) (cx_pkt cx)\<rbrakk> \<Longrightarrow>
     routed_hop N masks sb lookup rnd (s, switch_nodes sb ! i, p) (s\<lparr>nt_switches := (nt_switches s)[i := cx_sw cx],
       nt_flight := xs @ [q] @ ys @ sent_packets N (p4s_switchAddress (cx_sw cx)) (cx_eff cx)\<rparr>, y, q)"

text \<open>A walk of \<open>k\<close> hops, between which the packet waits while the network goes on.\<close>

inductive routed :: "net_env \<Rightarrow> ipv4_parser \<Rightarrow> SimulationBase \<Rightarrow> located \<Rightarrow> nat \<Rightarrow> located \<Rightarrow> bool" for N masks sb z where
  here: "routed N masks sb z 0 z"
| wait: "\<lbrakk>routed N masks sb z k (s, x, p); net_step N s t; p \<in> set (nt_flight t)\<rbrakk> \<Longrightarrow> routed N masks sb z k (t, x, p)"
| walk: "\<lbrakk>routed N masks sb z k u; ns3_lookup lookup; routed_hop N masks sb lookup rnd u v\<rbrakk> \<Longrightarrow> routed N masks sb z (Suc k) v"

text \<open>Every address a packet may have is the address of a host.\<close>

definition sites :: "net_env \<Rightarrow> ipv4_parser \<Rightarrow> SimulationBase \<Rightarrow> bool" where
  "sites N ipv4 sb \<longleftrightarrow> (\<forall>a. a \<in> ne_gws N \<or> a \<in> ran (ne_vtp0 N) \<or> a = ne_target N \<longrightarrow>
     (\<exists>i j. is_node sb (HostN i j) \<and> host_address ipv4 sb i j = a))"

text \<open>A hop of a walk is a step of the network, or none.\<close>

lemma routed_hop_step:
  assumes "routed_hop N masks sb lookup rnd (s, x, p) (t, y, q)"
  shows "(t = s \<or> net_step N s t) \<and> q \<in> set (nt_flight t)"
  using assms
proof (cases rule: routed_hop.cases)
  case (at_switch xs ys ip hs i cx tm)
  then show ?thesis
    using net_step.hop [of s xs p ys ip hs i N rnd True cx tm] by auto
qed auto

lemma net_step_switches: "net_step N s t \<Longrightarrow> length (nt_switches t) = length (nt_switches s)"
  by (induction rule: net_step.induct) simp_all

section \<open>Where a switch leads a packet\<close>

text \<open>A switch redirects a packet at most once on its way: from a gateway to a host.\<close>

lemma hop_redirects:
  assumes cfg: "strict_cfg N" and inv: "net_inv N s" and fl: "flight_ok N s p" and clean: "flight_clean L N s p"
    and hd: "pkt_headers p = HIp ip # HUdp u # HIp inner # hs" "udp_dport u = PORT_NUMBER"
    and sw: "switch_ok N s sw" "(p4s_simMode sw = LocalLearning) = L"
  shows "returns (P4SwitchApp_ReceivePacket (ne_env N) rnd \<lparr>cx_pkt = p\<lparr>pkt_headers := HUdp u # HIp inner # hs\<rparr>, cx_ip = ip,
      cx_sw = sw, cx_eff = []\<rparr>) (\<lambda>(fwd, cx). fwd \<and> pkt_headers (cx_pkt cx) = HUdp u # HIp inner # hs \<and>
      (ip_dst (cx_ip cx) = ip_dst ip \<or> ip_dst ip \<in> ne_gws N \<and> ip_dst (cx_ip cx) \<notin> ne_gws N))"
proof -
  let ?cx = "\<lparr>cx_pkt = p\<lparr>pkt_headers := HUdp u # HIp inner # hs\<rparr>, cx_ip = ip, cx_sw = sw, cx_eff = []\<rparr>"
  note held = strict_cfgD(2) [OF cfg, of s]
  have range: "\<And>v a. had N s v a \<Longrightarrow> a \<noteq> 0 \<and> a \<notin> ne_gws N"
    using held_range [OF strict_cfgD(1) [OF cfg] inv] held by simp
  then have nz: "\<forall>v a. had N s v a \<longrightarrow> a \<noteq> 0"
    by blast
  obtain fwd cx where run: "P4SwitchApp_ReceivePacket (ne_env N) rnd ?cx = Inr (fwd, cx)" "fwd"
      "pkt_headers (cx_pkt cx) = HUdp u # HIp inner # hs" and led: "led (had N s) (ip_dst inner) ?cx cx"
    using ReceivePacket_ok [OF flight_arrives [OF fl hd(1) sw(1), unfolded held] nz, of rnd] hd(2)
    by (auto simp: returns_def data_packet_def SWITCH_PORT_def PORT_NUMBER_def hit_kept_def)
  have "ip_dst (cx_ip cx) = ip_dst ip" if d: "ip_dst ip \<notin> ne_gws N"
  proof (cases "pkt_inval p")
    case None
    then show ?thesis
      using led d sw(1) by (simp add: led_def switch_ok_def)
  next
    case (Some t)
    have bb: "p4s_simMode sw \<noteq> Bluebird" "p4s_gwAddresses sw = ne_gws N"
      using sw(1) by (simp_all add: switch_ok_def)
    note dst = ReceivePacket_dst [OF run(1) _ hd(2) bb(1), of inner hs, simplified]
    show ?thesis
    proof (cases L)
      case True
      then show ?thesis
        using dst(2) sw(2) d bb(2) by simp
    next
      case False
      have "data_ok N s (ip_src ip) (ip_dst ip) inner p"
        using fl hd by (auto simp: flight_ok_def SWITCH_PORT_def PORT_NUMBER_def)
      then have key: "it_key t = ip_dst inner" and old: "had N s (ip_dst inner) (ip_dst ip)"
        using Some d by (auto simp: data_ok_def dst_ok_def held)
      have t: "stale N s t" "ip_dst ip \<noteq> it_val t"
        using clean hd Some by (auto simp: flight_clean_def clean_def)
      have only: "a = ne_target N" if "had N s (ip_dst inner) a" "a \<noteq> it_val t" for a
        using stale_migrated [OF inv t(1)] that key by (auto simp: had_def)
      have "ip_dst (cx_ip cx) = ip_dst ip \<or> had N s (ip_dst inner) (ip_dst (cx_ip cx)) \<and> ip_dst (cx_ip cx) \<noteq> it_val t"
        using led dst(3) [of t] Some False sw(2) by (auto simp: led_def)
      then show ?thesis
        using only [of "ip_dst (cx_ip cx)"] only [OF old t(2)] by metis
    qed
  qed
  moreover have "ip_dst (cx_ip cx) = ip_dst ip \<or> ip_dst (cx_ip cx) \<notin> ne_gws N"
    using led range by (auto simp: led_def)
  ultimately show ?thesis
    using run by auto
qed

section \<open>Walks end\<close>

context forwarding_plane
begin

text \<open>A packet for a host comes closer to it with every hop.\<close>

lemma closer_to_host:
  assumes "is_node sb (HostN i j)" and "is_node sb x" and "x \<noteq> HostN i j"
  shows "\<exists>y. forward lookup masks sb (host_address ipv4 sb i j) x = Some y \<and> is_node sb y \<and>
    route_dist sb (HostN i j) y < route_dist sb (HostN i j) x"
  using progress [OF assms(1,2) _ assms(3)] by (auto simp: closer_def)

lemma stays_at_host:
  assumes "is_node sb (HostN i j)"
  shows "forward lookup masks sb (host_address ipv4 sb i j) (HostN i j) = None"
  using assms
proof (cases rule: target_cases)
  case (host p l j')
  have oct: "p + 1 < 256" "l < 256" "j' < 256" "(1 :: nat) < 256"
    using host(2,3,5) sizes(4,5) by simp_all
  have "quad (p + 1) l j' 1 \<in> set (own_addresses sb (HostN i j))"
    using own_host(2) [OF host(2-4) oct] host(1) by simp
  then show ?thesis
    using host(6) by (simp add: forward_def)
qed simp_all

end

text \<open>\<open>n\<close> hops suffice from node \<open>x\<close>: at most six to the gateway, and at most six to a host that a switch on the way may
  redirect the packet to.\<close>

definition hops_left :: "net_env \<Rightarrow> ipv4_parser \<Rightarrow> SimulationBase \<Rightarrow> nat \<Rightarrow> sim_node \<Rightarrow> u32 \<Rightarrow> bool" where
  "hops_left N ipv4 sb n x d \<longleftrightarrow> (\<exists>i j. is_node sb (HostN i j) \<and> host_address ipv4 sb i j = d \<and>
     route_dist sb (HostN i j) x + (if d \<in> ne_gws N then 6 else 0) \<le> n)"

lemma forward_closer:
  assumes "dotted_quad ipv4" and "dotted_quad masks" and "network_ok ipv4 masks sb" and "ns3_lookup lookup"
    and "is_node sb (HostN i j)" and "is_node sb x" and "x \<noteq> HostN i j"
  shows "\<exists>y. forward lookup masks sb (host_address ipv4 sb i j) x = Some y \<and> is_node sb y \<and>
    route_dist sb (HostN i j) y < route_dist sb (HostN i j) x"
  using forwarding_plane.closer_to_host [OF forwarding_plane.intro [OF assms(1,2,4,3)] assms(5-7)] .

lemma hops_left_forward:
  assumes plane: "dotted_quad ipv4" "dotted_quad masks" "network_ok ipv4 masks sb" "ns3_lookup lookup"
    and "hops_left N ipv4 sb n x d" and "is_node sb x" and "forward lookup masks sb d x = Some y"
  shows "\<exists>m. n = Suc m \<and> is_node sb y \<and> hops_left N ipv4 sb m y d"
proof -
  obtain i j where t: "is_node sb (HostN i j)" "host_address ipv4 sb i j = d"
      "route_dist sb (HostN i j) x + (if d \<in> ne_gws N then 6 else 0) \<le> n"
    using assms(5) unfolding hops_left_def by blast
  have "x \<noteq> HostN i j"
    using forwarding_plane.stays_at_host [OF forwarding_plane.intro [OF plane(1,2,4,3)] t(1)] assms(7) t(2) by auto
  with forward_closer [OF plane t(1) assms(6)] t(2) assms(7)
  have y: "is_node sb y" "route_dist sb (HostN i j) y < route_dist sb (HostN i j) x"
    by auto
  obtain m where m: "n = Suc m"
    using t(3) y(2) by (cases n) auto
  then have "route_dist sb (HostN i j) y + (if d \<in> ne_gws N then 6 else 0) \<le> m"
    using t(3) y(2) by linarith
  with m y(1) t(1,2) show ?thesis
    unfolding hops_left_def by blast
qed

text \<open>A packet for a gateway that is redirected to a host still arrives in time.\<close>

lemma hops_left_redirected:
  assumes "hops_left N ipv4 sb n x d" and "d \<in> ne_gws N" and "d' \<notin> ne_gws N"
    and "is_node sb (HostN i j)" and "host_address ipv4 sb i j = d'"
  shows "hops_left N ipv4 sb n x d'"
proof -
  have "6 \<le> n"
    using assms(1,2) by (auto simp: hops_left_def)
  moreover have "route_dist sb (HostN i j) x \<le> 6"
    by (rule route_dist_bound)
  ultimately show ?thesis
    using assms(3-5) unfolding hops_left_def by fastforce
qed

lemma flight_site:
  assumes cfg: "strict_cfg N" and "net_inv N s" and "flight_ok N s p" and "pkt_headers p = HIp ip # HUdp u # HIp inner # hs" and "udp_dport u = PORT_NUMBER"
    and "sites N ipv4 sb"
  shows "\<exists>i j. is_node sb (HostN i j) \<and> host_address ipv4 sb i j = ip_dst ip"
proof -
  have "dst_ok (had N s) (ne_gws N) (ip_dst inner) (ip_dst ip)"
    using assms(3-5) strict_cfgD(2) [OF cfg, of s] by (auto simp: flight_ok_def data_ok_def SWITCH_PORT_def PORT_NUMBER_def)
  then have "ip_dst ip \<in> ne_gws N \<or> ip_dst ip \<in> ran (ne_vtp0 N) \<or> ip_dst ip = ne_target N"
    using assms(2) by (auto simp: dst_ok_def had_def net_inv_def ran_def split: if_splits)
  then show ?thesis
    using assms(6) unfolding sites_def by blast
qed

text \<open>The invariant of a walk with \<open>n\<close> hops left.\<close>

definition on_walk :: "bool \<Rightarrow> net_env \<Rightarrow> ipv4_parser \<Rightarrow> SimulationBase \<Rightarrow> header list \<Rightarrow> nat \<Rightarrow> located \<Rightarrow> bool" where
  "on_walk L N ipv4 sb hs n z \<longleftrightarrow> (case z of (s, x, p) \<Rightarrow>
     net_inv N s \<and> tag_inv L N s \<and> length (nt_switches s) = length (switch_nodes sb) \<and> p \<in> set (nt_flight s) \<and> is_node sb x \<and>
     (\<exists>ip. pkt_headers p = HIp ip # hs \<and> hops_left N ipv4 sb n x (ip_dst ip)))"

lemma on_walkD:
  assumes "on_walk L N ipv4 sb hs n (s, x, p)"
  shows "net_inv N s" and "tag_inv L N s" and "length (nt_switches s) = length (switch_nodes sb)" and "p \<in> set (nt_flight s)"
    and "is_node sb x" and "flight_ok N s p" and "flight_clean L N s p"
  using assms by (auto simp: on_walk_def net_inv_def tag_inv_def)

lemma on_walk_hop:
  assumes plane: "dotted_quad ipv4" "dotted_quad masks" "network_ok ipv4 masks sb" "ns3_lookup lookup"
    and cfg: "strict_cfg N" and sites: "sites N ipv4 sb" and u: "udp_dport u = PORT_NUMBER"
    and ok: "on_walk L N ipv4 sb (HUdp u # HIp inner # hs) n (s, x, p)"
    and hop: "routed_hop N masks sb lookup rnd (s, x, p) (t, y, q)"
  shows "\<exists>m. n = Suc m \<and> on_walk L N ipv4 sb (HUdp u # HIp inner # hs) m (t, y, q)"
proof -
  note inv = on_walkD [OF ok]
  obtain ip where hd: "pkt_headers p = HIp ip # HUdp u # HIp inner # hs" and left: "hops_left N ipv4 sb n x (ip_dst ip)"
    using ok by (auto simp: on_walk_def)
  have step: "t = s \<or> net_step N s t" "q \<in> set (nt_flight t)"
    using routed_hop_step [OF hop] by simp_all
  then have t: "net_inv N t" "tag_inv L N t" "length (nt_switches t) = length (switch_nodes sb)"
    using inv(1-3) net_step_inv [OF strict_cfgD(1) [OF cfg] _ inv(1)] net_step_clean [OF cfg _ inv(1,2)] net_step_switches by auto
  from hop show ?thesis
  proof (cases rule: routed_hop.cases)
    case (from_host ip' hs' i j)
    then show ?thesis
      using hops_left_forward [OF plane left inv(5), of y] hd inv by (auto simp: on_walk_def)
  next
    case (at_switch xs ys ip' hs' i cx tm)
    have sw: "switch_ok N s (nt_switches s ! i)" "(p4s_simMode (nt_switches s ! i) = LocalLearning) = L"
      using inv(1,2) at_switch(5) by (simp_all add: net_inv_def tag_inv_def mode_ok_def)
    from hop_redirects [OF cfg inv(1,6,7) hd u sw, of rnd]
    have cx: "pkt_headers (cx_pkt cx) = HUdp u # HIp inner # hs"
        "ip_dst (cx_ip cx) = ip_dst ip \<or> ip_dst ip \<in> ne_gws N \<and> ip_dst (cx_ip cx) \<notin> ne_gws N"
      using at_switch(4,7) hd by simp_all
    have q: "pkt_headers q = HIp ((cx_ip cx)\<lparr>ip_ttl := tm\<rparr>) # HUdp u # HIp inner # hs"
      using cx(1) at_switch(9) by (simp add: AddHeader_def)
    have "flight_ok N t q"
      using t(1) step(2) by (simp add: net_inv_def)
    from flight_site [OF cfg t(1) this q u sites] obtain a b where
        "is_node sb (HostN a b)" "host_address ipv4 sb a b = ip_dst (cx_ip cx)"
      by auto
    then have "hops_left N ipv4 sb n x (ip_dst (cx_ip cx))"
      using cx(2) left hops_left_redirected [OF left] by metis
    from hops_left_forward [OF plane this inv(5)] at_switch(1,2,8)
    show ?thesis
      using t step(2) q by (auto simp: on_walk_def)
  qed
qed

lemma on_walk_wait:
  assumes "strict_cfg N" and "on_walk L N ipv4 sb hs n (s, x, p)" and "net_step N s t" and "p \<in> set (nt_flight t)"
  shows "on_walk L N ipv4 sb hs n (t, x, p)"
  using assms(2,4) on_walkD [OF assms(2)] net_step_inv [OF strict_cfgD(1) [OF assms(1)] assms(3)] net_step_clean [OF assms(1,3)] net_step_switches [OF assms(3)]
  by (simp add: on_walk_def)

text \<open>No walk is stuck before it has arrived, whatever route and random number is picked.\<close>

lemma on_walk_moves:
  assumes plane: "dotted_quad ipv4" "dotted_quad masks" "network_ok ipv4 masks sb" "ns3_lookup lookup"
    and cfg: "strict_cfg N" and sites: "sites N ipv4 sb" and u: "udp_dport u = PORT_NUMBER"
    and ok: "on_walk L N ipv4 sb (HUdp u # HIp inner # hs) n (s, x, p)"
    and hd: "pkt_headers p = HIp ip # HUdp u # HIp inner # hs"
    and t: "is_node sb (HostN i j)" "host_address ipv4 sb i j = ip_dst ip" "x \<noteq> HostN i j"
  shows "\<exists>v. routed_hop N masks sb lookup rnd (s, x, p) v"
proof (cases "\<exists>a b. x = HostN a b")
  case True
  then show ?thesis
    using forward_closer [OF plane t(1) _ t(3)] on_walkD(4,5) [OF ok] hd t(2) routed_hop.from_host [of p s ip] by metis
next
  case False
  note inv = on_walkD [OF ok]
  have "x \<in> set (switch_nodes sb)"
    using inv(5) False by (cases x) (auto simp: switch_nodes_def)
  then obtain k where k: "k < length (switch_nodes sb)" "x = switch_nodes sb ! k"
    by (metis in_set_conv_nth)
  have sw: "switch_ok N s (nt_switches s ! k)" "(p4s_simMode (nt_switches s ! k) = LocalLearning) = L"
    using inv(1-3) k(1) by (simp_all add: net_inv_def tag_inv_def mode_ok_def)
  obtain cx where run: "P4SwitchApp_ReceivePacket (ne_env N) rnd \<lparr>cx_pkt = p\<lparr>pkt_headers := HUdp u # HIp inner # hs\<rparr>, cx_ip = ip,
      cx_sw = nt_switches s ! k, cx_eff = []\<rparr> = Inr (True, cx)"
    using hop_redirects [OF cfg inv(1,6,7) hd u sw, of rnd] by (auto simp: returns_def)
  obtain xs ys where fl: "nt_flight s = xs @ p # ys"
    using inv(4) by (meson split_list)
  define q where "q = AddHeader (HIp (cx_ip cx)) (cx_pkt cx)"
  have same: "q = AddHeader (HIp ((cx_ip cx)\<lparr>ip_ttl := ip_ttl (cx_ip cx)\<rparr>)) (cx_pkt cx)"
    by (simp add: q_def)
  define s1 where "s1 = s\<lparr>nt_switches := (nt_switches s)[k := cx_sw cx],
       nt_flight := xs @ [q] @ ys @ sent_packets N (p4s_switchAddress (cx_sw cx)) (cx_eff cx)\<rparr>"
  have step: "net_step N s s1"
    unfolding s1_def same using net_step.hop [OF fl hd _ run, of "ip_ttl (cx_ip cx)"] inv(3) k(1) by simp
  have "q \<in> set (nt_flight s1)"
    by (simp add: s1_def)
  then have fq: "net_inv N s1" "flight_ok N s1 q"
    using net_step_inv [OF strict_cfgD(1) [OF cfg] step inv(1)] by (simp_all add: net_inv_def)
  have "pkt_headers q = HIp (cx_ip cx) # HUdp u # HIp inner # hs"
    using hop_redirects [OF cfg inv(1,6,7) hd u sw, of rnd] run by (simp add: q_def AddHeader_def)
  from flight_site [OF cfg fq this u sites] obtain a b where ab: "is_node sb (HostN a b)" "host_address ipv4 sb a b = ip_dst (cx_ip cx)"
    by blast
  have "x \<noteq> HostN a b"
    using False by blast
  from forward_closer [OF plane ab(1) inv(5) this] obtain y where "forward lookup masks sb (ip_dst (cx_ip cx)) (switch_nodes sb ! k) = Some y"
    using ab(2) k(2) by auto
  from routed_hop.at_switch [OF fl hd _ k(1) run this same] show ?thesis
    unfolding k(2) using inv(3) k(1) by auto
qed

text \<open>Every walk of a data packet arrives: whatever routes are picked, whatever the switches draw and whatever else goes on
  in the network, after at most twelve hops the packet is at the host it is addressed to, and until then it can move on.\<close>

lemma walks_arrive:
  assumes plane: "dotted_quad ipv4" "dotted_quad masks" "network_ok ipv4 masks sb"
    and cfg: "strict_cfg N" and sites: "sites N ipv4 sb" and u: "udp_dport u = PORT_NUMBER"
    and inv: "net_inv N s" "tag_inv L N s" and len: "length (nt_switches s) = length (switch_nodes sb)"
    and p: "p \<in> set (nt_flight s)" "pkt_headers p = HIp ip # HUdp u # HIp inner # hs" and x: "is_node sb x"
    and walk: "routed N masks sb (s, x, p) k (t, y, q)"
  shows "k \<le> 12 \<and> (\<exists>jp i j. pkt_headers q = HIp jp # HUdp u # HIp inner # hs \<and> is_node sb (HostN i j) \<and>
    host_address ipv4 sb i j = ip_dst jp \<and>
    (if y = HostN i j then endpoint_handles N t q jp inner hs
     else \<forall>lookup rnd. ns3_lookup lookup \<longrightarrow> (\<exists>v. routed_hop N masks sb lookup rnd (t, y, q) v)))"
proof -
  let ?hs = "HUdp u # HIp inner # hs"
  have "flight_ok N s p"
    using inv(1) p(1) by (simp add: net_inv_def)
  from flight_site [OF cfg inv(1) this p(2) u sites] obtain i j where t: "is_node sb (HostN i j)" "host_address ipv4 sb i j = ip_dst ip"
    by blast
  have "hops_left N ipv4 sb 12 x (ip_dst ip)"
    using t route_dist_bound [of sb "HostN i j" x] unfolding hops_left_def by fastforce
  then have start: "on_walk L N ipv4 sb ?hs 12 (s, x, p)"
    using inv len p x by (simp add: on_walk_def)
  have "\<exists>m. k + m = 12 \<and> on_walk L N ipv4 sb ?hs m (t, y, q)"
    using walk
  proof (induction k "(t, y, q)" arbitrary: t y q rule: routed.induct)
    case here
    then show ?case using start by simp
  next
    case (wait k s x p t)
    then show ?case
      using on_walk_wait [OF cfg] by blast
  next
    case (walk k v lookup rnd)
    obtain s' x' p' where v: "v = (s', x', p')"
      by (cases v)
    then obtain m where "k + m = 12" "on_walk L N ipv4 sb ?hs m (s', x', p')"
      using walk(2) by blast
    with on_walk_hop [OF plane walk(3) cfg sites u _ walk(4) [unfolded v]] show ?case
      by fastforce
  qed
  then obtain m where m: "k + m = 12" "on_walk L N ipv4 sb ?hs m (t, y, q)"
    by blast
  then obtain jp where jp: "pkt_headers q = HIp jp # ?hs"
    by (auto simp: on_walk_def)
  note ok = on_walkD [OF m(2)]
  from flight_site [OF cfg ok(1,6) jp u sites] obtain a b where ab: "is_node sb (HostN a b)" "host_address ipv4 sb a b = ip_dst jp"
    by blast
  have "endpoint_handles N t q jp inner hs"
    by (rule endpoints_handle [OF cfg _ ok(4) jp u]) (use ok(1,2) in simp)
  moreover have "\<exists>v. routed_hop N masks sb lookup rnd (t, y, q) v" if "y \<noteq> HostN a b" "ns3_lookup lookup" for lookup rnd
    by (rule on_walk_moves [OF plane that(2) cfg sites u m(2) jp ab that(1)])
  ultimately have "if y = HostN a b then endpoint_handles N t q jp inner hs
      else \<forall>lookup rnd. ns3_lookup lookup \<longrightarrow> (\<exists>v. routed_hop N masks sb lookup rnd (t, y, q) v)"
    by simp
  moreover have "k \<le> 12"
    using m(1) by simp
  ultimately show ?thesis
    using jp ab by blast
qed

end
