(* ===== verification/Packet_Tracking.thy ===== *)
theory Packet_Tracking
  imports Routed_Delivery
begin

text \<open>
  One packet followed through the network of \<open>Network\<close>, from endpoint to endpoint. A place says where the packet is: in
  flight, at a gateway, in a host that is about to send it, or handed to its container. A step of an endpoint moves the
  packet from its place to one that the endpoint's handler produces from it, so that another packet with the same contents
  is never taken for it. Switches may handle the packet in between, and the rest of the network goes on.
\<close>

section \<open>Places and runs\<close>

datatype place = Flying Packet | Translating gw_event | Waiting u32 host_effect | Arrived u32 Packet

fun holds :: "Net \<Rightarrow> place \<Rightarrow> bool" where
  "holds s (Flying p) \<longleftrightarrow> p \<in> set (nt_flight s)"
| "holds s (Translating e) \<longleftrightarrow> e \<in> set (nt_gwq s)"
| "holds s (Waiting a e) \<longleftrightarrow> (a, e) \<in> set (nt_pending s)"
| "holds s (Arrived a p) \<longleftrightarrow> (a, p) \<in> set (nt_delivered s)"

text \<open>The endpoint that has the packet handles it: these are the steps of \<open>net_step\<close> for hosts and gateways, other than
  \<open>send\<close>, with what the handler makes of the packet.\<close>

inductive passes :: "net_env \<Rightarrow> Net \<times> place \<Rightarrow> Net \<times> place \<Rightarrow> bool" for N where
  transmit: "nt_pending s = xs @ (a, HostSendTo q d port) # ys \<Longrightarrow>
     passes N (s, Waiting a (HostSendTo q d port))
       (s\<lparr>nt_pending := xs @ ys, nt_flight := nt_flight s @ [ne_encap N a q d port]\<rparr>, Flying (ne_encap N a q d port))"
| to_gateway: "\<lbrakk>nt_pending s = xs @ (a, ScheduleSendToGateway t q i) # ys;
     SocketHelper_SendToGateway q i (nt_host s a) = Inr es; e \<in> set es\<rbrakk> \<Longrightarrow>
     passes N (s, Waiting a (ScheduleSendToGateway t q i)) (s\<lparr>nt_pending := xs @ ys @ map (Pair a) es\<rparr>, Waiting a e)"
| follow_me: "\<lbrakk>nt_pending s = xs @ (a, ScheduleSendFollowMeRule t q h m) # ys;
     SocketHelper_SendFollowMeRule (ne_env N) q h m (nt_host s a) = Inr (sh, es); e \<in> set es\<rbrakk> \<Longrightarrow>
     passes N (s, Waiting a (ScheduleSendFollowMeRule t q h m))
       (s\<lparr>nt_hosts := (nt_hosts s)(a := sh), nt_pending := xs @ ys @ map (Pair a) es\<rparr>, Waiting a e)"
| gw_receive: "\<lbrakk>nt_flight s = xs @ p # ys; pkt_headers p = HIp ip # hs; ip_dst ip \<in> ne_gws N;
     GatewayApp_ReceivePacket (nt_vtp s) [p] = Inr es; e \<in> set es\<rbrakk> \<Longrightarrow>
     passes N (s, Flying p) (s\<lparr>nt_flight := xs @ ys, nt_gwq := nt_gwq s @ es\<rparr>, Translating e)"
| gw_send: "nt_gwq s = xs @ (t, p, inner) # ys \<Longrightarrow>
     passes N (s, Translating (t, p, inner))
       (s\<lparr>nt_gwq := xs @ ys, nt_flight := nt_flight s @ [fst (GatewayApp_SendPacket p inner)]\<rparr>,
        Flying (fst (GatewayApp_SendPacket p inner)))"
| deliver: "\<lbrakk>nt_flight s = xs @ p # ys; pkt_headers p = HIp ip # HUdp u # HIp inner # hs;
     udp_dport u = PORT_NUMBER; nt_vtp s (ip_dst inner) = Some (ip_dst ip);
     SocketHelper_SocketRecv (p\<lparr>pkt_headers := HIp inner # hs\<rparr>) (nt_host s (ip_dst ip)) = Inr (sh, es);
     VirtualReceive q \<in> set es\<rbrakk> \<Longrightarrow>
     passes N (s, Flying p) (s\<lparr>nt_flight := xs @ ys, nt_hosts := (nt_hosts s)(ip_dst ip := sh),
       nt_delivered := nt_delivered s @ map (Pair (ip_dst ip)) (List.map_filter handed es)\<rparr>, Arrived (ip_dst ip) q)"
| misdeliver: "\<lbrakk>nt_flight s = xs @ p # ys; pkt_headers p = HIp ip # HUdp u # HIp inner # hs;
     udp_dport u = PORT_NUMBER; ip_dst ip \<notin> ne_gws N; nt_vtp s (ip_dst inner) \<noteq> Some (ip_dst ip); ttl < 64;
     SocketHelper_VirtualSend (ne_env N) flow0 now (p\<lparr>pkt_headers := HIp (inner\<lparr>ip_ttl := ttl\<rparr>) # hs\<rparr>)
       (nt_host s (ip_dst ip)) = Inr (r, sh, es); e \<in> set es\<rbrakk> \<Longrightarrow>
     passes N (s, Flying p) (s\<lparr>nt_flight := xs @ ys, nt_hosts := (nt_hosts s)(ip_dst ip := sh),
       nt_pending := nt_pending s @ map (Pair (ip_dst ip)) es\<rparr>, Waiting (ip_dst ip) e)"

text \<open>A switch handles the packet and forwards it.\<close>

inductive switched :: "net_env \<Rightarrow> Net \<times> place \<Rightarrow> Net \<times> place \<Rightarrow> bool" for N where
  hop: "\<lbrakk>nt_flight s = xs @ p # ys; pkt_headers p = HIp ip # hs; i < length (nt_switches s);
     P4SwitchApp_ReceivePacket (ne_env N) rnd \<lparr>cx_pkt = p\<lparr>pkt_headers := hs\<rparr>, cx_ip = ip,
       cx_sw = nt_switches s ! i, cx_eff = []\<rparr> = Inr (True, cx);
     q = AddHeader (HIp ((cx_ip cx)\<lparr>ip_ttl := tm\<rparr>)) (cx_pkt cx)\<rbrakk> \<Longrightarrow>
     switched N (s, Flying p) (s\<lparr>nt_switches := (nt_switches s)[i := cx_sw cx],
       nt_flight := xs @ [q] @ ys @ sent_packets N (p4s_switchAddress (cx_sw cx)) (cx_eff cx)\<rparr>, Flying q)"

text \<open>A run of the packet with \<open>k\<close> steps of endpoints. Between them it passes switches, and anything may happen that
  does not touch it, while the table stays as it is.\<close>

inductive tracked :: "net_env \<Rightarrow> Net \<times> place \<Rightarrow> nat \<Rightarrow> Net \<times> place \<Rightarrow> bool" for N z where
  here: "tracked N z 0 z"
| wait: "\<lbrakk>tracked N z k (s, x); net_step N s t; nt_vtp t = nt_vtp s; holds t x\<rbrakk> \<Longrightarrow> tracked N z k (t, x)"
| switch: "\<lbrakk>tracked N z k v; switched N v w\<rbrakk> \<Longrightarrow> tracked N z k w"
| endpoint: "\<lbrakk>tracked N z k v; passes N v w\<rbrakk> \<Longrightarrow> tracked N z (Suc k) w"

lemma handed_mem: "VirtualReceive q \<in> set es \<Longrightarrow> q \<in> set (List.map_filter handed es)"
  by (force simp: List.map_filter_def)

lemma passes_step: "passes N (s, x) (t, y) \<Longrightarrow> net_step N s t \<and> holds t y \<and> nt_vtp t = nt_vtp s"
  by (erule passes.cases) (auto intro: net_step.intros handed_mem)

lemma switched_step:
  assumes "switched N (s, x) (t, y)"
  shows "net_step N s t \<and> holds t y \<and> nt_vtp t = nt_vtp s"
  using assms
proof (cases rule: switched.cases)
  case (hop xs p ys ip hs i rnd cx q tm)
  then show ?thesis
    using net_step.hop [of s xs p ys ip hs i N rnd True cx tm] by simp
qed

text \<open>No step changes the gateways a host knows.\<close>

lemma net_step_gateways:
  assumes cfg: "net_cfg N"
  shows "net_step N s t \<Longrightarrow> net_inv N s \<Longrightarrow> sh_gatewayAddresses (nt_hosts t b) = sh_gatewayAddresses (nt_hosts s b)"
proof (induction rule: net_step.induct)
  case (send s inner a q hs flow0 now r sh es)
  have "host_ok N a (nt_host s a)"
    using nt_host_ok [OF send(8)] .
  then have "sh = nt_host s a"
    using VirtualSend_fresh [of "nt_host s a" q inner hs "ne_env N" flow0 now] send(2,3,7)
    by (auto simp: host_ok_def)
  then show ?case by (simp add: nt_host_def)
next
  case (follow_me s xs a tm q h m ys sh es)
  then have "pending_ok N s (a, ScheduleSendFollowMeRule tm q h m)"
    by (simp add: net_inv_def)
  from follow_me_ok [OF follow_me(3) this follow_me(2)] have "sh = nt_host s a"
    by blast
  then show ?case by (simp add: nt_host_def)
next
  case (deliver s xs p ys ip u inner hs sh es)
  have "sh = nt_host s (ip_dst ip)"
    using deliver(5) nt_host_ok [OF deliver(6), of "ip_dst ip"]
    by (auto simp: SocketHelper_SocketRecv_def host_ok_def)
  then show ?case by (simp add: nt_host_def)
next
  case (misdeliver s xs p ys ip u inner hs ttl flow0 now r sh es)
  have wf: "sh_wf (nt_host s (ip_dst ip))"
    using nt_host_ok [OF misdeliver(8), of "ip_dst ip"] by (simp add: host_ok_def)
  let ?q = "p\<lparr>pkt_headers := HIp (inner\<lparr>ip_ttl := ttl\<rparr>) # hs\<rparr>"
  have hq: "pkt_headers ?q = HIp (inner\<lparr>ip_ttl := ttl\<rparr>) # hs" "ip_ttl (inner\<lparr>ip_ttl := ttl\<rparr>) < 64"
    using misdeliver(6) by simp_all
  have "pkt_inval ?q = None"
    using VirtualSend_tagged [OF wf hq] misdeliver(7) by (cases "pkt_inval ?q") auto
  from VirtualSend_misdelivered [OF wf hq this, of "ne_env N" flow0 now] misdeliver(7)
  have "sh_gatewayAddresses sh = sh_gatewayAddresses (nt_host s (ip_dst ip))"
    by auto
  then show ?case by (simp add: nt_host_def)
qed simp_all

section \<open>The steps that are left\<close>

text \<open>The contents of a packet, other than a TTL.\<close>

definition received :: "Packet \<Rightarrow> Ipv4Header \<Rightarrow> header list \<Rightarrow> Packet \<Rightarrow> bool" where
  "received p inner hs q \<longleftrightarrow> pkt_payload q = pkt_payload p \<and> pkt_flowId q = pkt_flowId p \<and> pkt_txTime q = pkt_txTime p \<and>
     (\<exists>ttl. pkt_headers q = HIp (inner\<lparr>ip_ttl := ttl\<rparr>) # hs)"

text \<open>The place of a packet for the container at \<open>a\<close>, with \<open>n\<close> steps of endpoints left.\<close>

fun on_place :: "net_env \<Rightarrow> Net \<Rightarrow> Packet \<Rightarrow> Ipv4Header \<Rightarrow> header list \<Rightarrow> u32 \<Rightarrow> nat \<Rightarrow> place \<Rightarrow> bool" where
  "on_place N s p inner hs a n (Flying q) \<longleftrightarrow> (\<exists>ip u rest. pkt_headers q = HIp ip # HUdp u # rest \<and> udp_dport u = PORT_NUMBER \<and>
     received p inner hs (q\<lparr>pkt_headers := rest\<rparr>) \<and>
     (ip_dst ip = a \<and> 1 \<le> n \<or> ip_dst ip \<in> ne_gws N \<and> pkt_inval q \<noteq> None \<and> 3 \<le> n \<or> 6 \<le> n))"
| "on_place N s p inner hs a n (Translating (t, r, h)) \<longleftrightarrow> 2 \<le> n \<and> (\<exists>ip u rest. pkt_headers r = HIp ip # HUdp u # rest \<and>
     udp_dport u = PORT_NUMBER \<and> received p inner hs (r\<lparr>pkt_headers := rest\<rparr>) \<and> ip_dst ip = a)"
| "on_place N s p inner hs a n (Waiting b (HostSendTo q d port)) \<longleftrightarrow> port = PORT_NUMBER \<and> received p inner hs q \<and>
     (d = a \<and> 2 \<le> n \<or> d \<in> ne_gws N \<and> pkt_inval q \<noteq> None \<and> 4 \<le> n)"
| "on_place N s p inner hs a n (Waiting b (ScheduleSendToGateway t q i)) \<longleftrightarrow> received p inner hs q \<and> pkt_inval q \<noteq> None \<and>
     unat i < length (sh_gatewayAddresses (nt_hosts s b)) \<and> 5 \<le> n"
| "on_place N s p inner hs a n (Waiting b (ScheduleSendFollowMeRule t q h m)) \<longleftrightarrow> received p inner hs q \<and> m \<and> a = ne_target N \<and> 3 \<le> n"
| "on_place N s p inner hs a n (Waiting b (VirtualReceive q)) \<longleftrightarrow> False"
| "on_place N s p inner hs a n (Arrived b q) \<longleftrightarrow> b = a \<and> received p inner hs q"

definition on_track :: "bool \<Rightarrow> net_env \<Rightarrow> Packet \<Rightarrow> Ipv4Header \<Rightarrow> header list \<Rightarrow> u32 \<Rightarrow> nat \<Rightarrow> Net \<times> place \<Rightarrow> bool" where
  "on_track L N p inner hs a n z \<longleftrightarrow> (case z of (s, x) \<Rightarrow> net_inv N s \<and> tag_inv L N s \<and> nt_vtp s (ip_dst inner) = Some a \<and>
     holds s x \<and> on_place N s p inner hs a n x)"

lemma on_place_hosts:
  "(\<And>b. sh_gatewayAddresses (nt_hosts t b) = sh_gatewayAddresses (nt_hosts s b)) \<Longrightarrow>
   on_place N t p inner hs a n x = on_place N s p inner hs a n x"
  by (induction N s p inner hs a n x rule: on_place.induct) simp_all

lemma on_track_wait:
  assumes cfg: "strict_cfg N" and "on_track L N p inner hs a n (s, x)" and "net_step N s t" and "nt_vtp t = nt_vtp s" and "holds t x"
  shows "on_track L N p inner hs a n (t, x)"
proof -
  have inv: "net_inv N s" "tag_inv L N s" and place: "on_place N s p inner hs a n x"
    using assms(2) by (simp_all add: on_track_def)
  have "on_place N t p inner hs a n x"
    using place on_place_hosts [OF net_step_gateways [OF strict_cfgD(1) [OF cfg] assms(3) inv(1)]] by simp
  with assms(2,4,5) net_step_inv [OF strict_cfgD(1) [OF cfg] assms(3) inv(1)] net_step_clean [OF cfg assms(3) inv]
  show ?thesis by (simp add: on_track_def)
qed

text \<open>What is known of a packet in flight on its track.\<close>

lemma on_track_flying:
  assumes "strict_cfg N" and "on_track L N p inner hs a n (s, Flying q)"
  obtains ip u ttl where "pkt_headers q = HIp ip # HUdp u # HIp (inner\<lparr>ip_ttl := ttl\<rparr>) # hs" and "udp_dport u = PORT_NUMBER"
    and "received p inner hs (q\<lparr>pkt_headers := HIp (inner\<lparr>ip_ttl := ttl\<rparr>) # hs\<rparr>)"
    and "ip_dst ip = a \<and> 1 \<le> n \<or> ip_dst ip \<in> ne_gws N \<and> pkt_inval q \<noteq> None \<and> 3 \<le> n \<or> 6 \<le> n"
    and "net_inv N s" and "tag_inv L N s" and "nt_vtp s (ip_dst inner) = Some a" and "flight_ok N s q" and "flight_clean L N s q"
    and "a \<notin> ne_gws N"
proof -
  have inv: "net_inv N s" "tag_inv L N s" "nt_vtp s (ip_dst inner) = Some a" "q \<in> set (nt_flight s)"
    and place: "on_place N s p inner hs a n (Flying q)"
    using assms(2) by (simp_all add: on_track_def)
  then have "flight_ok N s q" "flight_clean L N s q"
    by (simp_all add: net_inv_def tag_inv_def)
  moreover have "a \<notin> ne_gws N"
    using held_range [OF strict_cfgD(1) [OF assms(1)] inv(1), of "ip_dst inner" a] inv(3) by (simp add: held_def had_def)
  moreover obtain ip u ttl where "pkt_headers q = HIp ip # HUdp u # HIp (inner\<lparr>ip_ttl := ttl\<rparr>) # hs" "udp_dport u = PORT_NUMBER"
      "received p inner hs (q\<lparr>pkt_headers := HIp (inner\<lparr>ip_ttl := ttl\<rparr>) # hs\<rparr>)"
      "ip_dst ip = a \<and> 1 \<le> n \<or> ip_dst ip \<in> ne_gws N \<and> pkt_inval q \<noteq> None \<and> 3 \<le> n \<or> 6 \<le> n"
    using place by (auto simp: received_def)
  ultimately show ?thesis
    using inv(1-3) that by blast
qed

text \<open>A switch takes no step away.\<close>

lemma on_track_switched:
  assumes cfg: "strict_cfg N" and ok: "on_track L N p inner hs a n (s, x)" and sw: "switched N (s, x) (t, y)"
  shows "on_track L N p inner hs a n (t, y)"
  using sw
proof (cases rule: switched.cases)
  case (hop xs q ys ip hs' i rnd cx q' tm)
  obtain jp u ttl where jp: "pkt_headers q = HIp jp # HUdp u # HIp (inner\<lparr>ip_ttl := ttl\<rparr>) # hs" and u: "udp_dport u = PORT_NUMBER"
    and same: "received p inner hs (q\<lparr>pkt_headers := HIp (inner\<lparr>ip_ttl := ttl\<rparr>) # hs\<rparr>)"
    and left: "ip_dst jp = a \<and> 1 \<le> n \<or> ip_dst jp \<in> ne_gws N \<and> pkt_inval q \<noteq> None \<and> 3 \<le> n \<or> 6 \<le> n"
    and inv: "net_inv N s" "tag_inv L N s" "nt_vtp s (ip_dst inner) = Some a" "flight_ok N s q" "flight_clean L N s q" "a \<notin> ne_gws N"
    by (rule on_track_flying [OF cfg ok [unfolded hop(1)]])
  have [simp]: "jp = ip"
    using jp hop(5) by simp
  have hd: "pkt_headers q = HIp ip # HUdp u # HIp (inner\<lparr>ip_ttl := ttl\<rparr>) # hs" "udp_dport u = PORT_NUMBER"
    using jp u by simp_all
  have hs': "hs' = HUdp u # HIp (inner\<lparr>ip_ttl := ttl\<rparr>) # hs"
    using hd(1) hop(5) by simp
  have mode: "switch_ok N s (nt_switches s ! i)" "(p4s_simMode (nt_switches s ! i) = LocalLearning) = L"
    using inv(1,2) hop(6) by (simp_all add: net_inv_def tag_inv_def mode_ok_def)
  note step = switched_step [OF sw]
  have t: "net_inv N t" "tag_inv L N t"
    using step net_step_inv [OF strict_cfgD(1) [OF cfg] _ inv(1)] net_step_clean [OF cfg _ inv(1,2)] by blast+
  have redirect: "ip_dst (cx_ip cx) = ip_dst ip \<or> ip_dst ip \<in> ne_gws N \<and> ip_dst (cx_ip cx) \<notin> ne_gws N"
    using hop_redirects [OF cfg inv(1,4,5) hd mode, of rnd] hop(7) by (simp add: hs')
  have kept: "pkt_headers (cx_pkt cx) = hs'" "pkt_inval (cx_pkt cx) = pkt_inval q" "pkt_flowId (cx_pkt cx) = pkt_flowId q"
      "pkt_payload (cx_pkt cx) = pkt_payload q" "pkt_txTime (cx_pkt cx) = pkt_txTime q"
    using hop_ok [OF strict_cfgD(1) [OF cfg] inv(1,4) hop(5) mode(1), of rnd] hop(7) by simp_all
  have q': "pkt_headers q' = HIp ((cx_ip cx)\<lparr>ip_ttl := tm\<rparr>) # HUdp u # HIp (inner\<lparr>ip_ttl := ttl\<rparr>) # hs" "pkt_inval q' = pkt_inval q"
      "received p inner hs (q'\<lparr>pkt_headers := HIp (inner\<lparr>ip_ttl := ttl\<rparr>) # hs\<rparr>)"
    using kept same hop(8) by (simp_all add: hs' received_def)
  have "q' \<in> set (nt_flight t)"
    using step hop(3) by simp
  then have fq: "flight_ok N t q'" "flight_clean L N t q'"
    using t by (simp_all add: net_inv_def tag_inv_def)
  have home: "ip_dst (cx_ip cx) = a" if "pkt_inval q \<noteq> None" "ip_dst (cx_ip cx) \<notin> ne_gws N"
    using tagged_home [OF cfg t(1) fq q'(1) hd(2)] that q'(2) step inv(3) by auto
  have "on_place N t p inner hs a n (Flying q')"
    using q' hd(2) left redirect home inv(6) by auto
  then show ?thesis
    using t step inv(3) hop(3) by (simp add: on_track_def)
qed

text \<open>Every step of an endpoint brings the packet one step closer.\<close>

lemma received_misdelivered:
  "received p inner hs (q\<lparr>pkt_headers := HIp i # hs\<rparr>) \<Longrightarrow>
   received p inner hs (misdelivered sh (i\<lparr>ip_ttl := ttl\<rparr>) (q\<lparr>pkt_headers := HIp (i\<lparr>ip_ttl := ttl\<rparr>) # hs\<rparr>))"
  by (auto simp: received_def misdelivered_def)

lemma misdeliver_place:
  assumes cfg: "strict_cfg N" and inv: "net_inv N s" and fl: "flight_ok N s q"
    and hd: "pkt_headers q = HIp ip # HUdp u # HIp i # hs" "udp_dport u = PORT_NUMBER"
    and miss: "ip_dst ip \<notin> ne_gws N" "nt_vtp s (ip_dst i) \<noteq> Some (ip_dst ip)" and "ttl < 64"
    and run: "SocketHelper_VirtualSend (ne_env N) flow0 now
       (q\<lparr>pkt_headers := HIp (i\<lparr>ip_ttl := ttl\<rparr>) # hs\<rparr>) (nt_host s (ip_dst ip)) = Inr (r, sh, es)"
    and "e \<in> set es" and "received p inner hs (q\<lparr>pkt_headers := HIp i # hs\<rparr>)" and "nt_vtp s (ip_dst i) = Some a"
    and "sh_gatewayAddresses (nt_hosts t (ip_dst ip)) = sh_gatewayAddresses sh"
  shows "on_place N t p inner hs a 5 (Waiting (ip_dst ip) e)"
proof -
  note eff = misdeliver_effects [OF strict_cfgD(1) [OF cfg] inv fl hd miss assms(8) run]
  have "a = ne_target N"
    using eff(2,3) assms(12) by (simp add: strict_cfgD(2) [OF cfg])
  moreover note received_misdelivered [OF assms(11), of "nt_host s (ip_dst ip)" ttl]
  moreover have "pkt_inval (misdelivered x y z) \<noteq> None" for x y z
    by (simp add: misdelivered_def)
  ultimately show ?thesis
    using eff(6) assms(10,13) by (auto split: if_splits)
qed

lemma on_place_mono: "on_place N s p inner hs a m x \<Longrightarrow> m \<le> n \<Longrightarrow> on_place N s p inner hs a n x"
  by (induction N s p inner hs a m x rule: on_place.induct) auto

lemma on_track_passes:
  assumes cfg: "strict_cfg N" and ok: "on_track L N p inner hs a n (s, x)" and step: "passes N (s, x) (t, y)"
  shows "\<exists>m. n = Suc m \<and> on_track L N p inner hs a m (t, y)"
proof -
  have inv: "net_inv N s" "tag_inv L N s" "nt_vtp s (ip_dst inner) = Some a" "on_place N s p inner hs a n x"
    using ok by (simp_all add: on_track_def)
  have t: "net_inv N t \<and> tag_inv L N t \<and> nt_vtp t (ip_dst inner) = Some a \<and> holds t y"
    using passes_step [OF step] net_step_inv [OF strict_cfgD(1) [OF cfg] _ inv(1)] net_step_clean [OF cfg _ inv(1,2)] inv(3) by auto
  have place: "\<exists>m. n = Suc m \<and> on_place N t p inner hs a m y"
    using step
  proof (cases rule: passes.cases)
    case (transmit xs b q d port ys)
    obtain ip u where "ne_encap N b q d port = q\<lparr>pkt_headers := HIp ip # HUdp u # pkt_headers q\<rparr>" "ip_dst ip = d" "udp_dport u = port"
      using strict_cfgD(1) [OF cfg] unfolding net_cfg_def encap_ok_def by metis
    with inv(4) transmit(1,3) show ?thesis
      by (cases n) (auto simp: received_def)
  next
    case (to_gateway xs b tm q i ys es e)
    obtain d where "d \<in> set (sh_gatewayAddresses (nt_host s b))" "es = [HostSendTo q d PORT_NUMBER]"
      using to_gateway(5) by (fastforce simp: SocketHelper_SendToGateway_def monad_simps)
    with inv(4) to_gateway(1,3,6) nt_host_ok [OF inv(1), of b] show ?thesis
      by (cases n) (auto simp: host_ok_def)
  next
    case (follow_me xs b tm q h m ys sh es e)
    have "m"
      using inv(4) follow_me(1) by simp
    then have "es = [HostSendTo q (ne_target N) PORT_NUMBER]"
      using follow_me(5) nt_host_ok [OF inv(1), of b]
      by (auto simp: SocketHelper_SendFollowMeRule_def host_ok_def mig_target_def sh_wf_def Let_def)
    with inv(4) follow_me(1,3,6) show ?thesis
      by (cases n) auto
  next
    case (gw_receive xs q ys ip hs' es e)
    obtain jp u ttl where q: "pkt_headers q = HIp jp # HUdp u # HIp (inner\<lparr>ip_ttl := ttl\<rparr>) # hs" "udp_dport u = PORT_NUMBER"
        "received p inner hs (q\<lparr>pkt_headers := HIp (inner\<lparr>ip_ttl := ttl\<rparr>) # hs\<rparr>)"
        "ip_dst jp = a \<and> 1 \<le> n \<or> ip_dst jp \<in> ne_gws N \<and> pkt_inval q \<noteq> None \<and> 3 \<le> n \<or> 6 \<le> n" "a \<notin> ne_gws N"
      by (rule on_track_flying [OF cfg ok [unfolded gw_receive(1)]])
    have "tunnelled q jp u (inner\<lparr>ip_ttl := ttl\<rparr>) hs"
      using q(1) by (simp add: tunnelled_def)
    from GatewayApp_handle_tunnelled [OF this, of "nt_vtp s"] gw_receive(7,8) inv(3)
    have "e = (40000, q\<lparr>pkt_headers := HIp (jp\<lparr>ip_dst := a\<rparr>) # HUdp u # HIp (inner\<lparr>ip_ttl := ttl\<rparr>) # hs\<rparr>, inner\<lparr>ip_ttl := ttl\<rparr>)"
      by auto
    moreover have "jp = ip"
      using q(1) gw_receive(5) by simp
    ultimately show ?thesis
      using q gw_receive(3,6) by (cases n) (auto simp: received_def)
  next
    case (gw_send xs tm q h ys)
    with inv(4) show ?thesis
      by (cases n) (auto simp: received_def GatewayApp_SendPacket_def Let_def)
  next
    case (deliver xs q ys ip u i hs' sh es r)
    obtain jp v ttl where q: "pkt_headers q = HIp jp # HUdp v # HIp (inner\<lparr>ip_ttl := ttl\<rparr>) # hs"
        "received p inner hs (q\<lparr>pkt_headers := HIp (inner\<lparr>ip_ttl := ttl\<rparr>) # hs\<rparr>)"
        "ip_dst jp = a \<and> 1 \<le> n \<or> ip_dst jp \<in> ne_gws N \<and> pkt_inval q \<noteq> None \<and> 3 \<le> n \<or> 6 \<le> n"
      by (rule on_track_flying [OF cfg ok [unfolded deliver(1)]])
    have "es = [VirtualReceive (q\<lparr>pkt_headers := HIp i # hs'\<rparr>)]"
      using deliver(8) nt_host_ok [OF inv(1), of "ip_dst ip"] by (auto simp: SocketHelper_SocketRecv_def host_ok_def)
    with q deliver(3,5,7,9) inv(3) show ?thesis
      by (cases n) auto
  next
    case (misdeliver xs q ys ip u i hs' ttl' flow0 now r sh es e)
    obtain jp v ttl where q: "pkt_headers q = HIp jp # HUdp v # HIp (inner\<lparr>ip_ttl := ttl\<rparr>) # hs"
        "received p inner hs (q\<lparr>pkt_headers := HIp (inner\<lparr>ip_ttl := ttl\<rparr>) # hs\<rparr>)"
        "ip_dst jp = a \<and> 1 \<le> n \<or> ip_dst jp \<in> ne_gws N \<and> pkt_inval q \<noteq> None \<and> 3 \<le> n \<or> 6 \<le> n" "flight_ok N s q"
      by (rule on_track_flying [OF cfg ok [unfolded misdeliver(1)]])
    have eq: "jp = ip" "i = inner\<lparr>ip_ttl := ttl\<rparr>" "hs' = hs"
      using q(1) misdeliver(5) by simp_all
    with q(3) misdeliver(7,8) inv(3) obtain m where m: "n = Suc m" "5 \<le> m"
      by (cases n) auto
    have "on_place N t p inner hs a 5 (Waiting (ip_dst ip) e)"
      by (rule misdeliver_place [OF cfg inv(1) q(4) misdeliver(5) [unfolded eq(3)] misdeliver(6,7) _ misdeliver(9) misdeliver(10) [unfolded eq(3)] misdeliver(11)])
         (use q(2) eq misdeliver(2,8) inv(3) in simp_all)
    then show ?thesis
      using on_place_mono [OF _ m(2)] m(1) misdeliver(3) by blast
  qed
  with t show ?thesis
    by (simp add: on_track_def)
qed

text \<open>A packet on its track that has not arrived can move on.\<close>

lemma on_track_moves:
  assumes cfg: "strict_cfg N" and ok: "on_track L N p inner hs a n (s, x)" and "\<nexists>b q. x = Arrived b q"
  shows "\<exists>v. passes N (s, x) v"
proof -
  have inv: "net_inv N s" "holds s x" "on_place N s p inner hs a n x"
    using ok by (simp_all add: on_track_def)
  show ?thesis
  proof (cases x)
    case (Flying q)
    obtain ip u ttl where hd: "pkt_headers q = HIp ip # HUdp u # HIp (inner\<lparr>ip_ttl := ttl\<rparr>) # hs" "udp_dport u = PORT_NUMBER"
        and a: "nt_vtp s (ip_dst inner) = Some a" and fl: "flight_ok N s q" "flight_clean L N s q"
      by (rule on_track_flying [OF cfg ok [unfolded Flying]])
    obtain xs ys where q: "nt_flight s = xs @ q # ys"
      using inv(2) Flying by (metis holds.simps(1) split_list)
    consider (gw) "ip_dst ip \<in> ne_gws N" | (home) "ip_dst ip = a" | (old) "ip_dst ip \<notin> ne_gws N" "ip_dst ip \<noteq> a"
      by blast
    then show ?thesis
    proof cases
      case gw
      have "tunnelled q ip u (inner\<lparr>ip_ttl := ttl\<rparr>) hs"
        using hd(1) by (simp add: tunnelled_def)
      from GatewayApp_handle_tunnelled [OF this, of "nt_vtp s"] a obtain e where "GatewayApp_ReceivePacket (nt_vtp s) [q] = Inr [e]"
        by simp
      from passes.gw_receive [OF q hd(1) gw this] show ?thesis
        unfolding Flying by auto
    next
      case home
      have "SocketHelper_SocketRecv (q\<lparr>pkt_headers := HIp (inner\<lparr>ip_ttl := ttl\<rparr>) # hs\<rparr>) (nt_host s (ip_dst ip)) =
          Inr (nt_host s (ip_dst ip), [VirtualReceive (q\<lparr>pkt_headers := HIp (inner\<lparr>ip_ttl := ttl\<rparr>) # hs\<rparr>)])"
        using nt_host_ok [OF inv(1), of "ip_dst ip"] by (simp add: SocketHelper_SocketRecv_def host_ok_def)
      from passes.deliver [OF q hd _ this] a home show ?thesis
        unfolding Flying by auto
    next
      case old
      let ?q = "q\<lparr>pkt_headers := HIp (inner\<lparr>ip_ttl := 63\<rparr>) # hs\<rparr>"
      have miss: "nt_vtp s (ip_dst (inner\<lparr>ip_ttl := ttl\<rparr>)) \<noteq> Some (ip_dst ip)"
        using a old(2) by simp
      have wf: "sh_wf (nt_host s (ip_dst ip))"
        using nt_host_ok [OF inv(1), of "ip_dst ip"] by (simp add: host_ok_def)
      have "pkt_inval ?q = None"
        using untagged_at_old_host [OF cfg inv(1) fl hd old(1) miss] by simp
      from VirtualSend_misdelivered [OF wf _ _ this, of "inner\<lparr>ip_ttl := 63\<rparr>" hs "ne_env N" 0 0]
      obtain r sh e where "SocketHelper_VirtualSend (ne_env N) 0 0 ?q (nt_host s (ip_dst ip)) = Inr (r, sh, [e])"
        by (cases "pkt_hit q") (auto simp: returns_def)
      with passes.misdeliver [OF q hd old(1) miss, of 63 0 0 r sh "[e]" e] show ?thesis
        unfolding Flying by auto
    qed
  next
    case (Translating e)
    obtain tm r h where e: "e = (tm, r, h)"
      by (cases e)
    obtain xs ys where "nt_gwq s = xs @ (tm, r, h) # ys"
      using inv(2) Translating e by (metis holds.simps(2) split_list)
    from passes.gw_send [OF this] show ?thesis
      unfolding Translating e by blast
  next
    case (Waiting b e)
    obtain xs ys where w: "nt_pending s = xs @ (b, e) # ys"
      using inv(2) Waiting by (metis holds.simps(3) split_list)
    show ?thesis
    proof (cases e)
      case (HostSendTo q d port)
      from passes.transmit [OF w [unfolded HostSendTo]] show ?thesis
        unfolding Waiting HostSendTo by blast
    next
      case (ScheduleSendToGateway tm q i)
      then have "SocketHelper_SendToGateway q i (nt_host s b) = Inr [HostSendTo q (sh_gatewayAddresses (nt_hosts s b) ! unat i) PORT_NUMBER]"
        using inv(3) Waiting by (simp add: SocketHelper_SendToGateway_def nt_host_def)
      from passes.to_gateway [OF w [unfolded ScheduleSendToGateway] this] show ?thesis
        unfolding Waiting ScheduleSendToGateway by auto
    next
      case (ScheduleSendFollowMeRule tm q h m)
      then have "SocketHelper_SendFollowMeRule (ne_env N) q h m (nt_host s b) =
          Inr (nt_host s b, [HostSendTo q (ne_target N) PORT_NUMBER])"
        using inv(3) Waiting nt_host_ok [OF inv(1), of b]
        by (auto simp: SocketHelper_SendFollowMeRule_def host_ok_def mig_target_def sh_wf_def Let_def)
      from passes.follow_me [OF w [unfolded ScheduleSendFollowMeRule] this] show ?thesis
        unfolding Waiting ScheduleSendFollowMeRule by auto
    next
      case (VirtualReceive q)
      with inv(3) Waiting show ?thesis by simp
    qed
  next
    case (Arrived b q)
    with assms(3) show ?thesis by blast
  qed
qed

lemma on_track_run:
  assumes cfg: "strict_cfg N" and "on_track L N p inner hs a n z" and "tracked N z k w"
  shows "\<exists>m. n = k + m \<and> on_track L N p inner hs a m w"
  using assms(3)
proof (induction rule: tracked.induct)
  case (wait k s x t)
  then show ?case
    using on_track_wait [OF cfg] by blast
next
  case (switch k v w)
  then show ?case
    using on_track_switched [OF cfg] by (cases v; cases w) blast
next
  case (endpoint k v w)
  then obtain m where m: "n = k + m" "on_track L N p inner hs a m v"
    by blast
  obtain m' where "m = Suc m'" "on_track L N p inner hs a m' w"
    using on_track_passes [OF cfg] m(2) endpoint(2) by (cases v; cases w) blast
  with m(1) show ?case by auto
qed (use assms(2) in simp)

text \<open>Where a packet \<open>p\<close> for the container at \<open>a\<close> may be after \<open>k\<close> steps: with its container, unchanged, or at an
  endpoint that will pass it on.\<close>

definition arrives :: "net_env \<Rightarrow> Packet \<Rightarrow> Ipv4Header \<Rightarrow> header list \<Rightarrow> u32 \<Rightarrow> nat \<Rightarrow> Net \<times> place \<Rightarrow> bool" where
  "arrives N p inner hs a k z \<longleftrightarrow> k \<le> 6 \<and> (case z of
      (t, Arrived b q) \<Rightarrow> b = a \<and> (b, q) \<in> set (nt_delivered t) \<and> received p inner hs q
    | (t, y) \<Rightarrow> \<exists>v. passes N (t, y) v)"

lemma tracked_arrives:
  assumes cfg: "strict_cfg N" and inv: "net_inv N s \<and> tag_inv L N s" and p: "p \<in> set (nt_flight s)"
    and hd: "pkt_headers p = HIp ip # HUdp u # HIp inner # hs" "udp_dport u = PORT_NUMBER" and a: "nt_vtp s (ip_dst inner) = Some a"
    and run: "tracked N (s, Flying p) k z"
  shows "arrives N p inner hs a k z"
proof -
  have "received p inner hs (p\<lparr>pkt_headers := HIp inner # hs\<rparr>)"
    by (auto simp: received_def intro: exI [of _ "ip_ttl inner"])
  then have "on_track L N p inner hs a 6 (s, Flying p)"
    using inv p hd a by (simp add: on_track_def)
  from on_track_run [OF cfg this run] obtain m where m: "6 = k + m" "on_track L N p inner hs a m z"
    by blast
  obtain t y where z: "z = (t, y)"
    by (cases z)
  have "k \<le> 6"
    using m(1) by simp
  with m(2) on_track_moves [OF cfg, of L p inner hs a m t y] show ?thesis
    unfolding z by (cases y) (auto simp: arrives_def on_track_def)
qed

section \<open>Properties\<close>



end
