(* ===== verification/Trace_Migration.thy ===== *)
theory Trace_Migration
  imports Trace_Apps P4_Switch_Coherence
begin

text \<open>
  \<open>Migration\<close> and \<open>UpdateMappings\<close> of \<^verbatim>\<open>trace-sim.cc\<close>: how a container moves to another host.
  \<open>Ipv4::AddAddress\<close> appends to the addresses of the virtual interface, \<open>RemoveAddress\<close> takes the first entry
  of an address away. The lemmas show that addresses and table stay consistent, and where the follow-me rule of
  the tunnel endpoints agrees with the table.
\<close>

section \<open>Migration\<close>

fun remove_address :: "u32 \<Rightarrow> (u32 \<times> u32) list \<Rightarrow> (u32 \<times> u32) list" where
  "remove_address a [] = []"
| "remove_address a ((b, m) # xs) = (if a = b then xs else (b, m) # remove_address a xs)"

text \<open>The result is the delay after which \<open>UpdateMappings\<close> is to run.\<close>

definition TraceSimulation_Migration :: "ipv4_parser \<Rightarrow> TraceSimulation \<Rightarrow> (TraceSimulation \<times> int) res" where
  "TraceSimulation_Migration masks ts =
     (let sb = ts_base ts; mig = ts_migrationParams ts;
          srcLeaf = unat (ts_migrationSrcLeaf ts); srcHost = unat (ts_migrationSrcHost ts);
          dstLeaf = unat (mig_dstLeaf mig); dstHost = unat (mig_dstHost mig);
          a = IpUtils_GetContainerVirtualAddress (mig_containerId mig);
          dummy = IpUtils_GetContainerVirtualAddress (word_of_nat (length (sb_containerToId sb) + 1)) in
      bindE (vec2_at (sb_virtualAddresses sb) srcLeaf srcHost) (\<lambda>src.
      bindE (vec2_set (sb_virtualAddresses sb) srcLeaf srcHost
               (remove_address a src @ [(dummy, IpUtils_GetClassBMask masks)])) (\<lambda>addrs.
      bindE (vec2_at addrs dstLeaf dstHost) (\<lambda>dst.
      bindE (vec2_set addrs dstLeaf dstHost (dst @ [(a, IpUtils_GetClassBMask masks)])) (\<lambda>addrs.
        Inr (ts\<lparr>ts_base := sb\<lparr>sb_virtualAddresses := addrs\<rparr>\<rparr>,
             if SimMode (sb_simParameters sb) = OnDemand then 1000000 else 0))))))"

definition TraceSimulation_UpdateMappings :: "ipv4_parser \<Rightarrow> TraceSimulation \<Rightarrow> TraceSimulation" where
  "TraceSimulation_UpdateMappings ipv4 ts =
     (let sb = ts_base ts; mig = ts_migrationParams ts in
      ts\<lparr>ts_base := share_table (sb\<lparr>sb_virtualToPhysical := (sb_virtualToPhysical sb)
           (IpUtils_GetContainerVirtualAddress (mig_containerId mig) \<mapsto>
            IpUtils_GetNodePhysicalAddress ipv4 (word_of_nat (unat (mig_dstLeaf mig) div sb_podWidth sb))
              (word_of_nat (unat (mig_dstLeaf mig) mod sb_podWidth sb)) (mig_dstHost mig))\<rparr>)\<rparr>)"

section \<open>Consistency of addresses and table\<close>

text \<open>A container that the table knows has its virtual address on the host the table names, and on no other.\<close>

definition located :: "ipv4_parser \<Rightarrow> SimulationBase \<Rightarrow> bool" where
  "located ipv4 net \<longleftrightarrow> (\<forall>(i, j) \<in> set (host_pairs net). in_vec2 (sb_virtualAddresses net) i j \<and>
     (\<forall>a \<in> dom (sb_virtualToPhysical net). a \<in> fst ` set (sb_virtualAddresses net ! i ! j) \<longleftrightarrow>
        sb_virtualToPhysical net a = Some (host_address ipv4 net i j)))"

lemma host_address_quad:
  assumes "dims_ok sb" and "dotted_quad ipv4" and "(i, j) \<in> set (host_pairs sb)"
  shows "host_address ipv4 sb i j = quad (i div sb_podWidth sb + 1) (i mod sb_podWidth sb) j 1 \<and>
    i div sb_podWidth sb + 1 < 256 \<and> i mod sb_podWidth sb < 256 \<and> j < 256"
proof -
  let ?w = "sb_podWidth sb"
  have ij: "i < sb_podCount sb * ?w" "j \<le> 255"
    using assms(3) dims_okD(5) [OF assms(1)] dims_okD(9) [OF assms(1), of i] by (auto simp: host_pairs_iff)
  then have "i div ?w < sb_podCount sb" "i mod ?w < ?w"
    using dims_okD(1) [OF assms(1)] by (simp_all add: less_mult_imp_div_less)
  with ij show ?thesis
    using dims_okD(2,8) [OF assms(1)] GetNodePhysicalAddress_quad [OF assms(2), of "i div ?w" "i mod ?w" j]
    by (simp add: host_address_def)
qed

lemma host_address_inj:
  assumes "dims_ok sb" and "dotted_quad ipv4" and "(i, j) \<in> set (host_pairs sb)" and "(p, q) \<in> set (host_pairs sb)"
  shows "host_address ipv4 sb i j = host_address ipv4 sb p q \<longleftrightarrow> (i, j) = (p, q)"
proof -
  let ?w = "sb_podWidth sb"
  note quad = host_address_quad [OF assms(1,2)]
  have "host_address ipv4 sb i j = host_address ipv4 sb p q \<longleftrightarrow> i div ?w = p div ?w \<and> i mod ?w = p mod ?w \<and> j = q"
    using quad [OF assms(3)] quad [OF assms(4)]
      quad_inject [of "i div ?w + 1" "i mod ?w" j 1 "p div ?w + 1" "p mod ?w" q 1] by simp
  moreover have "i div ?w = p div ?w \<and> i mod ?w = p mod ?w \<longleftrightarrow> i = p"
    by (metis div_mult_mod_eq)
  ultimately show ?thesis by auto
qed

lemma remove_address_set: "distinct (map fst xs) \<Longrightarrow> fst ` set (remove_address a xs) = fst ` set xs - {a}"
  by (induction a xs rule: remove_address.induct) (auto simp: image_iff)

text \<open>The virtual addresses a host has when \<open>SetupTunnel\<close> is done.\<close>

lemma prepared_addresses:
  assumes "prepared ipv4 masks sb net" and "names_ok (sb_containerGroups sb)"
    and "sb_leafCount sb = length (sb_containerGroups sb)" and "(i, j) \<in> set (host_pairs sb)"
  shows "distinct (map fst (sb_virtualAddresses net ! i ! j))"
    and "a \<in> fst ` set (sb_virtualAddresses net ! i ! j) \<longleftrightarrow>
      (\<exists>k c. k < length (slots (sb_containerGroups sb)) \<and> slots (sb_containerGroups sb) ! k = ((i, j), c) \<and> a = word_of_nat k)"
proof -
  let ?g = "sb_containerGroups sb"
  have addrs: "map fst (sb_virtualAddresses net ! i ! j) = map (id_at ?g) (?g ! i ! j)"
    using assms(1,4) by (simp add: prepared_def comp_def)
  have here: "((i, j), c) \<in> set (slots ?g) \<longleftrightarrow> c \<in> set (?g ! i ! j)" for c
    using assms(4) unfolding slots_pairs [OF assms(3)] pair_slots_def by auto
  obtain xs ys where "host_pairs sb = xs @ (i, j) # ys"
    using assms(4) by (meson split_list)
  then have "slots ?g = pair_slots sb xs @ map (Pair (i, j)) (?g ! i ! j) @ pair_slots sb ys"
    unfolding slots_pairs [OF assms(3)] by (simp add: pair_slots_def)
  then show "distinct (map fst (sb_virtualAddresses net ! i ! j))"
    using id_inj [OF assms(2)] unfolding addrs by (simp add: comp_def)
  have "a \<in> fst ` set (sb_virtualAddresses net ! i ! j) \<longleftrightarrow> (\<exists>c. ((i, j), c) \<in> set (slots ?g) \<and> a = id_at ?g c)"
    using arg_cong [OF addrs, of set] by (auto simp: here)
  also have "\<dots> \<longleftrightarrow> (\<exists>k c. k < length (slots ?g) \<and> slots ?g ! k = ((i, j), c) \<and> a = word_of_nat k)"
    using id_at_nth(1) [OF assms(2)] by (metis in_set_conv_nth snd_conv)
  finally show "a \<in> fst ` set (sb_virtualAddresses net ! i ! j) \<longleftrightarrow>
      (\<exists>k c. k < length (slots ?g) \<and> slots ?g ! k = ((i, j), c) \<and> a = word_of_nat k)" .
qed

lemma located_prepared:
  assumes "prepared ipv4 masks sb net" and "names_ok (sb_containerGroups sb)" and "dims_ok sb" and "dotted_quad ipv4"
  shows "located ipv4 net"
proof -
  let ?S = "slots (sb_containerGroups sb)"
  have len: "sb_leafCount sb = length (sb_containerGroups sb)"
    using dims_okD(4) [OF assms(3)] by simp
  have "unat (word_of_nat k :: u32) = k" if "k < length ?S" for k
    using that assms(2) by (simp add: names_ok_def)
  then have inj: "(word_of_nat k :: u32) = word_of_nat l \<longleftrightarrow> k = l" if "k < length ?S" "l < length ?S" for k l
    using that by metis
  note ready = assms(1) [unfolded prepared_def tunnel_ready_def IpUtils_GetContainerVirtualAddress_def]
  have member: "word_of_nat k \<in> fst ` set (sb_virtualAddresses net ! i ! j) \<longleftrightarrow>
      sb_virtualToPhysical net (word_of_nat k) = Some (host_address ipv4 sb i j)"
    if ij: "(i, j) \<in> set (host_pairs sb)" and k: "k < length ?S" for i j k
  proof -
    obtain p q c where slot: "?S ! k = ((p, q), c)"
      by (metis prod.exhaust)
    then have pq: "(p, q) \<in> set (host_pairs sb)"
      using k slots_in_pairs [OF len] nth_mem by metis
    have "sb_virtualToPhysical net (word_of_nat k) = Some (host_address ipv4 sb p q)"
      using ready k slot by fastforce
    moreover have "word_of_nat k \<in> fst ` set (sb_virtualAddresses net ! i ! j) \<longleftrightarrow> (p, q) = (i, j)"
      unfolding prepared_addresses(2) [OF assms(1,2) len ij] using inj [OF k] k slot by (metis prod.inject)
    ultimately show ?thesis
      using host_address_inj [OF assms(3,4) pq ij] by simp
  qed
  have doms: "dom (sb_virtualToPhysical net) = word_of_nat ` {..<length ?S}"
    using ready by blast
  show ?thesis
    unfolding located_def prepared_plan [OF assms(1)] doms
  proof (clarify, intro conjI ballI)
    fix i j
    assume ij: "(i, j) \<in> set (host_pairs sb)"
    then show "in_vec2 (sb_virtualAddresses net) i j"
      using assms(1) unfolding prepared_def by blast
    show "a \<in> fst ` set (sb_virtualAddresses net ! i ! j) \<longleftrightarrow> sb_virtualToPhysical net a = Some (host_address ipv4 sb i j)"
      if "a \<in> word_of_nat ` {..<length ?S}" for a
      using that member [OF ij] by (elim imageE) simp
  qed
qed

text \<open>Moving a container and then updating the table keeps addresses and table consistent.\<close>

lemma located_move:
  assumes "located ipv4 net" and "dims_ok net" and "dotted_quad ipv4"
    and "(i, j) \<in> set (host_pairs net)" and "(p, q) \<in> set (host_pairs net)"
    and "sb_virtualToPhysical net k = Some (host_address ipv4 net i j)"
    and "dummy \<notin> dom (sb_virtualToPhysical net)"
    and "\<And>a b. in_vec2 A a b \<longleftrightarrow> in_vec2 (sb_virtualAddresses net) a b"
    and "\<And>a b. (a, b) \<in> set (host_pairs net) \<Longrightarrow> fst ` set (A ! a ! b) =
      (if (a, b) = (i, j) then insert dummy (fst ` set (sb_virtualAddresses net ! i ! j) - {k})
       else fst ` set (sb_virtualAddresses net ! a ! b)) \<union> (if (a, b) = (p, q) then {k} else {})"
  shows "located ipv4 (share_table (net\<lparr>sb_virtualAddresses := A,
    sb_virtualToPhysical := (sb_virtualToPhysical net)(k \<mapsto> host_address ipv4 net p q)\<rparr>))"
proof -
  let ?net = "share_table (net\<lparr>sb_virtualAddresses := A,
    sb_virtualToPhysical := (sb_virtualToPhysical net)(k \<mapsto> host_address ipv4 net p q)\<rparr>)"
  have fields: "host_pairs ?net = host_pairs net" "sb_virtualAddresses ?net = A" "host_address ipv4 ?net = host_address ipv4 net"
      "sb_virtualToPhysical ?net = (sb_virtualToPhysical net)(k \<mapsto> host_address ipv4 net p q)"
    by (simp_all add: share_table_def host_pairs_def host_address_def fun_eq_iff)
  have "x \<in> fst ` set (A ! a ! b) \<longleftrightarrow> ((sb_virtualToPhysical net)(k \<mapsto> host_address ipv4 net p q)) x = Some (host_address ipv4 net a b)"
    if ab: "(a, b) \<in> set (host_pairs net)" and x: "x \<in> dom (sb_virtualToPhysical net)" for a b x
  proof -
    have old: "x \<in> fst ` set (sb_virtualAddresses net ! a ! b) \<longleftrightarrow> sb_virtualToPhysical net x = Some (host_address ipv4 net a b)"
      using assms(1) ab x unfolding located_def by blast
    have ij: "host_address ipv4 net i j = host_address ipv4 net a b \<longleftrightarrow> (i, j) = (a, b)"
      and pq: "host_address ipv4 net p q = host_address ipv4 net a b \<longleftrightarrow> (p, q) = (a, b)"
      by (rule host_address_inj [OF assms(2,3) _ ab], rule assms)+
    have "x \<noteq> dummy"
      using x assms(7) by blast
    then have new: "x \<in> fst ` set (A ! a ! b) \<longleftrightarrow> x = k \<and> (p, q) = (a, b) \<or>
        x \<in> fst ` set (sb_virtualAddresses net ! a ! b) \<and> \<not> (x = k \<and> (i, j) = (a, b))"
      unfolding assms(9) [OF ab] by (auto simp del: image_iff)
    show ?thesis
    proof (cases "x = k")
      case True
      then show ?thesis
        using new old ij pq assms(6) by auto
    next
      case False
      then show ?thesis
        using new old by simp
    qed
  qed
  moreover have "dom ((sb_virtualToPhysical net)(k \<mapsto> host_address ipv4 net p q)) = dom (sb_virtualToPhysical net)"
    using assms(6) by auto
  moreover have "in_vec2 (sb_virtualAddresses net) a b" if "(a, b) \<in> set (host_pairs net)" for a b
    using assms(1) that unfolding located_def by blast
  ultimately show ?thesis
    unfolding located_def fields assms(8) by blast
qed

lemma migration_step:
  assumes "located ipv4 (ts_base ts)" and "dims_ok (ts_base ts)" and "dotted_quad ipv4"
    and "ts_migrationSrcLeaf ts = word_of_nat i" "ts_migrationSrcHost ts = word_of_nat j" "i < 2 ^ 32" "j < 2 ^ 32"
    and "mig_dstLeaf (ts_migrationParams ts) = word_of_nat p" "mig_dstHost (ts_migrationParams ts) = word_of_nat q" "p < 2 ^ 32" "q < 2 ^ 32"
    and "(i, j) \<in> set (host_pairs (ts_base ts))" and "(p, q) \<in> set (host_pairs (ts_base ts))"
    and "sb_virtualToPhysical (ts_base ts) (mig_containerId (ts_migrationParams ts)) = Some (host_address ipv4 (ts_base ts) i j)"
    and "distinct (map fst (sb_virtualAddresses (ts_base ts) ! i ! j))"
    and "word_of_nat (length (sb_containerToId (ts_base ts)) + 1) \<notin> dom (sb_virtualToPhysical (ts_base ts))"
  shows "returns (TraceSimulation_Migration masks ts) (\<lambda>(ts', delay).
    sb_virtualToPhysical (ts_base ts') = sb_virtualToPhysical (ts_base ts) \<and>
    delay = (if SimMode (sb_simParameters (ts_base ts)) = OnDemand then 1000000 else 0) \<and>
    located ipv4 (ts_base (TraceSimulation_UpdateMappings ipv4 ts')) \<and>
    sb_virtualToPhysical (ts_base (TraceSimulation_UpdateMappings ipv4 ts')) = (sb_virtualToPhysical (ts_base ts))
      (mig_containerId (ts_migrationParams ts) \<mapsto> host_address ipv4 (ts_base ts) p q))"
proof -
  let ?net = "ts_base ts" and ?V = "sb_virtualAddresses (ts_base ts)" and ?k = "mig_containerId (ts_migrationParams ts)"
  let ?d = "word_of_nat (length (sb_containerToId ?net) + 1) :: u32"
  define B where "B = ?V[i := (?V ! i)[j := remove_address ?k (?V ! i ! j) @ [(?d, IpUtils_GetClassBMask masks)]]]"
  define A where "A = B[p := (B ! p)[q := B ! p ! q @ [(?k, IpUtils_GetClassBMask masks)]]]"
  have ok: "in_vec2 ?V i j" "in_vec2 ?V p q"
    using assms(1,12,13) unfolding located_def by blast+
  have B: "in_vec2 B a b \<longleftrightarrow> in_vec2 ?V a b" "B ! a ! b = (if a = i \<and> b = j
      then remove_address ?k (?V ! i ! j) @ [(?d, IpUtils_GetClassBMask masks)] else ?V ! a ! b)" for a b
    by (simp_all add: B_def nth_vec2_update [OF ok(1)])
  have A: "in_vec2 A a b \<longleftrightarrow> in_vec2 ?V a b" "A ! a ! b = (if a = p \<and> b = q
      then B ! p ! q @ [(?k, IpUtils_GetClassBMask masks)] else B ! a ! b)" for a b
    using ok(2) B(1) nth_vec2_update [of B p q] by (simp_all add: A_def)
  have "fst ` set (A ! a ! b) = (if (a, b) = (i, j) then insert ?d (fst ` set (?V ! i ! j) - {?k})
       else fst ` set (?V ! a ! b)) \<union> (if (a, b) = (p, q) then {?k} else {})" for a b
    using remove_address_set [OF assms(15), of ?k] by (simp add: A(2) B(2)) blast
  note move = located_move [OF assms(1-3,12,13,14,16) A(1) this]
  have run: "TraceSimulation_Migration masks ts = Inr (ts\<lparr>ts_base := ?net\<lparr>sb_virtualAddresses := A\<rparr>\<rparr>,
      if SimMode (sb_simParameters ?net) = OnDemand then 1000000 else 0)"
    using ok B(1) assms(4-11)
    by (simp add: TraceSimulation_Migration_def Let_def A_def B_def IpUtils_GetContainerVirtualAddress_def)
  have "ts_base (TraceSimulation_UpdateMappings ipv4 (ts\<lparr>ts_base := ?net\<lparr>sb_virtualAddresses := A\<rparr>\<rparr>)) =
      share_table (?net\<lparr>sb_virtualAddresses := A, sb_virtualToPhysical := (sb_virtualToPhysical ?net)(?k \<mapsto> host_address ipv4 ?net p q)\<rparr>)"
    using assms(8-11) by (simp add: TraceSimulation_UpdateMappings_def Let_def host_address_def IpUtils_GetContainerVirtualAddress_def)
  with move show ?thesis
    unfolding run by (simp add: share_table_def)
qed

lemma word_of_nat_fresh:
  assumes "n + 1 < 2 ^ 32"
  shows "(word_of_nat (n + 1) :: u32) \<notin> word_of_nat ` {..<n}"
proof
  assume "(word_of_nat (n + 1) :: u32) \<in> word_of_nat ` {..<n}"
  then obtain m where m: "m < n" "(word_of_nat (n + 1) :: u32) = word_of_nat m"
    by blast
  have "unat (word_of_nat x :: u32) = x" if "x < 2 ^ 32" for x
    using that by simp
  from this [of "n + 1"] this [of m] m assms show False
    by (metis add.commute less_add_one less_trans nat_neq_iff)
qed

text \<open>What the set-up leaves for the migration of a container that is a destination.\<close>

definition ready_to_move :: "ipv4_parser \<Rightarrow> TraceSimulation \<Rightarrow> nat \<Rightarrow> nat \<Rightarrow> bool" where
  "ready_to_move ipv4 ts i j \<longleftrightarrow> located ipv4 (ts_base ts) \<and> dims_ok (ts_base ts) \<and>
     ts_migrationSrcLeaf ts = word_of_nat i \<and> ts_migrationSrcHost ts = word_of_nat j \<and> i < 2 ^ 32 \<and> j < 2 ^ 32 \<and>
     (i, j) \<in> set (host_pairs (ts_base ts)) \<and>
     sb_virtualToPhysical (ts_base ts) (mig_containerId (ts_migrationParams ts)) = Some (host_address ipv4 (ts_base ts) i j) \<and>
     distinct (map fst (sb_virtualAddresses (ts_base ts) ! i ! j)) \<and>
     word_of_nat (length (sb_containerToId (ts_base ts)) + 1) \<notin> dom (sb_virtualToPhysical (ts_base ts))"

lemma prepared_ready:
  assumes "prepared ipv4 masks (ts_base ts) net" and "dims_ok (ts_base ts)" and "ids_known (ts_base ts)"
    and "names_ok (sb_containerGroups (ts_base ts))" and "length (sb_containerGroups (ts_base ts)) < 2 ^ 32" and "dotted_quad ipv4"
    and "migrating ts (word_of_nat k)" and "sint (word_of_nat k :: u32) \<in> ts_destinations ts"
    and "k < length (slots (sb_containerGroups (ts_base ts)))"
    and "slots (sb_containerGroups (ts_base ts)) ! k = ((i, j), c)" and "\<not> contains c ''Gateway''"
    and "length (slots (sb_containerGroups (ts_base ts))) + 1 < 2 ^ 32"
  shows "ready_to_move ipv4 (at_source (ts\<lparr>ts_base := net\<rparr>)
    (fold (moved_from (ts\<lparr>ts_base := net\<rparr>)) (slots (sb_containerGroups (ts_base ts))) src)) i j"
proof -
  let ?sb = "ts_base ts" and ?ts = "ts\<lparr>ts_base := net\<rparr>" and ?S = "slots (sb_containerGroups (ts_base ts))"
  note plan = prepared_plan [OF assms(1)]
  have len: "sb_leafCount ?sb = length (sb_containerGroups ?sb)"
    using dims_okD(4) [OF assms(2)] by simp
  have ij: "(i, j) \<in> set (host_pairs ?sb)"
    using slots_in_pairs [OF len, of i j c] assms(9,10) nth_mem by metis
  then have small: "i < 2 ^ 32" "j < 2 ^ 32"
    using assms(5) dims_okD(9) [OF assms(2), of i] len by (simp_all add: host_pairs_iff)
  have src: "fold (moved_from ?ts) ?S src = (word_of_nat i, word_of_nat j)"
    using deployed_closed(3) [of ?ts k i j c] assms(4,7-11) plan len by (simp add: migrating_def)
  have table: "sb_virtualToPhysical net (word_of_nat k) = Some (host_address ipv4 ?sb i j)"
    "dom (sb_virtualToPhysical net) = word_of_nat ` {..<length ?S}"
    using assms(1,9,10) by (fastforce simp: prepared_def tunnel_ready_def IpUtils_GetContainerVirtualAddress_def)+
  have ids: "length (sb_containerToId net) = length ?S"
    using assms(3) plan(11) by (simp add: ids_known_def)
  have "dims_ok net"
    using assms(2) unfolding dims_ok_def plan by blast
  moreover have "mig_containerId (ts_migrationParams ts) = word_of_nat k"
    using assms(7) by (simp add: migrating_def)
  moreover have "ts_base (at_source ?ts s) = net" "ts_migrationParams (at_source ?ts s) = ts_migrationParams ts"
      "ts_migrationSrcLeaf (at_source ?ts s) = fst s" "ts_migrationSrcHost (at_source ?ts s) = snd s" for s
    by (simp_all add: at_source_def)
  moreover have "word_of_nat (length (sb_containerToId net) + 1) \<notin> dom (sb_virtualToPhysical net)"
    unfolding table(2) ids by (rule word_of_nat_fresh [OF assms(12)])
  ultimately show ?thesis
    using located_prepared [OF assms(1,4,2,6)] small ij table(1) prepared_addresses(1) [OF assms(1,4) len ij] plan(1) [of ipv4] plan(10)
    unfolding ready_to_move_def src by simp
qed

text \<open>C13: The migration moves a container as a whole. Once the simulation is set up, every container has its virtual
  address on exactly the host the address table names. \<open>Migration\<close> takes the address of the migrating container from
  the recorded host to the new one and leaves the table alone for now, and when \<open>UpdateMappings\<close> has run (1 ms later
  with on-demand look-ups, at once otherwise) the table maps the container to its new host, every other container
  as before, and again every container has its address on exactly the host the table names.\<close>

theorem migration_consistent:
  assumes "SimulationBase_new params groups migParams uninit = Inr (ts_base ts)" and "octets_ok params groups"
    and "names_ok groups" and "gateway_slots groups \<noteq> []" and "dotted_quad ipv4"
    and "mig_migration (ts_migrationParams ts)" and "mig_containerId (ts_migrationParams ts) = word_of_nat k"
    and "k < length (slots groups)" and "slots groups ! k = ((i, j), c)" and "\<not> contains c ''Gateway''"
    and "sint (word_of_nat k :: u32) \<in> ts_destinations ts" and "length (slots groups) + 1 < 2 ^ 32"
    and "in_vec2 groups (unat (mig_dstLeaf (ts_migrationParams ts))) (unat (mig_dstHost (ts_migrationParams ts)))"
  shows "returns (bindE (TraceSimulation_Run ipv4 masks ts) (\<lambda>(ts1, apps, t).
      bindE (TraceSimulation_Migration masks ts1) (\<lambda>(ts2, delay). Inr (ts1, ts2, delay, TraceSimulation_UpdateMappings ipv4 ts2))))
    (\<lambda>(ts1, ts2, delay, ts3). located ipv4 (ts_base ts1) \<and>
      sb_virtualToPhysical (ts_base ts2) = sb_virtualToPhysical (ts_base ts1) \<and>
      delay = (if SimMode params = OnDemand then 1000000 else 0) \<and> located ipv4 (ts_base ts3) \<and>
      sb_virtualToPhysical (ts_base ts3) = (sb_virtualToPhysical (ts_base ts1))(word_of_nat k \<mapsto>
        host_address ipv4 (ts_base ts) (unat (mig_dstLeaf (ts_migrationParams ts))) (unat (mig_dstHost (ts_migrationParams ts)))))"
proof (rule returns_bind [OF Run_closed [OF assms(1-4), of ipv4 masks]], clarify)
  fix net
  let ?mig = "ts_migrationParams ts" and ?ts = "ts\<lparr>ts_base := net\<rparr>"
  let ?p = "unat (mig_dstLeaf ?mig)" and ?q = "unat (mig_dstHost ?mig)"
  assume net: "prepared ipv4 masks (ts_base ts) net"
  note plan = prepared_plan [OF net] and new = SimulationBase_new_ids [OF assms(1,3)]
  note dims = conjunct1 [OF SimulationBase_new_dims [OF assms(1,2)]]
  define ts1 where "ts1 = at_source ?ts (fold (moved_from ?ts) (slots groups) (ts_migrationSrcLeaf ts, ts_migrationSrcHost ts))"
  have "ids_known (ts_base ts)" "length groups < 2 ^ 32" "migrating ts (word_of_nat k)"
    using new assms(2,6,7) by (simp_all add: ids_known_def octets_ok_def migrating_def)
  then have ready: "ready_to_move ipv4 ts1 i j"
    using prepared_ready [OF net dims] assms(3,5,8-12) new(3) unfolding ts1_def by simp
  have ts1: "ts_base ts1 = net" "ts_migrationParams ts1 = ?mig"
    by (simp_all add: ts1_def at_source_def)
  have dst: "(?p, ?q) \<in> set (host_pairs (ts_base ts1))"
    using assms(13) plan new(3) dims_okD(4) [OF dims] by (simp add: ts1 host_pairs_iff in_vec2_def)
  have mode: "SimMode (sb_simParameters net) = SimMode params"
    using plan(3) SimulationBase_new_shape(4) [OF assms(1,2)] by simp
  have small: "?p < 2 ^ 32" "?q < 2 ^ 32"
    using unsigned_less [of "mig_dstLeaf ?mig"] unsigned_less [of "mig_dstHost ?mig"] by simp_all
  have dst_words: "mig_dstLeaf (ts_migrationParams ts1) = word_of_nat ?p" "mig_dstHost (ts_migrationParams ts1) = word_of_nat ?q"
    by (simp_all add: ts1)
  show "returns (bindE (TraceSimulation_Migration masks ts1) (\<lambda>(ts2, delay).
        Inr (ts1, ts2, delay, TraceSimulation_UpdateMappings ipv4 ts2)))
      (\<lambda>(ts1, ts2, delay, ts3). located ipv4 (ts_base ts1) \<and>
        sb_virtualToPhysical (ts_base ts2) = sb_virtualToPhysical (ts_base ts1) \<and>
        delay = (if SimMode params = OnDemand then 1000000 else 0) \<and> located ipv4 (ts_base ts3) \<and>
        sb_virtualToPhysical (ts_base ts3) = (sb_virtualToPhysical (ts_base ts1))(word_of_nat k \<mapsto>
          host_address ipv4 (ts_base ts) ?p ?q))"
    unfolding returns_bind_iff using ready mode plan(1) assms(7)
    by (intro returns_mono [OF migration_step [OF _ _ assms(5) _ _ _ _ dst_words small _ dst]])
       (auto simp: ready_to_move_def ts1)
qed

theorem migration_consistent_witness:
  "\<exists>sb. SimulationBase_new params1 groups1 mig0 0 = Inr sb \<and>
     returns (bindE (TraceSimulation_Run parse_quad parse_quad (sim_on sb)) (\<lambda>(ts1, apps, t).
       bindE (TraceSimulation_Migration parse_quad ts1) (\<lambda>(ts2, delay).
         Inr (ts1, ts2, delay, TraceSimulation_UpdateMappings parse_quad ts2))))
     (\<lambda>(ts1, ts2, delay, ts3). delay = 0 \<and> located parse_quad (ts_base ts3) \<and>
        sb_virtualToPhysical (ts_base ts3) 1 = Some (host_address parse_quad sb 3 0))"
proof -
  obtain sb where sb: "SimulationBase_new params1 groups1 mig0 0 = Inr sb"
    using sb1_ok by blast
  have "returns (bindE (TraceSimulation_Run parse_quad parse_quad (sim_on sb)) (\<lambda>(ts1, apps, t).
       bindE (TraceSimulation_Migration parse_quad ts1) (\<lambda>(ts2, delay).
         Inr (ts1, ts2, delay, TraceSimulation_UpdateMappings parse_quad ts2))))
     (\<lambda>(ts1, ts2, delay, ts3). delay = 0 \<and> located parse_quad (ts_base ts3) \<and>
        sb_virtualToPhysical (ts_base ts3) 1 = Some (host_address parse_quad sb 3 0))"
  proof (rule returns_mono [OF migration_consistent [of params1 groups1 mig0 0 "sim_on sb" parse_quad 1 1 0 "''B''" parse_quad]])
    show "SimulationBase_new params1 groups1 mig0 0 = Inr (ts_base (sim_on sb))" "octets_ok params1 groups1"
      by (simp_all add: sb octets1)
  qed (auto simp: names1 parse_quad_dotted mig0_def slots1 in_groups1 params1_def)
  with sb show ?thesis by blast
qed

section \<open>The follow-me rule\<close>

lemma SimulationBase_new_width:
  assumes "SimulationBase_new params groups migParams uninit = Inr sb" and "octets_ok params groups"
  shows "NetworkTopology params = FATTREE \<Longrightarrow> sb_podWidth sb = PodWidth params"
    and "NetworkTopology params = CLOS \<Longrightarrow> sb_podWidth sb = length groups \<and> length groups \<le> 255"
proof -
  obtain sb0 where sb0: "SimulationBase_init params groups migParams uninit = Inr sb0" "sb = SimulationBase_AssignIds sb0"
      "SimulationBase_checks sb0"
    using assms(1) by (auto simp: SimulationBase_new_def monad_simps)
  then have "sb_podWidth sb = sb_podWidth sb0"
    using AssignIds_frame [of sb0] by auto
  then show "NetworkTopology params = FATTREE \<Longrightarrow> sb_podWidth sb = PodWidth params"
      "NetworkTopology params = CLOS \<Longrightarrow> sb_podWidth sb = length groups \<and> length groups \<le> 255"
    using sb0(1,3) assms(2) by (auto simp: SimulationBase_init_def SimulationBase_checks_def Let_def monad_simps octets_ok_def)
qed

text \<open>C23: The follow-me rule sends a misdelivered packet to the host that \<open>UpdateMappings\<close> puts into the address
  table exactly when the topology is a fat tree or the index of the new leaf is below the pod width parameter: the
  rule divides by the parameter, the table by the pod width of the network, which in the Clos topology is the
  number of leaves.\<close>

theorem follow_me_target:
  assumes "SimulationBase_new params groups migParams uninit = Inr (ts_base ts)" and "octets_ok params groups"
    and "dotted_quad (env_ipv4 E)" and "0 < PodWidth params"
    and "in_vec2 groups (unat (mig_dstLeaf (ts_migrationParams ts))) (unat (mig_dstHost (ts_migrationParams ts)))"
    and "sh_simParams sh = params" and "sh_migrationParams sh = ts_migrationParams ts"
  shows "returns (SocketHelper_SendFollowMeRule E packet ip True sh) (\<lambda>(sh', effs). \<exists>a.
    sh' = sh \<and> effs = [HostSendTo packet a PORT_NUMBER] \<and>
    (sb_virtualToPhysical (ts_base (TraceSimulation_UpdateMappings (env_ipv4 E) ts))
        (mig_containerId (ts_migrationParams ts)) = Some a \<longleftrightarrow>
     NetworkTopology params = FATTREE \<or> unat (mig_dstLeaf (ts_migrationParams ts)) < PodWidth params))"
proof -
  let ?l = "unat (mig_dstLeaf (ts_migrationParams ts))" and ?h = "unat (mig_dstHost (ts_migrationParams ts))"
  let ?w = "PodWidth params" and ?v = "sb_podWidth (ts_base ts)"
  let ?a = "\<lambda>w. IpUtils_GetNodePhysicalAddress (env_ipv4 E) (word_of_nat (?l div w)) (word_of_nat (?l mod w))
    (mig_dstHost (ts_migrationParams ts))"
  note dims = conjunct1 [OF SimulationBase_new_dims [OF assms(1,2)]]
  note shape = SimulationBase_new_shape(3,4) [OF assms(1,2)]
  have l: "?l < length groups" "sb_leafCount (ts_base ts) = length groups" "?h < 256"
    using assms(5) dims_okD(4) [OF dims] dims_okD(9) [OF dims, of ?l] shape by (simp_all add: in_vec2_def)
  have "?a ?v = ?a ?w \<longleftrightarrow> NetworkTopology params = FATTREE \<or> ?l < ?w"
  proof (cases "NetworkTopology params")
    case FATTREE
    then show ?thesis
      using SimulationBase_new_width(1) [OF assms(1,2)] by simp
  next
    case CLOS
    then have v: "?v = length groups" and small: "?l < 255"
      using SimulationBase_new_width(2) [OF assms(1,2)] l(1) by simp_all
    have quad: "?a w = quad (?l div w + 1) (?l mod w) ?h 1 \<and> ?l div w + 1 < 256 \<and> ?l mod w < 256" for w
    proof -
      have "?l div w < 255" "?l mod w < 255"
        using small by (auto intro: le_less_trans [OF div_le_dividend] le_less_trans [OF mod_less_eq_dividend])
      then show ?thesis
        using GetNodePhysicalAddress_quad [OF assms(3), of "?l div w" "?l mod w" ?h] l(3) by simp
    qed
    have "?l div ?v = 0" "?l mod ?v = ?l"
      using l(1) v by simp_all
    moreover have "?a ?v = ?a ?w \<longleftrightarrow> ?l div ?v + 1 = ?l div ?w + 1 \<and> ?l mod ?v = ?l mod ?w"
      unfolding conjunct1 [OF quad [of ?v]] conjunct1 [OF quad [of ?w]]
      using quad [of ?v] quad [of ?w] l(3) by (subst quad_inject) simp_all
    ultimately have "?a ?v = ?a ?w \<longleftrightarrow> ?l div ?w = 0 \<and> ?l mod ?w = ?l"
      by (simp only:) linarith
    moreover have "?l div ?w = 0 \<and> ?l mod ?w = ?l \<longleftrightarrow> ?l < ?w"
      using assms(4) by (auto simp: div_eq_0_iff)
    ultimately show ?thesis
      using CLOS by (simp only: Topology.distinct simp_thms)
  qed
  then show ?thesis
    using assms(4,6,7)
    by (simp add: SocketHelper_SendFollowMeRule_def Let_def TraceSimulation_UpdateMappings_def share_table_def
        IpUtils_GetContainerVirtualAddress_def)
qed

definition params3 :: SimulationParameters where
  "params3 = params1\<lparr>NetworkTopology := CLOS, NumOfCore := 0\<rparr>"

theorem follow_me_target_witness:
  "\<exists>sb a. SimulationBase_new params3 groups1 mig0 0 = Inr sb \<and>
     SocketHelper_SendFollowMeRule env0 (Packet_create 0) \<lparr>ip_src = 2, ip_dst = 1, ip_ttl = 63\<rparr> True (sh0\<lparr>sh_simParams := params3\<rparr>) =
       Inr (sh0\<lparr>sh_simParams := params3\<rparr>, [HostSendTo (Packet_create 0) a PORT_NUMBER]) \<and>
     sb_virtualToPhysical (ts_base (TraceSimulation_UpdateMappings (env_ipv4 env0) (sim_on sb))) 1 \<noteq> Some a"
proof -
  obtain sb where sb: "SimulationBase_new params3 groups1 mig0 0 = Inr sb"
    by (simp add: SimulationBase_new_def SimulationBase_init_def params3_def params1_def groups1_def Let_def
      SimulationBase_checks_def SimulationBase_AssignIds_def slots_def)
  have "octets_ok params3 groups1" "dotted_quad (env_ipv4 env0)" "sh_migrationParams sh0 = mig0"
    by (simp_all add: octets_ok_def params3_def params1_def groups1_def env0_def parse_quad_dotted sh0_def SocketHelper_new_def)
  with follow_me_target [of params3 groups1 mig0 0 "sim_on sb" env0 "sh0\<lparr>sh_simParams := params3\<rparr>" "Packet_create 0"
      "\<lparr>ip_src = 2, ip_dst = 1, ip_ttl = 63\<rparr>"] sb
  show ?thesis
    by (auto simp: returns_def mig0_def in_groups1 params3_def params1_def)
qed

end
