(* ===== verification/Switch_App.thy ===== *)
theory Switch_App
  imports LRU_Cache Packets Sim_Parameters P4_Switch
begin

text \<open>
  \<^verbatim>\<open>switch-app.cc\<close>: the switch of the Controller and NoCache/GwCache style modes. It translates
  from an LRU cache that only the controller fills, and in Controller mode counts the packets that
  still go to a gateway, per source and flow. \<open>unordered_map\<close>s are association lists kept in key
  order; nothing below depends on the order. \<open>flow0\<close> is the content of a default-constructed
  \<open>FlowIdTag\<close>, what the code reads when the packet carries none.
\<close>

section \<open>Data and operations\<close>

type_synonym TrafficMatrix = "(u32 \<times> (u32 \<times> FlowInfo) list) list"

record SwitchApp =
  sa_nodeId :: u32
  sa_cache :: LRUCache
  sa_gwAddresses :: "u32 set"
  sa_trafficMatrix :: TrafficMatrix
  sa_switchMode :: Mode
  sa_memorySize :: int

definition SwitchApp_Setup :: "u32 list \<Rightarrow> Mode \<Rightarrow> SwitchApp \<Rightarrow> SwitchApp" where
  "SwitchApp_Setup gwAddresses switchMode sw =
     sw\<lparr>sa_gwAddresses := sa_gwAddresses sw \<union> set gwAddresses, sa_switchMode := switchMode,
        sa_cache := LRUCache_SetCapacity (sa_memorySize sw) (sa_cache sw)\<rparr>"

definition SwitchApp_GetTrafficMatrix :: "SwitchApp \<Rightarrow> TrafficMatrix \<times> SwitchApp" where
  "SwitchApp_GetTrafficMatrix sw = (sa_trafficMatrix sw, sw\<lparr>sa_trafficMatrix := []\<rparr>)"

fun SwitchApp_BulkInsertToCache :: "(u32 \<times> u32) list \<Rightarrow> SwitchApp \<Rightarrow> SwitchApp res" where
  "SwitchApp_BulkInsertToCache [] sw = Inr sw"
| "SwitchApp_BulkInsertToCache ((k, v) # items) sw =
     bindE (LRUCache_Put k v (sa_cache sw)) (\<lambda>c.
       SwitchApp_BulkInsertToCache items (sw\<lparr>sa_cache := c\<rparr>))"

text \<open>\<open>m_trafficMatrix[src][flowId]\<close>: \<open>operator[]\<close> default-constructs what is absent.\<close>

definition tm_row :: "TrafficMatrix \<Rightarrow> u32 \<Rightarrow> (u32 \<times> FlowInfo) list" where
  "tm_row m src = (case map_of m src of Some r \<Rightarrow> r | None \<Rightarrow> [])"

definition tm_cell :: "TrafficMatrix \<Rightarrow> u32 \<Rightarrow> u32 \<Rightarrow> FlowInfo" where
  "tm_cell m src flowId =
     (case map_of (tm_row m src) flowId of Some i \<Rightarrow> i | None \<Rightarrow> FlowInfo_default)"

definition tm_set :: "TrafficMatrix \<Rightarrow> u32 \<Rightarrow> u32 \<Rightarrow> FlowInfo \<Rightarrow> TrafficMatrix" where
  "tm_set m src flowId i = omap_insert m src (omap_insert (tm_row m src) flowId i)"

definition SwitchApp_count :: "u32 \<Rightarrow> u32 \<Rightarrow> u32 \<Rightarrow> u32 \<Rightarrow> TrafficMatrix \<Rightarrow> TrafficMatrix" where
  "SwitchApp_count src flowId dst gw m =
     (let m = tm_set m src flowId ((tm_cell m src flowId)\<lparr>fi_dstIp := dst\<rparr>);
          m = tm_set m src flowId ((tm_cell m src flowId)\<lparr>fi_gwIp := gw\<rparr>) in
      tm_set m src flowId ((tm_cell m src flowId)
        \<lparr>fi_packetCount := fi_packetCount (tm_cell m src flowId) + 1\<rparr>))"

text \<open>The interceptor. The result is the packet and the IP header it leaves behind, the switch and the
  traces; it always asks for the packet to be forwarded.\<close>

definition SwitchApp_ReceivePacket ::
  "u32 \<Rightarrow> Packet \<Rightarrow> Ipv4Header \<Rightarrow> SwitchApp \<Rightarrow> (bool \<times> Packet \<times> Ipv4Header \<times> SwitchApp \<times> sw_effect list) res" where
  "SwitchApp_ReceivePacket flow0 packet ipHeader sw =
     (let packet = bump_hops packet;
          processed = ProcessedTrace packet (sa_nodeId sw);
          receivedPacket = AddHeader (HIp ipHeader) packet in
      bindE (RemoveUdp packet) (\<lambda>(udpHeader, p).
      bindE (RemoveIp p) (\<lambda>(innerHeader, p).
        let packet = AddHeader (HUdp udpHeader) (AddHeader (HIp innerHeader) p);
            flowId = (case pkt_flowId packet of Some f \<Rightarrow> f | None \<Rightarrow> flow0);
            sw = (if sa_switchMode sw = Controller \<and> ip_dst ipHeader \<in> sa_gwAddresses sw
                  then sw\<lparr>sa_trafficMatrix := SwitchApp_count (ip_src innerHeader) flowId
                            (ip_dst innerHeader) (ip_dst ipHeader) (sa_trafficMatrix sw)\<rparr>
                  else sw) in
        if ip_dst ipHeader \<in> sa_gwAddresses sw
        then bindE (LRUCache_Get (ip_dst innerHeader) (sa_cache sw)) (\<lambda>(r, c).
               case r of
                 None \<Rightarrow> Inr (True, packet, ipHeader, sw\<lparr>sa_cache := c\<rparr>, [processed])
               | Some cached_addr \<Rightarrow>
                   Inr (True, packet, ipHeader\<lparr>ip_dst := cached_addr\<rparr>, sw\<lparr>sa_cache := c\<rparr>,
                        [processed, CacheHitTrace receivedPacket (sa_nodeId sw)]))
        else Inr (True, packet, ipHeader, sw, [processed]))))"

section \<open>Traffic counting\<close>

definition tm_wf :: "TrafficMatrix \<Rightarrow> bool" where
  "tm_wf m \<longleftrightarrow> omap_wf m \<and> (\<forall>e \<in> set m. omap_wf (snd e))"

text \<open>The packets a matrix accounts for, as the 32-bit counters add up.\<close>

definition row_total :: "(u32 \<times> FlowInfo) list \<Rightarrow> u32" where
  "row_total r = sum_list (map (\<lambda>e. fi_packetCount (snd e)) r)"

definition tm_total :: "TrafficMatrix \<Rightarrow> u32" where
  "tm_total m = sum_list (map (\<lambda>e. row_total (snd e)) m)"

lemma omap_insert_set: "set (omap_insert m k v) \<subseteq> insert (k, v) (set m)"
  by (induction m k v rule: omap_insert.induct) auto

text \<open>What an insertion does to a sum over a map: the new value in place of the old.\<close>

lemma omap_insert_sum:
  fixes f :: "'v \<Rightarrow> u32"
  assumes "omap_wf m"
  shows "sum_list (map (\<lambda>e. f (snd e)) (omap_insert m k v)) =
         sum_list (map (\<lambda>e. f (snd e)) m) + f v - (case map_of m k of Some w \<Rightarrow> f w | None \<Rightarrow> 0)"
  using assms
proof (induction m k v rule: omap_insert.induct)
  case (2 a b m k v)
  have "k < a \<Longrightarrow> map_of m k = None"
    using 2(2) by (auto simp: omap_wf_def map_of_eq_None_iff)
  with 2 show ?case
    by (auto simp: omap_wf_def split: option.splits)
qed simp

lemma tm_row_wf: "tm_wf m \<Longrightarrow> omap_wf (tm_row m src)"
  by (auto simp: tm_wf_def tm_row_def split: option.splits dest!: map_of_SomeD)

lemma tm_set_wf [wf_intros]: "tm_wf m \<Longrightarrow> tm_wf (tm_set m src f i)"
proof -
  assume m: "tm_wf m"
  then have "omap_wf (omap_insert (tm_row m src) f i)"
    by (intro omap_insert_wf tm_row_wf)
  with m show "tm_wf (tm_set m src f i)"
    using omap_insert_set [of m src "omap_insert (tm_row m src) f i"]
    unfolding tm_wf_def tm_set_def by (fastforce intro: omap_insert_wf)
qed

lemma tm_row_set [simp]: "tm_wf m \<Longrightarrow>
    tm_row (tm_set m src f i) s = (if s = src then omap_insert (tm_row m src) f i else tm_row m s)"
  by (simp add: tm_row_def tm_set_def tm_wf_def)

lemma tm_cell_set [simp]: "tm_wf m \<Longrightarrow>
    tm_cell (tm_set m src f i) s g = (if s = src \<and> g = f then i else tm_cell m s g)"
  using tm_row_wf [of m src] by (simp add: tm_cell_def)

lemma tm_total_set:
  assumes "tm_wf m"
  shows "tm_total (tm_set m src f i) = tm_total m + fi_packetCount i - fi_packetCount (tm_cell m src f)"
proof -
  have row: "row_total (omap_insert (tm_row m src) f i) =
      row_total (tm_row m src) + fi_packetCount i - fi_packetCount (tm_cell m src f)"
    using omap_insert_sum [OF tm_row_wf [OF assms], of fi_packetCount src f i]
    by (auto simp: row_total_def tm_cell_def FlowInfo_default_def split: option.splits)
  have "(case map_of m src of Some r \<Rightarrow> row_total r | None \<Rightarrow> 0) = row_total (tm_row m src)"
    by (auto simp: tm_row_def row_total_def split: option.splits)
  with omap_insert_sum [of m row_total src "omap_insert (tm_row m src) f i"] assms row show ?thesis
    by (simp add: tm_total_def tm_set_def tm_wf_def)
qed

lemma SwitchApp_count_spec:
  assumes "tm_wf m"
  shows "tm_wf (SwitchApp_count src f d g m)"
    and "tm_total (SwitchApp_count src f d g m) = tm_total m + 1"
    and "tm_cell (SwitchApp_count src f d g m) s h =
           (if s = src \<and> h = f
            then \<lparr>fi_dstIp = d, fi_gwIp = g, fi_packetCount = fi_packetCount (tm_cell m s h) + 1\<rparr>
            else tm_cell m s h)"
  using assms
  by (simp_all add: SwitchApp_count_def Let_def tm_set_wf tm_total_set)

section \<open>The interceptor\<close>

definition sa_wf :: "SwitchApp \<Rightarrow> bool" where
  "sa_wf sw \<longleftrightarrow> lru_wf (sa_cache sw) \<and> tm_wf (sa_trafficMatrix sw)"

text \<open>Which packets the controller hears about.\<close>

definition sa_counts :: "SwitchApp \<Rightarrow> Ipv4Header \<Rightarrow> bool" where
  "sa_counts sw ip \<longleftrightarrow> sa_switchMode sw = Controller \<and> ip_dst ip \<in> sa_gwAddresses sw"

lemma SwitchApp_ReceivePacket_spec:
  assumes "sa_wf sw" and "pkt_headers p = HUdp u # HIp inner # hs"
  shows "returns (SwitchApp_ReceivePacket flow0 p ip sw) (\<lambda>(fwd, p', ip', sw', es).
     fwd \<and> p' = bump_hops p \<and> sa_wf sw' \<and>
     lru_lookup (sa_cache sw') = lru_lookup (sa_cache sw) \<and>
     ip' = (if ip_dst ip \<in> sa_gwAddresses sw
            then (case lru_lookup (sa_cache sw) (ip_dst inner) of Some a \<Rightarrow> ip\<lparr>ip_dst := a\<rparr> | None \<Rightarrow> ip)
            else ip) \<and>
     sa_trafficMatrix sw' = (if sa_counts sw ip
        then SwitchApp_count (ip_src inner) (case pkt_flowId p of Some f \<Rightarrow> f | None \<Rightarrow> flow0)
               (ip_dst inner) (ip_dst ip) (sa_trafficMatrix sw)
        else sa_trafficMatrix sw) \<and>
     sa_gwAddresses sw' = sa_gwAddresses sw \<and> sa_switchMode sw' = sa_switchMode sw)"
proof -
  obtain c where c: "LRUCache_Get (ip_dst inner) (sa_cache sw) = Inr (lru_lookup (sa_cache sw) (ip_dst inner), c)"
      "lru_wf c" "lru_lookup c = lru_lookup (sa_cache sw)"
    using lru.get_spec [of "sa_cache sw" "ip_dst inner"] assms(1) by (auto simp: sa_wf_def)
  have p: "AddHeader (HUdp u) (AddHeader (HIp inner) (bump_hops p\<lparr>pkt_headers := hs\<rparr>)) = bump_hops p"
    using assms(2) by (simp add: AddHeader_def bump_hops_def split: option.splits)
  show ?thesis
    using c assms(1)
    by (auto simp: SwitchApp_ReceivePacket_def Let_def RemoveUdp_def RemoveIp_def assms(2) p sa_wf_def
        sa_counts_def SwitchApp_count_spec split: option.splits)
qed

text \<open>A run of a switch: packets through the interceptor and queries of the controller. \<open>queried\<close>
  adds up what the queries returned.\<close>

datatype sa_event = SaPacket Packet Ipv4Header | SaQuery

fun sa_run :: "u32 \<Rightarrow> sa_event list \<Rightarrow> SwitchApp \<Rightarrow> (u32 \<times> SwitchApp) res" where
  "sa_run flow0 [] sw = Inr (0, sw)"
| "sa_run flow0 (SaPacket p ip # es) sw =
     bindE (SwitchApp_ReceivePacket flow0 p ip sw) (\<lambda>(_, _, _, sw', _). sa_run flow0 es sw')"
| "sa_run flow0 (SaQuery # es) sw =
     (case SwitchApp_GetTrafficMatrix sw of (m, sw') \<Rightarrow>
        bindE (sa_run flow0 es sw') (\<lambda>(n, sw''). Inr (tm_total m + n, sw'')))"

definition udp_in_ip :: "Packet \<Rightarrow> bool" where
  "udp_in_ip p \<longleftrightarrow> (\<exists>u inner hs. pkt_headers p = HUdp u # HIp inner # hs)"

fun ev_wf :: "sa_event \<Rightarrow> bool" where
  "ev_wf (SaPacket p ip) = udp_in_ip p"
| "ev_wf SaQuery = True"

fun ev_counted :: "SwitchApp \<Rightarrow> sa_event \<Rightarrow> bool" where
  "ev_counted sw (SaPacket p ip) = sa_counts sw ip"
| "ev_counted sw SaQuery = False"

lemma ev_counted_cong:
  "sa_gwAddresses sw' = sa_gwAddresses sw \<Longrightarrow> sa_switchMode sw' = sa_switchMode sw \<Longrightarrow>
   ev_counted sw' = ev_counted sw"
  by (rule ext, rename_tac e, case_tac e) (simp_all add: sa_counts_def)

lemma sa_run_total:
  "\<lbrakk>sa_wf sw; \<forall>e \<in> set es. ev_wf e\<rbrakk> \<Longrightarrow>
   returns (sa_run flow0 es sw) (\<lambda>(n, sw'). sa_wf sw' \<and>
     n + tm_total (sa_trafficMatrix sw') =
       tm_total (sa_trafficMatrix sw) + of_nat (length (filter (ev_counted sw) es)))"
proof (induction flow0 es sw rule: sa_run.induct)
  case (2 flow0 p ip es sw)
  then obtain u inner hs where hd: "pkt_headers p = HUdp u # HIp inner # hs"
    by (auto simp: udp_in_ip_def)
  obtain fwd p' ip' sw' ef where step: "SwitchApp_ReceivePacket flow0 p ip sw = Inr (fwd, p', ip', sw', ef)"
      "sa_wf sw'" "sa_gwAddresses sw' = sa_gwAddresses sw" "sa_switchMode sw' = sa_switchMode sw"
      "sa_trafficMatrix sw' = (if sa_counts sw ip
        then SwitchApp_count (ip_src inner) (case pkt_flowId p of Some f \<Rightarrow> f | None \<Rightarrow> flow0)
               (ip_dst inner) (ip_dst ip) (sa_trafficMatrix sw)
        else sa_trafficMatrix sw)"
    using SwitchApp_ReceivePacket_spec [OF 2(2) hd, of flow0 ip] by (auto simp: returns_def)
  have "returns (sa_run flow0 es sw') (\<lambda>(n, sw''). sa_wf sw'' \<and>
     n + tm_total (sa_trafficMatrix sw'') =
       tm_total (sa_trafficMatrix sw') + of_nat (length (filter (ev_counted sw') es)))"
    by (rule 2(1) [OF step(2)]) (use 2(3) in auto)
  with step 2(2) ev_counted_cong [OF step(3,4)] show ?case
    by (auto simp: sa_wf_def SwitchApp_count_spec algebra_simps elim!: returns_mono)
next
  case (3 flow0 es sw)
  have wf: "sa_wf (sw\<lparr>sa_trafficMatrix := []\<rparr>)"
    using 3(2) by (simp add: sa_wf_def tm_wf_def)
  have "ev_counted (sw\<lparr>sa_trafficMatrix := []\<rparr>) = ev_counted sw"
    by (rule ev_counted_cong) simp_all
  with 3(1) [OF _ wf] 3(3) show ?case
    by (auto simp: SwitchApp_GetTrafficMatrix_def returns_bind_iff tm_total_def algebra_simps
        elim!: returns_mono)
qed simp

section \<open>Bulk insertion\<close>

lemma BulkInsert_coherent:
  "\<lbrakk>lru_wf (sa_cache sw); lru_lookup (sa_cache sw) \<subseteq>\<^sub>m M; \<forall>(k, v) \<in> set items. M k = Some v\<rbrakk> \<Longrightarrow>
   returns (SwitchApp_BulkInsertToCache items sw) (\<lambda>sw'. lru_wf (sa_cache sw') \<and>
     lru_lookup (sa_cache sw') \<subseteq>\<^sub>m M \<and> sa_trafficMatrix sw' = sa_trafficMatrix sw)"
proof (induction items sw rule: SwitchApp_BulkInsertToCache.induct)
  case (2 k v items sw)
  obtain c where c: "LRUCache_Put k v (sa_cache sw) = Inr c" "lru_wf c" "lru_lookup c \<subseteq>\<^sub>m M"
    using lru.put_coherent [of "sa_cache sw" M k v] 2(2-4) by auto
  with 2(1) [of c] 2(4) show ?case by simp
qed simp

text \<open>On the recency list a bulk insertion moves the items to the front, one by one, and truncates.\<close>

definition lru_push :: "nat \<Rightarrow> ('k \<times> 'v) list \<Rightarrow> ('k \<times> 'v) list \<Rightarrow> ('k \<times> 'v) list" where
  "lru_push n items xs = foldl (\<lambda>xs (k, v). take n (touch k v xs)) xs items"

lemma BulkInsert_refines:
  "lru_wf (sa_cache sw) \<Longrightarrow>
   returns (SwitchApp_BulkInsertToCache items sw) (\<lambda>sw'. lru_wf (sa_cache sw') \<and>
     lru_abs (sa_cache sw') = lru_push (lru_cacheSize (sa_cache sw)) items (lru_abs (sa_cache sw)))"
proof (induction items sw rule: SwitchApp_BulkInsertToCache.induct)
  case (2 k v items sw)
  obtain ev c where c: "LRUCache_Put_evict k v (sa_cache sw) = Inr (ev, c)" "lru_wf c"
      "lru_cacheSize c = lru_cacheSize (sa_cache sw)"
      "lru_abs c = take (lru_cacheSize (sa_cache sw)) (touch k v (lru_abs (sa_cache sw)))"
    using LRUCache_Put_refines [OF 2(2), of k v] by blast
  then have "LRUCache_Put k v (sa_cache sw) = Inr c"
    by (simp add: LRUCache_Put_def)
  with 2(1) [of c] c show ?case by (simp add: lru_push_def)
qed (simp add: lru_push_def)

lemma lru_push_fresh:
  "\<lbrakk>distinct (map fst items); fst ` set items \<inter> fst ` set xs = {}; length xs + length items \<le> n\<rbrakk> \<Longrightarrow>
   lru_push n items xs = rev items @ xs"
proof (induction items arbitrary: xs)
  case (Cons e items)
  obtain k v where e: "e = (k, v)" by (cases e)
  with Cons have "touch k v xs = (k, v) # xs"
    by (intro touch_fresh) (auto simp: map_of_eq_None_iff)
  with Cons e have "take n (touch k v xs) = (k, v) # xs"
    by simp
  moreover have "lru_push n items ((k, v) # xs) = rev items @ (k, v) # xs"
    using Cons e by (intro Cons.IH) auto
  ultimately show ?case
    using e by (simp add: lru_push_def)
qed (simp add: lru_push_def)

lemma BulkInsert_all_found:
  assumes "lru_wf (sa_cache sw)" and "lru_dq (sa_cache sw) = []" and "distinct (map fst items)"
    and "length items \<le> lru_cacheSize (sa_cache sw)"
  shows "returns (SwitchApp_BulkInsertToCache items sw) (\<lambda>sw'. lru_wf (sa_cache sw') \<and>
           lru_lookup (sa_cache sw') = map_of items)"
proof -
  have "lru_push (lru_cacheSize (sa_cache sw)) items (lru_abs (sa_cache sw)) = rev items"
    using lru_push_fresh [of items "[]"] assms(2-4) by (simp add: lru_abs_def)
  moreover have "map_of (rev items) = map_of items"
    using assms(3) by (intro map_of_inject_set [THEN iffD2]) (auto simp: rev_map [symmetric])
  ultimately show ?thesis
    using BulkInsert_refines [OF assms(1), of items] lru_map_of_abs
    by (auto elim!: returns_mono) (metis lru_map_of_abs)+
qed

section \<open>Properties\<close>

definition sa0 :: SwitchApp where
  "sa0 = SwitchApp_Setup [900] Controller \<lparr>sa_nodeId = 1, sa_cache = LRUCache_new, sa_gwAddresses = {},
     sa_trafficMatrix = [], sa_switchMode = NoCache, sa_memorySize = 4\<rparr>"

lemma sa0_wf: "sa_wf sa0" "lru_dq (sa_cache sa0) = []" "lru_cacheSize (sa_cache sa0) = 4"
  using lru_new_wf [of 4]
  by (simp_all add: sa_wf_def sa0_def SwitchApp_Setup_def tm_wf_def LRUCache_SetCapacity_def LRUCache_new_def)

definition sa_pkt0 :: Packet where
  "sa_pkt0 = (Packet_create 10)\<lparr>pkt_headers := [HUdp \<lparr>udp_sport = 667, udp_dport = 667\<rparr>,
     HIp \<lparr>ip_src = 2, ip_dst = 1, ip_ttl = 64\<rparr>]\<rparr>"

text \<open>C31: The controller sees every packet once. Over any run of packets and queries of the traffic matrix,
  the counts the queries return and the counts still in the switch add up, in 32-bit arithmetic, to the counts
  it started with and the number of packets that were on their way to a gateway in Controller mode.\<close>

theorem traffic_conserved:
  assumes "sa_wf sw" and "\<forall>e \<in> set es. ev_wf e"
  shows "\<exists>n sw'. sa_run flow0 es sw = Inr (n, sw') \<and>
           n + tm_total (sa_trafficMatrix sw') =
             tm_total (sa_trafficMatrix sw) + word_of_nat (length (filter (ev_counted sw) es))"
  using sa_run_total [OF assms, of flow0] by (auto simp: returns_def)

theorem traffic_conserved_witness:
  "\<exists>n sw'. sa_run 0 [SaPacket sa_pkt0 \<lparr>ip_src = 8, ip_dst = 900, ip_ttl = 60\<rparr>, SaQuery,
       SaPacket sa_pkt0 \<lparr>ip_src = 8, ip_dst = 9, ip_ttl = 60\<rparr>] sa0 = Inr (n, sw') \<and>
     n + tm_total (sa_trafficMatrix sw') = 1"
  using traffic_conserved [OF sa0_wf(1), of "[SaPacket sa_pkt0 \<lparr>ip_src = 8, ip_dst = 900, ip_ttl = 60\<rparr>, SaQuery,
       SaPacket sa_pkt0 \<lparr>ip_src = 8, ip_dst = 9, ip_ttl = 60\<rparr>]" 0]
  by (simp add: udp_in_ip_def sa_pkt0_def sa0_def SwitchApp_Setup_def sa_counts_def tm_total_def
      del: sa_run.simps)

text \<open>What the controller installs is what the switch answers. A bulk insertion of distinct keys into an
  empty cache with room for them leaves exactly these mappings.\<close>

theorem bulk_insert_exact:
  assumes "lru_wf (sa_cache sw)" and "lru_dq (sa_cache sw) = []" and "distinct (map fst items)"
    and "length items \<le> lru_cacheSize (sa_cache sw)"
  shows "\<exists>sw'. SwitchApp_BulkInsertToCache items sw = Inr sw' \<and> lru_wf (sa_cache sw') \<and>
           lru_lookup (sa_cache sw') = map_of items"
  using BulkInsert_all_found [OF assms] by (auto simp: returns_def)

theorem bulk_insert_exact_witness:
  "\<exists>sw'. SwitchApp_BulkInsertToCache [(1, 9), (2, 8)] sa0 = Inr sw' \<and> lru_lookup (sa_cache sw') = [1 \<mapsto> 9, 2 \<mapsto> 8]"
  using bulk_insert_exact [of sa0 "[(1, 9), (2, 8)]"] sa0_wf
  by (auto simp: sa_wf_def fun_upd_twist simp del: SwitchApp_BulkInsertToCache.simps)

text \<open>The controller-managed switch forwards every tunnelled packet unchanged but for the hop count, and
  rewrites the destination exactly when the packet is for a gateway and the address is cached; looking up
  never changes the mappings.\<close>

theorem controller_switch_translates:
  assumes "sa_wf sw" and "pkt_headers p = HUdp u # HIp inner # hs"
  shows "\<exists>sw' es. SwitchApp_ReceivePacket flow0 p ip sw =
           Inr (True, bump_hops p,
                (if ip_dst ip \<in> sa_gwAddresses sw
                 then (case lru_lookup (sa_cache sw) (ip_dst inner) of Some a \<Rightarrow> ip\<lparr>ip_dst := a\<rparr> | None \<Rightarrow> ip)
                 else ip), sw', es) \<and>
           sa_wf sw' \<and> lru_lookup (sa_cache sw') = lru_lookup (sa_cache sw)"
  using SwitchApp_ReceivePacket_spec [OF assms, of flow0 ip] by (auto simp: returns_def)

theorem controller_switch_translates_witness:
  "\<exists>sw' es. SwitchApp_ReceivePacket 0 sa_pkt0 \<lparr>ip_src = 8, ip_dst = 900, ip_ttl = 60\<rparr> sa0 =
     Inr (True, bump_hops sa_pkt0, \<lparr>ip_src = 8, ip_dst = 900, ip_ttl = 60\<rparr>, sw', es)"
  using controller_switch_translates [OF sa0_wf(1), of sa_pkt0 "\<lparr>udp_sport = 667, udp_dport = 667\<rparr>"
      "\<lparr>ip_src = 2, ip_dst = 1, ip_ttl = 64\<rparr>" "[]" 0 "\<lparr>ip_src = 8, ip_dst = 900, ip_ttl = 60\<rparr>"]
  by (auto simp: sa_pkt0_def sa0_def SwitchApp_Setup_def LRUCache_SetCapacity_def LRUCache_new_def)

end
