(* ===== verification/App_Lifecycle.thy ===== *)
theory App_Lifecycle
  imports P4_Switch Gateway Switch_App
begin

text \<open>
  How switches and gateways come to life and end: \<open>StartApplication\<close> and \<open>StopApplication\<close> of
  \<^verbatim>\<open>p4-switch-app.cc\<close>, \<^verbatim>\<open>switch-app.cc\<close> and \<^verbatim>\<open>gateway-app.cc\<close>, and the helper of
  \<^verbatim>\<open>include/gateway-app-helper.h\<close>. A socket is what the code sets of it: its kind, the address or device it is
  bound to, whether it calls the application back, and whether it is open. The interceptors of a node are counted;
  ns-3 calls each of them for every packet that crosses the node.
\<close>

section \<open>Sockets\<close>

datatype socket_kind = UdpSocket | RawUdpSocket

record AppSocket =
  sk_kind :: socket_kind
  sk_address :: "(u32 \<times> u16) option"
  sk_device :: "nat option"
  sk_recv :: bool
  sk_open :: bool

text \<open>\<open>Close\<close> and a null receive callback.\<close>

definition close_socket :: "AppSocket \<Rightarrow> AppSocket" where
  "close_socket s = s\<lparr>sk_open := False, sk_recv := False\<rparr>"

definition raw_socket :: "nat \<Rightarrow> AppSocket" where
  "raw_socket dev = \<lparr>sk_kind = RawUdpSocket, sk_address = None, sk_device = Some dev, sk_recv = True, sk_open = True\<rparr>"

text \<open>The application can receive from the socket.\<close>

definition receives :: "AppSocket \<Rightarrow> bool" where
  "receives s \<longleftrightarrow> sk_open s \<and> sk_recv s"

section \<open>The programmable switch\<close>

text \<open>\<open>hasIpv4\<close> says whether the node has an IPv4 stack, \<open>nDevices\<close> the number of its devices; device 0 is the
  loopback device.\<close>

record P4SwitchSockets =
  ps_interceptors :: nat
  ps_socket :: "AppSocket option"
  ps_bluebird :: "AppSocket list"

definition P4SwitchSockets_new :: P4SwitchSockets where
  "P4SwitchSockets_new = \<lparr>ps_interceptors = 0, ps_socket = None, ps_bluebird = []\<rparr>"

definition P4SwitchApp_StartApplication :: "bool \<Rightarrow> nat \<Rightarrow> P4Switch \<Rightarrow> P4SwitchSockets \<Rightarrow> P4SwitchSockets" where
  "P4SwitchApp_StartApplication hasIpv4 nDevices sw ps =
     (let ps = (if hasIpv4 then ps\<lparr>ps_interceptors := ps_interceptors ps + 1\<rparr> else ps);
          ps = (case ps_socket ps of
              None \<Rightarrow> ps\<lparr>ps_socket := Some \<lparr>sk_kind = UdpSocket, sk_address = Some (p4s_switchAddress sw, SWITCH_PORT),
                sk_device = None, sk_recv = False, sk_open = True\<rparr>\<rparr>
            | Some s \<Rightarrow> ps) in
      if p4s_simMode sw = Bluebird then ps\<lparr>ps_bluebird := ps_bluebird ps @ map raw_socket [1..<nDevices]\<rparr> else ps)"

text \<open>The loop over \<open>m_bluebirdSockets\<close> closes the sockets; \<open>s = 0\<close> clears its copy of the pointer only.\<close>

definition P4SwitchApp_StopApplication :: "P4SwitchSockets \<Rightarrow> P4SwitchSockets" where
  "P4SwitchApp_StopApplication ps = ps\<lparr>ps_socket := None, ps_bluebird := map close_socket (ps_bluebird ps)\<rparr>"

section \<open>The other switch and the gateway\<close>

text \<open>The state of \<open>SwitchApp\<close> here is the number of its interceptors on the node; stopping does nothing.\<close>

definition SwitchApp_StartApplication :: "bool \<Rightarrow> nat \<Rightarrow> nat" where
  "SwitchApp_StartApplication hasIpv4 interceptors = (if hasIpv4 then interceptors + 1 else interceptors)"

definition SwitchApp_StopApplication :: "nat \<Rightarrow> nat" where
  "SwitchApp_StopApplication interceptors = interceptors"

record GatewayApp =
  ga_virtualToPhysical :: "u32 \<rightharpoonup> u32"
  ga_socket :: "AppSocket option"

definition GatewayApp_new :: GatewayApp where
  "GatewayApp_new = \<lparr>ga_virtualToPhysical = Map.empty, ga_socket = None\<rparr>"

definition GatewayApp_Setup :: "(u32 \<rightharpoonup> u32) \<Rightarrow> GatewayApp \<Rightarrow> GatewayApp" where
  "GatewayApp_Setup vtp ga = ga\<lparr>ga_virtualToPhysical := vtp\<rparr>"

definition GatewayApp_StartApplication :: "GatewayApp \<Rightarrow> GatewayApp" where
  "GatewayApp_StartApplication ga =
     (case ga_socket ga of None \<Rightarrow> ga\<lparr>ga_socket := Some (raw_socket 1)\<rparr> | Some s \<Rightarrow> ga)"

definition GatewayApp_StopApplication :: "GatewayApp \<Rightarrow> GatewayApp" where
  "GatewayApp_StopApplication ga = ga\<lparr>ga_socket := None\<rparr>"

definition GatewayAppHelper_InstallPriv :: "(u32 \<rightharpoonup> u32) \<Rightarrow> GatewayApp" where
  "GatewayAppHelper_InstallPriv vtp = GatewayApp_Setup vtp GatewayApp_new"

text \<open>One application per node of the container, in its order.\<close>

definition GatewayAppHelper_Install :: "(u32 \<rightharpoonup> u32) \<Rightarrow> 'n list \<Rightarrow> ('n \<times> GatewayApp) list" where
  "GatewayAppHelper_Install vtp nodes = map (\<lambda>n. (n, GatewayAppHelper_InstallPriv vtp)) nodes"

section \<open>Lives\<close>

datatype life_event = StartE | StopE

fun switch_life_step :: "bool \<Rightarrow> nat \<Rightarrow> P4Switch \<Rightarrow> life_event \<Rightarrow> P4SwitchSockets \<Rightarrow> P4SwitchSockets" where
  "switch_life_step hasIpv4 nDevices sw StartE = P4SwitchApp_StartApplication hasIpv4 nDevices sw"
| "switch_life_step hasIpv4 nDevices sw StopE = P4SwitchApp_StopApplication"

definition listening :: "nat \<Rightarrow> P4SwitchSockets \<Rightarrow> AppSocket list" where
  "listening dev ps = filter (\<lambda>s. sk_device s = Some dev \<and> receives s) (ps_bluebird ps)"

lemma socket_stop: "ps_socket (P4SwitchApp_StopApplication ps) = None"
  by (simp add: P4SwitchApp_StopApplication_def)

lemma listening_closed: "listening dev (P4SwitchApp_StopApplication ps) = []"
  by (auto simp: listening_def P4SwitchApp_StopApplication_def receives_def close_socket_def filter_empty_conv)

lemma raw_socket_filter:
  "filter (\<lambda>s. sk_device s = Some dev \<and> receives s) (map raw_socket [1..<n]) = (if 1 \<le> dev \<and> dev < n then [raw_socket dev] else [])"
  by (induction n) (auto simp: raw_socket_def receives_def)

lemma listening_start:
  "listening dev (P4SwitchApp_StartApplication hasIpv4 n sw ps) = listening dev ps @
     (if p4s_simMode sw = Bluebird \<and> 1 \<le> dev \<and> dev < n then [raw_socket dev] else [])"
  by (auto simp: P4SwitchApp_StartApplication_def listening_def raw_socket_filter [unfolded One_nat_def] Let_def split: option.splits)

lemma interceptors_start:
  "ps_interceptors (P4SwitchApp_StartApplication hasIpv4 n sw ps) = ps_interceptors ps + (if hasIpv4 then 1 else 0)"
  by (simp add: P4SwitchApp_StartApplication_def Let_def split: option.splits)

lemma socket_start:
  "\<exists>s. ps_socket (P4SwitchApp_StartApplication hasIpv4 n sw ps) = Some s"
  by (simp add: P4SwitchApp_StartApplication_def Let_def split: option.splits)

text \<open>The calls ns-3 makes: started and stopped in turn, first started.\<close>

fun alternating :: "bool \<Rightarrow> life_event list \<Rightarrow> bool" where
  "alternating running [] \<longleftrightarrow> True"
| "alternating running (StartE # evs) \<longleftrightarrow> \<not> running \<and> alternating True evs"
| "alternating running (StopE # evs) \<longleftrightarrow> running \<and> alternating False evs"

definition switch_alive :: "bool \<Rightarrow> nat \<Rightarrow> P4Switch \<Rightarrow> P4SwitchSockets \<Rightarrow> bool" where
  "switch_alive running n sw ps \<longleftrightarrow> (ps_socket ps \<noteq> None) = running \<and>
     (\<forall>dev. listening dev ps = (if running \<and> p4s_simMode sw = Bluebird \<and> 1 \<le> dev \<and> dev < n then [raw_socket dev] else []))"

lemma switch_alive_step:
  assumes "switch_alive running n sw ps" and "e = StartE \<longleftrightarrow> \<not> running"
  shows "switch_alive (\<not> running) n sw (switch_life_step hasIpv4 n sw e ps)"
  using assms socket_start [of hasIpv4 n sw ps]
  by (cases e) (auto simp: switch_alive_def listening_start listening_closed socket_stop)

lemma switch_alive_run:
  assumes "switch_alive running n sw ps" and "alternating running evs"
  shows "switch_alive (running = even (length evs)) n sw (fold (switch_life_step hasIpv4 n sw) evs ps)"
  using assms
proof (induction evs arbitrary: running ps)
  case (Cons e evs)
  have e: "e = StartE \<longleftrightarrow> \<not> running" and rest: "alternating (\<not> running) evs"
    using Cons.prems(2) by (cases e; simp)+
  from Cons.IH [OF switch_alive_step [OF Cons.prems(1) e] rest] show ?case
    by (cases running; cases "even (length evs)") simp_all
qed simp

text \<open>A switch listens while it runs. Started and stopped in turn, it has its UDP socket exactly while it runs, and in
  Bluebird mode exactly one receiving raw socket for each device but the loopback device, so that no packet is
  taken twice; after it is stopped no socket calls it back. Its interceptors are never removed: there are as many
  as it was started.\<close>

theorem switch_lives:
  assumes "alternating False evs"
  shows "let ps = fold (switch_life_step hasIpv4 n sw) evs P4SwitchSockets_new; running = odd (length evs) in
    (ps_socket ps \<noteq> None) = running \<and>
    (\<forall>dev. listening dev ps = (if running \<and> p4s_simMode sw = Bluebird \<and> 1 \<le> dev \<and> dev < n then [raw_socket dev] else [])) \<and>
    ps_interceptors ps = (if hasIpv4 then length (filter (\<lambda>e. e = StartE) evs) else 0)"
proof -
  have "switch_alive False n sw P4SwitchSockets_new"
    by (simp add: switch_alive_def P4SwitchSockets_new_def listening_def)
  from switch_alive_run [OF this assms, of hasIpv4]
  have alive: "switch_alive (odd (length evs)) n sw (fold (switch_life_step hasIpv4 n sw) evs P4SwitchSockets_new)"
    by simp
  have "ps_interceptors (fold (switch_life_step hasIpv4 n sw) es ps) =
      ps_interceptors ps + (if hasIpv4 then length (filter (\<lambda>e. e = StartE) es) else 0)" for es ps
  proof (induction es arbitrary: ps)
    case (Cons e es)
    then show ?case
      by (cases e) (simp_all add: interceptors_start P4SwitchApp_StopApplication_def)
  qed simp
  from this [of evs P4SwitchSockets_new] alive show ?thesis
    unfolding Let_def switch_alive_def by (simp add: P4SwitchSockets_new_def)
qed

theorem switch_lives_witness:
  "ps_interceptors (fold (switch_life_step True 3 sw) [StartE, StopE, StartE] P4SwitchSockets_new) = 2"
  using switch_lives [of "[StartE, StopE, StartE]" True 3 sw] by (simp add: Let_def)

text \<open>A gateway that runs receives on its first device, every gateway of the helper has the table it was given, and a
  stopped gateway has no socket.\<close>

lemma gateway_lives:
  "list_all (\<lambda>(n, ga). ga_virtualToPhysical (GatewayApp_StartApplication ga) = vtp \<and>
       (\<exists>s. ga_socket (GatewayApp_StartApplication ga) = Some s \<and> receives s \<and> sk_device s = Some 1) \<and>
       ga_socket (GatewayApp_StopApplication (GatewayApp_StartApplication ga)) = None)
     (GatewayAppHelper_Install vtp nodes)"
  by (simp add: list_all_iff GatewayAppHelper_Install_def GatewayAppHelper_InstallPriv_def GatewayApp_Setup_def GatewayApp_new_def
      GatewayApp_StartApplication_def GatewayApp_StopApplication_def raw_socket_def receives_def)

end
