(* ===== verification/Deployment.thy ===== *)
theory Deployment
  imports Packet_Tracking Trace_Migration App_Lifecycle
begin

text \<open>
  From the set-up to the running network: the nodes of \<open>InitializeNodes\<close> in \<^verbatim>\<open>sim-base.cc\<close>, the helpers of
  \<^verbatim>\<open>include/p4-switch-app-helper.h\<close> and \<^verbatim>\<open>include/switch-app-helper.h\<close>, and the state in which
  hosts, switches and gateways start to exchange packets. The invariants of the network then hold for the
  simulation that the program builds.
\<close>

section \<open>Nodes and switches\<close>

text \<open>The nodes in the order of their creation; ns-3 numbers nodes from 0 in this order.\<close>

definition SimulationBase_InitializeNodes :: "SimulationBase \<Rightarrow> sim_node list" where
  "SimulationBase_InitializeNodes sb =
     (if NetworkTopology (sb_simParameters sb) = FATTREE then map CoreN [0..<sb_coreCount sb] else []) @
     map SpineN [0..<sb_spineCount sb] @ map LeafN [0..<sb_leafCount sb] @
     map (\<lambda>(i, j). HostN i j) (host_pairs sb)"

definition node_id :: "SimulationBase \<Rightarrow> sim_node \<Rightarrow> u32" where
  "node_id sb x = word_of_nat (length (takeWhile (\<lambda>y. y \<noteq> x) (SimulationBase_InitializeNodes sb)))"

text \<open>The nodes that get an IPv4 stack; without core switches \<open>m_cores\<close> stays empty.\<close>

definition SimulationBase_InstallNetworkStack :: "SimulationBase \<Rightarrow> sim_node list" where
  "SimulationBase_InstallNetworkStack sb =
     (let cores = (if NetworkTopology (sb_simParameters sb) = FATTREE then map CoreN [0..<sb_coreCount sb] else []) in
      cores @ map SpineN [0..<sb_spineCount sb] @ map LeafN [0..<sb_leafCount sb] @
      concat (map (\<lambda>i. map (HostN i) [0..<length (sb_containerGroups sb ! i)]) [0..<sb_leafCount sb]))"

text \<open>The defaults \<open>Configure\<close> sets: the choice among equal routes, TCP, the queue of a device, and the links of
  hosts and switches; sizes in bytes, times in nanoseconds, rates in bits per second.\<close>

datatype setting = SNum nat | SName string

definition SimulationBase_Configure :: "SimulationParameters \<Rightarrow> (string \<times> setting) list" where
  "SimulationBase_Configure params =
     [(''ns3::Ipv4GlobalRouting::EcmpMode'', SName (if RandomRouting params then ''ECMP_RANDOM'' else ''ECMP_PER_FLOW'')),
      (''ns3::TcpSocket::SegmentSize'', SNum 1024),
      (''ns3::TcpSocket::RcvBufSize'', SNum (50 * 1024 * 1024)),
      (''ns3::TcpSocket::SndBufSize'', SNum (50 * 1024 * 1024)),
      (''ns3::TcpSocket::ConnTimeout'', SNum 1000000),
      (''ns3::TcpSocketBase::MinRto'', SNum 10000000),
      (''ns3::TcpSocketBase::ClockGranularity'', SNum 10),
      (''ns3::RttEstimator::InitialEstimation'', SNum (53 * 2 * 1000)),
      (''ns3::TcpSocket::ConnCount'', SNum 1024),
      (''ns3::TcpSocketBase::ReTxThreshold'', SNum 2048),
      (''ns3::DropTailQueue<Packet>::MaxSize'', SNum (32 * 1024 * 1024)),
      (''m_nodeToSw.DataRate'', SNum 100000000000), (''m_nodeToSw.Delay'', SNum 1000),
      (''m_swToSw.DataRate'', SNum 400000000000), (''m_swToSw.Delay'', SNum 1000)]"

definition P4SwitchAppHelper_InstallPriv ::
  "P4SwitchAttributes \<Rightarrow> u32 \<Rightarrow> u32 \<Rightarrow> u32 list \<Rightarrow> u32 \<Rightarrow> SwitchType \<Rightarrow> Mode \<Rightarrow> u32 \<Rightarrow> P4Switch res" where
  "P4SwitchAppHelper_InstallPriv attrs nodeId rnd gwAddresses switchAddress switchType simMode podCount =
     P4SwitchApp_Setup attrs nodeId rnd gwAddresses switchAddress switchType simMode podCount"

text \<open>\<open>memorySize\<close> is the attribute \<open>MemorySize\<close> (default 10, overridden on the command line); \<open>Setup\<close> sets
  the mode before it is read.\<close>

definition SwitchApp_new :: "int \<Rightarrow> u32 \<Rightarrow> Mode \<Rightarrow> SwitchApp" where
  "SwitchApp_new memorySize nodeId uninit = \<lparr>sa_nodeId = nodeId, sa_cache = LRUCache_new, sa_gwAddresses = {}, sa_trafficMatrix = [],
     sa_switchMode = uninit, sa_memorySize = memorySize\<rparr>"

definition SwitchAppHelper_InstallPriv :: "int \<Rightarrow> u32 \<Rightarrow> Mode \<Rightarrow> u32 list \<Rightarrow> Mode \<Rightarrow> SwitchApp" where
  "SwitchAppHelper_InstallPriv memorySize nodeId uninit gwAddresses simMode =
     SwitchApp_Setup gwAddresses simMode (SwitchApp_new memorySize nodeId uninit)"

text \<open>The programmable switches among the applications; \<open>rnd\<close> gives the random number each draws for its hash
  function.\<close>

fun start_switch :: "P4SwitchAttributes \<Rightarrow> (sim_node \<Rightarrow> u32) \<Rightarrow> SimulationBase \<Rightarrow> sim_app \<Rightarrow> P4Switch list res" where
  "start_switch attrs rnd sb (P4App x a t m) =
     bindE (P4SwitchAppHelper_InstallPriv attrs (node_id sb x) (rnd x) (sb_gwAddresses sb) a t m (word_of_nat (sb_podCount sb)))
       (\<lambda>sw. Inr [sw])"
| "start_switch attrs rnd sb _ = Inr []"

definition start_switches :: "P4SwitchAttributes \<Rightarrow> (sim_node \<Rightarrow> u32) \<Rightarrow> SimulationBase \<Rightarrow> sim_app list \<Rightarrow> P4Switch list res" where
  "start_switches attrs rnd sb apps = bindE (mapE (start_switch attrs rnd sb) apps) (\<lambda>xs. Inr (concat xs))"

section \<open>The network at the start\<close>

text \<open>The addresses of the containers that are no gateways; no flow goes to a gateway.\<close>

definition serving :: "SimulationBase \<Rightarrow> u32 \<rightharpoonup> u32" where
  "serving sb k = (if k \<in> snd ` set (filter (\<lambda>(c, _). contains c ''Gateway'') (sb_containerToId sb)) then None
     else sb_virtualToPhysical sb k)"

text \<open>The tunnel endpoint at an address. Addresses that no host has are never used; the endpoint there is a copy of
  the first one.\<close>

definition endpoint_at :: "ipv4_parser \<Rightarrow> SimulationBase \<Rightarrow> u32 \<Rightarrow> SocketHelper" where
  "endpoint_at ipv4 sb a =
     (case (case find (\<lambda>(i, j). host_address ipv4 sb i j = a) (host_pairs sb) of Some p \<Rightarrow> p | None \<Rightarrow> hd (host_pairs sb)) of
        (i, j) \<Rightarrow> (sb_socketHelpers sb ! i ! j)\<lparr>sh_physicalAddress := a\<rparr>)"

definition deployed_env ::
  "ns3_env \<Rightarrow> (u32 \<Rightarrow> Packet \<Rightarrow> u32 \<Rightarrow> u16 \<Rightarrow> Packet) \<Rightarrow> P4SwitchAttributes \<Rightarrow> TraceSimulation \<Rightarrow> net_env" where
  "deployed_env E encap attrs ts =
     (let sb = ts_base ts; mig = ts_migrationParams ts in
      \<lparr>ne_env = E, ne_encap = encap, ne_gws = set (sb_gwAddresses sb), ne_vtp0 = serving sb,
       ne_migrates = mig_migration mig, ne_container = IpUtils_GetContainerVirtualAddress (mig_containerId mig),
       ne_target = host_address (env_ipv4 E) sb (unat (mig_dstLeaf mig)) (unat (mig_dstHost mig)),
       ne_learns = at_SourceLearning attrs,
       ne_nbits = (if at_BloomFilter attrs then nat (at_BloomFilterSize attrs) else 2 ^ 32)\<rparr>)"

definition deployed_net :: "ipv4_parser \<Rightarrow> TraceSimulation \<Rightarrow> P4Switch list \<Rightarrow> Net" where
  "deployed_net ipv4 ts switches = \<lparr>nt_switches = switches, nt_vtp = serving (ts_base ts), nt_hosts = endpoint_at ipv4 (ts_base ts),
     nt_flight = [], nt_gwq = [], nt_pending = [], nt_delivered = []\<rparr>"

text \<open>Gateways have hosts of their own, as the parser of the placement makes them.\<close>

definition gateways_apart :: "ContainerGroups \<Rightarrow> bool" where
  "gateways_apart groups \<longleftrightarrow> (\<forall>((i, j), c) \<in> set (slots groups). (i, j) \<in> set (gateway_slots groups) \<longrightarrow> contains c ''Gateway'')"

section \<open>Switches start\<close>

text \<open>Every node has a stack, each once, so that every switch that starts intercepts packets.\<close>

lemma concat_map_Pair: "concat (map (\<lambda>i. map (h i) (js i)) is) = map (\<lambda>(i, j). h i j) (concat (map (\<lambda>i. map (Pair i) (js i)) is))"
  by (induction "is") (auto simp: comp_def)

lemma stack_everywhere: "SimulationBase_InstallNetworkStack sb = SimulationBase_InitializeNodes sb"
  by (simp add: SimulationBase_InstallNetworkStack_def SimulationBase_InitializeNodes_def Let_def concat_map_Pair [where h = HostN]
      host_pairs_def nest_def)

lemma switch_intercepts:
  assumes "x \<in> set (switch_nodes sb)" and "NetworkTopology (sb_simParameters sb) = CLOS \<longrightarrow> sb_coreCount sb = 0"
  shows "ps_interceptors (P4SwitchApp_StartApplication (x \<in> set (SimulationBase_InstallNetworkStack sb)) n sw P4SwitchSockets_new) = 1"
proof -
  have "x \<in> set (SimulationBase_InitializeNodes sb)"
    using assms by (cases "NetworkTopology (sb_simParameters sb)") (auto simp: SimulationBase_InitializeNodes_def switch_nodes_def)
  then show ?thesis
    by (simp add: stack_everywhere interceptors_start P4SwitchSockets_new_def)
qed

lemma takeWhile_found: "x \<in> set xs \<Longrightarrow> length (takeWhile (\<lambda>y. y \<noteq> x) xs) < length xs"
  by (induction xs) auto

lemma node_id_switch:
  assumes "x \<in> set (switch_nodes sb)" and "sb_coreCount sb + sb_spineCount sb + sb_leafCount sb < 2 ^ 32"
    and "NetworkTopology (sb_simParameters sb) = CLOS \<longrightarrow> sb_coreCount sb = 0"
  shows "unat (node_id sb x) < sb_coreCount sb + sb_spineCount sb + sb_leafCount sb"
proof -
  define switches where "switches = (if NetworkTopology (sb_simParameters sb) = FATTREE then map CoreN [0..<sb_coreCount sb] else []) @
     map SpineN [0..<sb_spineCount sb] @ map LeafN [0..<sb_leafCount sb]"
  have x: "x \<in> set switches"
    using assms(1,3) by (cases "NetworkTopology (sb_simParameters sb)") (auto simp: switches_def switch_nodes_def)
  have "SimulationBase_InitializeNodes sb = switches @ map (\<lambda>(i, j). HostN i j) (host_pairs sb)"
    by (simp add: SimulationBase_InitializeNodes_def switches_def)
  then have "takeWhile (\<lambda>y. y \<noteq> x) (SimulationBase_InitializeNodes sb) = takeWhile (\<lambda>y. y \<noteq> x) switches"
    using takeWhile_append1 [OF x, of "\<lambda>y. y \<noteq> x"] by simp
  moreover have "length (takeWhile (\<lambda>y. y \<noteq> x) switches) < length switches"
    by (rule takeWhile_found [OF x])
  moreover have "length switches \<le> sb_coreCount sb + sb_spineCount sb + sb_leafCount sb"
    by (simp add: switches_def)
  ultimately show ?thesis
    using assms(2) by (simp add: node_id_def unsigned_of_nat take_bit_nat_eq_self)
qed

lemma start_switches_ok:
  assumes "0 < at_MemorySize attrs" and "0 \<le> at_BloomFilterSize attrs"
    and "\<forall>x a t m. P4App x a t m \<in> set apps \<longrightarrow> m = M \<and> unat (node_id sb x) < ne_nbits N" and "M \<noteq> Bluebird"
    and "set (sb_gwAddresses sb) = ne_gws N" and "at_SourceLearning attrs \<longrightarrow> ne_learns N"
    and "at_BloomFilter attrs \<longrightarrow> nat (at_BloomFilterSize attrs) = ne_nbits N"
  shows "returns (start_switches attrs rnd sb apps) (\<lambda>sws. (\<forall>sw \<in> set sws. switch_fresh N sw \<and> p4s_simMode sw = M) \<and>
    map p4s_switchAddress sws = List.map_filter (\<lambda>app. case app of P4App x a t m \<Rightarrow> Some a | _ \<Rightarrow> None) apps)"
  using assms(3)
proof (induction apps)
  case Nil
  then show ?case by (simp add: start_switches_def List.map_filter_def)
next
  case (Cons app apps)
  then have IH: "returns (start_switches attrs rnd sb apps) (\<lambda>sws. (\<forall>sw \<in> set sws. switch_fresh N sw \<and> p4s_simMode sw = M) \<and>
      map p4s_switchAddress sws = List.map_filter (\<lambda>app. case app of P4App x a t m \<Rightarrow> Some a | _ \<Rightarrow> None) apps)"
    by (metis list.set_intros(2))
  show ?case
  proof (cases app)
    case (P4App x a t m)
    then have prems: "m = M" "unat (node_id sb x) < ne_nbits N"
      using spec [OF spec [OF spec [OF spec [OF Cons.prems, of x], of a], of t], of m] by simp_all
    obtain sw where sw: "P4SwitchApp_Setup attrs (node_id sb x) (rnd x) (sb_gwAddresses sb) a t m (word_of_nat (sb_podCount sb)) = Inr sw"
      using Setup_ok [OF assms(1,2), of "node_id sb x" "rnd x" "sb_gwAddresses sb" a t m "word_of_nat (sb_podCount sb)"]
      unfolding returns_def by blast
    moreover have "p4s_switchAddress sw = a" "p4s_simMode sw = m"
      using sw by (auto simp: P4SwitchApp_Setup_def monad_simps)
    moreover have "switch_fresh N sw"
      unfolding switch_fresh_def
      by (rule exI, rule exI, rule exI, rule exI, rule exI, rule exI, rule exI, rule exI, rule conjI [OF sw])
         (use assms(1,2,4-7) prems P4App in simp)
    ultimately show ?thesis
      using IH prems by (auto simp: P4App start_switches_def P4SwitchAppHelper_InstallPriv_def returns_def monad_simps List.map_filter_def)
  qed (use IH in \<open>auto simp: start_switches_def returns_def monad_simps List.map_filter_def\<close>)
qed

section \<open>Hosts and addresses at the start\<close>

lemma SimulationBase_new_config:
  assumes "SimulationBase_new params groups migParams uninit = Inr sb" and "octets_ok params groups"
  shows "endpoint_config sb = map (\<lambda>nodes. replicate (length nodes) (params, migParams, uninit)) groups"
proof -
  obtain sb0 where sb0: "SimulationBase_init params groups migParams uninit = Inr sb0" "sb = SimulationBase_AssignIds sb0"
    using assms(1) by (auto simp: SimulationBase_new_def monad_simps)
  moreover have "length groups mod 2 ^ 32 = length groups"
    using assms(2) by (simp add: octets_ok_def)
  ultimately have "endpoint_config sb0 = map (\<lambda>nodes. replicate (length nodes) (params, migParams, uninit)) groups"
    by (auto simp: SimulationBase_init_def Let_def monad_simps SocketHelper_new_def helper_config_def)
  then show ?thesis
    using AssignIds_frame [of sb0] unfolding sb0(2) by auto
qed

lemma endpoint_at_config:
  assumes "endpoint_config net = map (\<lambda>nodes. replicate (length nodes) c) groups" and "i < length groups" and "j < length (groups ! i)"
  shows "helper_config (sb_socketHelpers net ! i ! j) = c"
proof -
  have "in_vec2 (sb_socketHelpers net) i j"
    using assms in_vec2_map [of helper_config "sb_socketHelpers net" i j] by (simp add: in_vec2_map_replicate)
  then have "helper_config (sb_socketHelpers net ! i ! j) = endpoint_config net ! i ! j"
    by (simp add: in_vec2_def)
  with assms show ?thesis by simp
qed

lemma host_address_positive:
  assumes "dims_ok sb" and "dotted_quad ipv4" and "(i, j) \<in> set (host_pairs sb)"
  shows "host_address ipv4 sb i j \<noteq> 0"
proof -
  have "quad (i div sb_podWidth sb + 1) (i mod sb_podWidth sb) j 1 \<noteq> quad 0 0 0 0"
    using host_address_quad [OF assms] by (subst quad_inject) simp_all
  moreover have "quad 0 0 0 0 = 0"
    by (simp add: quad_def quad_nat_def)
  ultimately show ?thesis
    using host_address_quad [OF assms] by simp
qed

lemma serving_host:
  assumes "tunnel_ready ipv4 groups sb net" and "gateways_apart groups" and "serving net v = Some a"
    and "sb_containerGroups sb = groups" and "sb_leafCount sb = length groups"
  shows "\<exists>i j. (i, j) \<in> set (host_pairs sb) \<and> (i, j) \<notin> set (gateway_slots groups) \<and> a = host_address ipv4 sb i j"
proof -
  have v: "v \<notin> snd ` set (filter (\<lambda>(c, _). contains c ''Gateway'') (sb_containerToId net))" "sb_virtualToPhysical net v = Some a"
    using assms(3) by (auto simp: serving_def split: if_splits)
  then have "v \<in> word_of_nat ` {..<length (slots groups)}"
    using assms(1) by (metis domI tunnel_ready_def)
  then obtain k where k: "k < length (slots groups)" "v = word_of_nat k"
    by blast
  obtain i j c where slot: "slots groups ! k = ((i, j), c)"
    by (metis surj_pair)
  then have table: "map_of (sb_containerToId net) c = Some v" "a = host_address ipv4 sb i j" "((i, j), c) \<in> set (slots groups)"
    using assms(1) k v(2) nth_mem [OF k(1)] by (auto simp: tunnel_ready_def IpUtils_GetContainerVirtualAddress_def)
  have "\<not> contains c ''Gateway''"
    using v(1) map_of_SomeD [OF table(1)] by force
  then have "(i, j) \<notin> set (gateway_slots groups)"
    using assms(2) table(3) by (auto simp: gateways_apart_def)
  moreover have "(i, j) \<in> set (host_pairs sb)"
    using slots_in_pairs [of sb i j c] assms(4,5) table(3) by simp
  ultimately show ?thesis
    using table(2) by blast
qed

lemma host_not_gateway:
  assumes "dims_ok sb" and "dotted_quad ipv4" and "(i, j) \<in> set (host_pairs sb)" and "(i, j) \<notin> set (gateway_slots (sb_containerGroups sb))"
  shows "host_address ipv4 sb i j \<notin> (\<lambda>(i, j). host_address ipv4 sb i j) ` set (gateway_slots (sb_containerGroups sb))"
proof clarify
  fix p q
  assume pq: "(p, q) \<in> set (gateway_slots (sb_containerGroups sb))" "host_address ipv4 sb i j = host_address ipv4 sb p q"
  then have "(p, q) \<in> set (host_pairs sb)"
    using gateway_slots_subset [of "sb_containerGroups sb"] slots_in_pairs [of sb p q] dims_okD(4) [OF assms(1)] by force
  from host_address_inj [OF assms(1-3) this] pq assms(4) show False by simp
qed

lemma deployed_cfg:
  assumes "prepared (env_ipv4 E) masks sb net" and "dims_ok sb" and "dotted_quad (env_ipv4 E)"
    and "gateways_apart (sb_containerGroups sb)" and "encap_ok encap"
    and "(unat (mig_dstLeaf (ts_migrationParams ts)), unat (mig_dstHost (ts_migrationParams ts))) \<in>
      set (host_pairs sb) - set (gateway_slots (sb_containerGroups sb))"
  shows "net_cfg (deployed_env E encap attrs (ts\<lparr>ts_base := net\<rparr>))"
proof -
  note plan = prepared_plan [OF assms(1)]
  have ready: "tunnel_ready (env_ipv4 E) (sb_containerGroups sb) sb net"
    using assms(1) by (simp add: prepared_def)
  then have gws: "set (sb_gwAddresses net) = (\<lambda>(i, j). host_address (env_ipv4 E) sb i j) ` set (gateway_slots (sb_containerGroups sb))"
    by (simp add: tunnel_ready_def)
  have host: "a \<noteq> 0 \<and> a \<notin> set (sb_gwAddresses net)"
    if "(i, j) \<in> set (host_pairs sb)" "(i, j) \<notin> set (gateway_slots (sb_containerGroups sb))" "a = host_address (env_ipv4 E) sb i j"
    for i j a
    using host_address_positive [OF assms(2,3) that(1)] host_not_gateway [OF assms(2,3) that(1,2)] that(3) gws by simp
  have "a \<noteq> 0 \<and> a \<notin> set (sb_gwAddresses net)" if "serving net v = Some a" for v a
    using serving_host [OF ready assms(4) that refl] dims_okD(4) [OF assms(2)] host by metis
  moreover have "host_address (env_ipv4 E) net l h \<noteq> 0 \<and> host_address (env_ipv4 E) net l h \<notin> set (sb_gwAddresses net)"
    if "(l, h) \<in> set (host_pairs sb) - set (gateway_slots (sb_containerGroups sb))" for l h
    using host [of l h] that plan(1) by simp
  ultimately show ?thesis
    using assms(5,6) by (simp add: net_cfg_def deployed_env_def Let_def)
qed

lemma target_same:
  assumes "SimulationBase_new params groups migParams uninit = Inr sb" and "octets_ok params groups"
    and "l < length groups" and "NetworkTopology params = FATTREE \<or> l < PodWidth params"
  shows "l div sb_podWidth sb = l div PodWidth params \<and> l mod sb_podWidth sb = l mod PodWidth params"
  using SimulationBase_new_width [OF assms(1,2)] assms(3,4) by (cases "NetworkTopology params") auto

lemma deployed_host_ok:
  assumes "prepared (env_ipv4 E) masks sb net" and "SimulationBase_new params groups (ts_migrationParams ts) uninit = Inr sb"
    and "octets_ok params groups" and "names_ok groups" and "gateway_slots groups \<noteq> []" and "0 < PodWidth params"
    and "SimMode params \<noteq> Direct" and "SimMode params \<noteq> OnDemand"
    and "unat (mig_dstLeaf (ts_migrationParams ts)) < length groups"
    and "NetworkTopology params = FATTREE \<or> unat (mig_dstLeaf (ts_migrationParams ts)) < PodWidth params"
  shows "host_ok (deployed_env E encap attrs (ts\<lparr>ts_base := net\<rparr>)) a (endpoint_at (env_ipv4 E) net a)"
proof -
  note plan = prepared_plan [OF assms(1)] and shape = SimulationBase_new_shape(3) [OF assms(2,3)]
  let ?l = "unat (mig_dstLeaf (ts_migrationParams ts))"
  have len: "sb_leafCount sb = length groups"
    using SimulationBase_new_dims [OF assms(2,3)] dims_okD(4) shape by metis
  have ready: "tunnel_ready (env_ipv4 E) groups sb net"
    using assms(1) shape by (simp add: prepared_def)
  have gws: "sb_gwAddresses net \<noteq> []" "length (sb_gwAddresses net) < 2 ^ 32"
    using ready assms(4,5) gateway_slots_length [of groups] by (auto simp: tunnel_ready_def names_ok_def)
  obtain p q where "(p, q) \<in> set (gateway_slots groups)"
    using assms(5) by (metis list.set_sel(1) surj_pair)
  then have "host_pairs net \<noteq> []"
    using gateway_slots_subset [of groups] slots_in_pairs [of sb p q] shape len plan(10) by force
  then have "hd (host_pairs net) \<in> set (host_pairs net)"
    by simp
  moreover have "find P (host_pairs net) = Some x \<Longrightarrow> x \<in> set (host_pairs net)" for P x
    by (auto simp: find_Some_iff)
  ultimately obtain i j where ij: "(i, j) \<in> set (host_pairs net)"
      "endpoint_at (env_ipv4 E) net a = (sb_socketHelpers net ! i ! j)\<lparr>sh_physicalAddress := a\<rparr>"
    unfolding endpoint_at_def by (metis (no_types, lifting) case_prod_conv option.exhaust option.simps(4,5) surj_pair)
  have bounds: "i < length groups" "j < length (groups ! i)"
    using ij(1) len shape plan(10) by (simp_all add: host_pairs_iff)
  have "endpoint_config net = map (\<lambda>nodes. replicate (length nodes) (params, ts_migrationParams ts, uninit)) groups"
    using assms(1) SimulationBase_new_config [OF assms(2,3)] by (simp add: prepared_def)
  from endpoint_at_config [OF this bounds]
  have config: "sh_simParams (sb_socketHelpers net ! i ! j) = params" "sh_migrationParams (sb_socketHelpers net ! i ! j) = ts_migrationParams ts"
    by (simp_all add: helper_config_def)
  have endpoint: "sh_gatewayAddresses (sb_socketHelpers net ! i ! j) = sb_gwAddresses net" "0 < sh_gatewayRange (sb_socketHelpers net ! i ! j)"
    using ready bounds unfolding tunnel_ready_def Let_def by blast+
  show ?thesis
    using gws config endpoint assms(6-8) target_same [OF assms(2,3,9,10)] plan(8)
    by (simp add: ij(2) host_ok_def sh_wf_def mig_target_def deployed_env_def Let_def host_address_def)
qed

text \<open>The routes of the network are those of the set-up, and the addresses of gateways and containers are addresses of
  hosts.\<close>

lemma prepared_network:
  assumes "prepared ipv4 masks sb net" and "dims_ok sb"
  shows "network_ok ipv4 masks net"
proof -
  note plan = prepared_plan [OF assms(1)]
  have "dims_ok net"
    using assms(2) unfolding dims_ok_def plan .
  moreover have "network_links ipv4 net = network_links ipv4 sb" "routes_of ipv4 masks net = routes_of ipv4 masks sb"
    by (rule routes_of_cong; simp add: plan)+
  ultimately show ?thesis
    by (simp add: network_ok_def plan)
qed

lemma deployed_sites:
  assumes "prepared (env_ipv4 E) masks sb net" and "dims_ok sb" and "gateways_apart (sb_containerGroups sb)"
    and "(unat (mig_dstLeaf (ts_migrationParams ts)), unat (mig_dstHost (ts_migrationParams ts))) \<in> set (host_pairs sb)"
  shows "sites (deployed_env E encap attrs (ts\<lparr>ts_base := net\<rparr>)) (env_ipv4 E) net"
proof -
  note plan = prepared_plan [OF assms(1)]
  have ready: "tunnel_ready (env_ipv4 E) (sb_containerGroups sb) sb net"
    using assms(1) by (simp add: prepared_def)
  have node: "is_node net (HostN i j)" if "(i, j) \<in> set (host_pairs sb)" for i j
    using that by (simp add: host_pairs_iff plan)
  have "\<exists>i j. is_node net (HostN i j) \<and> host_address (env_ipv4 E) net i j = a" if "a \<in> set (sb_gwAddresses net)" for a
  proof -
    have "sb_gwAddresses net = map (\<lambda>(i, j). host_address (env_ipv4 E) sb i j) (gateway_slots (sb_containerGroups sb))"
      using ready by (simp add: tunnel_ready_def)
    with that obtain i j where ij: "(i, j) \<in> set (gateway_slots (sb_containerGroups sb))" "a = host_address (env_ipv4 E) sb i j"
      by auto
    then have "(i, j) \<in> set (host_pairs sb)"
      using gateway_slots_subset [of "sb_containerGroups sb"] slots_in_pairs [of sb i j] dims_okD(4) [OF assms(2)] by force
    from node [OF this] ij(2) show ?thesis
      by (metis plan(1))
  qed
  moreover have "\<exists>i j. is_node net (HostN i j) \<and> host_address (env_ipv4 E) net i j = a" if "serving net v = Some a" for v a
    using serving_host [OF ready assms(3) that refl] dims_okD(4) [OF assms(2)] node by (metis plan(1))
  moreover have "is_node net (HostN (unat (mig_dstLeaf (ts_migrationParams ts))) (unat (mig_dstHost (ts_migrationParams ts))))"
    using node [OF assms(4)] .
  ultimately show ?thesis
    unfolding sites_def by (auto simp: deployed_env_def Let_def ran_def simp del: is_node.simps)
qed

section \<open>The simulation the program builds\<close>

text \<open>In the modes SwitchV2P and LocalLearning every switch is programmable.\<close>

lemma v2p_apps:
  assumes "SimMode (sb_simParameters sb) = SwitchV2P \<or> SimMode (sb_simParameters sb) = LocalLearning"
  shows "List.map_filter (\<lambda>app. case app of P4App x a t m \<Rightarrow> Some a | _ \<Rightarrow> None) (hosts @ other_apps ipv4 sb) =
      List.map_filter (\<lambda>app. case app of P4App x a t m \<Rightarrow> Some a | _ \<Rightarrow> None) hosts @ map (node_address ipv4 sb) (switch_nodes sb)"
    and "P4App x a t m \<in> set (other_apps ipv4 sb) \<Longrightarrow> x \<in> set (switch_nodes sb) \<and> m = SimMode (sb_simParameters sb)"
proof -
  have "List.map_filter (\<lambda>app. case app of P4App x a t m \<Rightarrow> Some a | _ \<Rightarrow> None) (SetupApplications_v2p ipv4 sb) =
      map (node_address ipv4 sb) (switch_nodes sb)"
    by (simp add: SetupApplications_v2p_def Let_def List.map_filter_def comp_def switch_nodes_def)
  moreover have "SetupApplications_switches ipv4 sb = SetupApplications_v2p ipv4 sb"
    using assms by (auto simp: SetupApplications_switches_def Let_def)
  ultimately show "List.map_filter (\<lambda>app. case app of P4App x a t m \<Rightarrow> Some a | _ \<Rightarrow> None) (hosts @ other_apps ipv4 sb) =
      List.map_filter (\<lambda>app. case app of P4App x a t m \<Rightarrow> Some a | _ \<Rightarrow> None) hosts @ map (node_address ipv4 sb) (switch_nodes sb)"
    using assms by (auto simp: other_apps_def List.map_filter_def comp_def)
  show "x \<in> set (switch_nodes sb) \<and> m = SimMode (sb_simParameters sb)" if "P4App x a t m \<in> set (other_apps ipv4 sb)"
    using that assms
    by (auto simp: other_apps_def SetupApplications_switches_def SetupApplications_v2p_def switch_nodes_def Let_def split: if_splits)
qed

lemma host_apps_no_switch:
  "List.map_filter (\<lambda>app. case app of P4App x a t m \<Rightarrow> Some a | _ \<Rightarrow> None) (concat (map (host_apps ipv4 ts) ps)) = []"
  "P4App x a t m \<notin> set (concat (map (host_apps ipv4 ts) ps))"
proof -
  have none: "\<forall>app \<in> set (concat (map (host_apps ipv4 ts) ps)). switch_of app = None"
    by (rule host_apps_none)
  then show "P4App x a t m \<notin> set (concat (map (host_apps ipv4 ts) ps))"
    by force
  have "(case app of P4App x a t m \<Rightarrow> Some a | _ \<Rightarrow> None) = None" if "switch_of app = None" for app
    using that by (cases app) auto
  with none show "List.map_filter (\<lambda>app. case app of P4App x a t m \<Rightarrow> Some a | _ \<Rightarrow> None) (concat (map (host_apps ipv4 ts) ps)) = []"
    unfolding List.map_filter_def by (simp add: filter_empty_conv)
qed

lemma deployed_switches:
  assumes "prepared ipv4 masks sb net" and "dims_ok sb" and "SimMode (sb_simParameters sb) = SwitchV2P \<or> SimMode (sb_simParameters sb) = LocalLearning"
    and "0 < at_MemorySize attrs" and "0 \<le> at_BloomFilterSize attrs"
    and "at_BloomFilter attrs \<longrightarrow> int (2 * sb_leafCount sb + sb_coreCount sb) \<le> at_BloomFilterSize attrs"
    and "ts_base ts = net"
  shows "returns (start_switches attrs rnd net (concat (map (host_apps ipv4 ts') ps) @ other_apps ipv4 net))
    (\<lambda>sws. (\<forall>sw \<in> set sws. switch_fresh (deployed_env E encap attrs ts) sw \<and> p4s_simMode sw = SimMode (sb_simParameters sb)) \<and>
      map p4s_switchAddress sws = map (node_address ipv4 sb) (switch_nodes sb))"
proof -
  let ?N = "deployed_env E encap attrs ts" and ?apps = "concat (map (host_apps ipv4 ts') ps) @ other_apps ipv4 net"
  note plan = prepared_plan [OF assms(1)]
  have mode: "SimMode (sb_simParameters net) = SwitchV2P \<or> SimMode (sb_simParameters net) = LocalLearning"
    using assms(3) plan(3) by simp
  have small: "sb_coreCount net + sb_spineCount net + sb_leafCount net < 2 ^ 32"
    using dims_okD(2,3,5,7,8) [OF assms(2)] plan mult_le_mono [of "sb_podCount sb" 256 "sb_podWidth sb" 256] by simp
  have ids: "unat (node_id net x) < ne_nbits ?N" if "x \<in> set (switch_nodes net)" for x
  proof -
    have "unat (node_id net x) < 2 * sb_leafCount sb + sb_coreCount sb"
      using node_id_switch [OF that small] plan dims_okD(3,11) [OF assms(2)] by simp
    moreover have "unat (node_id net x) < 2 ^ 32"
      using unsigned_less [of "node_id net x"] by simp
    ultimately show ?thesis
      using assms(6) by (auto simp: deployed_env_def Let_def)
  qed
  have "\<forall>x a t m. P4App x a t m \<in> set ?apps \<longrightarrow> m = SimMode (sb_simParameters sb) \<and> unat (node_id net x) < ne_nbits ?N"
    using v2p_apps(2) [OF mode] ids host_apps_no_switch(2) plan(3) by (metis Un_iff set_append)
  from start_switches_ok [OF assms(4,5) this, of rnd] mode
  have "returns (start_switches attrs rnd net ?apps) (\<lambda>sws. (\<forall>sw \<in> set sws. switch_fresh ?N sw \<and>
      p4s_simMode sw = SimMode (sb_simParameters sb)) \<and>
      map p4s_switchAddress sws = map (node_address ipv4 net) (switch_nodes net))"
    unfolding v2p_apps(1) [OF mode] host_apps_no_switch(1) using plan(3) by (auto simp: assms(7) deployed_env_def Let_def)
  moreover have "map (node_address ipv4 net) (switch_nodes net) = map (node_address ipv4 sb) (switch_nodes sb)"
    using node_address_cong [of net sb ipv4] plan by (simp add: switch_nodes_def)
  ultimately show ?thesis by simp
qed

text \<open>\<open>UpdateMappings\<close> is the migration step of the network.\<close>

lemma update_serving:
  assumes "mig_containerId (ts_migrationParams ts) \<notin> snd ` set (filter (\<lambda>(c, _). contains c ''Gateway'') (sb_containerToId (ts_base ts)))"
  shows "serving (ts_base (TraceSimulation_UpdateMappings ipv4 ts)) = (serving (ts_base ts))(mig_containerId (ts_migrationParams ts) \<mapsto>
    host_address ipv4 (ts_base ts) (unat (mig_dstLeaf (ts_migrationParams ts))) (unat (mig_dstHost (ts_migrationParams ts))))"
  using assms
  by (simp add: fun_eq_iff serving_def TraceSimulation_UpdateMappings_def share_table_def Let_def host_address_def
      IpUtils_GetContainerVirtualAddress_def)

lemma reachable_table:
  assumes "net_cfg N" and "net_init N s0" and "net_reachable N s0 s"
  shows "nt_vtp s = ne_vtp0 N \<or> ne_migrates N \<and> nt_vtp s = (ne_vtp0 N)(ne_container N \<mapsto> ne_target N)"
  using net_reachable_inv [OF assms(3,1)] net_init_inv [OF assms(2)] by (simp add: net_inv_def)

lemma gateway_ids:
  assumes "names_ok groups" and "sb_containerToId sb = zip (map snd (slots groups)) (map word_of_nat [0..<length (slots groups)])"
    and "\<forall>n < length (slots groups). contains (snd (slots groups ! n)) ''Gateway'' \<longrightarrow> word_of_nat n \<noteq> k"
  shows "k \<notin> snd ` set (filter (\<lambda>(c, _). contains c ''Gateway'') (sb_containerToId sb))"
  using assms(3) unfolding assms(2) by (auto simp: set_zip)

text \<open>What the program has built when the switches have started, in the state \<open>ts'\<close>: a configuration and an initial
  state of the network in which all switches run the logic of the mode, with the routes of the set-up, and whose table, before and after the migration,
  is the one of the simulation.\<close>

definition deployment_ready :: "ipv4_parser \<Rightarrow> ns3_env \<Rightarrow> (u32 \<Rightarrow> Packet \<Rightarrow> u32 \<Rightarrow> u16 \<Rightarrow> Packet) \<Rightarrow> P4SwitchAttributes \<Rightarrow> TraceSimulation \<Rightarrow>
    P4Switch list \<Rightarrow> bool \<Rightarrow> Mode \<Rightarrow> bool" where
  "deployment_ready masks E encap attrs ts switches migrates mode \<longleftrightarrow>
     (let N = deployed_env E encap attrs ts; s0 = deployed_net (env_ipv4 E) ts switches in
      net_cfg N \<and> net_init N s0 \<and> mode_ok (mode = LocalLearning) s0 \<and>
      network_ok (env_ipv4 E) masks (ts_base ts) \<and> sites N (env_ipv4 E) (ts_base ts) \<and>
      length switches = length (switch_nodes (ts_base ts)) \<and>
      ne_vtp0 N = serving (ts_base ts) \<and> (ne_migrates N \<longleftrightarrow> migrates) \<and>
      (ne_vtp0 N)(ne_container N \<mapsto> ne_target N) = serving (ts_base (TraceSimulation_UpdateMappings (env_ipv4 E) ts)))"

lemma ready_truthful:
  assumes "deployment_ready masks E encap attrs ts switches migrates mode"
    and "net_reachable (deployed_env E encap attrs ts) (deployed_net (env_ipv4 E) ts switches) s"
  shows "nt_vtp s = serving (ts_base ts) \<or>
      migrates \<and> nt_vtp s = serving (ts_base (TraceSimulation_UpdateMappings (env_ipv4 E) ts))"
    and "truthful (deployed_env E encap attrs ts) s"
  using assms reachable_table [OF _ _ assms(2)] reachable_truthful [OF _ _ assms(2)]
  by (auto simp: deployment_ready_def Let_def)

lemma ready_misled:
  assumes "deployment_ready masks E encap attrs ts switches migrates mode" and "misled (deployed_env E encap attrs ts) a"
  shows "at_SourceLearning attrs" and "migrates"
    and "serving (ts_base ts) (ne_container (deployed_env E encap attrs ts)) = Some a \<or>
      serving (ts_base (TraceSimulation_UpdateMappings (env_ipv4 E) ts)) (ne_container (deployed_env E encap attrs ts)) = Some a"
proof -
  let ?N = "deployed_env E encap attrs ts"
  have ready: "ne_vtp0 ?N = serving (ts_base ts)" "ne_migrates ?N \<longleftrightarrow> migrates"
      "(ne_vtp0 ?N)(ne_container ?N \<mapsto> ne_target ?N) = serving (ts_base (TraceSimulation_UpdateMappings (env_ipv4 E) ts))"
    using assms(1) unfolding deployment_ready_def Let_def by blast+
  have "ne_learns ?N = at_SourceLearning attrs"
    by (simp add: deployed_env_def Let_def)
  with assms(2) ready(2) show "at_SourceLearning attrs" "migrates"
    by (simp_all add: misled_def)
  show "serving (ts_base ts) (ne_container ?N) = Some a \<or>
      serving (ts_base (TraceSimulation_UpdateMappings (env_ipv4 E) ts)) (ne_container ?N) = Some a"
    using assms(2) ready(1) fun_cong [OF ready(3), of "ne_container ?N"] by (auto simp: misled_def)
qed

lemma ready_strict:
  assumes "deployment_ready masks E encap attrs ts switches migrates mode" and "at_SourceLearning attrs \<longrightarrow> \<not> migrates"
  shows "strict_cfg (deployed_env E encap attrs ts)"
proof
  show "net_cfg (deployed_env E encap attrs ts)"
    using assms(1) by (simp add: deployment_ready_def Let_def)
  have "ne_learns (deployed_env E encap attrs ts) = at_SourceLearning attrs"
    by (simp add: deployed_env_def Let_def)
  with assms show "ne_learns (deployed_env E encap attrs ts) \<longrightarrow> \<not> ne_migrates (deployed_env E encap attrs ts)"
    by (simp add: deployment_ready_def Let_def)
qed

lemma ready_invs:
  assumes "deployment_ready masks E encap attrs ts switches migrates mode" and "at_SourceLearning attrs \<longrightarrow> \<not> migrates"
    and "net_reachable (deployed_env E encap attrs ts) (deployed_net (env_ipv4 E) ts switches) s"
  shows "net_inv (deployed_env E encap attrs ts) s \<and> tag_inv (mode = LocalLearning) (deployed_env E encap attrs ts) s"
  using reachable_invs [OF ready_strict [OF assms(1,2)] _ _ assms(3)] assms(1) unfolding deployment_ready_def Let_def by blast

lemma ready_delivers:
  assumes "deployment_ready masks E encap attrs ts switches migrates mode" and "at_SourceLearning attrs \<longrightarrow> \<not> migrates"
    and "net_reachable (deployed_env E encap attrs ts) (deployed_net (env_ipv4 E) ts switches) s" and "p \<in> set (nt_flight s)"
    and "pkt_headers p = HIp ip # HUdp u # HIp inner # hs" and "udp_dport u = PORT_NUMBER"
  shows "endpoint_handles (deployed_env E encap attrs ts) s p ip inner hs \<and>
    (\<forall>a k t y. nt_vtp s (ip_dst inner) = Some a \<and> tracked (deployed_env E encap attrs ts) (s, Flying p) k (t, y) \<longrightarrow>
       k \<le> 6 \<and> (case y of
         Arrived b q \<Rightarrow> b = a \<and> (b, q) \<in> set (nt_delivered t) \<and> received p inner hs q
       | _ \<Rightarrow> \<exists>v. passes (deployed_env E encap attrs ts) (t, y) v))"
proof (intro conjI allI impI, goal_cases)
  case 1
  show ?case
    by (rule endpoints_handle [OF ready_strict [OF assms(1,2)] ready_invs [OF assms(1-3)] assms(4-6)])
next
  case (2 a k t y)
  then have "arrives (deployed_env E encap attrs ts) p inner hs a k (t, y)"
    using tracked_arrives [OF ready_strict [OF assms(1,2)] ready_invs [OF assms(1-3)] assms(4-6)] by blast
  then show ?case
    by (simp add: arrives_def)
next
  case (3 a k t y)
  then have "arrives (deployed_env E encap attrs ts) p inner hs a k (t, y)"
    using tracked_arrives [OF ready_strict [OF assms(1,2)] ready_invs [OF assms(1-3)] assms(4-6)] by blast
  then show ?case
    by (cases y) (simp_all add: arrives_def)
qed

lemma net_reachable_switches: "net_reachable N s0 s \<Longrightarrow> length (nt_switches s) = length (nt_switches s0)"
  by (induction rule: net_reachable.induct) (auto dest: net_step_switches)

lemma ready_walks:
  assumes "deployment_ready masks E encap attrs ts switches migrates mode" and "at_SourceLearning attrs \<longrightarrow> \<not> migrates"
    and "net_reachable (deployed_env E encap attrs ts) (deployed_net (env_ipv4 E) ts switches) s" and "p \<in> set (nt_flight s)"
    and "pkt_headers p = HIp ip # HUdp u # HIp inner # hs" and "udp_dport u = PORT_NUMBER"
    and "dotted_quad (env_ipv4 E)" and "dotted_quad masks" and "is_node (ts_base ts) x"
    and "routed (deployed_env E encap attrs ts) masks (ts_base ts) (s, x, p) k (t, y, q)"
  shows "k \<le> 12 \<and> (\<exists>jp i j. pkt_headers q = HIp jp # HUdp u # HIp inner # hs \<and> is_node (ts_base ts) (HostN i j) \<and>
    host_address (env_ipv4 E) (ts_base ts) i j = ip_dst jp \<and>
    (if y = HostN i j then endpoint_handles (deployed_env E encap attrs ts) t q jp inner hs
     else \<forall>lookup rnd. ns3_lookup lookup \<longrightarrow> (\<exists>v. routed_hop (deployed_env E encap attrs ts) masks (ts_base ts) lookup rnd (t, y, q) v)))"
proof -
  have plane: "network_ok (env_ipv4 E) masks (ts_base ts)" "sites (deployed_env E encap attrs ts) (env_ipv4 E) (ts_base ts)"
      "length switches = length (switch_nodes (ts_base ts))"
    using assms(1) by (simp_all add: deployment_ready_def Let_def)
  have "length (nt_switches s) = length (switch_nodes (ts_base ts))"
    using net_reachable_switches [OF assms(3)] plane(3) by (simp add: deployed_net_def)
  with ready_invs [OF assms(1-3)] show ?thesis
    using walks_arrive [OF assms(7,8) plane(1) ready_strict [OF assms(1,2)] plane(2) assms(6) _ _ _ assms(4,5,9,10)] by blast
qed

text \<open>After the set-up the switches start, one on every switch node with the address of that node, and the network is
  ready.\<close>

lemma deployed_ready:
  assumes "SimulationBase_new params groups (ts_migrationParams ts) uninit = Inr (ts_base ts)" and "octets_ok params groups"
    and "names_ok groups" and "gateway_slots groups \<noteq> []" and "gateways_apart groups"
    and "SimMode params = SwitchV2P \<or> SimMode params = LocalLearning" and "0 < PodWidth params"
    and "in_vec2 groups (unat (mig_dstLeaf (ts_migrationParams ts))) (unat (mig_dstHost (ts_migrationParams ts)))"
    and "(unat (mig_dstLeaf (ts_migrationParams ts)), unat (mig_dstHost (ts_migrationParams ts))) \<notin> set (gateway_slots groups)"
    and "NetworkTopology params = FATTREE \<or> unat (mig_dstLeaf (ts_migrationParams ts)) < PodWidth params"
    and "0 < at_MemorySize attrs" and "0 \<le> at_BloomFilterSize attrs"
    and "at_BloomFilter attrs \<longrightarrow> int (2 * length groups + sb_coreCount (ts_base ts)) \<le> at_BloomFilterSize attrs"
    and "dotted_quad (env_ipv4 E)" and "encap_ok encap"
    and "\<forall>n < length (slots groups). contains (snd (slots groups ! n)) ''Gateway'' \<longrightarrow>
      word_of_nat n \<noteq> mig_containerId (ts_migrationParams ts)"
  shows "returns (TraceSimulation_Run (env_ipv4 E) masks ts) (\<lambda>(ts', apps, t).
    returns (start_switches attrs rnd (ts_base ts') apps) (\<lambda>switches.
      map p4s_switchAddress switches = map (node_address (env_ipv4 E) (ts_base ts)) (switch_nodes (ts_base ts)) \<and>
      deployment_ready masks E encap attrs ts' switches (mig_migration (ts_migrationParams ts)) (SimMode params)))"
proof (rule returns_mono [OF Run_closed [OF assms(1-4), of "env_ipv4 E" masks]], clarify)
  fix net
  let ?ts = "ts\<lparr>ts_base := net\<rparr>"
  define ts' where "ts' = at_source ?ts (fold (moved_from ?ts) (slots groups) (ts_migrationSrcLeaf ts, ts_migrationSrcHost ts))"
  let ?apps = "concat (map (host_apps (env_ipv4 E) ?ts) (host_pairs net)) @ other_apps (env_ipv4 E) net"
  let ?N = "deployed_env E encap attrs ts'" and ?sb = "ts_base ts"
  assume net: "prepared (env_ipv4 E) masks ?sb net"
  note plan = prepared_plan [OF net] and shape = SimulationBase_new_shape(3,4) [OF assms(1,2)]
  note dims = conjunct1 [OF SimulationBase_new_dims [OF assms(1,2)]]
  have ts': "ts_base ts' = net" "?N = deployed_env E encap attrs ?ts"
    by (simp_all add: ts'_def at_source_def deployed_env_def)
  have len: "sb_leafCount ?sb = length groups"
    using dims_okD(4) [OF dims] shape(1) by simp
  let ?l = "unat (mig_dstLeaf (ts_migrationParams ts))" and ?h = "unat (mig_dstHost (ts_migrationParams ts))"
  have host: "(?l, ?h) \<in> set (host_pairs ?sb) - set (gateway_slots (sb_containerGroups ?sb))"
    using assms(8,9) len shape(1) by (simp add: host_pairs_iff in_vec2_def)
  have cfg: "net_cfg ?N"
    unfolding ts'(2) by (rule deployed_cfg [OF net dims assms(14) _ assms(15) host]) (simp add: shape assms(5))
  have started: "returns (start_switches attrs rnd net ?apps) (\<lambda>sws. (\<forall>sw \<in> set sws. switch_fresh ?N sw \<and>
      p4s_simMode sw = SimMode (sb_simParameters ?sb)) \<and> map p4s_switchAddress sws = map (node_address (env_ipv4 E) ?sb) (switch_nodes ?sb))"
    using assms(6,11-13) shape len by (intro deployed_switches [OF net dims _ _ _ _ ts'(1)]) simp_all
  have hosts: "host_ok ?N a (endpoint_at (env_ipv4 E) net a)" for a
    unfolding ts'(2) using assms(6,8) by (intro deployed_host_ok [OF net assms(1-4,7) _ _ _ assms(10)]) (auto simp: in_vec2_def)
  have updated: "serving (ts_base (TraceSimulation_UpdateMappings (env_ipv4 E) ts')) = (ne_vtp0 ?N)(ne_container ?N \<mapsto> ne_target ?N)"
    using update_serving [of ts' "env_ipv4 E"] gateway_ids [OF assms(3) _ assms(16), of net] plan(11) SimulationBase_new_ids(1) [OF assms(1,3)]
    by (simp add: ts' deployed_env_def Let_def IpUtils_GetContainerVirtualAddress_def) (simp add: ts'_def at_source_def)
  have "deployment_ready masks E encap attrs ts' sws (mig_migration (ts_migrationParams ts)) (SimMode params)"
    if fresh: "\<forall>sw \<in> set sws. switch_fresh ?N sw \<and> p4s_simMode sw = SimMode (sb_simParameters ?sb)"
      and addrs: "map p4s_switchAddress sws = map (node_address (env_ipv4 E) ?sb) (switch_nodes ?sb)" for sws
  proof -
    have "net_init ?N (deployed_net (env_ipv4 E) ts' sws)"
      using fresh hosts by (simp add: net_init_def deployed_net_def deployed_env_def Let_def ts'(1))
    moreover have "mode_ok (SimMode params = LocalLearning) (deployed_net (env_ipv4 E) ts' sws)"
      using fresh shape(2) by (simp add: mode_ok_def deployed_net_def)
    moreover have "ne_vtp0 ?N = serving net" "ne_migrates ?N = mig_migration (ts_migrationParams ts)"
      unfolding ts'(2) by (simp_all add: deployed_env_def Let_def)
    moreover have "length sws = length (switch_nodes net)"
      using arg_cong [OF addrs, of length] plan by (simp add: switch_nodes_def)
    moreover have "sites ?N (env_ipv4 E) net"
      unfolding ts'(2) using host shape assms(5) by (intro deployed_sites [OF net dims]) simp_all
    ultimately show ?thesis
      using cfg updated prepared_network [OF net dims] by (simp add: deployment_ready_def Let_def ts'(1))
  qed
  then show "returns (start_switches attrs rnd (ts_base ts') ?apps) (\<lambda>switches.
      map p4s_switchAddress switches = map (node_address (env_ipv4 E) ?sb) (switch_nodes ?sb) \<and>
      deployment_ready masks E encap attrs ts' switches (mig_migration (ts_migrationParams ts)) (SimMode params))"
    unfolding ts'(1) by (intro returns_mono [OF started]) simp
qed

end
