(* ===== verification/Sim_Main.thy ===== *)
theory Sim_Main
  imports Deployment Trace_Input
begin

text \<open>
  \<^verbatim>\<open>sim.cc\<close>: the options of the command line, from which \<open>main\<close> builds the parameters and runs the
  simulation. ns-3's command-line parser gives the values of the options. The placement that the parser makes of the
  file is shown to have what the set-up of the network needs.
\<close>

section \<open>Options and main\<close>

record sim_options =
  op_simMode :: string
  op_topology :: string
  op_numOfPorts :: nat
  op_numOfCore :: nat
  op_podWidth :: nat
  op_gwLeaves :: string
  op_migration :: bool
  op_migrationContainerId :: u32
  op_migrationDstLeaf :: u32
  op_migrationDstHost :: u32
  op_migrationTs :: u32
  op_randomRouting :: bool
  op_gatewayPerFlowLoadBalancing :: bool
  op_udpMode :: bool

definition default_options :: sim_options where
  "default_options = \<lparr>op_simMode = ''Controller'', op_topology = ''Clos'', op_numOfPorts = 64, op_numOfCore = 16,
     op_podWidth = 4, op_gwLeaves = ''0'', op_migration = False, op_migrationContainerId = 0, op_migrationDstLeaf = 0,
     op_migrationDstHost = 0, op_migrationTs = 0, op_randomRouting = False, op_gatewayPerFlowLoadBalancing = False,
     op_udpMode = False\<rparr>"

text \<open>\<open>boost::split\<close> at commas: always at least one part, and empty parts are kept.\<close>

fun split_commas :: "string \<Rightarrow> string list" where
  "split_commas [] = [[]]"
| "split_commas (c # cs) =
     (if c = CHR '','' then [] # split_commas cs
      else case split_commas cs of [] \<Rightarrow> [[c]] | part # parts \<Rightarrow> (c # part) # parts)"

definition main_gwLeaves :: "string \<Rightarrow> u32 list res" where
  "main_gwLeaves s = mapE (\<lambda>astr. bindE (stoi astr) (\<lambda>n. Inr (word_of_int n))) (split_commas s)"

definition main_params :: "sim_options \<Rightarrow> SimulationParameters res" where
  "main_params opts = bindE (main_gwLeaves (op_gwLeaves opts)) (\<lambda>gwLeaves.
     SimulationParameters_new (op_simMode opts) (op_topology opts) (op_numOfPorts opts) (op_numOfCore opts) (op_podWidth opts)
       gwLeaves (op_randomRouting opts) (op_gatewayPerFlowLoadBalancing opts) (op_udpMode opts))"

definition main_migration :: "sim_options \<Rightarrow> MigrationParams" where
  "main_migration opts = \<lparr>mig_migration = op_migration opts, mig_containerId = op_migrationContainerId opts,
     mig_dstLeaf = op_migrationDstLeaf opts, mig_dstHost = op_migrationDstHost opts, mig_ts = ucast (op_migrationTs opts)\<rparr>"

text \<open>\<open>main\<close> up to the start of the simulator, with the contents of the two files.\<close>

definition sim_main ::
  "(Flow list \<Rightarrow> Flow list) \<Rightarrow> u32 list \<Rightarrow> u32 \<Rightarrow> ipv4_parser \<Rightarrow> ipv4_parser \<Rightarrow> string list list \<Rightarrow> string list option \<Rightarrow>
   sim_options \<Rightarrow> (TraceSimulation \<times> sim_app list \<times> int option) res" where
  "sim_main srt beyond uninit ipv4 masks parsed trace opts =
     bindE (main_params opts) (\<lambda>params.
     bindE (TraceSimulation_new srt beyond uninit parsed trace params (main_migration opts)) (\<lambda>ts.
       TraceSimulation_Run ipv4 masks ts))"

section \<open>The list of gateway leaves\<close>

definition join_commas :: "string list \<Rightarrow> string" where
  "join_commas xs = concat (map (\<lambda>x. x @ '','') (butlast xs)) @ last xs"

lemma split_commas_plain: "CHR '','' \<notin> set s \<Longrightarrow> split_commas s = [s]"
  by (induction s) auto

lemma split_commas_field: "CHR '','' \<notin> set s \<Longrightarrow> split_commas (s @ CHR '','' # rest) = s # split_commas rest"
  by (induction s) auto

lemma split_join: "\<lbrakk>xs \<noteq> []; \<forall>x \<in> set xs. CHR '','' \<notin> set x\<rbrakk> \<Longrightarrow> split_commas (join_commas xs) = xs"
proof (induction xs)
  case (Cons x xs)
  then show ?case
    by (cases xs) (simp_all add: join_commas_def split_commas_plain split_commas_field)
qed simp

lemma main_gwLeaves_join:
  assumes "ls \<noteq> []" and "\<forall>l \<in> set ls. l < 2 ^ 31"
  shows "main_gwLeaves (join_commas (map to_string ls)) = Inr (map word_of_nat ls)"
proof -
  have "split_commas (join_commas (map to_string ls)) = map to_string ls"
    using assms(1) by (intro split_join) auto
  moreover have "mapE (\<lambda>astr. bindE (stoi astr) (\<lambda>n. Inr (word_of_int n))) (map to_string ls) = Inr (map word_of_nat ls :: u32 list)"
    using assms(2) by (induction ls) (simp_all add: stoi_to_string)
  ultimately show ?thesis
    by (simp add: main_gwLeaves_def)
qed

section \<open>What a parsed placement is like\<close>

lemma map_upt_nth: "map (\<lambda>i. f (xs ! i)) [0..<length xs] = map f xs"
  by (rule nth_equalityI) simp_all

lemma slots_names: "map snd (slots g) = concat (concat g)"
proof -
  have "map snd (slots g) = concat (map (\<lambda>i. concat (map (\<lambda>j. g ! i ! j) [0..<length (g ! i)])) [0..<length g])"
    by (simp add: slots_def map_concat comp_def)
  also have "\<dots> = concat (map (\<lambda>i. concat (g ! i)) [0..<length g])"
    by (simp add: map_nth)
  also have "\<dots> = concat (map concat g)"
    by (simp only: map_upt_nth [of concat])
  also have "\<dots> = concat (concat g)"
    by (induction g) auto
  finally show ?thesis .
qed

lemma slots_mem: "((i, j), c) \<in> set (slots g) \<longleftrightarrow> i < length g \<and> j < length (g ! i) \<and> c \<in> set (g ! i ! j)"
  by (fastforce simp: slots_def)

lemma chunks: "concat (map (\<lambda>l. take n (drop (l * n) xs)) [0..<k]) = take (k * n) xs"
proof (induction k)
  case (Suc k)
  then show ?case
    using take_add [of "k * n" n xs] by (simp add: add.commute [of n])
qed simp

lemma upt_chunks: "(\<And>l. f l \<le> f (Suc l)) \<Longrightarrow> concat (map (\<lambda>l. [f l..<f (Suc l)]) [0..<k]) = [f 0..<f k]"
proof (induction k)
  case (Suc k)
  have "f 0 \<le> f k"
    using Suc.prems by (induction k) (auto intro: order_trans)
  then show ?case
    using Suc upt_add_eq_append [of "f 0" "f k" "f (Suc k) - f k"] by simp
qed simp

definition placement :: "string list list \<Rightarrow> u32 list \<Rightarrow> nat \<Rightarrow> nat \<Rightarrow> ContainerGroups" where
  "placement parsed L nodesPerLeaf leaves = map (leaf_nodes parsed L nodesPerLeaf) [0..<leaves]"

lemma placement_names:
  assumes "sorted (map unat L)" and "\<forall>g \<in> set L. unat g < leaves" and "length parsed = leaves * n"
  shows "mset (concat (concat (placement parsed L n leaves))) = mset (concat parsed) + mset (map gateway_name [0..<length L])"
proof -
  have split: "mset (concat (concat (map (\<lambda>l. f l @ h l) ls))) =
      mset (concat (concat (map f ls))) + mset (concat (concat (map h ls)))" for f h :: "nat \<Rightarrow> string list list" and ls
    by (induction ls) simp_all
  have single: "concat (concat (map (\<lambda>l. map (\<lambda>i. [gateway_name i]) (F l)) ls)) = map gateway_name (concat (map F ls))"
    for F :: "nat \<Rightarrow> nat list" and ls
    by (induction ls) (simp_all add: concat_map_singleton)
  have hosts: "concat (map (\<lambda>l. take n (drop (l * n) parsed)) [0..<leaves]) = parsed"
    using chunks [of n parsed leaves] assms(3) by simp
  have "concat (map (\<lambda>l. [gws_below L l..<gws_below L (Suc l)]) [0..<leaves]) = [0..<length L]"
    using upt_chunks [of "gws_below L" leaves] gws_below_mono [of _ "Suc _" L] gws_below_all [OF assms(2)] by simp
  then have "concat (concat (map (\<lambda>l. map (\<lambda>i. [gateway_name i]) (filter (\<lambda>i. unat (L ! i) = l) [0..<length L])) [0..<leaves])) =
      map gateway_name [0..<length L]"
    unfolding filter_gateways [OF assms(1)] single by simp
  with hosts show ?thesis
    unfolding placement_def leaf_nodes_def split by simp
qed

text \<open>A placement file: no container is named like a gateway, and no two alike.\<close>

definition file_ok :: "string list list \<Rightarrow> bool" where
  "file_ok parsed \<longleftrightarrow> distinct (concat parsed) \<and> list_all (\<lambda>c. \<not> contains c ''Gateway'') (concat parsed)"

lemma gateway_named: "contains (gateway_name i) ''Gateway''"
  by (simp add: gateway_name_def)

lemma placement_host:
  assumes "i < leaves" and "j < length (placement parsed L n leaves ! i)"
  shows "set (placement parsed L n leaves ! i ! j) \<subseteq> set (concat parsed) \<or>
    (\<exists>k < length L. unat (L ! k) = i \<and> placement parsed L n leaves ! i ! j = [gateway_name k])"
proof -
  let ?hosts = "take n (drop (i * n) parsed)" and ?gws = "filter (\<lambda>k. unat (L ! k) = i) [0..<length L]"
  have leaf: "placement parsed L n leaves ! i = ?hosts @ map (\<lambda>k. [gateway_name k]) ?gws"
    using assms(1) by (simp add: placement_def leaf_nodes_def)
  then have "placement parsed L n leaves ! i ! j \<in> set ?hosts \<union> (\<lambda>k. [gateway_name k]) ` set ?gws"
    using nth_mem [OF assms(2)] by auto
  then show ?thesis
  proof
    assume "placement parsed L n leaves ! i ! j \<in> set ?hosts"
    then have "placement parsed L n leaves ! i ! j \<in> set parsed"
      by (meson in_set_dropD in_set_takeD)
    then show ?thesis by auto
  qed auto
qed

lemma placement_ready:
  assumes "sorted (map unat L)" and "\<forall>g \<in> set L. unat g < leaves" and "length parsed = leaves * n" and "file_ok parsed"
    and "length (concat parsed) + length L < 2 ^ 32" and "L \<noteq> []"
  shows "names_ok (placement parsed L n leaves)" and "gateway_slots (placement parsed L n leaves) \<noteq> []"
    and "gateways_apart (placement parsed L n leaves)"
proof -
  let ?g = "placement parsed L n leaves"
  note names = placement_names [OF assms(1-3)]
  have plain: "\<not> contains c ''Gateway''" if "c \<in> set (concat parsed)" for c
    using assms(4) that unfolding file_ok_def list_all_iff by blast
  have "set (concat parsed) \<inter> gateway_name ` {0..<length L} = {}"
    using plain gateway_named by blast
  moreover have "inj_on gateway_name {0..<length L}"
    by (auto simp: inj_on_def gateway_name_def)
  ultimately have "distinct (concat parsed @ map gateway_name [0..<length L])"
    using assms(4) by (simp add: file_ok_def distinct_map)
  then have "distinct (concat (concat ?g))"
    using mset_eq_imp_distinct_iff [of "concat (concat ?g)" "concat parsed @ map gateway_name [0..<length L]"] names by simp
  moreover have "length (slots ?g) = length (concat parsed) + length L"
    using arg_cong [OF names, of size] slots_names [of ?g] by (metis length_map length_upt minus_nat.diff_0 size_mset size_union)
  ultimately show "names_ok ?g"
    using assms(5) by (simp add: names_ok_def slots_names)
  have "gateway_name 0 \<in> gateway_name ` {0..<length L}"
    using assms(6) by (intro imageI) simp
  then have "gateway_name 0 \<in># mset (concat (concat ?g))"
    unfolding names by simp
  then have "gateway_name 0 \<in> snd ` set (slots ?g)"
    using slots_names [of ?g] by (metis set_map set_mset_mset)
  then obtain s where "s \<in> set (slots ?g)" "snd s = gateway_name 0"
    by auto
  then have "fst s \<in> set (gateway_slots ?g)"
    using gateway_named [of 0] by (auto simp: gateway_slots_def intro!: rev_image_eqI [of s])
  then show "gateway_slots ?g \<noteq> []"
    by auto
  show "gateways_apart ?g"
    unfolding gateways_apart_def
  proof clarify
    fix i j c
    assume c: "((i, j), c) \<in> set (slots ?g)" and "(i, j) \<in> set (gateway_slots ?g)"
    then obtain d where d: "((i, j), d) \<in> set (slots ?g)" "contains d ''Gateway''"
      by (auto simp: gateway_slots_def)
    have ij: "i < leaves" "j < length (?g ! i)"
      using c by (auto simp: slots_mem placement_def)
    have "\<exists>k. ?g ! i ! j = [gateway_name k]"
      using placement_host [OF ij] plain d by (auto simp: slots_mem simp del: set_concat)
    then show "contains c ''Gateway''"
      using c gateway_named by (auto simp: slots_mem)
  qed
qed

lemma file_host:
  assumes "file_ok parsed" and "length parsed = leaves * n" and "i < leaves" and "j < n"
  shows "in_vec2 (placement parsed L n leaves) i j" and "(i, j) \<notin> set (gateway_slots (placement parsed L n leaves))"
proof -
  have "length (take n (drop (i * n) parsed)) = n"
    using assms(2,3) mult_le_mono1 [of "Suc i" leaves n] by simp
  then have host: "j < length (placement parsed L n leaves ! i)" "placement parsed L n leaves ! i ! j \<in> set (take n (drop (i * n) parsed))"
    using assms(3,4) nth_mem [of j "take n (drop (i * n) parsed)"]
    by (simp_all add: placement_def leaf_nodes_def nth_append del: nth_take)
  then show "in_vec2 (placement parsed L n leaves) i j"
    using assms(3) by (simp add: in_vec2_def placement_def)
  have "placement parsed L n leaves ! i ! j \<in> set parsed"
    using host(2) by (meson in_set_dropD in_set_takeD)
  then have "\<not> contains c ''Gateway''" if "c \<in> set (placement parsed L n leaves ! i ! j)" for c
    using assms(1) that unfolding file_ok_def list_all_iff by auto
  then show "(i, j) \<notin> set (gateway_slots (placement parsed L n leaves))"
    by (auto simp: gateway_slots_def slots_mem)
qed

lemma main_params_fields:
  assumes "main_params opts = Inr params" and "op_gwLeaves opts = join_commas (map to_string ls)" and "ls \<noteq> []"
    and "\<forall>l \<in> set ls. l < 2 ^ 31"
  shows "GatewayLeaves params = map word_of_nat ls" and "NumOfPorts params = op_numOfPorts opts" and "PodWidth params = op_podWidth opts"
  using assms main_gwLeaves_join [OF assms(3,4)]
  by (auto simp: main_params_def SimulationParameters_new_def monad_simps)

lemma TraceSimulation_new_base:
  assumes "TraceSimulation_new srt beyond uninit parsed trace params migParams = Inr ts"
    and "TraceSimulation_ParsePlacement parsed params beyond = Inr groups"
  shows "SimulationBase_new params groups migParams uninit = Inr (ts_base ts)" and "ts_migrationParams ts = migParams"
  using assms by (auto simp: TraceSimulation_new_def monad_simps case_prod_beta)

section \<open>From the command line to the packets\<close>

text \<open>What \<open>main\<close> sets up is a network that is ready.\<close>

lemma main_ready:
  assumes "main_params opts = Inr params" and "SimMode params = SwitchV2P \<or> SimMode params = LocalLearning"
    and "op_gwLeaves opts = join_commas (map to_string ls)" and "ls \<noteq> []" and "sorted ls" and "\<forall>l \<in> set ls. l < leaves"
    and "length parsed = leaves * (op_numOfPorts opts div 2)" and "2 \<le> op_numOfPorts opts" and "leaves \<le> unat b"
    and "file_ok parsed" and "length (concat parsed) + length ls < 2 ^ 32"
    and "groups = placement parsed (GatewayLeaves params) (op_numOfPorts opts div 2) leaves" and "octets_ok params groups"
    and "TraceSimulation_new srt (b # beyond) uninit parsed trace params (main_migration opts) = Inr ts" and "0 < op_podWidth opts"
    and "unat (op_migrationDstLeaf opts) < leaves" and "unat (op_migrationDstHost opts) < op_numOfPorts opts div 2"
    and "NetworkTopology params = FATTREE \<or> unat (op_migrationDstLeaf opts) < op_podWidth opts"
    and "\<forall>n < length (slots groups). contains (snd (slots groups ! n)) ''Gateway'' \<longrightarrow> word_of_nat n \<noteq> op_migrationContainerId opts"
    and "0 < at_MemorySize attrs" and "0 \<le> at_BloomFilterSize attrs"
    and "at_BloomFilter attrs \<longrightarrow> int (2 * leaves + sb_coreCount (ts_base ts)) \<le> at_BloomFilterSize attrs"
    and "dotted_quad (env_ipv4 E)" and "encap_ok encap"
  shows "returns (sim_main srt (b # beyond) uninit (env_ipv4 E) masks parsed trace opts) (\<lambda>(ts', apps, t).
    returns (start_switches attrs rnd (ts_base ts') apps) (\<lambda>switches.
      map p4s_switchAddress switches = map (node_address (env_ipv4 E) (ts_base ts)) (switch_nodes (ts_base ts)) \<and>
      deployment_ready masks E encap attrs ts' switches (op_migration opts) (SimMode params)))"
proof -
  have len: "length groups = leaves"
    by (simp add: assms(12) placement_def)
  then have small: "\<forall>l \<in> set ls. l < 2 ^ 31"
    using assms(6,13) by (fastforce simp: octets_ok_def)
  note fields = main_params_fields [OF assms(1,3,4) small]
  have L: "map unat (GatewayLeaves params) = ls"
    using small by (auto simp: fields(1) unsigned_of_nat take_bit_nat_eq_self intro!: map_idI)
  then have leaves: "sorted (map unat (GatewayLeaves params))" "\<forall>g \<in> set (GatewayLeaves params). unat g < leaves"
      "length (GatewayLeaves params) = length ls" "GatewayLeaves params \<noteq> []"
    using assms(4-6) by (auto simp flip: L)
  have groups: "names_ok groups" "gateway_slots groups \<noteq> []" "gateways_apart groups"
    using placement_ready [OF leaves(1,2) assms(7,10) _ leaves(4)] assms(11) leaves(3) by (simp_all add: assms(12))
  have "TraceSimulation_ParsePlacement parsed params (b # beyond) = Inr groups"
    using ParsePlacement_ok [OF leaves(1,2), of parsed b beyond] assms(7-9) by (simp add: fields assms(12) placement_def)
  note base = TraceSimulation_new_base [OF assms(14) this]
  note host = file_host [OF assms(10,7,16,17), of "GatewayLeaves params", folded assms(12)]
  have "returns (TraceSimulation_Run (env_ipv4 E) masks ts) (\<lambda>(ts', apps, t).
    returns (start_switches attrs rnd (ts_base ts') apps) (\<lambda>switches.
      map p4s_switchAddress switches = map (node_address (env_ipv4 E) (ts_base ts)) (switch_nodes (ts_base ts)) \<and>
      deployment_ready masks E encap attrs ts' switches (mig_migration (ts_migrationParams ts)) (SimMode params)))"
    by (rule deployed_ready [of params groups ts uninit])
       (use base groups host len fields(3) assms(2,13,15,18-24) in \<open>simp_all add: main_migration_def\<close>)
  then show ?thesis
    using assms(1,14) base(2) by (simp add: sim_main_def main_migration_def)
qed

text \<open>C1: From the command line to every packet. Take options with a list of existing gateway leaves in increasing
  order, in mode SwitchV2P or LocalLearning, and a placement file that fills the leaves, whose containers have
  different names that do not look like gateways, and whose dimensions the constructor accepts and fit an octet of an
  address. Three further conditions are needed: the memory behind the list of gateway leaves, which the constructor reads,
  does not look like the number of a leaf (C37 shows what happens otherwise); the destination of the migration is a host of
  the file, in the topology FatTree or in the first pod (C23 shows what happens otherwise), and the container that
  migrates is no gateway; the caches have room for an entry and the Bloom filters for all switches. Then \<open>main\<close> sets up the
  simulation, the switches start, one on every switch node with the address of that node, and in every state that hosts,
  switches and gateways reach from there, across the migration and with or without source learning, the address table is
  the one of the set-up or the one \<open>UpdateMappings\<close> makes of it, and every cached mapping and the destination of every
  translated packet is an address that one of them has for the container. The exception are the two hosts of the
  migration (\<open>misled\<close>), and only when source learning and migration are both on, as in the script of the migration
  experiment, where C25 shows that it occurs.\<close>

theorem main_truthful:
  assumes "main_params opts = Inr params" and "SimMode params = SwitchV2P \<or> SimMode params = LocalLearning"
    and "op_gwLeaves opts = join_commas (map to_string ls)" and "ls \<noteq> []" and "sorted ls" and "\<forall>l \<in> set ls. l < leaves"
    and "length parsed = leaves * (op_numOfPorts opts div 2)" and "2 \<le> op_numOfPorts opts" and "leaves \<le> unat b"
    and "file_ok parsed" and "length (concat parsed) + length ls < 2 ^ 32"
    and "groups = placement parsed (GatewayLeaves params) (op_numOfPorts opts div 2) leaves" and "octets_ok params groups"
    and "TraceSimulation_new srt (b # beyond) uninit parsed trace params (main_migration opts) = Inr ts" and "0 < op_podWidth opts"
    and "unat (op_migrationDstLeaf opts) < leaves" and "unat (op_migrationDstHost opts) < op_numOfPorts opts div 2"
    and "NetworkTopology params = FATTREE \<or> unat (op_migrationDstLeaf opts) < op_podWidth opts"
    and "\<forall>n < length (slots groups). contains (snd (slots groups ! n)) ''Gateway'' \<longrightarrow> word_of_nat n \<noteq> op_migrationContainerId opts"
    and "0 < at_MemorySize attrs" and "0 \<le> at_BloomFilterSize attrs"
    and "at_BloomFilter attrs \<longrightarrow> int (2 * leaves + sb_coreCount (ts_base ts)) \<le> at_BloomFilterSize attrs"
    and "dotted_quad (env_ipv4 E)" and "encap_ok encap"
  shows "returns (sim_main srt (b # beyond) uninit (env_ipv4 E) masks parsed trace opts) (\<lambda>(ts', apps, t).
    returns (start_switches attrs rnd (ts_base ts') apps) (\<lambda>switches.
      map p4s_switchAddress switches = map (node_address (env_ipv4 E) (ts_base ts)) (switch_nodes (ts_base ts)) \<and>
      (\<forall>s. net_reachable (deployed_env E encap attrs ts') (deployed_net (env_ipv4 E) ts' switches) s \<longrightarrow>
         (nt_vtp s = serving (ts_base ts') \<or> op_migration opts \<and>
            nt_vtp s = serving (ts_base (TraceSimulation_UpdateMappings (env_ipv4 E) ts'))) \<and>
         truthful (deployed_env E encap attrs ts') s) \<and>
      (\<forall>a. misled (deployed_env E encap attrs ts') a \<longrightarrow> at_SourceLearning attrs \<and> op_migration opts \<and>
         (serving (ts_base ts') (ne_container (deployed_env E encap attrs ts')) = Some a \<or>
          serving (ts_base (TraceSimulation_UpdateMappings (env_ipv4 E) ts')) (ne_container (deployed_env E encap attrs ts')) = Some a))))"
  by (rule returns_mono [OF main_ready [OF assms, where rnd = rnd]], clarify)
    (auto elim!: returns_mono dest: ready_truthful ready_misled)


text \<open>C3: From the command line along the routes. For the same inputs, with source learning only where nothing
  migrates, take a data packet in flight in any state that the simulation reaches, at any node, and let it walk: from
  node to node along the routes of the set-up, through the interceptor of every switch it passes, while between two
  hops anything else may happen in the network, a migration included. Whatever route is picked among equal ones and
  whatever the switches draw, after at most twelve hops the packet is at the host it is then addressed to, which
  handles it, and until then it can always move on: no packet circles, and none is lost at a switch.\<close>

theorem main_walks:
  assumes "main_params opts = Inr params" and "SimMode params = SwitchV2P \<or> SimMode params = LocalLearning"
    and "op_gwLeaves opts = join_commas (map to_string ls)" and "ls \<noteq> []" and "sorted ls" and "\<forall>l \<in> set ls. l < leaves"
    and "length parsed = leaves * (op_numOfPorts opts div 2)" and "2 \<le> op_numOfPorts opts" and "leaves \<le> unat b"
    and "file_ok parsed" and "length (concat parsed) + length ls < 2 ^ 32"
    and "groups = placement parsed (GatewayLeaves params) (op_numOfPorts opts div 2) leaves" and "octets_ok params groups"
    and "TraceSimulation_new srt (b # beyond) uninit parsed trace params (main_migration opts) = Inr ts" and "0 < op_podWidth opts"
    and "unat (op_migrationDstLeaf opts) < leaves" and "unat (op_migrationDstHost opts) < op_numOfPorts opts div 2"
    and "NetworkTopology params = FATTREE \<or> unat (op_migrationDstLeaf opts) < op_podWidth opts"
    and "\<forall>n < length (slots groups). contains (snd (slots groups ! n)) ''Gateway'' \<longrightarrow> word_of_nat n \<noteq> op_migrationContainerId opts"
    and "0 < at_MemorySize attrs" and "0 \<le> at_BloomFilterSize attrs"
    and "at_BloomFilter attrs \<longrightarrow> int (2 * leaves + sb_coreCount (ts_base ts)) \<le> at_BloomFilterSize attrs"
    and "at_SourceLearning attrs \<longrightarrow> \<not> op_migration opts" and "dotted_quad (env_ipv4 E)" and "encap_ok encap" and "dotted_quad masks"
  shows "returns (sim_main srt (b # beyond) uninit (env_ipv4 E) masks parsed trace opts) (\<lambda>(ts', apps, _).
    returns (start_switches attrs rnd (ts_base ts') apps) (\<lambda>switches. let N = deployed_env E encap attrs ts'; net = ts_base ts' in
      \<forall>s p ip u inner hs x k t y q. net_reachable N (deployed_net (env_ipv4 E) ts' switches) s \<and>
        p \<in> set (nt_flight s) \<and> pkt_headers p = HIp ip # HUdp u # HIp inner # hs \<and> udp_dport u = PORT_NUMBER \<and>
        is_node net x \<and> routed N masks net (s, x, p) k (t, y, q) \<longrightarrow>
        k \<le> 12 \<and> (\<exists>jp i j. pkt_headers q = HIp jp # HUdp u # HIp inner # hs \<and> is_node net (HostN i j) \<and>
          host_address (env_ipv4 E) net i j = ip_dst jp \<and>
          (if y = HostN i j then endpoint_handles N t q jp inner hs
           else \<forall>lookup rnd. ns3_lookup lookup \<longrightarrow> (\<exists>v. routed_hop N masks net lookup rnd (t, y, q) v)))))"
  unfolding Let_def
  by (rule returns_mono [OF main_ready [OF assms(1-22,24,25), where rnd = rnd]], clarify, erule returns_mono, elim conjE, intro allI impI,
      elim conjE, erule ready_walks [OF _ assms(23) _ _ _ _ assms(24,26)], assumption+)

text \<open>One leaf with four hosts and a gateway; container 1 moves to the last host.\<close>

definition options2 :: sim_options where
  "options2 = default_options\<lparr>op_simMode := ''SwitchV2P'', op_numOfPorts := 8, op_numOfCore := 0, op_podWidth := 1,
     op_migration := True, op_migrationContainerId := 1, op_migrationDstHost := 3, op_migrationTs := 5, op_udpMode := True\<rparr>"

lemma options2:
  "main_params options2 = Inr params2" "op_gwLeaves options2 = join_commas (map to_string [0])"
  "placement hosts2 (GatewayLeaves params2) 4 1 = groups2" "length (slots groups2) = 5"
proof -
  have gw: "''0'' = join_commas (map to_string [0])"
    by (simp add: join_commas_def to_string_small)
  then show "op_gwLeaves options2 = join_commas (map to_string [0])"
    by (simp add: options2_def default_options_def)
  have "main_gwLeaves ''0'' = Inr [0]"
    using main_gwLeaves_join [of "[0]"] gw by simp
  then show "main_params options2 = Inr params2"
    by (simp add: main_params_def options2_def default_options_def SimulationParameters_new_def omap_at_def simulationModeMap_def
        simulationTopologyMap_def params2_def)
  show "placement hosts2 (GatewayLeaves params2) 4 1 = groups2"
    by (simp add: placement_def leaf_nodes_def params2_def hosts2_def groups2_def gateway_name_def to_string_small)
  show "length (slots groups2) = 5"
    by (simp add: slots_def groups2_def upt_rec)
qed

lemma inputs2:
  obtains ts where "TraceSimulation_new (sort_key flow_ts) [77] 0 hosts2 (Some [row_line row0]) params2 (main_migration options2) = Inr ts"
    and "octets_ok params2 groups2" and "sb_leafCount (ts_base ts) = 1" "sb_spineCount (ts_base ts) = 1" "sb_coreCount (ts_base ts) = 0"
    and "\<forall>n < length (slots groups2). contains (snd (slots groups2 ! n)) ''Gateway'' \<longrightarrow> word_of_nat n \<noteq> op_migrationContainerId options2"
proof -
  obtain ts where ts: "TraceSimulation_new (sort_key flow_ts) [77] 0 hosts2 (Some [row_line row0]) params2 (main_migration options2) = Inr ts"
    using simulation2 by blast
  note base = TraceSimulation_new_base [OF ts placement2]
  have octets: "octets_ok params2 groups2"
    by (simp add: octets_ok_def params2_def groups2_def)
  have "sb_containerGroups (ts_base ts) = groups2" "NetworkTopology (sb_simParameters (ts_base ts)) = CLOS"
    using SimulationBase_new_shape(3,4) [OF base(1) octets] by (simp_all add: params2_def)
  then have counts: "sb_leafCount (ts_base ts) = 1" "sb_spineCount (ts_base ts) = 1" "sb_coreCount (ts_base ts) = 0"
    using dims_okD(3,4,11) [OF conjunct1 [OF SimulationBase_new_dims [OF base(1) octets]]] by (simp_all add: groups2_def)
  have ids: "word_of_nat n \<noteq> op_migrationContainerId options2"
    if "n < length (slots groups2)" "contains (snd (slots groups2 ! n)) ''Gateway''" for n
  proof -
    have "slots groups2 = [((0, 0), ''A''), ((0, 1), ''B''), ((0, 2), ''C''), ((0, 3), ''D''), ((0, 4), ''Gateway0'')]"
      by (simp add: slots_def groups2_def upt_rec)
    moreover have "n = 0 \<or> n = 1 \<or> n = 2 \<or> n = 3 \<or> n = 4"
      using that(1) unfolding options2(4) by linarith
    ultimately have "n = 4"
      using that(2) by auto
    then show ?thesis
      by (simp add: options2_def)
  qed
  show ?thesis
    by (rule that [OF ts octets counts]) (use ids in blast)
qed

lemma fields2:
  "env_ipv4 env0 = parse_quad"
  "op_numOfPorts options2 = 8" "op_podWidth options2 = 1" "op_migrationDstLeaf options2 = 0" "op_migrationDstHost options2 = 3"
  by (simp_all add: env0_def options2_def default_options_def)

lemma placement_is2: "groups2 = placement hosts2 (GatewayLeaves params2) (8 div 2) 1" "file_ok hosts2"
  using options2(3) by (simp_all add: file_ok_def hosts2_def)

theorem main_truthful_witness:
  "returns (sim_main (sort_key flow_ts) [77] 0 parse_quad parse_quad hosts2 (Some [row_line row0]) options2) (\<lambda>(ts', apps, t).
     returns (start_switches (attrs0\<lparr>at_SourceLearning := True\<rparr>) (\<lambda>_. 0) (ts_base ts') apps) (\<lambda>switches. length switches = 2 \<and>
       truthful (deployed_env env0 encap0 (attrs0\<lparr>at_SourceLearning := True\<rparr>) ts') (deployed_net parse_quad ts' switches)))"
proof -
  obtain ts where ts: "TraceSimulation_new (sort_key flow_ts) [77] 0 hosts2 (Some [row_line row0]) params2 (main_migration options2) = Inr ts"
    and ok: "octets_ok params2 groups2" "sb_leafCount (ts_base ts) = 1" "sb_spineCount (ts_base ts) = 1" "sb_coreCount (ts_base ts) = 0"
      "\<forall>n < length (slots groups2). contains (snd (slots groups2 ! n)) ''Gateway'' \<longrightarrow> word_of_nat n \<noteq> op_migrationContainerId options2"
    by (rule inputs2)
  note run = main_truthful [OF options2(1) _ options2(2), of 1 hosts2 77 groups2 "sort_key flow_ts" "[]" 0 "Some [row_line row0]" ts
      "attrs0\<lparr>at_SourceLearning := True\<rparr>" env0 encap0 parse_quad "\<lambda>_. 0", unfolded fields2]
  show ?thesis
    by (rule returns_mono [OF run]) (use ts ok placement_is2 in \<open>auto simp: params2_def hosts2_def attrs0_def P4SwitchApp_GetTypeId_def
      parse_quad_dotted encap0_ok switch_nodes_def dest: arg_cong [of _ _ length] elim!: returns_mono intro: net_reachable.start\<close>)
qed


theorem main_walks_witness:
  "returns (sim_main (sort_key flow_ts) [77] 0 parse_quad parse_quad hosts2 (Some [row_line row0]) options2) (\<lambda>(ts', apps, _).
     returns (start_switches attrs0 (\<lambda>_. 0) (ts_base ts') apps) (\<lambda>switches. \<forall>s p ip u inner hs x k t y q.
       net_reachable (deployed_env env0 encap0 attrs0 ts') (deployed_net parse_quad ts' switches) s \<and> p \<in> set (nt_flight s) \<and>
       pkt_headers p = HIp ip # HUdp u # HIp inner # hs \<and> udp_dport u = PORT_NUMBER \<and> is_node (ts_base ts') x \<and>
       routed (deployed_env env0 encap0 attrs0 ts') parse_quad (ts_base ts') (s, x, p) k (t, y, q) \<longrightarrow> k \<le> 12))"
proof -
  obtain ts where ts: "TraceSimulation_new (sort_key flow_ts) [77] 0 hosts2 (Some [row_line row0]) params2 (main_migration options2) = Inr ts"
    and ok: "octets_ok params2 groups2" "sb_leafCount (ts_base ts) = 1" "sb_spineCount (ts_base ts) = 1" "sb_coreCount (ts_base ts) = 0"
      "\<forall>n < length (slots groups2). contains (snd (slots groups2 ! n)) ''Gateway'' \<longrightarrow> word_of_nat n \<noteq> op_migrationContainerId options2"
    by (rule inputs2)
  note run = main_walks [OF options2(1) _ options2(2), of 1 hosts2 77 groups2 "sort_key flow_ts" "[]" 0 "Some [row_line row0]" ts
      attrs0 env0 encap0 parse_quad "\<lambda>_. 0", unfolded fields2]
  show ?thesis
    by (rule returns_mono [OF run], (use ts ok placement_is2 in \<open>auto simp: params2_def hosts2_def attrs0_def
      P4SwitchApp_GetTypeId_def parse_quad_dotted encap0_ok\<close>)[24], clarify, erule returns_mono, unfold Let_def, blast)
qed

end
