(* ===== verification/Ilp_Controller.thy ===== *)
theory Ilp_Controller
  imports Switch_App Tunnel
begin

text \<open>
  \<^verbatim>\<open>ilp-controller-app.cc\<close>: the controller. It collects the traffic matrices of the switches, states the
  placement of mappings as an optimisation problem, lets the solver Z3 solve it and installs the solution in the
  caches of the switches. The solver is the parameter \<open>solve\<close>: it is handed the problem, and gives the value of
  every variable of the model it finds. ns-3's printer of addresses (\<open>show_ip\<close>) and its \<open>Hash64\<close> (\<open>hash64\<close>)
  are parameters as well. An expression over Boolean variables is a value here: a variable is a pair of a switch and
  a container, a cost term is a weight, the variables of its disjunction and the two costs of the \<open>ite\<close>. The
  exact costs that are commented out in the source are not modelled.
\<close>

section \<open>State\<close>

record IlpControllerApp =
  ic_containerGroups :: ContainerGroups
  ic_leafCount :: nat
  ic_spineCount :: nat
  ic_coreCount :: nat
  ic_podWidth :: nat
  ic_stop :: bool
  ic_virtualToPhysical :: "u32 \<rightharpoonup> u32"
  ic_containerToId :: "(string \<times> u32) list"
  ic_location :: "(u32 \<times> (nat \<times> nat)) list"
  ic_gws :: "(u32 \<times> u32) list"
  ic_gwAddresses :: "u32 list"
  ic_leavesTrafficMatrix :: "TrafficMatrix list"
  ic_spinesTrafficMatrix :: "TrafficMatrix list"
  ic_coresTrafficMatrix :: "TrafficMatrix list"
  ic_gwCost :: int
  ic_memorySize :: int

text \<open>The attributes of the TypeId that the optimisation reads; \<open>GatewayCost\<close> and \<open>MemorySize\<close> have the defaults
  40 and 10, and the command line overrides them.\<close>

record IlpControllerAttributes =
  cat_GatewayCost :: int
  cat_MemorySize :: int

definition ilp_attributes :: IlpControllerAttributes where
  "ilp_attributes = \<lparr>cat_GatewayCost = 40, cat_MemorySize = 10\<rparr>"

definition IlpControllerApp_new :: "IlpControllerAttributes \<Rightarrow> IlpControllerApp" where
  "IlpControllerApp_new attrs = \<lparr>ic_containerGroups = [], ic_leafCount = 0, ic_spineCount = 0, ic_coreCount = 0, ic_podWidth = 0,
     ic_stop = False, ic_virtualToPhysical = Map.empty, ic_containerToId = [], ic_location = [], ic_gws = [],
     ic_gwAddresses = [], ic_leavesTrafficMatrix = [], ic_spinesTrafficMatrix = [], ic_coresTrafficMatrix = [],
     ic_gwCost = cat_GatewayCost attrs, ic_memorySize = cat_MemorySize attrs\<rparr>"

definition Setup_location :: "(nat \<times> nat) \<times> string \<Rightarrow> IlpControllerApp \<Rightarrow> IlpControllerApp" where
  "Setup_location = (\<lambda>(place, c) ic.
     let containerId = (case map_of (ic_containerToId ic) c of Some n \<Rightarrow> n | None \<Rightarrow> 0);
         ids = (case map_of (ic_containerToId ic) c of
             Some n \<Rightarrow> ic_containerToId ic | None \<Rightarrow> AList.update c 0 (ic_containerToId ic)) in
     ic\<lparr>ic_containerToId := ids, ic_location := AList.update containerId place (ic_location ic)\<rparr>)"

definition IlpControllerApp_Setup ::
  "ContainerGroups \<Rightarrow> nat \<Rightarrow> nat \<Rightarrow> nat \<Rightarrow> nat \<Rightarrow> (u32 \<rightharpoonup> u32) \<Rightarrow> (string \<times> u32) list \<Rightarrow> (u32 \<times> u32) list \<Rightarrow> u32 list \<Rightarrow>
   IlpControllerApp \<Rightarrow> IlpControllerApp" where
  "IlpControllerApp_Setup containerGroups leafCount spineCount coreCount podWidth virtualToPhysical containerToId gws gwAddresses ic =
     fold Setup_location (slots containerGroups)
       (ic\<lparr>ic_containerGroups := containerGroups, ic_leafCount := leafCount, ic_spineCount := spineCount,
           ic_coreCount := coreCount, ic_podWidth := podWidth, ic_virtualToPhysical := virtualToPhysical,
           ic_containerToId := containerToId, ic_gws := gws, ic_gwAddresses := gwAddresses\<rparr>)"

text \<open>The scheduled query is cancelled as well; one that still ran would return at once.\<close>

definition IlpControllerApp_StopApplication :: "IlpControllerApp \<Rightarrow> IlpControllerApp" where
  "IlpControllerApp_StopApplication ic = ic\<lparr>ic_stop := True\<rparr>"

section \<open>Costs and paths\<close>

text \<open>\<open>operator[]\<close> of the locations inserts \<open>(0, 0)\<close> for an unknown container.\<close>

definition locate :: "u32 \<Rightarrow> IlpControllerApp \<Rightarrow> (nat \<times> nat) \<times> IlpControllerApp" where
  "locate k ic = (case map_of (ic_location ic) k of
       Some p \<Rightarrow> (p, ic)
     | None \<Rightarrow> ((0, 0), ic\<lparr>ic_location := AList.update k (0, 0) (ic_location ic)\<rparr>))"

definition IlpControllerApp_GetPacketCost ::
  "u32 \<Rightarrow> u32 \<Rightarrow> nat \<Rightarrow> nat \<Rightarrow> nat \<Rightarrow> IlpControllerApp \<Rightarrow> (nat \<times> IlpControllerApp) res" where
  "IlpControllerApp_GetPacketCost srcContainerId dstContainerId steps gwLeaf gwPod ic =
     (case locate srcContainerId ic of (src, ic) \<Rightarrow>
      case locate dstContainerId ic of (dst, ic) \<Rightarrow>
      bindE (assertE DivideByZero (ic_podWidth ic \<noteq> 0)) (\<lambda>_.
      let srcLeaf = fst src; srcPod = srcLeaf div ic_podWidth ic;
          dstLeaf = fst dst; dstPod = dstLeaf div ic_podWidth ic in
      Inr (if steps = 1 then (if srcLeaf = dstLeaf then 2 else if srcPod = dstPod then 4 else 6)
           else if steps = 2 then (if srcPod = dstPod then 4 else 6)
           else if steps = 3 then (if ic_coreCount ic = 0 \<and> dstLeaf = gwLeaf then 4 else 6)
           else if steps = 4 then (if dstPod = gwPod then 6 else 8)
           else (if gwLeaf = dstLeaf then 6 else if gwPod = dstPod then 8 else 10), ic)))"

text \<open>The protocol number 17 is printed as a character, the ports as numbers.\<close>

definition IlpControllerApp_GetFlowHash ::
  "ipv4_parser \<Rightarrow> (u32 \<Rightarrow> string) \<Rightarrow> (string \<Rightarrow> u64) \<Rightarrow> nat \<Rightarrow> nat \<Rightarrow> nat \<Rightarrow> u32 \<Rightarrow> u64" where
  "IlpControllerApp_GetFlowHash ipv4 show_ip hash64 podId leafOffset node gwAddress =
     hash64 (show_ip (IpUtils_GetNodePhysicalAddress ipv4 (word_of_nat podId) (word_of_nat leafOffset) (word_of_nat node)) @
       show_ip gwAddress @ [char_of (17 :: nat)] @ ''667'' @ ''667'')"

section \<open>The optimisation problem\<close>

type_synonym ilp_var = "nat \<times> u32"

record ilp_term =
  it_weight :: int
  it_vars :: "ilp_var list"
  it_hit :: int
  it_miss :: int

record ilp_problem =
  ip_switches :: nat
  ip_containers :: "u32 list"
  ip_bound :: int
  ip_cost :: "ilp_term list"

text \<open>\<open>activeDestinations\<close>, and the containers that get a variable on every switch.\<close>

definition activeDestinations :: "TrafficMatrix list \<Rightarrow> u32 set" where
  "activeDestinations tms = (\<Union>tm \<in> set tms. \<Union>row \<in> set tm. (\<lambda>e. fi_dstIp (snd e)) ` set (snd row))"

definition active_containers :: "nat \<Rightarrow> u32 set \<Rightarrow> u32 list" where
  "active_containers containerCount active = filter (\<lambda>j. j \<in> active) (map word_of_nat [0..<containerCount])"

text \<open>\<open>switchContainerExpressions[i].at (j)\<close>.\<close>

definition ilp_var_at :: "nat \<Rightarrow> u32 list \<Rightarrow> nat \<Rightarrow> u32 \<Rightarrow> ilp_var res" where
  "ilp_var_at switchCount js i j = (if i < switchCount \<and> j \<in> set js then Inr (i, j) else Inl OutOfRange)"

fun index_of :: "'a \<Rightarrow> 'a list \<Rightarrow> nat" where
  "index_of x [] = 0"
| "index_of x (y # ys) = (if x = y then 0 else Suc (index_of x ys))"

text \<open>The cost of one flow that a leaf has counted.\<close>

definition QuerySwitches_term ::
  "(nat \<Rightarrow> nat \<Rightarrow> nat \<Rightarrow> u32 \<Rightarrow> u64) \<Rightarrow> nat \<Rightarrow> u32 list \<Rightarrow> nat \<Rightarrow> u32 \<Rightarrow> FlowInfo \<Rightarrow> IlpControllerApp \<Rightarrow>
   (ilp_term \<times> IlpControllerApp) res" where
  "QuerySwitches_term flowHash switchCount js leaf srcContainerId info ic =
     (let dstContainerId = fi_dstIp info;
          gwIdx = index_of (fi_gwIp info) (ic_gwAddresses ic);
          w = ic_podWidth ic;
          weight = int (unat (fi_packetCount info));
          var = (\<lambda>i. ilp_var_at switchCount js i dstContainerId) in
      bindE (vec_at (ic_gws ic) gwIdx) (\<lambda>gw.
      let gwLeaf = unat (fst gw); gwPod = gwLeaf div w in
      bindE (assertE DivideByZero (w \<noteq> 0)) (\<lambda>_.
      if leaf = gwLeaf
      then bindE (var leaf) (\<lambda>v.
           bindE (IlpControllerApp_GetPacketCost srcContainerId dstContainerId 1 gwLeaf gwPod ic) (\<lambda>(c, ic).
             Inr (\<lparr>it_weight = weight, it_vars = [v], it_hit = int c, it_miss = ic_gwCost ic\<rparr>, ic)))
      else
        let srcPod = leaf div w in
        case locate srcContainerId ic of (loc, ic) \<Rightarrow>
        bindE (vec_at (ic_gwAddresses ic) gwIdx) (\<lambda>gwAddress.
        let h = unat (flowHash (leaf div w) (leaf mod w) (snd loc) gwAddress);
            spineId = srcPod * w + h mod w in
        if srcPod = gwPod
        then case locate dstContainerId ic of (_, ic) \<Rightarrow>
             bindE (mapE var [leaf, spineId + ic_leafCount ic, gwLeaf]) (\<lambda>vs.
               Inr (\<lparr>it_weight = weight, it_vars = vs, it_hit = 8, it_miss = ic_gwCost ic\<rparr>, ic))
        else
          let q = ic_coreCount ic div w in
          bindE (assertE DivideByZero (q \<noteq> 0)) (\<lambda>_.
          let coreId = (spineId mod w) * q + h mod q;
              secondSpineId = coreId div q + w * gwPod in
          bindE (mapE var [leaf, spineId + ic_leafCount ic, coreId + ic_leafCount ic + ic_spineCount ic,
                           secondSpineId + ic_leafCount ic, gwLeaf]) (\<lambda>vs.
            Inr (\<lparr>it_weight = weight, it_vars = vs, it_hit = 8, it_miss = ic_gwCost ic\<rparr>, ic)))))))"

text \<open>A loop whose body changes the controller and adds to a list.\<close>

fun mapS :: "('a \<Rightarrow> 's \<Rightarrow> ('b \<times> 's) res) \<Rightarrow> 'a list \<Rightarrow> 's \<Rightarrow> ('b list \<times> 's) res" where
  "mapS f [] s = Inr ([], s)"
| "mapS f (x # xs) s = bindE (f x s) (\<lambda>(y, s). bindE (mapS f xs s) (\<lambda>(ys, s). Inr (y # ys, s)))"

text \<open>The flows of one source; sources that are not attached to the leaf are skipped.\<close>

definition QuerySwitches_row ::
  "(nat \<Rightarrow> nat \<Rightarrow> nat \<Rightarrow> u32 \<Rightarrow> u64) \<Rightarrow> nat \<Rightarrow> u32 list \<Rightarrow> nat \<Rightarrow> u32 \<times> (u32 \<times> FlowInfo) list \<Rightarrow> IlpControllerApp \<Rightarrow>
   (ilp_term list \<times> IlpControllerApp) res" where
  "QuerySwitches_row flowHash switchCount js leaf = (\<lambda>(srcContainerId, flows) ic.
     case locate srcContainerId ic of (loc, ic) \<Rightarrow>
     if fst loc \<noteq> leaf then Inr ([], ic)
     else mapS (\<lambda>e. QuerySwitches_term flowHash switchCount js leaf srcContainerId (snd e)) flows ic)"

definition QuerySwitches_cost ::
  "(nat \<Rightarrow> nat \<Rightarrow> nat \<Rightarrow> u32 \<Rightarrow> u64) \<Rightarrow> nat \<Rightarrow> u32 list \<Rightarrow> IlpControllerApp \<Rightarrow> (ilp_term list \<times> IlpControllerApp) res" where
  "QuerySwitches_cost flowHash switchCount js ic =
     bindE (mapS (\<lambda>leaf ic. bindE (vec_at (ic_leavesTrafficMatrix ic) leaf) (\<lambda>tm.
              bindE (mapS (QuerySwitches_row flowHash switchCount js leaf) tm ic) (\<lambda>(ts, ic). Inr (concat ts, ic))))
            [0..<ic_leafCount ic] ic) (\<lambda>(ts, ic). Inr (concat ts, ic))"

section \<open>Querying the switches\<close>

definition QuerySwitches_collect :: "SwitchApp list \<Rightarrow> IlpControllerApp \<Rightarrow> SwitchApp list \<times> IlpControllerApp" where
  "QuerySwitches_collect switches ic =
     (let tms = map (\<lambda>sw. fst (SwitchApp_GetTrafficMatrix sw)) switches in
      (map (\<lambda>sw. snd (SwitchApp_GetTrafficMatrix sw)) switches,
       ic\<lparr>ic_leavesTrafficMatrix := take (ic_leafCount ic) tms,
          ic_spinesTrafficMatrix := take (ic_spineCount ic) (drop (ic_leafCount ic) tms),
          ic_coresTrafficMatrix := drop (ic_leafCount ic + ic_spineCount ic) tms\<rparr>))"

text \<open>\<open>(*m_virtualToPhysical)[j]\<close> inserts 0 for an unknown address.\<close>

definition QuerySwitches_item :: "u32 \<Rightarrow> IlpControllerApp \<Rightarrow> ((u32 \<times> u32) \<times> IlpControllerApp) res" where
  "QuerySwitches_item j ic = (case ic_virtualToPhysical ic j of
       Some a \<Rightarrow> Inr ((IpUtils_GetContainerVirtualAddress j, a), ic)
     | None \<Rightarrow> Inr ((IpUtils_GetContainerVirtualAddress j, 0), ic\<lparr>ic_virtualToPhysical := (ic_virtualToPhysical ic)(j \<mapsto> 0)\<rparr>))"

definition QuerySwitches_install ::
  "(ilp_var \<Rightarrow> bool) \<Rightarrow> u32 list \<Rightarrow> nat \<times> SwitchApp \<Rightarrow> IlpControllerApp \<Rightarrow> (SwitchApp \<times> IlpControllerApp) res" where
  "QuerySwitches_install model js = (\<lambda>(i, sw) ic.
     bindE (mapS QuerySwitches_item (filter (\<lambda>j. model (i, j)) js) ic) (\<lambda>(items, ic).
     bindE (SwitchApp_BulkInsertToCache items sw) (\<lambda>sw. Inr (sw, ic))))"

text \<open>The flag says whether the next query is scheduled. Reading the matrix of a leaf that is not there fails.\<close>

definition IlpControllerApp_QuerySwitches ::
  "ipv4_parser \<Rightarrow> (u32 \<Rightarrow> string) \<Rightarrow> (string \<Rightarrow> u64) \<Rightarrow> (ilp_problem \<Rightarrow> ilp_var \<Rightarrow> bool) \<Rightarrow> SwitchApp list \<Rightarrow> IlpControllerApp \<Rightarrow>
   (bool \<times> SwitchApp list \<times> IlpControllerApp) res" where
  "IlpControllerApp_QuerySwitches ipv4 show_ip hash64 solve switches ic =
     (if ic_stop ic then Inr (False, switches, ic)
      else
        case QuerySwitches_collect switches ic of (switches, ic) \<Rightarrow>
        let switchCount = length switches in
        bindE (assertE OutOfRange (ic_leafCount ic \<le> length (ic_leavesTrafficMatrix ic))) (\<lambda>_.
        let js = active_containers (length (ic_location ic)) (activeDestinations (ic_leavesTrafficMatrix ic)) in
        bindE (QuerySwitches_cost (IlpControllerApp_GetFlowHash ipv4 show_ip hash64) switchCount js ic) (\<lambda>(cost, ic).
        let model = solve \<lparr>ip_switches = switchCount, ip_containers = js, ip_bound = ic_memorySize ic, ip_cost = cost\<rparr> in
        bindE (mapS (QuerySwitches_install model js) (zip [0..<switchCount] switches) ic) (\<lambda>(switches, ic).
          Inr (True, switches, ic)))))"

section \<open>What the solver promises\<close>

text \<open>A placement respects the memory of the switches, and has a cost.\<close>

definition feasible :: "ilp_problem \<Rightarrow> (ilp_var \<Rightarrow> bool) \<Rightarrow> bool" where
  "feasible P m \<longleftrightarrow> ip_containers P = [] \<or> (\<forall>i < ip_switches P. int (length (filter (\<lambda>j. m (i, j)) (ip_containers P))) \<le> ip_bound P)"

definition term_cost :: "(ilp_var \<Rightarrow> bool) \<Rightarrow> ilp_term \<Rightarrow> int" where
  "term_cost m t = it_weight t * (if \<exists>v \<in> set (it_vars t). m v then it_hit t else it_miss t)"

definition total_cost :: "(ilp_var \<Rightarrow> bool) \<Rightarrow> ilp_problem \<Rightarrow> int" where
  "total_cost m P = sum_list (map (term_cost m) (ip_cost P))"

text \<open>Z3's \<open>optimize\<close>: when the constraints can be satisfied, the model satisfies them and minimises the
  objective.\<close>

definition solver_contract :: "(ilp_problem \<Rightarrow> ilp_var \<Rightarrow> bool) \<Rightarrow> bool" where
  "solver_contract solve \<longleftrightarrow> (\<forall>P. (\<exists>m. feasible P m) \<longrightarrow>
     feasible P (solve P) \<and> (\<forall>m. feasible P m \<longrightarrow> total_cost (solve P) P \<le> total_cost m P))"

section \<open>The path of a flow\<close>

text \<open>The switches between a leaf and the leaf of a gateway that the hash \<open>h\<close> of the flow selects, in terms of the
  topology: up to a spine of the pod, and through a core to a spine of the other pod if there is one.\<close>

definition flow_route :: "IlpControllerApp \<Rightarrow> nat \<Rightarrow> nat \<Rightarrow> nat \<Rightarrow> sim_node list" where
  "flow_route ic h leaf gwLeaf =
     (let w = ic_podWidth ic; q = ic_coreCount ic div w in
      if leaf = gwLeaf then [LeafN leaf]
      else if leaf div w = gwLeaf div w then [LeafN leaf, SpineN (leaf div w * w + h mod w), LeafN gwLeaf]
      else [LeafN leaf, SpineN (leaf div w * w + h mod w), CoreN (h mod w * q + h mod q),
            SpineN (gwLeaf div w * w + h mod w), LeafN gwLeaf])"

text \<open>The position of a switch in the container of switch applications.\<close>

fun switch_index :: "IlpControllerApp \<Rightarrow> sim_node \<Rightarrow> nat" where
  "switch_index ic (LeafN i) = i"
| "switch_index ic (SpineN i) = i + ic_leafCount ic"
| "switch_index ic (CoreN i) = i + ic_leafCount ic + ic_spineCount ic"
| "switch_index ic (HostN i j) = ic_leafCount ic + ic_spineCount ic + ic_coreCount ic"

definition place_of :: "IlpControllerApp \<Rightarrow> u32 \<Rightarrow> nat \<times> nat" where
  "place_of ic k = the (map_of (ic_location ic) k)"

definition known :: "IlpControllerApp \<Rightarrow> u32 \<Rightarrow> bool" where
  "known ic k \<longleftrightarrow> k \<in> fst ` set (ic_location ic)"

definition ic_ok :: "IlpControllerApp \<Rightarrow> nat \<Rightarrow> bool" where
  "ic_ok ic n \<longleftrightarrow> 0 < ic_podWidth ic \<and> ic_leafCount ic mod ic_podWidth ic = 0 \<and> ic_spineCount ic = ic_leafCount ic \<and>
     ic_coreCount ic mod ic_podWidth ic = 0 \<and> (ic_podWidth ic < ic_leafCount ic \<longrightarrow> 0 < ic_coreCount ic) \<and>
     n = ic_leafCount ic + ic_spineCount ic + ic_coreCount ic \<and>
     length (ic_gws ic) = length (ic_gwAddresses ic) \<and> (\<forall>g \<in> set (ic_gws ic). unat (fst g) < ic_leafCount ic) \<and>
     fst ` set (ic_location ic) = word_of_nat ` {..<length (ic_location ic)}"

lemma locate_known: "known ic k \<Longrightarrow> locate k ic = (place_of ic k, ic)"
  by (auto simp: known_def locate_def place_of_def split: option.splits dest: map_of_eq_None_iff [THEN iffD1])

definition gw_leaf :: "IlpControllerApp \<Rightarrow> FlowInfo \<Rightarrow> nat" where
  "gw_leaf ic info = unat (fst (ic_gws ic ! index_of (fi_gwIp info) (ic_gwAddresses ic)))"

definition flow_hash :: "(nat \<Rightarrow> nat \<Rightarrow> nat \<Rightarrow> u32 \<Rightarrow> u64) \<Rightarrow> IlpControllerApp \<Rightarrow> nat \<Rightarrow> u32 \<Rightarrow> FlowInfo \<Rightarrow> nat" where
  "flow_hash flowHash ic leaf src info =
     unat (flowHash (leaf div ic_podWidth ic) (leaf mod ic_podWidth ic) (snd (place_of ic src)) (fi_gwIp info))"

definition hit_cost :: "IlpControllerApp \<Rightarrow> nat \<Rightarrow> u32 \<Rightarrow> FlowInfo \<Rightarrow> int" where
  "hit_cost ic leaf src info =
     (let a = fst (place_of ic src); b = fst (place_of ic (fi_dstIp info)); w = ic_podWidth ic in
      if leaf = gw_leaf ic info then if a = b then 2 else if a div w = b div w then 4 else 6 else 8)"

definition flow_term ::
  "(nat \<Rightarrow> nat \<Rightarrow> nat \<Rightarrow> u32 \<Rightarrow> u64) \<Rightarrow> IlpControllerApp \<Rightarrow> nat \<Rightarrow> u32 \<Rightarrow> FlowInfo \<Rightarrow> ilp_term" where
  "flow_term flowHash ic leaf src info =
     \<lparr>it_weight = int (unat (fi_packetCount info)),
      it_vars = map (\<lambda>x. (switch_index ic x, fi_dstIp info))
        (flow_route ic (flow_hash flowHash ic leaf src info) leaf (gw_leaf ic info)),
      it_hit = hit_cost ic leaf src info, it_miss = ic_gwCost ic\<rparr>"

text \<open>A switch of the topology the controller knows.\<close>

fun known_switch :: "IlpControllerApp \<Rightarrow> sim_node \<Rightarrow> bool" where
  "known_switch ic (LeafN i) \<longleftrightarrow> i < ic_leafCount ic"
| "known_switch ic (SpineN i) \<longleftrightarrow> i < ic_spineCount ic"
| "known_switch ic (CoreN i) \<longleftrightarrow> i < ic_coreCount ic"
| "known_switch ic (HostN i j) \<longleftrightarrow> False"

lemma index_of_found: "x \<in> set xs \<Longrightarrow> index_of x xs < length xs \<and> xs ! index_of x xs = x"
  by (induction xs) auto

lemma route_switches:
  assumes "ic_ok ic n" and "leaf < ic_leafCount ic" and "gwLeaf < ic_leafCount ic"
  shows "\<forall>x \<in> set (flow_route ic h leaf gwLeaf). known_switch ic x"
    and "leaf div ic_podWidth ic \<noteq> gwLeaf div ic_podWidth ic \<Longrightarrow> ic_coreCount ic div ic_podWidth ic \<noteq> 0"
proof -
  let ?w = "ic_podWidth ic" and ?L = "ic_leafCount ic"
  obtain pods where pods: "?L = pods * ?w"
    using assms(1) by (metis ic_ok_def dvd_div_mult_self mod_0_imp_dvd)
  have w: "0 < ?w" and n: "n = ?L + ?L + ic_coreCount ic" and spines: "ic_spineCount ic = ?L"
    using assms(1) by (simp_all add: ic_ok_def)
  have spine: "l div ?w * ?w + h mod ?w < ?L" if "l < ?L" for l
    using pod_offset [of l pods ?w "h mod ?w"] that pods w by simp
  show div: "ic_coreCount ic div ?w \<noteq> 0" if "leaf div ?w \<noteq> gwLeaf div ?w"
  proof -
    have "?w < ?L"
      using that assms(2,3) w by (metis div_less nat_neq_iff not_less_iff_gr_or_eq order.strict_trans)
    then have "0 < ic_coreCount ic" "ic_coreCount ic mod ?w = 0"
      using assms(1) by (simp_all add: ic_ok_def)
    then show ?thesis
      by (metis div_eq_0_iff mod_less not_gr_zero w)
  qed
  have core: "h mod ?w * (ic_coreCount ic div ?w) + h mod (ic_coreCount ic div ?w) < ic_coreCount ic"
    if "ic_coreCount ic div ?w \<noteq> 0"
  proof -
    let ?q = "ic_coreCount ic div ?w"
    have "h mod ?w * ?q + h mod ?q < Suc (h mod ?w) * ?q"
      using that by simp
    also have "\<dots> \<le> ?w * ?q"
      using w by (intro mult_le_mono1) (simp add: Suc_leI)
    also have "\<dots> = ic_coreCount ic"
      using assms(1) by (metis ic_ok_def dvd_mult_div_cancel mod_0_imp_dvd)
    finally show ?thesis .
  qed
  show "\<forall>x \<in> set (flow_route ic h leaf gwLeaf). known_switch ic x"
    using core div spine [OF assms(2)] spine [OF assms(3)] assms(2,3) spines by (auto simp: flow_route_def Let_def)
qed

lemma known_switch_index: "\<lbrakk>ic_ok ic n; known_switch ic x\<rbrakk> \<Longrightarrow> switch_index ic x < n"
  by (cases x) (auto simp: ic_ok_def)

lemma route_indices:
  assumes "ic_ok ic n" and "leaf < ic_leafCount ic" and "gwLeaf < ic_leafCount ic"
  shows "\<forall>x \<in> set (flow_route ic h leaf gwLeaf). switch_index ic x < n"
    and "leaf div ic_podWidth ic \<noteq> gwLeaf div ic_podWidth ic \<Longrightarrow> ic_coreCount ic div ic_podWidth ic \<noteq> 0"
  using route_switches [OF assms] known_switch_index [OF assms(1)] by blast+

lemma vars_ok:
  assumes "\<forall>x \<in> set xs. switch_index ic x < n" and "j \<in> set js"
  shows "mapE (\<lambda>i. ilp_var_at n js i j) (map (switch_index ic) xs) = Inr (map (\<lambda>x. (switch_index ic x, j)) xs)"
  using assms by (induction xs) (auto simp: ilp_var_at_def)

lemma QuerySwitches_term_ok:
  assumes "ic_ok ic n" and "leaf < ic_leafCount ic" and "known ic src" and "known ic (fi_dstIp info)"
    and "fi_gwIp info \<in> set (ic_gwAddresses ic)" and "fi_dstIp info \<in> set js"
  shows "QuerySwitches_term flowHash n js leaf src info ic = Inr (flow_term flowHash ic leaf src info, ic)"
proof -
  let ?w = "ic_podWidth ic" and ?q = "ic_coreCount ic div ic_podWidth ic" and ?g = "gw_leaf ic info"
  let ?h = "flow_hash flowHash ic leaf src info"
  let ?idx = "index_of (fi_gwIp info) (ic_gwAddresses ic)"
  have idx: "?idx < length (ic_gws ic)" "?idx < length (ic_gwAddresses ic)" "ic_gwAddresses ic ! ?idx = fi_gwIp info"
    using index_of_found [OF assms(5)] assms(1) by (simp_all add: ic_ok_def)
  have g: "?g < ic_leafCount ic" and w: "?w \<noteq> 0"
    using assms(1) idx(1) nth_mem [OF idx(1)] by (auto simp: gw_leaf_def ic_ok_def)
  note route = route_indices [OF assms(1,2) g]
  note vars = vars_ok [OF route(1) [of ?h] assms(6)]
  have cells: "vec_at (ic_gws ic) ?idx = Inr (ic_gws ic ! ?idx)" "unat (fst (ic_gws ic ! ?idx)) = ?g"
      "vec_at (ic_gwAddresses ic) ?idx = Inr (fi_gwIp info)"
    using idx by (simp_all add: gw_leaf_def)
  consider (here) "leaf = ?g" | (pod) "leaf \<noteq> ?g" "leaf div ?w = ?g div ?w" | (far) "leaf div ?w \<noteq> ?g div ?w"
    by blast
  then show ?thesis
  proof cases
    case here
    then have "ilp_var_at n js leaf (fi_dstIp info) = Inr (leaf, fi_dstIp info)"
      using route(1) [of 0] assms(6) by (simp add: flow_route_def ilp_var_at_def)
    with here w show ?thesis
      unfolding QuerySwitches_term_def Let_def cells
      by (simp add: IlpControllerApp_GetPacketCost_def locate_known assms flow_term_def flow_route_def hit_cost_def Let_def
          cells)
  next
    case pod
    then have path: "flow_route ic ?h leaf ?g = [LeafN leaf, SpineN (leaf div ?w * ?w + ?h mod ?w), LeafN ?g]"
      by (simp add: flow_route_def Let_def)
    show ?thesis
      using vars [unfolded path list.map switch_index.simps] w pod
      unfolding QuerySwitches_term_def Let_def cells flow_term_def hit_cost_def path
      by (simp add: locate_known assms flow_hash_def cells del: mapE.simps)
  next
    case far
    then have q: "?q \<noteq> 0" "leaf \<noteq> ?g"
      using route(2) by auto
    have path: "flow_route ic ?h leaf ?g = [LeafN leaf, SpineN (leaf div ?w * ?w + ?h mod ?w),
        CoreN (?h mod ?w * ?q + ?h mod ?q), SpineN (?g div ?w * ?w + ?h mod ?w), LeafN ?g]"
      using far q(2) by (simp add: flow_route_def Let_def)
    have spine: "(leaf div ?w * ?w + ?h mod ?w) mod ?w = ?h mod ?w"
      using w by simp
    have second: "(?h mod ?w * ?q + ?h mod ?q) div ?q + ?w * (?g div ?w) = ?g div ?w * ?w + ?h mod ?w"
      using q(1) by simp
    have second': "?h mod ?w + ?w * (?g div ?w) = ?g div ?w * ?w + ?h mod ?w"
      by simp
    show ?thesis
      using vars [unfolded path list.map switch_index.simps] w q far
      unfolding QuerySwitches_term_def Let_def cells flow_term_def hit_cost_def path
      by (simp add: locate_known assms cells flow_hash_def [symmetric] spine second second' del: mapE.simps)
  qed
qed

section \<open>A whole query\<close>

lemma mapS_same: "(\<And>x. x \<in> set xs \<Longrightarrow> f x s = Inr (g x, s)) \<Longrightarrow> mapS f xs s = Inr (map g xs, s)"
  by (induction xs) auto

lemma mapS_all:
  assumes "\<And>x. x \<in> set xs \<Longrightarrow> \<exists>y. f x s = Inr (y, s) \<and> P x y"
  shows "\<exists>ys. mapS f xs s = Inr (ys, s) \<and> list_all2 P xs ys"
  using assms
proof (induction xs)
  case (Cons x xs)
  obtain y where "f x s = Inr (y, s)" "P x y"
    using Cons.prems [of x] by auto
  moreover obtain ys where "mapS f xs s = Inr (ys, s)" "list_all2 P xs ys"
    using Cons by auto
  ultimately show ?case by auto
qed simp

text \<open>The flows the leaves have counted, each with the leaf its source is attached to.\<close>

definition counted_flows :: "IlpControllerApp \<Rightarrow> (nat \<times> u32 \<times> FlowInfo) list" where
  "counted_flows ic = concat (map (\<lambda>leaf. concat (map (\<lambda>(src, flows).
     if fst (place_of ic src) \<noteq> leaf then [] else map (\<lambda>e. (leaf, src, snd e)) flows) (ic_leavesTrafficMatrix ic ! leaf)))
     [0..<ic_leafCount ic])"

definition traffic_ok :: "IlpControllerApp \<Rightarrow> bool" where
  "traffic_ok ic \<longleftrightarrow> (\<forall>tm \<in> set (ic_leavesTrafficMatrix ic). \<forall>(src, flows) \<in> set tm. known ic src \<and>
     (\<forall>e \<in> set flows. known ic (fi_dstIp (snd e)) \<and> fi_gwIp (snd e) \<in> set (ic_gwAddresses ic)))"

definition query_containers :: "IlpControllerApp \<Rightarrow> u32 list" where
  "query_containers ic = active_containers (length (ic_location ic)) (activeDestinations (ic_leavesTrafficMatrix ic))"

lemma query_containers_known:
  assumes "ic_ok ic n"
  shows "set (query_containers ic) = {k. known ic k} \<inter> activeDestinations (ic_leavesTrafficMatrix ic)"
  using assms by (auto simp: query_containers_def active_containers_def known_def ic_ok_def)

lemma QuerySwitches_row_ok:
  assumes "ic_ok ic n" and "leaf < ic_leafCount ic" and "known ic src"
    and "\<forall>e \<in> set flows. known ic (fi_dstIp (snd e)) \<and> fi_gwIp (snd e) \<in> set (ic_gwAddresses ic) \<and> fi_dstIp (snd e) \<in> set js"
  shows "QuerySwitches_row flowHash n js leaf (src, flows) ic = Inr (map (\<lambda>(leaf, src, info). flow_term flowHash ic leaf src info)
    (if fst (place_of ic src) \<noteq> leaf then [] else map (\<lambda>e. (leaf, src, snd e)) flows), ic)"
proof -
  have "mapS (\<lambda>e. QuerySwitches_term flowHash n js leaf src (snd e)) flows ic =
      Inr (map (\<lambda>e. flow_term flowHash ic leaf src (snd e)) flows, ic)"
    by (rule mapS_same) (use QuerySwitches_term_ok [OF assms(1-3)] assms(4) in blast)
  then show ?thesis
    by (simp add: QuerySwitches_row_def locate_known [OF assms(3)] comp_def)
qed

lemma QuerySwitches_cost_ok:
  assumes "ic_ok ic n" and "traffic_ok ic" and "length (ic_leavesTrafficMatrix ic) = ic_leafCount ic"
  shows "QuerySwitches_cost flowHash n (query_containers ic) ic =
    Inr (map (\<lambda>(leaf, src, info). flow_term flowHash ic leaf src info) (counted_flows ic), ic)"
proof -
  let ?t = "\<lambda>(leaf, src, info). flow_term flowHash ic leaf src info"
  let ?row = "\<lambda>leaf (src, flows). if fst (place_of ic src) \<noteq> leaf then [] else map (\<lambda>e. (leaf, src, snd e)) flows"
  have leaf: "mapS (QuerySwitches_row flowHash n (query_containers ic) leaf) (ic_leavesTrafficMatrix ic ! leaf) ic =
      Inr (map (\<lambda>r. map ?t (?row leaf r)) (ic_leavesTrafficMatrix ic ! leaf), ic)" if "leaf < ic_leafCount ic" for leaf
  proof (rule mapS_same)
    fix r
    assume r: "r \<in> set (ic_leavesTrafficMatrix ic ! leaf)"
    obtain src flows where eq: "r = (src, flows)"
      by (cases r)
    have tm: "ic_leavesTrafficMatrix ic ! leaf \<in> set (ic_leavesTrafficMatrix ic)"
      using that assms(3) by simp
    then have ok: "known ic src" "\<forall>e \<in> set flows. known ic (fi_dstIp (snd e)) \<and> fi_gwIp (snd e) \<in> set (ic_gwAddresses ic)"
      using bspec [OF bspec [OF assms(2) [unfolded traffic_ok_def] tm] r] by (simp_all add: eq)
    moreover have "\<forall>e \<in> set flows. fi_dstIp (snd e) \<in> activeDestinations (ic_leavesTrafficMatrix ic)"
      using tm r eq by (force simp: activeDestinations_def)
    ultimately show "QuerySwitches_row flowHash n (query_containers ic) leaf r ic = Inr (map ?t (?row leaf r), ic)"
      using QuerySwitches_row_ok [OF assms(1) that ok(1), of flows "query_containers ic" flowHash]
      unfolding eq query_containers_known [OF assms(1)] by auto
  qed
  have "mapS (\<lambda>leaf c. bindE (vec_at (ic_leavesTrafficMatrix c) leaf) (\<lambda>tm.
        bindE (mapS (QuerySwitches_row flowHash n (query_containers ic) leaf) tm c) (\<lambda>(ts, c). Inr (concat ts, c))))
      [0..<ic_leafCount ic] ic =
    Inr (map (\<lambda>leaf. concat (map (\<lambda>r. map ?t (?row leaf r)) (ic_leavesTrafficMatrix ic ! leaf))) [0..<ic_leafCount ic], ic)"
    by (rule mapS_same) (simp add: assms(3) leaf)
  then show ?thesis
    by (simp add: QuerySwitches_cost_def counted_flows_def map_concat comp_def case_prod_beta)
qed

text \<open>What a solution puts into a switch.\<close>

definition items_for :: "IlpControllerApp \<Rightarrow> u32 list \<Rightarrow> (ilp_var \<Rightarrow> bool) \<Rightarrow> nat \<Rightarrow> (u32 \<times> u32) list" where
  "items_for ic js m i = map (\<lambda>j. (j, the (ic_virtualToPhysical ic j))) (filter (\<lambda>j. m (i, j)) js)"

text \<open>All of a switch but its cache.\<close>

definition sa_frame :: "SwitchApp \<Rightarrow> u32 \<times> u32 set \<times> TrafficMatrix \<times> Mode \<times> int" where
  "sa_frame sw = (sa_nodeId sw, sa_gwAddresses sw, sa_trafficMatrix sw, sa_switchMode sw, sa_memorySize sw)"

lemma sa_frame_cache [simp]: "sa_frame (sw\<lparr>sa_cache := c\<rparr>) = sa_frame sw"
  by (simp add: sa_frame_def)

lemma BulkInsert_frame: "SwitchApp_BulkInsertToCache items sw = Inr sw' \<Longrightarrow> sa_frame sw' = sa_frame sw"
  by (induction items sw rule: SwitchApp_BulkInsertToCache.induct) (auto simp: monad_simps)

lemma QuerySwitches_install_ok:
  assumes "lru_wf (sa_cache sw)" and "\<forall>j \<in> set js. ic_virtualToPhysical ic j \<noteq> None"
  shows "\<exists>sw'. QuerySwitches_install m js (i, sw) ic = Inr (sw', ic) \<and> lru_wf (sa_cache sw') \<and>
    sa_frame sw' = sa_frame sw \<and>
    lru_abs (sa_cache sw') = lru_push (lru_cacheSize (sa_cache sw)) (items_for ic js m i) (lru_abs (sa_cache sw))"
proof -
  have "mapS QuerySwitches_item (filter (\<lambda>j. m (i, j)) js) ic = Inr (items_for ic js m i, ic)"
    unfolding items_for_def
    by (rule mapS_same) (use assms(2) in \<open>auto simp: QuerySwitches_item_def IpUtils_GetContainerVirtualAddress_def\<close>)
  then show ?thesis
    using BulkInsert_refines [OF assms(1), of "items_for ic js m i"] BulkInsert_frame [of "items_for ic js m i" sw]
    by (auto simp: QuerySwitches_install_def returns_def)
qed

text \<open>The cost of a placement, from the counted flows: a flow is cheap when some switch on its path has its
  destination.\<close>

definition placement_cost ::
  "(nat \<Rightarrow> nat \<Rightarrow> nat \<Rightarrow> u32 \<Rightarrow> u64) \<Rightarrow> IlpControllerApp \<Rightarrow> (nat \<Rightarrow> u32 \<Rightarrow> bool) \<Rightarrow> int" where
  "placement_cost flowHash ic holds = sum_list (map (\<lambda>(leaf, src, info).
     int (unat (fi_packetCount info)) *
       (if \<exists>x \<in> set (flow_route ic (flow_hash flowHash ic leaf src info) leaf (gw_leaf ic info)).
             holds (switch_index ic x) (fi_dstIp info)
        then hit_cost ic leaf src info else ic_gwCost ic)) (counted_flows ic))"

definition fits :: "IlpControllerApp \<Rightarrow> nat \<Rightarrow> (nat \<Rightarrow> u32 \<Rightarrow> bool) \<Rightarrow> bool" where
  "fits ic n holds \<longleftrightarrow> (\<forall>i < n. int (length (filter (holds i) (query_containers ic))) \<le> ic_memorySize ic)"

lemma total_cost_placement:
  "total_cost m \<lparr>ip_switches = n, ip_containers = js, ip_bound = b,
     ip_cost = map (\<lambda>(leaf, src, info). flow_term flowHash ic leaf src info) flows\<rparr> =
   sum_list (map (\<lambda>(leaf, src, info). int (unat (fi_packetCount info)) *
       (if \<exists>x \<in> set (flow_route ic (flow_hash flowHash ic leaf src info) leaf (gw_leaf ic info)).
             m (switch_index ic x, fi_dstIp info)
        then hit_cost ic leaf src info else ic_gwCost ic)) flows)"
proof -
  have "term_cost m (flow_term flowHash ic leaf src info) = int (unat (fi_packetCount info)) *
       (if \<exists>x \<in> set (flow_route ic (flow_hash flowHash ic leaf src info) leaf (gw_leaf ic info)).
             m (switch_index ic x, fi_dstIp info)
        then hit_cost ic leaf src info else ic_gwCost ic)" for leaf src info
    by (auto simp: term_cost_def flow_term_def)
  then show ?thesis
    by (auto simp: total_cost_def intro!: arg_cong [of _ _ sum_list])
qed

lemma solver_optimal:
  fixes flowHash :: "nat \<Rightarrow> nat \<Rightarrow> nat \<Rightarrow> u32 \<Rightarrow> u64" and n :: nat
  assumes "solver_contract solve" and "0 \<le> ic_memorySize ic"
  defines "P \<equiv> \<lparr>ip_switches = n, ip_containers = query_containers ic, ip_bound = ic_memorySize ic,
     ip_cost = map (\<lambda>(leaf, src, info). flow_term flowHash ic leaf src info) (counted_flows ic)\<rparr>"
  shows "fits ic n (\<lambda>i j. solve P (i, j)) \<and>
    (\<forall>other. fits ic n other \<longrightarrow> placement_cost flowHash ic (\<lambda>i j. solve P (i, j)) \<le> placement_cost flowHash ic other)"
proof -
  have feasible: "feasible P (\<lambda>(i, j). holds i j) \<longleftrightarrow> fits ic n holds" for holds
    using assms(2) by (auto simp: feasible_def fits_def P_def)
  have "feasible P (\<lambda>_. False)"
    using assms(2) by (simp add: feasible_def P_def)
  then have best: "feasible P (solve P)" "\<And>m. feasible P m \<Longrightarrow> total_cost (solve P) P \<le> total_cost m P"
    using assms(1) by (auto simp: solver_contract_def)
  have cost: "total_cost (\<lambda>(i, j). holds i j) P = placement_cost flowHash ic holds" for holds
    unfolding P_def total_cost_placement placement_cost_def by simp
  have "solve P = (\<lambda>(i, j). solve P (i, j))"
    by auto
  then show ?thesis
    using best(1) best(2) [of "\<lambda>(i, j). _ i j"] feasible cost by (metis (no_types))
qed

text \<open>A solver that tries every set of the variables that occur, for the examples.\<close>

definition brute_force :: "ilp_problem \<Rightarrow> ilp_var \<Rightarrow> bool" where
  "brute_force P = (case sort_key (\<lambda>m. total_cost m P) (filter (feasible P)
       (map (\<lambda>S v. v \<in> set S) (subseqs (remdups (concat (map it_vars (ip_cost P))))))) of
     [] \<Rightarrow> (\<lambda>_. False) | m # _ \<Rightarrow> m)"

lemma brute_force_contract: "solver_contract brute_force"
  unfolding solver_contract_def
proof (intro allI impI, elim exE)
  fix P :: ilp_problem and m0
  let ?vars = "remdups (concat (map it_vars (ip_cost P)))"
  let ?ms = "filter (feasible P) (map (\<lambda>S v. v \<in> set S) (subseqs ?vars))"
  have cover: "\<exists>m' \<in> set ?ms. total_cost m' P = total_cost m P" if m: "feasible P m" for m
  proof -
    have "{v \<in> set ?vars. m v} \<in> set ` set (subseqs ?vars)"
      unfolding subseqs_powset by auto
    then obtain S where S: "S \<in> set (subseqs ?vars)" "set S = {v \<in> set ?vars. m v}"
      by auto
    have "length (filter (\<lambda>j. (i, j) \<in> set S) xs) \<le> length (filter (\<lambda>j. m (i, j)) xs)" for i xs
      by (induction xs) (auto simp: S(2))
    then have "feasible P (\<lambda>v. v \<in> set S)"
      using m unfolding feasible_def by (meson of_nat_mono order_trans)
    moreover have "term_cost (\<lambda>v. v \<in> set S) t = term_cost m t" if "t \<in> set (ip_cost P)" for t
      using that by (auto simp: term_cost_def S(2))
    then have "total_cost (\<lambda>v. v \<in> set S) P = total_cost m P"
      unfolding total_cost_def by (metis (mono_tags, lifting) map_eq_conv)
    ultimately show ?thesis
      using S(1) by force
  qed
  define L where "L = sort_key (\<lambda>m. total_cost m P) ?ms"
  have L: "set L = set ?ms" "sorted (map (\<lambda>m. total_cost m P) L)"
    by (simp_all only: L_def set_sort sorted_sort_key)
  assume "feasible P m0"
  then have "L \<noteq> []"
    using cover [of m0] unfolding L(1) [symmetric] by auto
  then obtain m ms where m: "L = m # ms"
    by (cases L) auto
  have best: "brute_force P = m"
    by (simp only: brute_force_def L_def [symmetric] m list.case)
  have least: "total_cost m P \<le> total_cost m' P" if "m' \<in> set L" for m'
    using that L(2) unfolding m by auto
  have "m \<in> set ?ms"
    unfolding L(1) [symmetric] m by simp
  then have "feasible P m"
    by simp
  moreover have "total_cost m P \<le> total_cost m' P" if m': "feasible P m'" for m'
    using cover [OF m'] least unfolding L(1) [symmetric] by force
  ultimately show "feasible P (brute_force P) \<and> (\<forall>m. feasible P m \<longrightarrow> total_cost (brute_force P) P \<le> total_cost m P)"
    unfolding best by blast
qed

section \<open>Properties\<close>

lemma collect_ok:
  "ic_ok (snd (QuerySwitches_collect switches ic)) n = ic_ok ic n" "known (snd (QuerySwitches_collect switches ic)) = known ic"
  "ic_stop (snd (QuerySwitches_collect switches ic)) = ic_stop ic" "ic_memorySize (snd (QuerySwitches_collect switches ic)) = ic_memorySize ic"
  "ic_virtualToPhysical (snd (QuerySwitches_collect switches ic)) = ic_virtualToPhysical ic"
  "ic_leafCount (snd (QuerySwitches_collect switches ic)) = ic_leafCount ic"
  "fst (QuerySwitches_collect switches ic) = map (\<lambda>sw. sw\<lparr>sa_trafficMatrix := []\<rparr>) switches"
  by (simp_all add: QuerySwitches_collect_def ic_ok_def known_def fun_eq_iff Let_def SwitchApp_GetTrafficMatrix_def)

lemma install_all:
  assumes "\<forall>sw \<in> set switches. lru_wf (sa_cache sw)" and "\<forall>j \<in> set js. ic_virtualToPhysical ic j \<noteq> None"
  shows "\<exists>ys. mapS (QuerySwitches_install m js) (zip [0..<length switches] (map (\<lambda>sw. sw\<lparr>sa_trafficMatrix := []\<rparr>) switches)) ic =
      Inr (ys, ic) \<and> length ys = length switches \<and> (\<forall>i < length switches. lru_wf (sa_cache (ys ! i)) \<and>
        sa_frame (ys ! i) = sa_frame ((switches ! i)\<lparr>sa_trafficMatrix := []\<rparr>) \<and> lru_abs (sa_cache (ys ! i)) =
          lru_push (lru_cacheSize (sa_cache (switches ! i))) (items_for ic js m i) (lru_abs (sa_cache (switches ! i))))"
proof -
  let ?sws = "map (\<lambda>sw. sw\<lparr>sa_trafficMatrix := []\<rparr>) switches"
  let ?P = "\<lambda>(i, sw) sw'. lru_wf (sa_cache sw') \<and> sa_frame sw' = sa_frame sw \<and>
    lru_abs (sa_cache sw') = lru_push (lru_cacheSize (sa_cache sw)) (items_for ic js m i) (lru_abs (sa_cache sw))"
  have "\<exists>y. QuerySwitches_install m js x ic = Inr (y, ic) \<and> ?P x y" if x: "x \<in> set (zip [0..<length switches] ?sws)" for x
  proof (cases x)
    case (Pair i sw)
    then have "sw \<in> set ?sws"
      using x by (metis set_zip_rightD)
    then have "lru_wf (sa_cache sw)"
      using assms(1) by auto
    from QuerySwitches_install_ok [OF this assms(2), of m i] show ?thesis
      by (simp add: Pair)
  qed
  from mapS_all [where P = ?P and f = "QuerySwitches_install m js" and s = ic, OF this] obtain ys where ys: "mapS (QuerySwitches_install m js) (zip [0..<length switches] ?sws) ic = Inr (ys, ic)"
      "list_all2 ?P (zip [0..<length switches] ?sws) ys"
    by blast
  moreover have "?P (zip [0..<length switches] ?sws ! i) (ys ! i)" if "i < length switches" for i
    using list_all2_nthD [OF ys(2), of i] that by simp
  ultimately show ?thesis
    using list_all2_lengthD [OF ys(2)] by (auto simp del: mapS.simps)
qed

text \<open>What a query does, in full: the switches keep all but their counters and caches.\<close>

lemma query_optimal:
  assumes "\<not> ic_stop ic" and "ic_ok ic (length switches)" and "traffic_ok (snd (QuerySwitches_collect switches ic))"
    and "solver_contract solve" and "0 \<le> ic_memorySize ic" and "\<forall>sw \<in> set switches. lru_wf (sa_cache sw)"
    and "\<forall>k. known ic k \<longrightarrow> ic_virtualToPhysical ic k \<noteq> None"
  shows "returns (IlpControllerApp_QuerySwitches ipv4 show_ip hash64 solve switches ic) (\<lambda>(again, switches', ic').
    again \<and> ic' = snd (QuerySwitches_collect switches ic) \<and> length switches' = length switches \<and>
    (\<exists>holds. fits ic' (length switches) holds \<and>
      (\<forall>other. fits ic' (length switches) other \<longrightarrow>
         placement_cost (IlpControllerApp_GetFlowHash ipv4 show_ip hash64) ic' holds \<le>
         placement_cost (IlpControllerApp_GetFlowHash ipv4 show_ip hash64) ic' other) \<and>
      (\<forall>i < length switches. lru_wf (sa_cache (switches' ! i)) \<and> sa_frame (switches' ! i) = sa_frame ((switches ! i)\<lparr>sa_trafficMatrix := []\<rparr>) \<and>
         lru_abs (sa_cache (switches' ! i)) = lru_push (lru_cacheSize (sa_cache (switches ! i)))
           (map (\<lambda>j. (j, the (ic_virtualToPhysical ic j))) (filter (holds i) (query_containers ic'))) (lru_abs (sa_cache (switches ! i))))))"
proof -
  define c where "c = snd (QuerySwitches_collect switches ic)"
  let ?n = "length switches"
  let ?h = "IlpControllerApp_GetFlowHash ipv4 show_ip hash64"
  let ?P = "\<lparr>ip_switches = ?n, ip_containers = query_containers c, ip_bound = ic_memorySize c,
     ip_cost = map (\<lambda>(leaf, src, info). flow_term ?h c leaf src info) (counted_flows c)\<rparr>"
  have ok: "ic_ok c ?n" and len: "length (ic_leavesTrafficMatrix c) = ic_leafCount c"
    using assms(2) unfolding c_def
    by (simp add: collect_ok) (use assms(2) in \<open>simp add: QuerySwitches_collect_def Let_def ic_ok_def\<close>)
  note cost = QuerySwitches_cost_ok [OF ok assms(3) [folded c_def] len, of ?h]
  have vtp: "\<forall>j \<in> set (query_containers c). ic_virtualToPhysical c j \<noteq> None"
    using assms(7) query_containers_known [OF ok] by (simp add: c_def collect_ok)
  obtain ys where ys: "mapS (QuerySwitches_install (solve ?P) (query_containers c))
        (zip [0..<?n] (map (\<lambda>sw. sw\<lparr>sa_trafficMatrix := []\<rparr>) switches)) c = Inr (ys, c)" "length ys = ?n"
      "\<forall>i < ?n. lru_wf (sa_cache (ys ! i)) \<and> sa_frame (ys ! i) = sa_frame ((switches ! i)\<lparr>sa_trafficMatrix := []\<rparr>) \<and> lru_abs (sa_cache (ys ! i)) =
          lru_push (lru_cacheSize (sa_cache (switches ! i))) (items_for c (query_containers c) (solve ?P) i) (lru_abs (sa_cache (switches ! i)))"
    using install_all [OF assms(6) vtp] by blast
  have "QuerySwitches_collect switches ic = (map (\<lambda>sw. sw\<lparr>sa_trafficMatrix := []\<rparr>) switches, c)"
    using collect_ok(7) [of switches ic] unfolding c_def by (metis prod.collapse)
  then have "IlpControllerApp_QuerySwitches ipv4 show_ip hash64 solve switches ic = Inr (True, ys, c)"
    using assms(1) cost ys(1) len
    by (simp add: IlpControllerApp_QuerySwitches_def Let_def query_containers_def [symmetric] del: mapS.simps)
  moreover have "fits c ?n (\<lambda>i j. solve ?P (i, j)) \<and> (\<forall>other. fits c ?n other \<longrightarrow>
      placement_cost ?h c (\<lambda>i j. solve ?P (i, j)) \<le> placement_cost ?h c other)"
    by (rule solver_optimal [OF assms(4)]) (simp add: c_def collect_ok assms(5))
  ultimately show ?thesis
    using ys(2,3) unfolding c_def [symmetric] items_for_def
    by (auto simp: collect_ok(5) [of switches ic, folded c_def] intro!: exI [of _ "\<lambda>i j. solve ?P (i, j)"])
qed

text \<open>C19: The controller installs an optimal placement. With a solver that keeps its contract, a query of the
  switches does not fail, clears the counters of every switch and schedules the next query. There is a placement of
  the active containers that respects the memory of every switch and costs no more than any other placement that
  does, and into every cache go exactly the mappings of that placement, taken from the address table, as the most
  recent ones. The cost is computed from the counted flows: a flow is cheap when a switch on its path to the gateway
  knows the destination.\<close>

theorem controller_optimal:
  assumes "\<not> ic_stop ic" and "ic_ok ic (length switches)" and "traffic_ok (snd (QuerySwitches_collect switches ic))"
    and "solver_contract solve" and "0 \<le> ic_memorySize ic" and "\<forall>sw \<in> set switches. lru_wf (sa_cache sw)"
    and "\<forall>k. known ic k \<longrightarrow> ic_virtualToPhysical ic k \<noteq> None"
  shows "returns (IlpControllerApp_QuerySwitches ipv4 show_ip hash64 solve switches ic) (\<lambda>(again, switches', ic').
    again \<and> ic' = snd (QuerySwitches_collect switches ic) \<and> length switches' = length switches \<and>
    (\<exists>holds. fits ic' (length switches) holds \<and>
      (\<forall>other. fits ic' (length switches) other \<longrightarrow>
         placement_cost (IlpControllerApp_GetFlowHash ipv4 show_ip hash64) ic' holds \<le>
         placement_cost (IlpControllerApp_GetFlowHash ipv4 show_ip hash64) ic' other) \<and>
      (\<forall>i < length switches. lru_wf (sa_cache (switches' ! i)) \<and> sa_trafficMatrix (switches' ! i) = [] \<and>
         lru_abs (sa_cache (switches' ! i)) = lru_push (lru_cacheSize (sa_cache (switches ! i)))
           (map (\<lambda>j. (j, the (ic_virtualToPhysical ic j))) (filter (holds i) (query_containers ic'))) (lru_abs (sa_cache (switches ! i))))))"
  by (rule returns_mono [OF query_optimal [OF assms, of ipv4 show_ip hash64]]) (auto simp: sa_frame_def)

text \<open>A pod with one leaf and one spine, three containers and a gateway on the leaf; five packets of container 0
  to container 1 have gone to the gateway.\<close>

definition ic1 :: IlpControllerApp where
  "ic1 = (IlpControllerApp_new ilp_attributes)\<lparr>ic_leafCount := 1, ic_spineCount := 1, ic_podWidth := 1,
     ic_virtualToPhysical := [0 \<mapsto> 11, 1 \<mapsto> 12, 2 \<mapsto> 13], ic_location := [(0, (0, 0)), (1, (0, 1)), (2, (0, 2))],
     ic_gws := [(0, 2)], ic_gwAddresses := [13]\<rparr>"

definition switches1 :: "SwitchApp list" where
  "switches1 = [sa0\<lparr>sa_trafficMatrix := [(0, [(7, \<lparr>fi_dstIp = 1, fi_gwIp = 13, fi_packetCount = 5\<rparr>)])]\<rparr>, sa0]"

lemma switches1: "length switches1 = 2" "\<forall>sw \<in> set switches1. lru_wf (sa_cache sw)"
  "lru_cacheSize (sa_cache (switches1 ! 0)) = 4" "lru_abs (sa_cache (switches1 ! 0)) = []"
  using sa0_wf by (simp_all add: switches1_def sa_wf_def lru_abs_def)

lemma ic1_collected: "snd (QuerySwitches_collect switches1 ic1) =
    ic1\<lparr>ic_leavesTrafficMatrix := [[(0, [(7, \<lparr>fi_dstIp = 1, fi_gwIp = 13, fi_packetCount = 5\<rparr>)])]],
        ic_spinesTrafficMatrix := [[]], ic_coresTrafficMatrix := []\<rparr>"
  by (simp add: QuerySwitches_collect_def SwitchApp_GetTrafficMatrix_def switches1_def ic1_def IlpControllerApp_new_def
      sa0_def SwitchApp_Setup_def)

lemma ic1_ok: "ic_ok ic1 2" "traffic_ok (snd (QuerySwitches_collect switches1 ic1))" "\<not> ic_stop ic1" "ic_memorySize ic1 = 10"
  "\<forall>k. known ic1 k \<longrightarrow> ic_virtualToPhysical ic1 k \<noteq> None" "query_containers (snd (QuerySwitches_collect switches1 ic1)) = [1]"
  unfolding ic1_collected
  by (auto simp: ic_ok_def ic1_def IlpControllerApp_new_def ilp_attributes_def traffic_ok_def known_def lessThan_Suc numeral_3_eq_3
      query_containers_def active_containers_def activeDestinations_def)

lemma ic1_cost: "placement_cost flowHash (snd (QuerySwitches_collect switches1 ic1)) holds = (if holds 0 1 then 10 else 200)"
  unfolding ic1_collected
  by (simp add: placement_cost_def counted_flows_def ic1_def IlpControllerApp_new_def ilp_attributes_def place_of_def flow_route_def gw_leaf_def
      hit_cost_def Let_def)

theorem controller_optimal_witness:
  "\<exists>switches' ic'. IlpControllerApp_QuerySwitches parse_quad (\<lambda>_. []) (\<lambda>_. 0) brute_force switches1 ic1 = Inr (True, switches', ic') \<and>
     lru_lookup (sa_cache (switches' ! 0)) = [1 \<mapsto> 12]"
proof -
  obtain switches' ic' holds where q: "IlpControllerApp_QuerySwitches parse_quad (\<lambda>_. []) (\<lambda>_. 0) brute_force switches1 ic1 =
        Inr (True, switches', ic')" "ic' = snd (QuerySwitches_collect switches1 ic1)"
      "\<forall>other. fits ic' 2 other \<longrightarrow>
         placement_cost (IlpControllerApp_GetFlowHash parse_quad (\<lambda>_. []) (\<lambda>_. 0)) ic' holds \<le>
         placement_cost (IlpControllerApp_GetFlowHash parse_quad (\<lambda>_. []) (\<lambda>_. 0)) ic' other"
      "lru_wf (sa_cache (switches' ! 0))" "lru_abs (sa_cache (switches' ! 0)) = lru_push (lru_cacheSize (sa_cache (switches1 ! 0)))
         (map (\<lambda>j. (j, the (ic_virtualToPhysical ic1 j))) (filter (holds 0) (query_containers ic'))) (lru_abs (sa_cache (switches1 ! 0)))"
    using controller_optimal [of ic1 switches1 brute_force parse_quad "\<lambda>_. []" "\<lambda>_. 0"] switches1(1,2) ic1_ok(1-5) brute_force_contract
    unfolding returns_def by auto
  have "fits ic' 2 (\<lambda>_ _. True)"
    unfolding q(2) by (simp add: fits_def ic1_ok collect_ok)
  with q(3) have "holds 0 1"
    unfolding q(2) ic1_cost by (auto split: if_splits)
  then have "lru_abs (sa_cache (switches' ! 0)) = [(1, 12)]"
    using q(5) unfolding q(2) ic1_ok(6) switches1(3,4) by (simp add: lru_push_def touch_def ic1_def)
  with q(1) lru_map_of_abs [OF q(4)] show ?thesis by auto
qed

section \<open>The controller of a simulation\<close>

text \<open>The helper creates the application and calls \<open>Setup\<close>; \<open>SetupApplications\<close> hands it the state of the
  simulation.\<close>

definition IlpControllerAppHelper_InstallPriv ::
  "IlpControllerAttributes \<Rightarrow> ContainerGroups \<Rightarrow> nat \<Rightarrow> nat \<Rightarrow> nat \<Rightarrow> nat \<Rightarrow> (u32 \<rightharpoonup> u32) \<Rightarrow> (string \<times> u32) list \<Rightarrow>
   (u32 \<times> u32) list \<Rightarrow> u32 list \<Rightarrow> IlpControllerApp" where
  "IlpControllerAppHelper_InstallPriv attrs containerGroups leafCount spineCount coreCount podWidth virtualToPhysical containerToId gws gwAddresses =
     IlpControllerApp_Setup containerGroups leafCount spineCount coreCount podWidth virtualToPhysical containerToId gws gwAddresses
       (IlpControllerApp_new attrs)"

definition controller_for :: "IlpControllerAttributes \<Rightarrow> SimulationBase \<Rightarrow> IlpControllerApp" where
  "controller_for attrs sb = IlpControllerAppHelper_InstallPriv attrs (sb_containerGroups sb) (sb_leafCount sb) (sb_spineCount sb)
     (sb_coreCount sb) (sb_podWidth sb) (sb_virtualToPhysical sb) (sb_containerToId sb) (sb_gws sb) (sb_gwAddresses sb)"

lemma Setup_location_fold:
  assumes "\<forall>s \<in> set xs. map_of (ic_containerToId ic) (snd s) = Some (key s)" and "distinct (map key xs)"
    and "key ` set xs \<inter> fst ` set (ic_location ic) = {}"
  shows "fold Setup_location xs ic = ic\<lparr>ic_location := ic_location ic @ map (\<lambda>s. (key s, fst s)) xs\<rparr>"
  using assms
proof (induction xs arbitrary: ic)
  case (Cons s xs)
  have fresh: "AList.update (key s) (fst s) (ic_location ic) = ic_location ic @ [(key s, fst s)]"
    using Cons.prems(3) by (intro update_fresh) auto
  have "Setup_location s ic = ic\<lparr>ic_location := ic_location ic @ [(key s, fst s)]\<rparr>"
    using Cons.prems(1) fresh by (cases s) (simp add: Setup_location_def Let_def)
  then show ?case
    using Cons.IH [of "ic\<lparr>ic_location := ic_location ic @ [(key s, fst s)]\<rparr>"] Cons.prems by auto
qed simp

lemma controller_for_fields:
  assumes "ids_known sb" and "names_ok (sb_containerGroups sb)"
  shows "controller_for attrs sb = (IlpControllerApp_new attrs)\<lparr>ic_containerGroups := sb_containerGroups sb, ic_leafCount := sb_leafCount sb,
    ic_spineCount := sb_spineCount sb, ic_coreCount := sb_coreCount sb, ic_podWidth := sb_podWidth sb,
    ic_virtualToPhysical := sb_virtualToPhysical sb, ic_containerToId := sb_containerToId sb, ic_gws := sb_gws sb,
    ic_gwAddresses := sb_gwAddresses sb,
    ic_location := map (\<lambda>s. (id_at (sb_containerGroups sb) (snd s), fst s)) (slots (sb_containerGroups sb))\<rparr>"
proof -
  let ?S = "slots (sb_containerGroups sb)"
  have "map_of (sb_containerToId sb) (snd s) = Some (id_at (sb_containerGroups sb) (snd s))" if s: "s \<in> set ?S" for s
  proof -
    obtain k where "k < length ?S" "s = ?S ! k"
      using s by (metis in_set_conv_nth)
    then show ?thesis
      using id_at_nth [OF assms(2), of k] assms(1) by (simp add: ids_known_def)
  qed
  then show ?thesis
    unfolding controller_for_def IlpControllerAppHelper_InstallPriv_def IlpControllerApp_Setup_def
    by (subst Setup_location_fold [where key = "\<lambda>s. id_at (sb_containerGroups sb) (snd s)"])
       (use id_inj [OF assms(2)] in \<open>simp_all add: IlpControllerApp_new_def\<close>)
qed

lemma controller_for_ok:
  assumes "prepared ipv4 masks sb net" and "ids_known sb" and "names_ok (sb_containerGroups sb)" and "dims_ok sb"
    and "sb_gws sb = map (\<lambda>(i, j). (word_of_nat i, word_of_nat j)) (gateway_slots (sb_containerGroups sb))"
    and "length (sb_containerGroups sb) < 2 ^ 32"
  shows "ic_ok (controller_for attrs net) (sb_leafCount sb + sb_spineCount sb + sb_coreCount sb)"
    and "k < length (slots (sb_containerGroups sb)) \<Longrightarrow> known (controller_for attrs net) (word_of_nat k) \<and>
      place_of (controller_for attrs net) (word_of_nat k) = fst (slots (sb_containerGroups sb) ! k)"
    and "known (controller_for attrs net) j \<Longrightarrow> ic_virtualToPhysical (controller_for attrs net) j \<noteq> None"
proof -
  let ?S = "slots (sb_containerGroups sb)" and ?ic = "controller_for attrs net"
  note plan = prepared_plan [OF assms(1)]
  have "ids_known net"
    using assms(2) plan by (simp add: ids_known_def)
  from controller_for_fields [OF this] have ic: "?ic = (IlpControllerApp_new attrs)\<lparr>ic_containerGroups := sb_containerGroups sb,
      ic_leafCount := sb_leafCount sb, ic_spineCount := sb_spineCount sb, ic_coreCount := sb_coreCount sb, ic_podWidth := sb_podWidth sb,
      ic_virtualToPhysical := sb_virtualToPhysical net, ic_containerToId := sb_containerToId sb, ic_gws := sb_gws sb,
      ic_gwAddresses := sb_gwAddresses net, ic_location := map (\<lambda>s. (id_at (sb_containerGroups sb) (snd s), fst s)) ?S\<rparr>"
    using assms(3) by (simp add: plan)
  have keys: "map fst (ic_location ?ic) = map word_of_nat [0..<length ?S]"
    using id_list [OF assms(3)] by (simp add: ic comp_def)
  then have dom: "fst ` set (ic_location ?ic) = word_of_nat ` {..<length ?S}"
    by (metis atLeast_upt list.set_map)
  have table: "dom (sb_virtualToPhysical net) = word_of_nat ` {..<length ?S}"
    "sb_gwAddresses net = map (\<lambda>(i, j). host_address ipv4 sb i j) (gateway_slots (sb_containerGroups sb))"
    using assms(1) by (simp_all add: prepared_def tunnel_ready_def)
  show "known ?ic j \<Longrightarrow> ic_virtualToPhysical ?ic j \<noteq> None"
    using table(1) dom by (auto simp: known_def ic)
  show "known ?ic (word_of_nat k) \<and> place_of ?ic (word_of_nat k) = fst (?S ! k)" if k: "k < length ?S"
  proof
    show "known ?ic (word_of_nat k)"
      unfolding known_def dom using k by blast
    have "(word_of_nat k, fst (?S ! k)) \<in> set (ic_location ?ic)"
      using k id_at_nth(1) [OF assms(3) k] by (force simp: ic)
    moreover have "distinct (map fst (ic_location ?ic))"
      using id_inj [OF assms(3)] by (simp add: ic comp_def)
    ultimately show "place_of ?ic (word_of_nat k) = fst (?S ! k)"
      by (simp add: place_of_def)
  qed
  have gw: "i < sb_leafCount sb \<and> i < 2 ^ 32" if "(i, j) \<in> set (gateway_slots (sb_containerGroups sb))" for i j
    using that gateway_slots_subset [of "sb_containerGroups sb"] slots_in_pairs [of sb i j] dims_okD(4) [OF assms(4)] assms(6)
    by (force simp: host_pairs_iff)
  have "\<forall>g \<in> set (sb_gws sb). unat (fst g) < sb_leafCount sb"
    unfolding assms(5) using gw by auto
  moreover have "length ?S = length (ic_location ?ic)" "length (sb_gws sb) = length (sb_gwAddresses net)"
    using assms(5) table(2) by (simp_all add: ic)
  moreover have "sb_podWidth sb < sb_leafCount sb \<Longrightarrow> 0 < sb_coreCount sb"
    using dims_okD(1,5,10) [OF assms(4)] by (cases "sb_podCount sb \<le> 1") (auto simp: le_Suc_eq)
  ultimately show "ic_ok ?ic (sb_leafCount sb + sb_spineCount sb + sb_coreCount sb)"
    using dims_okD(1,3,5,6) [OF assms(4)] dom by (simp add: ic_ok_def ic)
qed

text \<open>Two nodes are neighbours when the network has a link between them.\<close>

definition neighbours :: "SimulationBase \<Rightarrow> sim_node \<Rightarrow> sim_node \<Rightarrow> bool" where
  "neighbours net x y \<longleftrightarrow> (x, y) \<in> fst ` set (sb_assigned net) \<or> (y, x) \<in> fst ` set (sb_assigned net)"

lemma spine_neighbours:
  assumes "dims_ok sb" and "sb_assigned net = network_links ipv4 sb" and "i < sb_spineCount sb"
  shows "l < sb_leafCount sb \<Longrightarrow> l div sb_podWidth sb = i div sb_podWidth sb \<Longrightarrow>
      neighbours net (SpineN i) (LeafN l) \<and> neighbours net (LeafN l) (SpineN i)"
    and "j < sb_coreCount sb div sb_podWidth sb \<Longrightarrow>
      neighbours net (SpineN i) (CoreN (core_idx sb i j)) \<and> neighbours net (CoreN (core_idx sb i j)) (SpineN i)"
proof -
  let ?w = "sb_podWidth sb"
  have leaf: "(SpineN i, LeafN (i div ?w * ?w + j)) \<in> fst ` set (network_links ipv4 sb)" if "j < ?w" for j
    unfolding network_links_def using that assms(3) by (force simp: image_Un image_UN leaf_link_def)
  have core: "(CoreN (core_idx sb i j), SpineN i) \<in> fst ` set (network_links ipv4 sb)" if "j < sb_coreCount sb div ?w" for j
    unfolding network_links_def using that assms(3) by (force simp: image_Un image_UN core_link_def spine_cores_def)
  show "neighbours net (SpineN i) (LeafN l) \<and> neighbours net (LeafN l) (SpineN i)" if "l div ?w = i div ?w"
    using leaf [of "l mod ?w"] that dims_okD(1) [OF assms(1)] unfolding neighbours_def assms(2)
    by (metis div_mult_mod_eq mod_less_divisor)
  show "neighbours net (SpineN i) (CoreN (core_idx sb i j)) \<and> neighbours net (CoreN (core_idx sb i j)) (SpineN i)"
    if "j < sb_coreCount sb div ?w"
    using core [OF that] unfolding neighbours_def assms(2) by blast
qed

lemma route_neighbours:
  fixes h :: nat
  assumes "dims_ok sb" and "sb_assigned net = network_links ipv4 sb" and "ic_podWidth ic = sb_podWidth sb"
    and "ic_coreCount ic = sb_coreCount sb" and "l < sb_leafCount sb" and "g < sb_leafCount sb"
  shows "successively (neighbours net) (flow_route ic h l g)"
proof -
  let ?w = "sb_podWidth sb" and ?q = "sb_coreCount sb div sb_podWidth sb"
  note dims = dims_okD(1,3,5,6,10) [OF assms(1)]
  have spine: "x div ?w * ?w + h mod ?w < sb_spineCount sb" "(x div ?w * ?w + h mod ?w) div ?w = x div ?w"
      "(x div ?w * ?w + h mod ?w) mod ?w = h mod ?w" if "x < sb_leafCount sb" for x
    using pod_offset [of x "sb_podCount sb" ?w "h mod ?w"] that dims(1-3) by simp_all
  have core: "h mod ?q < ?q" if "l div ?w \<noteq> g div ?w"
  proof -
    have "1 < sb_podCount sb"
    proof (rule ccontr)
      assume "\<not> 1 < sb_podCount sb"
      then have "sb_leafCount sb \<le> ?w"
        using dims(3) by (cases "sb_podCount sb") auto
      with that assms(5,6) show False by simp
    qed
    with dims have "?q \<noteq> 0"
      by (auto simp: div_eq_0_iff)
    then show ?thesis by simp
  qed
  have up: "neighbours net (SpineN (x div ?w * ?w + h mod ?w)) (LeafN y) \<and> neighbours net (LeafN y) (SpineN (x div ?w * ?w + h mod ?w))"
    if "x < sb_leafCount sb" "y < sb_leafCount sb" "y div ?w = x div ?w" for x y
    using spine_neighbours(1) [OF assms(1,2) spine(1) [OF that(1)] that(2)] spine(2) [OF that(1)] that(3) by simp
  have over: "neighbours net (SpineN (x div ?w * ?w + h mod ?w)) (CoreN (h mod ?w * ?q + h mod ?q)) \<and>
      neighbours net (CoreN (h mod ?w * ?q + h mod ?q)) (SpineN (x div ?w * ?w + h mod ?w))"
    if "x < sb_leafCount sb" "l div ?w \<noteq> g div ?w" for x
    using spine_neighbours(2) [OF assms(1,2) spine(1) [OF that(1)] core [OF that(2)]] spine(3) [OF that(1)]
    by (simp add: core_idx_def)
  show ?thesis
    using up [OF assms(5,5)] up [OF assms(6,6)] up [OF assms(5,6)] over [OF assms(5)] over [OF assms(6)]
    by (auto simp: flow_route_def Let_def assms(3,4))
qed

text \<open>The switches a cost term charges, looked up in the container of switch applications.\<close>

definition charged :: "sim_node list \<Rightarrow> ilp_term \<Rightarrow> sim_node list" where
  "charged switches t = map (\<lambda>v. switches ! fst v) (it_vars t)"

lemma switch_nodes_index:
  assumes "known_switch ic x" and "ic_leafCount ic = sb_leafCount net" and "ic_spineCount ic = sb_spineCount net"
    and "ic_coreCount ic = sb_coreCount net"
  shows "switch_nodes net ! switch_index ic x = x \<and> switch_index ic x < length (switch_nodes net)"
  using assms by (cases x) (auto simp: switch_nodes_def nth_append)

lemma charged_route:
  assumes "ic_ok ic n" and "leaf < ic_leafCount ic" and "gw_leaf ic info < ic_leafCount ic"
    and "ic_leafCount ic = sb_leafCount net" and "ic_spineCount ic = sb_spineCount net" and "ic_coreCount ic = sb_coreCount net"
  shows "charged (switch_nodes net) (flow_term flowHash ic leaf src info) =
      flow_route ic (flow_hash flowHash ic leaf src info) leaf (gw_leaf ic info)"
    and "\<forall>v \<in> set (it_vars (flow_term flowHash ic leaf src info)). fst v < length (switch_nodes net) \<and> snd v = fi_dstIp info"
  using route_switches [OF assms(1-3)] switch_nodes_index [OF _ assms(4-6)]
  by (auto simp: charged_def flow_term_def intro!: map_idI)

text \<open>The gateway of a flow: the controller finds the leaf of a gateway that has the address.\<close>

lemma gw_leaf_ok:
  assumes "prepared ipv4 masks sb net" and "ids_known sb" and "names_ok (sb_containerGroups sb)" and "dims_ok sb"
    and "sb_gws sb = map (\<lambda>(i, j). (word_of_nat i, word_of_nat j)) (gateway_slots (sb_containerGroups sb))"
    and "length (sb_containerGroups sb) < 2 ^ 32" and "fi_gwIp info \<in> set (sb_gwAddresses net)"
  shows "\<exists>q. (gw_leaf (controller_for attrs net) info, q) \<in> set (gateway_slots (sb_containerGroups sb)) \<and>
    fi_gwIp info = host_address ipv4 sb (gw_leaf (controller_for attrs net) info) q"
proof -
  let ?G = "gateway_slots (sb_containerGroups sb)"
  let ?k = "index_of (fi_gwIp info) (sb_gwAddresses net)"
  note plan = prepared_plan [OF assms(1)]
  have ic: "ic_gws (controller_for attrs net) = sb_gws sb" "ic_gwAddresses (controller_for attrs net) = sb_gwAddresses net"
    using assms(2,3) by (simp_all add: controller_for_fields ids_known_def plan)
  have table: "sb_gwAddresses net = map (\<lambda>(i, j). host_address ipv4 sb i j) ?G"
    using assms(1) by (simp add: prepared_def tunnel_ready_def)
  have k: "?k < length ?G" "sb_gwAddresses net ! ?k = fi_gwIp info"
    using index_of_found [OF assms(7)] by (simp_all add: table)
  obtain p q where pq: "?G ! ?k = (p, q)"
    by (cases "?G ! ?k")
  then have mem: "(p, q) \<in> set ?G"
    using k(1) by (metis nth_mem)
  then have "p < 2 ^ 32"
    using gateway_slots_subset [of "sb_containerGroups sb"] slots_in_pairs [of sb p q] dims_okD(4) [OF assms(4)] assms(6)
    by (force simp: host_pairs_iff)
  then have "gw_leaf (controller_for attrs net) info = p"
    using k(1) pq by (simp add: gw_leaf_def ic assms(5) unat_of_nat take_bit_nat_eq_self)
  moreover have "fi_gwIp info = host_address ipv4 sb p q"
    using k pq by (simp add: table)
  ultimately show ?thesis
    using mem by blast
qed

text \<open>C21: The controller of a simulation plans with the network that was built. After the set-up, the controller
  knows exactly the numbered containers, each at the leaf and host of the placement. For every counted flow of a
  known source to a known destination that goes to the address of a gateway, the code computes a cost term and does
  not fail; the switches of its variables, looked up in the order in which the switch applications are installed, are
  the ones the hash of the flow selects and form a path of the network: it starts at the leaf that counted the flow,
  ends at the leaf of a gateway with that address, and neighbours on it are joined by a link. Every variable is for
  the destination, and the term weighs as much as the packets counted.\<close>

theorem controller_path:
  assumes "SimulationBase_new params groups migParams uninit = Inr sb" and "octets_ok params groups"
    and "names_ok groups" and "gateway_slots groups \<noteq> []"
  shows "returns (SimulationBase_prepare ipv4 masks sb) (\<lambda>net. let ic = controller_for attrs net; switches = switch_nodes net in
    (\<forall>j. known ic j \<longleftrightarrow> (\<exists>k < length (slots groups). j = word_of_nat k)) \<and>
    (\<forall>k < length (slots groups). place_of ic (word_of_nat k) = fst (slots groups ! k)) \<and>
    (\<forall>flowHash js leaf src info. leaf < length groups \<and> known ic src \<and> known ic (fi_dstIp info) \<and>
       fi_gwIp info \<in> set (sb_gwAddresses net) \<and> fi_dstIp info \<in> set js \<longrightarrow>
       (\<exists>t p q. QuerySwitches_term flowHash (length switches) js leaf src info ic = Inr (t, ic) \<and>
          (p, q) \<in> set (gateway_slots groups) \<and> fi_gwIp info = host_address ipv4 sb p q \<and>
          charged switches t = flow_route ic (flow_hash flowHash ic leaf src info) leaf p \<and>
          hd (charged switches t) = LeafN leaf \<and> last (charged switches t) = LeafN p \<and>
          successively (neighbours net) (charged switches t) \<and>
          (\<forall>v \<in> set (it_vars t). fst v < length switches \<and> snd v = fi_dstIp info) \<and>
          it_weight t = int (unat (fi_packetCount info)) \<and> it_miss t = cat_GatewayCost attrs)))"
proof (rule returns_mono [OF prepare_ok [OF assms]])
  fix net
  assume net: "prepared ipv4 masks sb net"
  note new = SimulationBase_new_ids [OF assms(1,3)] and dims = SimulationBase_new_dims [OF assms(1,2), THEN conjunct1]
  note plan = prepared_plan [OF net]
  let ?ic = "controller_for attrs net"
  have ids: "ids_known sb"
    using new(1,3) by (simp add: ids_known_def)
  have count: "sb_leafCount sb = length groups" "sb_spineCount sb = length groups" "length groups < 2 ^ 32"
    using dims_okD(2-5,8) [OF dims] new(3) mult_le_mono [of "sb_podCount sb" 256 "sb_podWidth sb" 256] by simp_all
  note built = net ids assms(3) [folded new(3)] dims new(2) [folded new(3)] count(3) [folded new(3)]
  note ic = controller_for_ok [OF built, unfolded new(3)]
  have "ids_known net" "names_ok (sb_containerGroups net)"
    using ids plan(2,11) assms(3) new(3) by (simp_all add: ids_known_def)
  note fields = controller_for_fields [OF this]
  have dim: "ic_podWidth ?ic = sb_podWidth sb" "ic_coreCount ?ic = sb_coreCount sb" "ic_leafCount ?ic = sb_leafCount net"
      "ic_spineCount ?ic = sb_spineCount net" "ic_coreCount ?ic = sb_coreCount net" "ic_leafCount ?ic = length groups"
      "ic_gwAddresses ?ic = sb_gwAddresses net"
    by (simp_all add: fields plan count)
  have ends: "hd (flow_route c h l g) = LeafN l" "last (flow_route c h l g) = LeafN g" for c h l g
    by (simp_all add: flow_route_def Let_def)
  have len: "length (switch_nodes net) = sb_leafCount sb + sb_spineCount sb + sb_coreCount sb"
    by (simp add: switch_nodes_def plan)
  have knows: "known ?ic j \<longleftrightarrow> (\<exists>k < length (slots groups). j = word_of_nat k)" for j
    using ic(1) by (auto simp: known_def ic_ok_def fields plan new(3))
  have charge: "\<exists>t p q. QuerySwitches_term flowHash (length (switch_nodes net)) js leaf src info ?ic = Inr (t, ?ic) \<and>
          (p, q) \<in> set (gateway_slots groups) \<and> fi_gwIp info = host_address ipv4 sb p q \<and>
          charged (switch_nodes net) t = flow_route ?ic (flow_hash flowHash ?ic leaf src info) leaf p \<and>
          hd (charged (switch_nodes net) t) = LeafN leaf \<and> last (charged (switch_nodes net) t) = LeafN p \<and>
          successively (neighbours net) (charged (switch_nodes net) t) \<and>
          (\<forall>v \<in> set (it_vars t). fst v < length (switch_nodes net) \<and> snd v = fi_dstIp info) \<and>
          it_weight t = int (unat (fi_packetCount info)) \<and> it_miss t = cat_GatewayCost attrs"
    if "leaf < length groups" "known ?ic src" "known ?ic (fi_dstIp info)" "fi_gwIp info \<in> set (sb_gwAddresses net)"
      "fi_dstIp info \<in> set js" for flowHash :: "nat \<Rightarrow> nat \<Rightarrow> nat \<Rightarrow> u32 \<Rightarrow> u64" and js leaf src info
  proof -
    note gateway = gw_leaf_ok [OF built that(4), unfolded new(3)]
    obtain q where q: "(gw_leaf ?ic info, q) \<in> set (gateway_slots groups)" "fi_gwIp info = host_address ipv4 sb (gw_leaf ?ic info) q"
      using gateway by blast
    have g: "gw_leaf ?ic info < length groups"
      using q(1) gateway_slots_subset [of groups] slots_in_pairs [of sb "gw_leaf ?ic info" q] new(3) count(1)
      by (force simp: host_pairs_iff)
    have "QuerySwitches_term flowHash (length (switch_nodes net)) js leaf src info ?ic =
        Inr (flow_term flowHash ?ic leaf src info, ?ic)"
      unfolding len by (rule QuerySwitches_term_ok [OF ic(1)]) (use that dim in simp_all)
    moreover note charged_route [OF ic(1) _ _ dim(3-5), unfolded dim(6), OF that(1) g, of flowHash src]
    moreover have "it_weight (flow_term flowHash ?ic leaf src info) = int (unat (fi_packetCount info)) \<and>
        it_miss (flow_term flowHash ?ic leaf src info) = cat_GatewayCost attrs"
      by (simp add: flow_term_def fields IlpControllerApp_new_def)
    ultimately show ?thesis
      using q g ends route_neighbours [OF dims plan(12) dim(1,2)] that(1) count(1) by fastforce
  qed
  show "let ic = controller_for attrs net; switches = switch_nodes net in
    (\<forall>j. known ic j \<longleftrightarrow> (\<exists>k < length (slots groups). j = word_of_nat k)) \<and>
    (\<forall>k < length (slots groups). place_of ic (word_of_nat k) = fst (slots groups ! k)) \<and>
    (\<forall>flowHash js leaf src info. leaf < length groups \<and> known ic src \<and> known ic (fi_dstIp info) \<and>
       fi_gwIp info \<in> set (sb_gwAddresses net) \<and> fi_dstIp info \<in> set js \<longrightarrow>
       (\<exists>t p q. QuerySwitches_term flowHash (length switches) js leaf src info ic = Inr (t, ic) \<and>
          (p, q) \<in> set (gateway_slots groups) \<and> fi_gwIp info = host_address ipv4 sb p q \<and>
          charged switches t = flow_route ic (flow_hash flowHash ic leaf src info) leaf p \<and>
          hd (charged switches t) = LeafN leaf \<and> last (charged switches t) = LeafN p \<and>
          successively (neighbours net) (charged switches t) \<and>
          (\<forall>v \<in> set (it_vars t). fst v < length switches \<and> snd v = fi_dstIp info) \<and>
          it_weight t = int (unat (fi_packetCount info)) \<and> it_miss t = cat_GatewayCost attrs))"
    unfolding Let_def using knows ic(2) charge by blast
qed

text \<open>The hash 5 sends the flow of container 0 to the gateway on leaf 2 over the spines 1 and 3.\<close>

theorem controller_path_witness:
  "\<exists>sb net t. SimulationBase_new params1 groups1 mig0 0 = Inr sb \<and> SimulationBase_prepare parse_quad parse_quad sb = Inr net \<and>
     QuerySwitches_term (\<lambda>_ _ _ _. 5) (length (switch_nodes net)) [3] 0 0
       \<lparr>fi_dstIp = 3, fi_gwIp = host_address parse_quad sb 2 0, fi_packetCount = 4\<rparr> (controller_for ilp_attributes net) = Inr (t, controller_for ilp_attributes net) \<and>
     hd (charged (switch_nodes net) t) = LeafN 0 \<and> last (charged (switch_nodes net) t) = LeafN 2 \<and>
     successively (neighbours net) (charged (switch_nodes net) t) \<and> it_weight t = 4 \<and>
     place_of (controller_for ilp_attributes net) 3 = (3, 0)"
proof -
  obtain sb where sb: "SimulationBase_new params1 groups1 mig0 0 = Inr sb"
    using sb1_ok by blast
  have gw: "gateway_slots groups1 \<noteq> []" "length groups1 = 4" "slots groups1 ! 3 = ((3, 0), ''C'')"
    by (simp_all add: names1) (simp_all add: groups1_def slots_def upt_rec)
  obtain net where net: "SimulationBase_prepare parse_quad parse_quad sb = Inr net" "prepared parse_quad parse_quad sb net"
    using prepare_ok [OF sb octets1 names1(1) gw(1)] unfolding returns_def by blast
  have "sb_gwAddresses net = [host_address parse_quad sb 2 0]"
    using net(2) SimulationBase_new_ids(3) [OF sb names1(1)] by (simp add: prepared_def tunnel_ready_def names1)
  let ?ic = "controller_for ilp_attributes net"
  note path = controller_path [OF sb octets1 names1(1) gw(1), of parse_quad parse_quad ilp_attributes, unfolded net(1) returns_Inr Let_def]
  have known: "known ?ic 0" "known ?ic 3" "place_of ?ic 3 = (3, 0)"
    using path [THEN conjunct1, rule_format, of 0] path [THEN conjunct1, rule_format, of 3]
      path [THEN conjunct2, THEN conjunct1, rule_format, of 3] gw(3) names1(3)
    by (auto intro: exI [of _ "0 :: nat"] exI [of _ "3 :: nat"])
  have "\<exists>t p q. QuerySwitches_term (\<lambda>_ _ _ _. 5) (length (switch_nodes net)) [3] 0 0
       \<lparr>fi_dstIp = 3, fi_gwIp = host_address parse_quad sb 2 0, fi_packetCount = 4\<rparr> ?ic = Inr (t, ?ic) \<and>
     (p, q) \<in> set (gateway_slots groups1) \<and> hd (charged (switch_nodes net) t) = LeafN 0 \<and>
     last (charged (switch_nodes net) t) = LeafN p \<and> successively (neighbours net) (charged (switch_nodes net) t) \<and> it_weight t = 4"
    using path [THEN conjunct2, THEN conjunct2, rule_format, of 0 0
        "\<lparr>fi_dstIp = 3, fi_gwIp = host_address parse_quad sb 2 0, fi_packetCount = 4\<rparr>" "[3]" "\<lambda>_ _ _ _. 5"] known gw
      \<open>sb_gwAddresses net = _\<close> by fastforce
  then show ?thesis
    using sb net(1) known(3) by (auto simp: names1)
qed

end
