(* ===== verification/Controller_Net.thy ===== *)
theory Controller_Net
  imports Deployment Ilp_Controller
begin

text \<open>
  The mode Controller as a running system: the switches of \<^verbatim>\<open>switch-app.cc\<close> translate and count packets, the
  controller of \<^verbatim>\<open>ilp-controller-app.cc\<close> queries them again and again until it is stopped, and the migration changes
  the address table, which the controller shares with the simulation. Steps happen at the times the simulator gives
  them: the clock never passes a scheduled query.
\<close>

section \<open>State and steps\<close>

text \<open>\<open>ce_interval\<close> is the attribute \<open>Interval\<close>; \<open>ce_container\<close> is the container that may migrate, \<open>ce_target\<close>
  the address of its new host. Times are in nanoseconds.\<close>

record ctl_env =
  ce_ipv4 :: ipv4_parser
  ce_show_ip :: "u32 \<Rightarrow> string"
  ce_hash64 :: "string \<Rightarrow> u64"
  ce_solve :: "ilp_problem \<Rightarrow> ilp_var \<Rightarrow> bool"
  ce_interval :: int
  ce_start :: int
  ce_table :: "u32 \<rightharpoonup> u32"
  ce_migrates :: bool
  ce_container :: u32
  ce_target :: u32

text \<open>\<open>cs_first\<close> is the query that \<open>StartApplication\<close> schedules, which \<open>StopApplication\<close> cannot cancel; \<open>cs_send\<close> is
  \<open>m_sendEvent\<close>. \<open>cs_runs\<close> records the times at which the controller has queried the switches.\<close>

record Ctl =
  cs_now :: int
  cs_ic :: IlpControllerApp
  cs_switches :: "SwitchApp list"
  cs_first :: "int option"
  cs_send :: "int option"
  cs_runs :: "int list"

definition IlpControllerApp_StartApplication :: "Ctl \<Rightarrow> Ctl" where
  "IlpControllerApp_StartApplication s = s\<lparr>cs_first := Some (cs_now s + 0)\<rparr>"

text \<open>\<open>QuerySwitches\<close> with the event it schedules.\<close>

definition controller_query :: "ctl_env \<Rightarrow> Ctl \<Rightarrow> Ctl res" where
  "controller_query E s =
     bindE (IlpControllerApp_QuerySwitches (ce_ipv4 E) (ce_show_ip E) (ce_hash64 E) (ce_solve E) (cs_switches s) (cs_ic s))
       (\<lambda>(again, switches, ic). let s = s\<lparr>cs_switches := switches, cs_ic := ic\<rparr> in
          Inr (if again then s\<lparr>cs_send := Some (cs_now s + ce_interval E), cs_runs := cs_runs s @ [cs_now s]\<rparr> else s))"

definition controller_stop :: "Ctl \<Rightarrow> Ctl" where
  "controller_stop s = s\<lparr>cs_ic := IlpControllerApp_StopApplication (cs_ic s), cs_send := None\<rparr>"

definition table_moved :: "ctl_env \<Rightarrow> (u32 \<rightharpoonup> u32)" where
  "table_moved E = (ce_table E)(ce_container E \<mapsto> ce_target E)"

text \<open>A packet of the simulation: it is tunnelled, from one container the controller knows to another.\<close>

definition served :: "IlpControllerApp \<Rightarrow> Packet \<Rightarrow> bool" where
  "served ic p \<longleftrightarrow> (case pkt_headers p of
     HUdp u # HIp inner # hs \<Rightarrow> known ic (ip_src inner) \<and> known ic (ip_dst inner) | _ \<Rightarrow> False)"

inductive ctl_step :: "ctl_env \<Rightarrow> Ctl \<Rightarrow> Ctl \<Rightarrow> bool" for E where
  first: "\<lbrakk>cs_first s = Some (cs_now s); controller_query E (s\<lparr>cs_first := None\<rparr>) = Inr t\<rbrakk> \<Longrightarrow> ctl_step E s t"
| query: "\<lbrakk>cs_send s = Some (cs_now s); controller_query E (s\<lparr>cs_send := None\<rparr>) = Inr t\<rbrakk> \<Longrightarrow> ctl_step E s t"
| packet: "\<lbrakk>i < length (cs_switches s); served (cs_ic s) p;
    SwitchApp_ReceivePacket flow0 p ip (cs_switches s ! i) = Inr (fwd, q, jp, sw, es)\<rbrakk> \<Longrightarrow>
    ctl_step E s (s\<lparr>cs_switches := (cs_switches s)[i := sw]\<rparr>)"
| migrate: "ce_migrates E \<Longrightarrow> ctl_step E s (s\<lparr>cs_ic := (cs_ic s)\<lparr>ic_virtualToPhysical := table_moved E\<rparr>\<rparr>)"
| stop: "ctl_step E s (controller_stop s)"
| advance: "\<lbrakk>cs_now s < n; \<forall>t. cs_first s = Some t \<or> cs_send s = Some t \<longrightarrow> n \<le> t\<rbrakk> \<Longrightarrow> ctl_step E s (s\<lparr>cs_now := n\<rparr>)"

inductive ctl_reachable :: "ctl_env \<Rightarrow> Ctl \<Rightarrow> Ctl \<Rightarrow> bool" for E s0 where
  start: "ctl_reachable E s0 s0"
| step: "\<lbrakk>ctl_reachable E s0 s; ctl_step E s t\<rbrakk> \<Longrightarrow> ctl_reachable E s0 t"

section \<open>Invariants\<close>

text \<open>What the counters hold can be planned for.\<close>

definition tm_known :: "IlpControllerApp \<Rightarrow> TrafficMatrix \<Rightarrow> bool" where
  "tm_known ic tm \<longleftrightarrow> (\<forall>(src, flows) \<in> set tm. known ic src \<and>
     (\<forall>e \<in> set flows. known ic (fi_dstIp (snd e)) \<and> fi_gwIp (snd e) \<in> set (ic_gwAddresses ic)))"

text \<open>An address of the table, before or, once it has moved, after the migration.\<close>

definition cached_ok :: "ctl_env \<Rightarrow> Ctl \<Rightarrow> u32 \<Rightarrow> u32 \<Rightarrow> bool" where
  "cached_ok E s k a \<longleftrightarrow> ce_table E k = Some a \<or> ic_virtualToPhysical (cs_ic s) k = Some a"

definition ctl_switch_ok :: "ctl_env \<Rightarrow> Ctl \<Rightarrow> SwitchApp \<Rightarrow> bool" where
  "ctl_switch_ok E s sw \<longleftrightarrow> sa_wf sw \<and> sa_gwAddresses sw = set (ic_gwAddresses (cs_ic s)) \<and>
     tm_known (cs_ic s) (sa_trafficMatrix sw) \<and> (\<forall>k a. lru_lookup (sa_cache sw) k = Some a \<longrightarrow> cached_ok E s k a)"

definition ctl_inv :: "ctl_env \<Rightarrow> Ctl \<Rightarrow> bool" where
  "ctl_inv E s \<longleftrightarrow> ic_ok (cs_ic s) (length (cs_switches s)) \<and> 0 \<le> ic_memorySize (cs_ic s) \<and>
     (\<forall>k. known (cs_ic s) k \<longrightarrow> ic_virtualToPhysical (cs_ic s) k \<noteq> None) \<and>
     (ic_virtualToPhysical (cs_ic s) = ce_table E \<or> ce_migrates E \<and> ic_virtualToPhysical (cs_ic s) = table_moved E) \<and>
     (\<forall>sw \<in> set (cs_switches s). ctl_switch_ok E s sw)"

text \<open>While the controller runs there is one query ahead, an interval after the last one; a stopped controller has
  none but perhaps the first, which then does nothing.\<close>

definition schedule_inv :: "ctl_env \<Rightarrow> Ctl \<Rightarrow> bool" where
  "schedule_inv E s \<longleftrightarrow> (\<forall>t. cs_first s = Some t \<or> cs_send s = Some t \<longrightarrow> cs_now s \<le> t) \<and>
     (\<forall>t \<in> set (cs_runs s). t \<le> cs_now s) \<and>
     cs_runs s = map (\<lambda>k. ce_start E + int k * ce_interval E) [0..<length (cs_runs s)] \<and>
     (if ic_stop (cs_ic s) then cs_send s = None
      else if cs_runs s = [] then cs_first s = Some (ce_start E) \<and> cs_send s = None
      else cs_first s = None \<and> cs_send s = Some (ce_start E + int (length (cs_runs s)) * ce_interval E))"

definition ctl_cfg :: "ctl_env \<Rightarrow> bool" where
  "ctl_cfg E \<longleftrightarrow> solver_contract (ce_solve E) \<and> 0 \<le> ce_interval E"

text \<open>Counting a packet is one update of one cell.\<close>

lemma omap_insert_twice: "omap_insert (omap_insert m k v) k w = omap_insert m k w"
  by (induction m k v rule: omap_insert.induct) auto

lemma tm_set_twice: "tm_wf m \<Longrightarrow> tm_set (tm_set m src f i) src f j = tm_set m src f j"
  using tm_row_set [of m src f i src] by (simp add: tm_set_def omap_insert_twice)

lemma SwitchApp_count_set:
  assumes "tm_wf m"
  shows "SwitchApp_count src f dst gw m =
    tm_set m src f \<lparr>fi_dstIp = dst, fi_gwIp = gw, fi_packetCount = fi_packetCount (tm_cell m src f) + 1\<rparr>"
  using assms by (cases "tm_cell m src f") (simp add: SwitchApp_count_def Let_def tm_set_twice tm_set_wf)

lemma tm_known_set:
  assumes "tm_known ic m" and "known ic src" and "known ic (fi_dstIp i)" and "fi_gwIp i \<in> set (ic_gwAddresses ic)"
  shows "tm_known ic (tm_set m src f i)"
proof -
  have row: "known ic (fi_dstIp (snd e)) \<and> fi_gwIp (snd e) \<in> set (ic_gwAddresses ic)" if "e \<in> set (tm_row m src)" for e
    using that assms(1) by (fastforce simp: tm_row_def tm_known_def split: option.splits dest!: map_of_SomeD [OF sym])
  have "known ic (fi_dstIp (snd e)) \<and> fi_gwIp (snd e) \<in> set (ic_gwAddresses ic)" if "e \<in> set (omap_insert (tm_row m src) f i)" for e
  proof -
    have "e = (f, i) \<or> e \<in> set (tm_row m src)"
      using that omap_insert_set [of "tm_row m src" f i] by blast
    with row [of e] assms(3,4) show ?thesis by auto
  qed
  then show ?thesis
    using omap_insert_set [of m src "omap_insert (tm_row m src) f i"] assms(1,2) unfolding tm_known_def tm_set_def by fastforce
qed

lemma tm_known_cong: "ic_location c = ic_location ic \<Longrightarrow> ic_gwAddresses c = ic_gwAddresses ic \<Longrightarrow> tm_known c = tm_known ic"
  by (simp add: fun_eq_iff tm_known_def known_def)

lemma lru_push_entries: "set (lru_push n items xs) \<subseteq> set items \<union> set xs"
proof (induction items arbitrary: xs)
  case (Cons e items)
  obtain k v where e: "e = (k, v)" by (cases e)
  have "set (take n (touch k v xs)) \<subseteq> insert e (set xs)"
    using set_take_subset [of n "touch k v xs"] by (auto simp: touch_def e)
  with Cons.IH [of "take n (touch k v xs)"] show ?case
    by (auto simp: lru_push_def e)
qed (simp add: lru_push_def)

lemma collect_switches:
  assumes "\<forall>sw \<in> set switches. tm_known ic (sa_trafficMatrix sw)"
  shows "traffic_ok (snd (QuerySwitches_collect switches ic))"
proof -
  have "set (take (ic_leafCount ic) (map sa_trafficMatrix switches)) \<subseteq> sa_trafficMatrix ` set switches"
    by (metis set_map set_take_subset)
  then show ?thesis
    using assms unfolding traffic_ok_def collect_ok(2)
    by (auto simp: QuerySwitches_collect_def Let_def SwitchApp_GetTrafficMatrix_def tm_known_def comp_def) fastforce+
qed

section \<open>The invariants are kept\<close>

lemma collect_frame: "ic_gwAddresses (snd (QuerySwitches_collect switches ic)) = ic_gwAddresses ic"
  by (simp add: QuerySwitches_collect_def Let_def)

text \<open>What a query leaves in a cache was there before or comes from the table.\<close>

lemma query_entries:
  assumes "lru_wf c" and "lru_wf c'" and "lru_abs c' = lru_push n (map (\<lambda>j. (j, the (vtp j))) js) (lru_abs c)"
    and "lru_lookup c' k = Some a" and "\<forall>j \<in> set js. vtp j \<noteq> None"
  shows "lru_lookup c k = Some a \<or> vtp k = Some a"
proof -
  have "map_of (lru_abs c') k = Some a"
    using assms(4) lru_map_of_abs [OF assms(2)] by simp
  then have "(k, a) \<in> set (lru_push n (map (\<lambda>j. (j, the (vtp j))) js) (lru_abs c))"
    unfolding assms(3) by (rule map_of_SomeD)
  then have "(k, a) \<in> set (map (\<lambda>j. (j, the (vtp j))) js) \<union> set (lru_abs c)"
    using lru_push_entries by blast
  moreover have "distinct (map fst (lru_abs c))"
    using assms(1) by (simp add: lru_abs_def lru_wf_def comp_def)
  ultimately show ?thesis
    using assms(5) lru_map_of_abs [OF assms(1)] by (auto dest: map_of_is_SomeI)
qed

lemma query_running:
  assumes "ctl_cfg E" and "ctl_inv E s" and "\<not> ic_stop (cs_ic s)"
  shows "returns (controller_query E s) (\<lambda>t. ctl_inv E t \<and> \<not> ic_stop (cs_ic t) \<and> cs_now t = cs_now s \<and> cs_first t = cs_first s \<and>
    cs_send t = Some (cs_now s + ce_interval E) \<and> cs_runs t = cs_runs s @ [cs_now s])"
proof -
  let ?ic = "cs_ic s" and ?sws = "cs_switches s"
  have inv: "ic_ok ?ic (length ?sws)" "0 \<le> ic_memorySize ?ic" "\<forall>k. known ?ic k \<longrightarrow> ic_virtualToPhysical ?ic k \<noteq> None"
      "\<forall>sw \<in> set ?sws. ctl_switch_ok E s sw"
    using assms(2) by (simp_all add: ctl_inv_def)
  then have sws: "\<forall>sw \<in> set ?sws. lru_wf (sa_cache sw)" "traffic_ok (snd (QuerySwitches_collect ?sws ?ic))"
    by (auto simp: ctl_switch_ok_def sa_wf_def intro!: collect_switches)
  have "solver_contract (ce_solve E)"
    using assms(1) by (simp add: ctl_cfg_def)
  note optimal = query_optimal [OF assms(3) inv(1) sws(2) this inv(2) sws(1) inv(3), of "ce_ipv4 E" "ce_show_ip E" "ce_hash64 E"]
  define c where "c = snd (QuerySwitches_collect ?sws ?ic)"
  note c = collect_ok [of ?sws ?ic, folded c_def] collect_frame [of ?sws ?ic, folded c_def]
  obtain sws' holds where run: "IlpControllerApp_QuerySwitches (ce_ipv4 E) (ce_show_ip E) (ce_hash64 E) (ce_solve E) ?sws ?ic =
        Inr (True, sws', c)" "length sws' = length ?sws"
      and new: "\<forall>i < length ?sws. lru_wf (sa_cache (sws' ! i)) \<and>
        sa_frame (sws' ! i) = sa_frame ((?sws ! i)\<lparr>sa_trafficMatrix := []\<rparr>) \<and>
        lru_abs (sa_cache (sws' ! i)) = lru_push (lru_cacheSize (sa_cache (?sws ! i))) (map (\<lambda>j. (j, the (ic_virtualToPhysical ?ic j)))
          (filter (holds i) (query_containers c))) (lru_abs (sa_cache (?sws ! i)))"
    using optimal unfolding returns_def c_def [symmetric] by clarsimp (rule that, assumption+)
  have js: "\<forall>j \<in> set (query_containers c). ic_virtualToPhysical ?ic j \<noteq> None"
    using inv(1,3) query_containers_known [of c "length ?sws"] c(1,2) by simp
  let ?t = "s\<lparr>cs_switches := sws', cs_ic := c\<rparr>"
  have "ctl_switch_ok E ?t sw" if sw: "sw \<in> set sws'" for sw
  proof -
    obtain i where i: "i < length ?sws" "sw = sws' ! i"
      using sw run(2) by (metis in_set_conv_nth)
    then have old: "ctl_switch_ok E s (?sws ! i)" "lru_wf (sa_cache (?sws ! i))"
      using inv(4) sws(1) by simp_all
    have now: "lru_wf (sa_cache sw)" "sa_trafficMatrix sw = []" "sa_gwAddresses sw = sa_gwAddresses (?sws ! i)"
      using new i by (auto simp: sa_frame_def)
    moreover have "cached_ok E ?t k a" if hit: "lru_lookup (sa_cache sw) k = Some a" for k a
    proof -
      have "lru_lookup (sa_cache (?sws ! i)) k = Some a \<or> ic_virtualToPhysical ?ic k = Some a"
        by (rule query_entries [OF old(2) now(1) _ hit, where js = "filter (holds i) (query_containers c)"
              and n = "lru_cacheSize (sa_cache (?sws ! i))"]) (use new i js in auto)
      then show ?thesis
        using old(1) by (auto simp: ctl_switch_ok_def cached_ok_def c)
    qed
    ultimately show ?thesis
      using old by (simp add: ctl_switch_ok_def sa_wf_def tm_wf_def omap_wf_def tm_known_def c)
  qed
  then have "ctl_inv E ?t"
    using assms(2) run(2) by (simp add: ctl_inv_def c)
  then show ?thesis
    using run(1) assms(3) by (simp add: controller_query_def Let_def ctl_inv_def ctl_switch_ok_def cached_ok_def c)
qed

lemma query_stopped: "ic_stop (cs_ic s) \<Longrightarrow> controller_query E s = Inr s"
  by (simp add: controller_query_def IlpControllerApp_QuerySwitches_def Let_def)

text \<open>A packet of the simulation.\<close>

lemma packet_keeps:
  assumes "ctl_switch_ok E s sw" and "served (cs_ic s) p"
  shows "returns (SwitchApp_ReceivePacket flow0 p ip sw) (\<lambda>(fwd, q, jp, sw', es). fwd \<and> ctl_switch_ok E s sw' \<and>
    (ip_dst jp = ip_dst ip \<or> (\<exists>u inner hs. pkt_headers p = HUdp u # HIp inner # hs \<and> cached_ok E s (ip_dst inner) (ip_dst jp))))"
proof -
  obtain u inner hs where p: "pkt_headers p = HUdp u # HIp inner # hs" "known (cs_ic s) (ip_src inner)" "known (cs_ic s) (ip_dst inner)"
    using assms(2) by (auto simp: served_def split: list.splits header.splits)
  have sw: "sa_wf sw" "tm_wf (sa_trafficMatrix sw)" "sa_gwAddresses sw = set (ic_gwAddresses (cs_ic s))"
      "tm_known (cs_ic s) (sa_trafficMatrix sw)" "\<forall>k a. lru_lookup (sa_cache sw) k = Some a \<longrightarrow> cached_ok E s k a"
    using assms(1) by (auto simp: ctl_switch_ok_def sa_wf_def)
  have count: "tm_known (cs_ic s) (SwitchApp_count (ip_src inner) f (ip_dst inner) (ip_dst ip) (sa_trafficMatrix sw))"
    if "sa_counts sw ip" for f
    unfolding SwitchApp_count_set [OF sw(2)] using that p(2,3) sw(3)
    by (intro tm_known_set [OF sw(4)]) (simp_all add: sa_counts_def)
  show ?thesis
    by (rule returns_mono [OF SwitchApp_ReceivePacket_spec [OF sw(1) p(1), of flow0 ip]], clarify)
       (use sw count p(1) in \<open>auto simp: ctl_switch_ok_def split: option.splits if_splits\<close>)
qed

lemma ctl_inv_cong:
  assumes "cs_ic t = cs_ic s" and "cs_switches t = cs_switches s"
  shows "ctl_inv E t = ctl_inv E s"
  using assms by (simp add: ctl_inv_def ctl_switch_ok_def cached_ok_def)

text \<open>The switches stay right when the controller changes in nothing they depend on, and its table at most moves.\<close>

lemma ctl_inv_ic:
  assumes "ctl_inv E s" and "cs_ic t = c" and "cs_switches t = cs_switches s"
    and "ic_ok c = ic_ok (cs_ic s)" "ic_memorySize c = ic_memorySize (cs_ic s)" "ic_location c = ic_location (cs_ic s)"
      "ic_gwAddresses c = ic_gwAddresses (cs_ic s)"
    and "ic_virtualToPhysical c = ic_virtualToPhysical (cs_ic s) \<or> ce_migrates E \<and> ic_virtualToPhysical c = table_moved E"
  shows "ctl_inv E t"
proof -
  have "known c = known (cs_ic s)" "tm_known c = tm_known (cs_ic s)"
    using tm_known_cong [OF assms(6,7)] by (simp_all add: fun_eq_iff known_def assms(6))
  moreover have "cached_ok E s k a \<Longrightarrow> cached_ok E t k a" for k a
    using assms(1,2,8) by (auto simp: cached_ok_def ctl_inv_def table_moved_def)
  moreover have "ic_virtualToPhysical c k \<noteq> None" if "known (cs_ic s) k" for k
    using that assms(1,8) by (auto simp: ctl_inv_def table_moved_def)
  moreover have "ic_virtualToPhysical c = ce_table E \<or> ce_migrates E \<and> ic_virtualToPhysical c = table_moved E"
    using assms(1,8) by (auto simp: ctl_inv_def)
  ultimately show ?thesis
    using assms(1-5,7) by (simp add: ctl_inv_def ctl_switch_ok_def)
qed

lemma ctl_step_keeps:
  assumes "ctl_step E s t" and "ctl_cfg E" and "ctl_inv E s" and "schedule_inv E s"
  shows "ctl_inv E t \<and> schedule_inv E t"
  using assms
proof (induction rule: ctl_step.induct)
  case (first s t)
  show ?case
  proof (cases "ic_stop (cs_ic s)")
    case True
    then have "t = s\<lparr>cs_first := None\<rparr>"
      using first(2) query_stopped [of "s\<lparr>cs_first := None\<rparr>" E] by simp
    then show ?thesis
      using True first(4,5) ctl_inv_cong [of t s] by (simp add: schedule_inv_def)
  next
    case False
    have "ctl_inv E (s\<lparr>cs_first := None\<rparr>)"
      using first(4) ctl_inv_cong [of "s\<lparr>cs_first := None\<rparr>" s] by simp
    from query_running [OF first(3) this] False first(2) have t: "ctl_inv E t" "\<not> ic_stop (cs_ic t)" "cs_now t = cs_now s"
        "cs_first t = None" "cs_send t = Some (cs_now s + ce_interval E)" "cs_runs t = cs_runs s @ [cs_now s]"
      by simp_all
    moreover have "cs_runs s = []" "cs_now s = ce_start E"
      using first(1,5) False by (auto simp: schedule_inv_def split: if_splits)
    ultimately show ?thesis
      using first(3) by (simp add: schedule_inv_def ctl_cfg_def)
  qed
next
  case (query s t)
  have run: "\<not> ic_stop (cs_ic s)" "cs_runs s \<noteq> []" "cs_first s = None"
      "cs_now s = ce_start E + int (length (cs_runs s)) * ce_interval E"
    using query(1,5) by (auto simp: schedule_inv_def split: if_splits)
  have "ctl_inv E (s\<lparr>cs_send := None\<rparr>)"
    using query(4) ctl_inv_cong [of "s\<lparr>cs_send := None\<rparr>" s] by simp
  from query_running [OF query(3) this] run(1) query(2) have t: "ctl_inv E t" "\<not> ic_stop (cs_ic t)" "cs_now t = cs_now s"
      "cs_first t = cs_first s" "cs_send t = Some (cs_now s + ce_interval E)" "cs_runs t = cs_runs s @ [cs_now s]"
    by simp_all
  moreover have "cs_runs s = map (\<lambda>k. ce_start E + int k * ce_interval E) [0..<length (cs_runs s)]" "\<forall>t \<in> set (cs_runs s). t \<le> cs_now s"
    using query(5) by (simp_all add: schedule_inv_def)
  ultimately show ?case
    using query(3) run by (simp add: schedule_inv_def ctl_cfg_def algebra_simps)
next
  case (packet i s p flow0 ip fwd q jp sw es)
  have "ctl_switch_ok E s (cs_switches s ! i)"
    using packet(1,5) by (simp add: ctl_inv_def)
  from packet_keeps [OF this packet(2), of flow0 ip] have "ctl_switch_ok E s sw"
    by (simp add: packet(3))
  then have "\<forall>x \<in> set ((cs_switches s)[i := sw]). ctl_switch_ok E s x"
    using packet(5) set_update_subset_insert [of "cs_switches s" i sw] by (auto simp: ctl_inv_def)
  then show ?case
    using packet(5,6) by (simp add: ctl_inv_def schedule_inv_def ctl_switch_ok_def cached_ok_def)
next
  case (migrate s)
  have "ctl_inv E (s\<lparr>cs_ic := (cs_ic s)\<lparr>ic_virtualToPhysical := table_moved E\<rparr>\<rparr>)"
    by (rule ctl_inv_ic [OF migrate(3) refl]) (simp_all add: fun_eq_iff ic_ok_def migrate(1))
  then show ?case
    using migrate(4) by (simp add: schedule_inv_def)
next
  case (stop s)
  have "ctl_inv E (controller_stop s)"
    by (rule ctl_inv_ic [OF stop(2) refl])
       (simp_all add: fun_eq_iff ic_ok_def controller_stop_def IlpControllerApp_StopApplication_def)
  then show ?case
    using stop(3) by (simp add: schedule_inv_def controller_stop_def IlpControllerApp_StopApplication_def)
next
  case (advance s n)
  have "schedule_inv E (s\<lparr>cs_now := n\<rparr>)"
    using advance(1,2,5) by (fastforce simp: schedule_inv_def)
  then show ?case
    using advance(4) ctl_inv_cong [of "s\<lparr>cs_now := n\<rparr>" s] by simp
qed

lemma ctl_reachable_keeps:
  assumes "ctl_reachable E s0 s" and "ctl_cfg E" and "ctl_inv E s0" and "schedule_inv E s0"
  shows "ctl_inv E s \<and> schedule_inv E s"
  using assms by (induction rule: ctl_reachable.induct) (auto dest: ctl_step_keeps)

section \<open>The simulation in mode Controller\<close>

text \<open>The switches among the applications; \<open>uninit\<close> is the mode a switch has before \<open>Setup\<close> sets it.\<close>

definition start_controlled :: "int \<Rightarrow> Mode \<Rightarrow> SimulationBase \<Rightarrow> sim_app list \<Rightarrow> SwitchApp list" where
  "start_controlled memorySize uninit sb apps = List.map_filter (\<lambda>app. case app of
       CtrlApp x m \<Rightarrow> Some (SwitchAppHelper_InstallPriv memorySize (node_id sb x) uninit (sb_gwAddresses sb) m) | _ \<Rightarrow> None) apps"

text \<open>The parser, the printer, the hash, the solver and the interval are those of \<open>E\<close>, the rest is the simulation's.\<close>

definition controller_env :: "ctl_env \<Rightarrow> TraceSimulation \<Rightarrow> ctl_env" where
  "controller_env E ts =
     (let sb = ts_base ts; mig = ts_migrationParams ts in
      E\<lparr>ce_start := 0, ce_table := sb_virtualToPhysical sb, ce_migrates := mig_migration mig,
        ce_container := IpUtils_GetContainerVirtualAddress (mig_containerId mig),
        ce_target := host_address (ce_ipv4 E) sb (unat (mig_dstLeaf mig)) (unat (mig_dstHost mig))\<rparr>)"

definition controller_net :: "IlpControllerAttributes \<Rightarrow> int \<Rightarrow> Mode \<Rightarrow> TraceSimulation \<Rightarrow> sim_app list \<Rightarrow> Ctl" where
  "controller_net attrs memorySize uninit ts apps = IlpControllerApp_StartApplication
     \<lparr>cs_now = 0, cs_ic = controller_for attrs (ts_base ts), cs_switches = start_controlled memorySize uninit (ts_base ts) apps,
      cs_first = None, cs_send = None, cs_runs = []\<rparr>"

lemma installed_switch:
  "\<lbrakk>0 < memorySize; memorySize < 2 ^ 31\<rbrakk> \<Longrightarrow> ctl_switch_ok E s (SwitchAppHelper_InstallPriv memorySize n uninit gws m) \<longleftrightarrow> set gws = set (ic_gwAddresses (cs_ic s))"
  using lru_new_wf [of memorySize]
  by (simp add: ctl_switch_ok_def sa_wf_def SwitchAppHelper_InstallPriv_def SwitchApp_new_def SwitchApp_Setup_def tm_wf_def
      omap_wf_def tm_known_def LRUCache_SetCapacity_def LRUCache_new_def)

lemma controlled_switches:
  assumes "SimMode (sb_simParameters sb) = Controller"
  shows "start_controlled memorySize uninit sb (concat (map (host_apps ipv4 ts) ps) @ other_apps ipv4' sb) =
    map (\<lambda>x. SwitchAppHelper_InstallPriv memorySize (node_id sb x) uninit (sb_gwAddresses sb) Controller) (switch_nodes sb)"
proof -
  have "(case app of CtrlApp x m \<Rightarrow> Some (f x m) | _ \<Rightarrow> None) = None" if "switch_of app = None" for app and f :: "_ \<Rightarrow> _ \<Rightarrow> SwitchApp"
    using that by (cases app) auto
  then have "start_controlled memorySize uninit sb (concat (map (host_apps ipv4 ts) ps)) = []"
    using host_apps_none [of ipv4 ts ps] unfolding start_controlled_def List.map_filter_def by (simp add: filter_empty_conv)
  then show ?thesis
    using assms
    by (simp add: start_controlled_def other_apps_def SetupApplications_switches_def Let_def List.map_filter_def comp_def switch_nodes_def)
qed

lemma controller_starts:
  fixes uninit :: Mode
  assumes "prepared ipv4 masks sb net" and "ids_known sb" and "names_ok (sb_containerGroups sb)" and "dims_ok sb"
    and "sb_gws sb = map (\<lambda>(i, j). (word_of_nat i, word_of_nat j)) (gateway_slots (sb_containerGroups sb))"
    and "length (sb_containerGroups sb) < 2 ^ 32" and "SimMode (sb_simParameters sb) = Controller" and "ts_base ts = net"
    and "apps = concat (map (host_apps ipv4 ts') ps) @ other_apps ipv4 net" and "0 \<le> ce_interval E"
    and "0 \<le> cat_MemorySize attrs" and "0 < memorySize" and "memorySize < 2 ^ 31"
  defines "s0 \<equiv> controller_net attrs memorySize uninit ts apps"
  shows "ctl_inv (controller_env E ts) s0" and "schedule_inv (controller_env E ts) s0"
    and "length (cs_switches s0) = sb_leafCount sb + sb_spineCount sb + sb_coreCount sb"
proof -
  note plan = prepared_plan [OF assms(1)]
  have net: "ids_known net" "names_ok (sb_containerGroups net)"
    using assms(2,3) plan by (simp_all add: ids_known_def)
  have ic: "cs_ic s0 = controller_for attrs net" "ic_gwAddresses (controller_for attrs net) = sb_gwAddresses net"
      "ic_memorySize (controller_for attrs net) = cat_MemorySize attrs" "ic_virtualToPhysical (controller_for attrs net) = sb_virtualToPhysical net"
      "\<not> ic_stop (controller_for attrs net)"
    by (simp_all add: s0_def controller_net_def IlpControllerApp_StartApplication_def assms(8) controller_for_fields [OF net]
        IlpControllerApp_new_def)
  have sws: "cs_switches s0 = map (\<lambda>x. SwitchAppHelper_InstallPriv memorySize (node_id net x) uninit (sb_gwAddresses net) Controller) (switch_nodes net)"
    using controlled_switches [of net] assms(7) plan(3)
    by (simp add: s0_def controller_net_def IlpControllerApp_StartApplication_def assms(8,9))
  then show len: "length (cs_switches s0) = sb_leafCount sb + sb_spineCount sb + sb_coreCount sb"
    by (simp add: switch_nodes_def plan)
  have "\<forall>sw \<in> set (cs_switches s0). ctl_switch_ok (controller_env E ts) s0 sw"
    by (auto simp: sws installed_switch [OF assms(12,13)] ic)
  then show "ctl_inv (controller_env E ts) s0"
    using controller_for_ok(1,3) [where attrs = attrs, OF assms(1-6)] by (simp add: ctl_inv_def ic len controller_env_def Let_def assms(8,11))
  show "schedule_inv (controller_env E ts) s0"
    using ic(1,5) by (simp add: schedule_inv_def s0_def controller_net_def IlpControllerApp_StartApplication_def controller_env_def Let_def)
qed

section \<open>Properties\<close>

text \<open>What the controller and its switches promise in a state.\<close>

definition controller_serves :: "ctl_env \<Rightarrow> Ctl \<Rightarrow> bool" where
  "controller_serves E s \<longleftrightarrow> returns (controller_query E s) (\<lambda>t. True) \<and>
     (\<forall>i < length (cs_switches s). \<forall>p. served (cs_ic s) p \<longrightarrow> (\<forall>flow0 ip.
        returns (SwitchApp_ReceivePacket flow0 p ip (cs_switches s ! i)) (\<lambda>(fwd, q, jp, sw, es). fwd \<and>
          (ip_dst jp = ip_dst ip \<or> (\<exists>u inner hs. pkt_headers p = HUdp u # HIp inner # hs \<and> cached_ok E s (ip_dst inner) (ip_dst jp))))))"

definition controller_punctual :: "ctl_env \<Rightarrow> Ctl \<Rightarrow> bool" where
  "controller_punctual E s \<longleftrightarrow>
     cs_runs s = map (\<lambda>k. ce_start E + int k * ce_interval E) [0..<length (cs_runs s)] \<and>
     (\<forall>t \<in> set (cs_runs s). t \<le> cs_now s) \<and>
     (\<not> ic_stop (cs_ic s) \<longrightarrow> (\<forall>k. ce_start E + int k * ce_interval E < cs_now s \<longrightarrow> ce_start E + int k * ce_interval E \<in> set (cs_runs s))) \<and>
     (ic_stop (cs_ic s) \<longrightarrow> cs_send s = None \<and> controller_query E s = Inr s)"

lemma inv_serves: "ctl_cfg E \<Longrightarrow> ctl_inv E s \<Longrightarrow> controller_serves E s"
  using query_running [of E s] query_stopped [of s E]
  by (cases "ic_stop (cs_ic s)") (auto simp: controller_serves_def ctl_inv_def elim: returns_mono intro!: returns_mono [OF packet_keeps])

lemma inv_punctual:
  assumes "ctl_cfg E" and "schedule_inv E s"
  shows "controller_punctual E s"
proof -
  let ?at = "\<lambda>k. ce_start E + int k * ce_interval E" and ?n = "length (cs_runs s)"
  have runs: "cs_runs s = map ?at [0..<?n]" and past: "\<forall>t \<in> set (cs_runs s). t \<le> cs_now s"
    using assms(2) by (simp_all add: schedule_inv_def)
  have "?at k \<in> set (cs_runs s)" if "\<not> ic_stop (cs_ic s)" "?at k < cs_now s" for k
  proof -
    have "cs_now s \<le> ?at ?n"
      using that(1) assms(2) by (auto simp: schedule_inv_def split: if_splits)
    then have "int k * ce_interval E < int ?n * ce_interval E"
      using that(2) by simp
    then have "k < ?n"
      using assms(1) by (metis ctl_cfg_def mult_right_mono not_le of_nat_mono)
    then have "?at k \<in> set (map ?at [0..<?n])"
      unfolding set_map by (intro imageI) simp
    then show ?thesis
      using runs by metis
  qed
  moreover have "cs_send s = None \<and> controller_query E s = Inr s" if "ic_stop (cs_ic s)"
    using that assms(2) query_stopped by (simp add: schedule_inv_def)
  ultimately show ?thesis
    using runs past by (simp add: controller_punctual_def)
qed

text \<open>C8: The controller at work. In mode Controller the set-up of a run succeeds, installs the controller and
  one switch application per switch; let the attributes \<open>MemorySize\<close> be at least 1 for the switches and
  not negative for the controller, as the command line sets them. Then from the start on, in every state that packets,
  queries, the migration, time and the stop of the controller can lead to: with a solver that keeps its contract no
  query fails; no switch fails on a packet between containers, and it redirects the packet, if at all, to an address
  that the table before or after the migration has for its container; the controller has queried the switches at the
  start and after each interval, missing none, until it is stopped, and never again after that.\<close>

theorem controller_simulation:
  assumes "SimulationBase_new params groups migParams uninit = Inr (ts_base ts)" and "octets_ok params groups"
    and "names_ok groups" and "gateway_slots groups \<noteq> []" and "SimMode params = Controller"
    and "solver_contract (ce_solve E)" and "0 \<le> ce_interval E"
    and "0 \<le> cat_MemorySize attrs" and "0 < memorySize" and "memorySize < 2 ^ 31"
  shows "returns (TraceSimulation_Run (ce_ipv4 E) masks ts) (\<lambda>(ts', apps, t).
    let C = controller_env E ts'; s0 = controller_net attrs memorySize mode ts' apps in
    (\<exists>g. IlpApp g \<in> set apps) \<and> length (cs_switches s0) = 2 * length groups + sb_coreCount (ts_base ts) \<and>
    (\<forall>s. ctl_reachable C s0 s \<longrightarrow> controller_serves C s \<and> controller_punctual C s))"
proof (rule returns_mono [OF Run_closed [OF assms(1-4), of "ce_ipv4 E" masks]], clarify)
  fix net
  let ?ts = "ts\<lparr>ts_base := net\<rparr>" and ?sb = "ts_base ts"
  define ts' where "ts' = at_source ?ts (fold (moved_from ?ts) (slots groups) (ts_migrationSrcLeaf ts, ts_migrationSrcHost ts))"
  let ?apps = "concat (map (host_apps (ce_ipv4 E) ?ts) (host_pairs net)) @ other_apps (ce_ipv4 E) net"
  let ?C = "controller_env E ts'" and ?s0 = "controller_net attrs memorySize mode ts' ?apps"
  assume net: "prepared (ce_ipv4 E) masks ?sb net"
  note new = SimulationBase_new_ids [OF assms(1,3)] and dims = SimulationBase_new_dims [OF assms(1,2), THEN conjunct1]
  have ids: "ids_known ?sb"
    using new(1,3) by (simp add: ids_known_def)
  have count: "sb_leafCount ?sb = length groups" "sb_spineCount ?sb = length groups" "length groups < 2 ^ 32"
    using dims_okD(2-5,8) [OF dims] new(3) mult_le_mono [of "sb_podCount ?sb" 256 "sb_podWidth ?sb" 256] by simp_all
  have mode: "SimMode (sb_simParameters ?sb) = Controller"
    using SimulationBase_new_shape(4) [OF assms(1,2)] assms(5) by simp
  have ts': "ts_base ts' = net"
    by (simp add: ts'_def at_source_def)
  note starts = controller_starts [OF net ids assms(3) [folded new(3)] dims new(2) [folded new(3)] count(3) [folded new(3)] mode ts' refl assms(7-10),
      where uninit = mode]
  have "ctl_cfg ?C"
    using assms(6,7) by (simp add: ctl_cfg_def controller_env_def Let_def)
  then have "controller_serves ?C s \<and> controller_punctual ?C s" if "ctl_reachable ?C ?s0 s" for s
    using ctl_reachable_keeps [OF that _ starts(1,2)] inv_serves inv_punctual by blast
  moreover have "\<exists>g. IlpApp g \<in> set ?apps"
    using mode prepared_plan(3) [OF net] by (auto simp: other_apps_def)
  ultimately show "let C = ?C; s0 = ?s0 in (\<exists>g. IlpApp g \<in> set ?apps) \<and> length (cs_switches s0) = 2 * length groups + sb_coreCount ?sb \<and>
    (\<forall>s. ctl_reachable C s0 s \<longrightarrow> controller_serves C s \<and> controller_punctual C s)"
    using starts(3) count by (simp add: Let_def mult_2)
qed

text \<open>The fat tree of four leaves in mode Controller, with a query every second.\<close>

definition params4 :: SimulationParameters where
  "params4 = params1\<lparr>SimMode := Controller\<rparr>"

definition ctl0 :: ctl_env where
  "ctl0 = \<lparr>ce_ipv4 = parse_quad, ce_show_ip = (\<lambda>_. []), ce_hash64 = (\<lambda>_. 0), ce_solve = brute_force, ce_interval = 1000000000,
     ce_start = 0, ce_table = Map.empty, ce_migrates = False, ce_container = 0, ce_target = 0\<rparr>"

theorem controller_simulation_witness:
  "\<exists>sb. SimulationBase_new params4 groups1 mig0 0 = Inr sb \<and>
     returns (TraceSimulation_Run parse_quad parse_quad (sim_on sb)) (\<lambda>(ts', apps, t).
       let C = controller_env ctl0 ts'; s0 = controller_net (ilp_attributes\<lparr>cat_MemorySize := 12\<rparr>) 12 NoCache ts' apps in
       length (cs_switches s0) = 10 \<and> returns (controller_query C s0) (\<lambda>t. True))"
proof -
  obtain sb where sb: "SimulationBase_new params4 groups1 mig0 0 = Inr sb" "sb_coreCount sb = 2"
    by (simp add: SimulationBase_new_def SimulationBase_init_def params4_def params1_def groups1_def Let_def
        SimulationBase_checks_def SimulationBase_AssignIds_def slots_def)
  have "octets_ok params4 groups1"
    by (simp add: octets_ok_def params4_def params1_def groups1_def)
  note run = controller_simulation [of params4 groups1 mig0 0 "sim_on sb" ctl0 "ilp_attributes\<lparr>cat_MemorySize := 12\<rparr>" 12, OF _ this names1(1)]
  have len: "length groups1 = 4"
    by (simp add: groups1_def)
  have first: "\<forall>s. ctl_reachable C s0 s \<longrightarrow> controller_serves C s \<and> controller_punctual C s \<Longrightarrow>
      returns (controller_query C s0) (\<lambda>t. True)" for C s0
    using ctl_reachable.start unfolding controller_serves_def by blast
  have env: "ce_solve ctl0 = brute_force" "ce_interval ctl0 = 1000000000" "ce_ipv4 ctl0 = parse_quad"
    by (simp_all add: ctl0_def)
  have "returns (TraceSimulation_Run (ce_ipv4 ctl0) parse_quad (sim_on sb)) (\<lambda>(ts', apps, t).
       let C = controller_env ctl0 ts'; s0 = controller_net (ilp_attributes\<lparr>cat_MemorySize := 12\<rparr>) 12 NoCache ts' apps in
       length (cs_switches s0) = 10 \<and> returns (controller_query C s0) (\<lambda>t. True))"
    by (rule returns_mono [OF run [of parse_quad NoCache]])
       (use sb names1 brute_force_contract len in \<open>auto simp: params4_def env ilp_attributes_def Let_def dest!: first\<close>)
  with sb show ?thesis
    unfolding env by blast
qed

end
