(* ===== verification/Tcp_Client.thy ===== *)
theory Tcp_Client
  imports Cpp_Prelude
begin

text \<open>
  \<^verbatim>\<open>tcp-client-app.cc\<close>: the application that pushes one flow into a TCP socket. The socket is
  ns-3's: \<open>send s n\<close> is the number \<open>m_socket->Send\<close> returns for a packet of \<open>n\<close> bytes in
  socket state \<open>s\<close>, with the state it leaves, and \<open>socket_contract\<close> is what its documentation
  promises. A packet is its size. The loop of \<open>SendData\<close> has no bound when the flow has no limit, so
  it is a partial function, and its termination is a theorem.
\<close>

section \<open>Operations\<close>

type_synonym sock_address = "u32 \<times> u16"

record TcpClientApp =
  tc_socket :: bool
  tc_peer :: "sock_address option"
  tc_local :: "sock_address option"
  tc_connected :: bool
  tc_maxBytes :: u64
  tc_totBytes :: u64
  tc_unsentPacket :: "u64 option"
  tc_flowId :: u32
  tc_source :: u32
  tc_sendSize :: u32

text \<open>The fields the constructor leaves uninitialised are set by \<open>Setup\<close> before they are read.\<close>

definition TcpClientApp_new :: "u64 \<Rightarrow> u32 \<Rightarrow> TcpClientApp" where
  "TcpClientApp_new maxBytes0 source0 =
     \<lparr>tc_socket = False, tc_peer = None, tc_local = None, tc_connected = False, tc_maxBytes = maxBytes0, tc_totBytes = 0, tc_unsentPacket = None,
      tc_flowId = 0, tc_source = source0, tc_sendSize = 1024\<rparr>"

definition TcpClientApp_Setup ::
  "sock_address \<Rightarrow> sock_address \<Rightarrow> u32 \<Rightarrow> u32 \<Rightarrow> u32 \<Rightarrow> TcpClientApp \<Rightarrow> TcpClientApp" where
  "TcpClientApp_Setup remoteAddress localAddress sourceAddress maxBytes flowId app =
     app\<lparr>tc_peer := Some remoteAddress, tc_local := Some localAddress, tc_source := sourceAddress, tc_maxBytes := ucast maxBytes, tc_flowId := flowId\<rparr>"

text \<open>One round of the loop; the flag says whether it goes on.\<close>

definition TcpClientApp_SendData_round ::
  "('s \<Rightarrow> u64 \<Rightarrow> int \<times> 's) \<Rightarrow> TcpClientApp \<Rightarrow> 's \<Rightarrow> (bool \<times> TcpClientApp \<times> 's) res" where
  "TcpClientApp_SendData_round send app s =
     (let toSend = ucast (tc_sendSize app);
          toSend = (if tc_maxBytes app > 0 then min toSend (tc_maxBytes app - tc_totBytes app) else toSend);
          packet = (case tc_unsentPacket app of Some p \<Rightarrow> p | None \<Rightarrow> toSend);
          toSend = (case tc_unsentPacket app of Some p \<Rightarrow> p | None \<Rightarrow> toSend);
          (actual, s) = send s packet;
          unsigned = ucast (word_of_int actual :: u32) in
      if unsigned = toSend
      then Inr (True, app\<lparr>tc_totBytes := tc_totBytes app + word_of_int actual, tc_unsentPacket := None\<rparr>, s)
      else if actual = -1
      then Inr (False, app\<lparr>tc_unsentPacket := Some packet\<rparr>, s)
      else if actual > 0 \<and> unsigned < toSend
      then Inr (False, app\<lparr>tc_totBytes := tc_totBytes app + word_of_int actual,
                           tc_unsentPacket := Some (toSend - unsigned)\<rparr>, s)
      else Inl FatalError)"

partial_function (option) TcpClientApp_SendData_loop ::
  "('s \<Rightarrow> u64 \<Rightarrow> int \<times> 's) \<Rightarrow> TcpClientApp \<Rightarrow> 's \<Rightarrow> (TcpClientApp \<times> 's) res option" where
  "TcpClientApp_SendData_loop send app s =
     (if tc_maxBytes app = 0 \<or> tc_totBytes app < tc_maxBytes app
      then (case TcpClientApp_SendData_round send app s of
              Inl e \<Rightarrow> Some (Inl e)
            | Inr r \<Rightarrow> (if fst r then TcpClientApp_SendData_loop send (fst (snd r)) (snd (snd r))
                        else Some (Inr (snd r))))
      else Some (Inr (app, s)))"

text \<open>\<open>SendData\<close>, with the flag whether it called \<open>m_socket->Close ()\<close>.\<close>

definition TcpClientApp_SendData ::
  "('s \<Rightarrow> u64 \<Rightarrow> int \<times> 's) \<Rightarrow> TcpClientApp \<Rightarrow> 's \<Rightarrow> (bool \<times> TcpClientApp \<times> 's) res option" where
  "TcpClientApp_SendData send app s =
     map_option (\<lambda>m. bindE m (\<lambda>(app, s).
       if tc_totBytes app = tc_maxBytes app \<and> tc_connected app
       then Inr (True, app\<lparr>tc_connected := False\<rparr>, s) else Inr (False, app, s)))
     (TcpClientApp_SendData_loop send app s)"

definition TcpClientApp_ConnectionSucceeded ::
  "('s \<Rightarrow> u64 \<Rightarrow> int \<times> 's) \<Rightarrow> TcpClientApp \<Rightarrow> 's \<Rightarrow> (bool \<times> TcpClientApp \<times> 's) res option" where
  "TcpClientApp_ConnectionSucceeded send app s =
     TcpClientApp_SendData send (app\<lparr>tc_connected := True\<rparr>) s"

definition TcpClientApp_DataSend ::
  "('s \<Rightarrow> u64 \<Rightarrow> int \<times> 's) \<Rightarrow> TcpClientApp \<Rightarrow> 's \<Rightarrow> (bool \<times> TcpClientApp \<times> 's) res option" where
  "TcpClientApp_DataSend send app s =
     (if tc_connected app then TcpClientApp_SendData send app s else Some (Inr (False, app, s)))"

text \<open>The application methods. \<open>bind\<close> is the result of \<open>m_socket->Bind\<close>; the calls that configure a new
  socket are listed in their order. \<open>ConnectionFailed\<close> only logs; \<open>TxEvent\<close>, \<open>RxEvent\<close> and
  \<open>RecordCongState\<close> hand their arguments to the trace sources, \<open>TxEvent\<close> with the flow of the application.\<close>

datatype tcp_call = SocketSource u32 | SocketFlowId u32 | SocketBind "sock_address option" | SocketConnect "sock_address option"

definition TcpClientApp_StartApplication ::
  "('s \<Rightarrow> u64 \<Rightarrow> int \<times> 's) \<Rightarrow> (sock_address option \<Rightarrow> int) \<Rightarrow> TcpClientApp \<Rightarrow> 's \<Rightarrow>
   (tcp_call list \<times> bool \<times> TcpClientApp \<times> 's) res option" where
  "TcpClientApp_StartApplication send bind app s =
     (if \<not> tc_socket app \<and> bind (tc_local app) = -1 then Some (Inl FatalError)
      else
        let calls = (if tc_socket app then []
              else [SocketSource (tc_source app), SocketFlowId (tc_flowId app), SocketBind (tc_local app), SocketConnect (tc_peer app)]);
            app = app\<lparr>tc_socket := True\<rparr> in
        map_option (\<lambda>m. bindE m (\<lambda>r. Inr (calls, r)))
          (if tc_connected app then TcpClientApp_SendData send app s else Some (Inr (False, app, s))))"

text \<open>The flag says whether the socket is closed.\<close>

definition TcpClientApp_StopApplication :: "TcpClientApp \<Rightarrow> bool \<times> TcpClientApp" where
  "TcpClientApp_StopApplication app = (if tc_socket app then (True, app\<lparr>tc_connected := False\<rparr>) else (False, app))"

definition TcpClientApp_DoDispose :: "TcpClientApp \<Rightarrow> TcpClientApp" where
  "TcpClientApp_DoDispose app = app\<lparr>tc_socket := False, tc_unsentPacket := None\<rparr>"

definition TcpClientApp_TxEvent :: "'p \<Rightarrow> TcpClientApp \<Rightarrow> 'p \<times> u32" where
  "TcpClientApp_TxEvent packet app = (packet, tc_flowId app)"

text \<open>The callbacks ns-3 makes in the life of a flow, in any order.\<close>

datatype tcp_event = Started | Connected | SpaceFreed | Stopped

fun tcp_step :: "('s \<Rightarrow> u64 \<Rightarrow> int \<times> 's) \<Rightarrow> (sock_address option \<Rightarrow> int) \<Rightarrow> tcp_event \<Rightarrow> TcpClientApp \<times> 's \<Rightarrow>
   (TcpClientApp \<times> 's) res option" where
  "tcp_step send bind Started (app, s) =
     map_option (\<lambda>m. bindE m (\<lambda>(calls, closed, r). Inr r)) (TcpClientApp_StartApplication send bind app s)"
| "tcp_step send bind Connected (app, s) =
     map_option (\<lambda>m. bindE m (\<lambda>(closed, r). Inr r)) (TcpClientApp_ConnectionSucceeded send app s)"
| "tcp_step send bind SpaceFreed (app, s) =
     map_option (\<lambda>m. bindE m (\<lambda>(closed, r). Inr r)) (TcpClientApp_DataSend send app s)"
| "tcp_step send bind Stopped (app, s) = Some (Inr (snd (TcpClientApp_StopApplication app), s))"

fun tcp_run :: "('s \<Rightarrow> u64 \<Rightarrow> int \<times> 's) \<Rightarrow> (sock_address option \<Rightarrow> int) \<Rightarrow> tcp_event list \<Rightarrow> TcpClientApp \<times> 's \<Rightarrow>
   (TcpClientApp \<times> 's) res option" where
  "tcp_run send bind [] c = Some (Inr c)"
| "tcp_run send bind (e # es) c = (case tcp_step send bind e c of
     None \<Rightarrow> None | Some (Inl err) \<Rightarrow> Some (Inl err) | Some (Inr c') \<Rightarrow> tcp_run send bind es c')"

section \<open>The socket and the invariant\<close>

text \<open>\<open>Send\<close> refuses with -1, or accepts between one byte and the whole packet; \<open>accepted\<close> counts.\<close>

definition socket_contract :: "('s \<Rightarrow> u64 \<Rightarrow> int \<times> 's) \<Rightarrow> ('s \<Rightarrow> nat) \<Rightarrow> bool" where
  "socket_contract send accepted \<longleftrightarrow>
     (\<forall>s n. 0 < n \<longrightarrow>
        (fst (send s n) = -1 \<and> accepted (snd (send s n)) = accepted s) \<or>
        (0 < fst (send s n) \<and> fst (send s n) \<le> int (unat n) \<and>
         accepted (snd (send s n)) = accepted s + nat (fst (send s n))))"

text \<open>A flow with a limit never promises more than the limit: what is sent and what is cached for
  later fit into it.\<close>

definition tc_wf :: "TcpClientApp \<Rightarrow> bool" where
  "tc_wf app \<longleftrightarrow> 0 < tc_maxBytes app \<and> tc_totBytes app \<le> tc_maxBytes app \<and> tc_sendSize app = 1024 \<and>
     (\<forall>p. tc_unsentPacket app = Some p \<longrightarrow> 0 < p \<and> p \<le> 1024 \<and>
        p \<le> tc_maxBytes app - tc_totBytes app)"

text \<open>The size of the packet a round offers.\<close>

definition tc_offer :: "TcpClientApp \<Rightarrow> u64" where
  "tc_offer app = (case tc_unsentPacket app of Some p \<Rightarrow> p
     | None \<Rightarrow> min (ucast (tc_sendSize app)) (tc_maxBytes app - tc_totBytes app))"

lemma unat_min: "unat (min a b) = min (unat a) (unat (b :: u64))"
  by (simp add: min_def word_le_nat_alt)

lemma tc_offer_bounds:
  assumes "tc_wf app" and "tc_totBytes app < tc_maxBytes app"
  shows "0 < unat (tc_offer app)" and "unat (tc_offer app) \<le> 1024"
    and "unat (tc_offer app) \<le> unat (tc_maxBytes app) - unat (tc_totBytes app)"
proof -
  have diff: "unat (tc_maxBytes app - tc_totBytes app) = unat (tc_maxBytes app) - unat (tc_totBytes app)"
    using assms(2) by (simp add: unat_sub_if' word_less_nat_alt)
  have pos: "0 < unat (tc_maxBytes app) - unat (tc_totBytes app)"
    using assms(2) by (simp add: word_less_nat_alt)
  show "0 < unat (tc_offer app)" "unat (tc_offer app) \<le> 1024"
    "unat (tc_offer app) \<le> unat (tc_maxBytes app) - unat (tc_totBytes app)"
    using assms(1) diff pos
    by (auto simp: tc_offer_def tc_wf_def unat_min word_less_nat_alt word_le_nat_alt split: option.splits)
qed

text \<open>The counter after \<open>r\<close> more bytes, when they fit.\<close>

lemma tot_plus:
  assumes "tc_totBytes app < tc_maxBytes app" and "r \<le> unat (tc_maxBytes app) - unat (tc_totBytes app)"
  shows "unat (tc_totBytes app + word_of_int (int r)) = unat (tc_totBytes app) + r"
proof -
  have "unat (tc_maxBytes app) < 2 ^ 64"
    using unsigned_less [of "tc_maxBytes app"] by simp
  with assms have "unat (tc_totBytes app) + r < 2 ^ 64" "r < 2 ^ 64"
    by (simp_all add: word_less_nat_alt)
  then show ?thesis
    by (simp add: unat_add_lem [THEN iffD1] unat_of_nat)
qed

text \<open>One round: it sends, caches a refused packet, or caches the rest of a packet sent in part.\<close>

lemma SendData_round_cases:
  assumes "tc_wf app" and "tc_totBytes app < tc_maxBytes app" and "socket_contract send accepted"
  obtains (sent) app' s' where "TcpClientApp_SendData_round send app s = Inr (True, app', s')"
      "tc_unsentPacket app' = None"
      "unat (tc_totBytes app') = unat (tc_totBytes app) + unat (tc_offer app)"
      "accepted s' = accepted s + unat (tc_offer app)"
      "tc_maxBytes app' = tc_maxBytes app" "tc_connected app' = tc_connected app" "tc_wf app'"
  | (cached) app' s' r where "TcpClientApp_SendData_round send app s = Inr (False, app', s')"
      "tc_unsentPacket app' \<noteq> None" "r < unat (tc_offer app)"
      "unat (tc_totBytes app') = unat (tc_totBytes app) + r" "accepted s' = accepted s + r"
      "tc_maxBytes app' = tc_maxBytes app" "tc_connected app' = tc_connected app" "tc_wf app'"
proof -
  note b = tc_offer_bounds [OF assms(1,2)]
  obtain a s' where snd: "send s (tc_offer app) = (a, s')" by fastforce
  have off: "tc_offer app = (case tc_unsentPacket app of Some p \<Rightarrow> p
      | None \<Rightarrow> if tc_maxBytes app > 0 then min (ucast (tc_sendSize app)) (tc_maxBytes app - tc_totBytes app)
                 else ucast (tc_sendSize app))"
    using assms(1) by (simp add: tc_offer_def tc_wf_def)
  have round: "TcpClientApp_SendData_round send app s =
     (if ucast (word_of_int a :: u32) = tc_offer app
      then Inr (True, app\<lparr>tc_totBytes := tc_totBytes app + word_of_int a, tc_unsentPacket := None\<rparr>, s')
      else if a = -1 then Inr (False, app\<lparr>tc_unsentPacket := Some (tc_offer app)\<rparr>, s')
      else if a > 0 \<and> ucast (word_of_int a :: u32) < tc_offer app
      then Inr (False, app\<lparr>tc_totBytes := tc_totBytes app + word_of_int a,
                           tc_unsentPacket := Some (tc_offer app - ucast (word_of_int a :: u32))\<rparr>, s')
      else Inl FatalError)"
    unfolding TcpClientApp_SendData_round_def Let_def off [symmetric] snd prod.case ..
  consider "a = -1" "accepted s' = accepted s"
    | "0 < a" "a \<le> int (unat (tc_offer app))" "accepted s' = accepted s + nat a"
    using assms(3) b(1) snd unfolding socket_contract_def
    by (metis fst_conv snd_conv unat_gt_0 word_neq_0_conv)
  then show thesis
  proof cases
    case 1
    have "(ucast (- 1 :: u32) :: u64) = 4294967295"
      by code_simp
    with 1 have "unat (ucast (word_of_int a :: u32) :: u64) = 4294967295"
      by simp
    then have "ucast (word_of_int a :: u32) \<noteq> tc_offer app"
      using b(2) by auto
    then show ?thesis
      using 1 assms(1) b by (intro cached [of "app\<lparr>tc_unsentPacket := Some (tc_offer app)\<rparr>" s' 0])
        (auto simp: round tc_wf_def word_less_nat_alt word_le_nat_alt unat_sub_if')
  next
    case 2
    define r where "r = nat a"
    have r: "a = int r" "0 < r" "r \<le> unat (tc_offer app)" "r < 2 ^ 32"
      using 2 b(2) by (simp_all add: r_def nat_le_iff del: of_nat_unat)
    have u: "unat (ucast (word_of_int a :: u32) :: u64) = r"
      using r by (simp add: unsigned_ucast_eq unat_of_nat take_bit_nat_eq_self)
    have tot: "unat (tc_totBytes app + word_of_int a) = unat (tc_totBytes app) + r"
      using tot_plus [OF assms(2), of r] r b(3) by simp
    show ?thesis
    proof (cases "r = unat (tc_offer app)")
      case True
      then have "ucast (word_of_int a :: u32) = tc_offer app"
        using u by (simp add: word_unat_eq_iff)
      then show ?thesis
        using tot True 2(3) assms(1) b
        by (intro sent [of "app\<lparr>tc_totBytes := tc_totBytes app + word_of_int a, tc_unsentPacket := None\<rparr>" s'])
           (auto simp: round r_def tc_wf_def word_less_nat_alt word_le_nat_alt)
    next
      case False
      with r have lt: "r < unat (tc_offer app)" by simp
      then have "ucast (word_of_int a :: u32) < tc_offer app" "ucast (word_of_int a :: u32) \<noteq> tc_offer app"
        using u by (auto simp: word_less_nat_alt)
      moreover have "unat (tc_offer app - ucast (word_of_int a :: u32)) = unat (tc_offer app) - r"
        using lt u by (simp add: unat_sub_if')
      ultimately show ?thesis
        using tot lt 2 assms(1) b r
        by (intro cached [of "app\<lparr>tc_totBytes := tc_totBytes app + word_of_int a,
              tc_unsentPacket := Some (tc_offer app - ucast (word_of_int a :: u32))\<rparr>" s' r])
           (auto simp: round tc_wf_def word_less_nat_alt word_le_nat_alt unat_sub_if')
    qed
  qed
qed

section \<open>The loop\<close>

lemma SendData_loop_returns:
  assumes "tc_wf app" and "socket_contract send accepted"
  shows "\<exists>app' s'. TcpClientApp_SendData_loop send app s = Some (Inr (app', s')) \<and> tc_wf app' \<and>
     tc_maxBytes app' = tc_maxBytes app \<and> tc_connected app' = tc_connected app \<and>
     (tc_totBytes app' = tc_maxBytes app \<or> tc_unsentPacket app' \<noteq> None) \<and>
     unat (tc_totBytes app') + accepted s = unat (tc_totBytes app) + accepted s'"
  using assms(1)
proof (induction "unat (tc_maxBytes app) - unat (tc_totBytes app)" arbitrary: app s rule: less_induct)
  case less
  show ?case
  proof (cases "tc_totBytes app < tc_maxBytes app")
    case False
    moreover have "tc_maxBytes app \<noteq> 0" "tc_totBytes app \<le> tc_maxBytes app"
      using less.prems by (auto simp: tc_wf_def)
    ultimately show ?thesis
      using less.prems by (subst TcpClientApp_SendData_loop.simps) auto
  next
    case True
    note b = tc_offer_bounds [OF less.prems True]
    from less.prems True assms(2) show ?thesis
    proof (cases rule: SendData_round_cases [where s = s])
      case (sent app' s')
      have "unat (tc_maxBytes app') - unat (tc_totBytes app') < unat (tc_maxBytes app) - unat (tc_totBytes app)"
        using sent b by simp
      from less.hyps [OF this \<open>tc_wf app'\<close>, of s'] sent True show ?thesis
        by (subst TcpClientApp_SendData_loop.simps) auto
    next
      case (cached app' s' r)
      with True show ?thesis
        by (subst TcpClientApp_SendData_loop.simps) auto
    qed
  qed
qed

text \<open>A flow with limit 0 is unlimited: the loop only stops when the socket stops taking whole packets.\<close>

lemma SendData_loop_unlimited:
  assumes "TcpClientApp_SendData_loop send app s = Some r"
  shows "\<not> ((\<forall>s n. fst (send s n) = int (unat n)) \<and> tc_maxBytes app = 0 \<and> tc_sendSize app = 1024 \<and>
    tc_unsentPacket app = None)"
proof (induction send app s r rule: TcpClientApp_SendData_loop.raw_induct)
  case (1 loop send app s r)
  show ?case
  proof (rule notI, elim conjE)
    assume h: "\<forall>s n. fst (send s n) = int (unat n)" "tc_maxBytes app = 0" "tc_sendSize app = 1024"
      "tc_unsentPacket app = None"
    have "fst (send s 1024) = 1024"
      using h(1) by simp
    then have "TcpClientApp_SendData_round send app s =
        Inr (True, app\<lparr>tc_totBytes := tc_totBytes app + 1024, tc_unsentPacket := None\<rparr>, snd (send s 1024))"
      using h(2-4) by (simp add: TcpClientApp_SendData_round_def Let_def case_prod_beta)
    with 1(2) h(2)
    have "loop send (app\<lparr>tc_totBytes := tc_totBytes app + 1024, tc_unsentPacket := None\<rparr>)
        (snd (send s 1024)) = Some r"
      by simp
    then show False
      using 1(1) [of send "app\<lparr>tc_totBytes := tc_totBytes app + 1024, tc_unsentPacket := None\<rparr>"
          "snd (send s 1024)" r] h by simp
  qed
qed (rule assms)

lemma SendData_ok:
  assumes "tc_wf app" and "socket_contract send accepted"
  shows "\<exists>closed app' s'. TcpClientApp_SendData send app s = Some (Inr (closed, app', s')) \<and> tc_wf app' \<and> tc_maxBytes app' = tc_maxBytes app \<and>
           tc_totBytes app' \<le> tc_maxBytes app \<and>
           unat (tc_totBytes app') + accepted s = unat (tc_totBytes app) + accepted s' \<and>
           (closed \<longleftrightarrow> tc_totBytes app' = tc_maxBytes app \<and> tc_connected app) \<and>
           tc_connected app' = (tc_connected app \<and> \<not> closed) \<and>
           (tc_totBytes app' \<noteq> tc_maxBytes app \<longrightarrow> tc_unsentPacket app' \<noteq> None)"
proof -
  obtain app' s' where run: "TcpClientApp_SendData_loop send app s = Some (Inr (app', s'))"
      "tc_wf app'" "tc_maxBytes app' = tc_maxBytes app" "tc_connected app' = tc_connected app"
      "tc_totBytes app' = tc_maxBytes app \<or> tc_unsentPacket app' \<noteq> None"
      "unat (tc_totBytes app') + accepted s = unat (tc_totBytes app) + accepted s'"
    using SendData_loop_returns [OF assms] by blast
  have le: "tc_totBytes app' \<le> tc_maxBytes app"
    using run(2,3) by (simp add: tc_wf_def)
  show ?thesis
  proof (cases "tc_totBytes app' = tc_maxBytes app' \<and> tc_connected app'")
    case True
    then have "TcpClientApp_SendData send app s = Some (Inr (True, app'\<lparr>tc_connected := False\<rparr>, s'))"
      by (simp add: TcpClientApp_SendData_def run(1))
    moreover have "tc_wf (app'\<lparr>tc_connected := False\<rparr>)"
      using run(2) by (simp add: tc_wf_def)
    ultimately show ?thesis
      using True run le by auto
  next
    case False
    then have "TcpClientApp_SendData send app s = Some (Inr (False, app', s'))"
      by (simp add: TcpClientApp_SendData_def run(1))
    then show ?thesis
      using False run le by auto
  qed
qed

text \<open>What every callback keeps: the flow is well-formed, and a complete flow is closed.\<close>

definition tc_life :: "TcpClientApp \<Rightarrow> bool" where
  "tc_life app \<longleftrightarrow> tc_wf app \<and> (tc_totBytes app = tc_maxBytes app \<longrightarrow> \<not> tc_connected app)"

definition tc_advances :: "('s \<Rightarrow> nat) \<Rightarrow> TcpClientApp \<times> 's \<Rightarrow> TcpClientApp \<times> 's \<Rightarrow> bool" where
  "tc_advances accepted = (\<lambda>(app, s) (app', s'). tc_life app' \<and> tc_maxBytes app' = tc_maxBytes app \<and>
     unat (tc_totBytes app') + accepted s = unat (tc_totBytes app) + accepted s')"

lemma SendData_advances:
  assumes "tc_wf app" and "socket_contract send accepted"
  shows "\<exists>closed c. TcpClientApp_SendData send app s = Some (Inr (closed, c)) \<and> tc_advances accepted (app, s) c"
  using SendData_ok [OF assms, of s] by (auto simp: tc_advances_def tc_life_def)

lemma tcp_step_advances:
  assumes "tc_life app" and "socket_contract send accepted" and "\<forall>a. bind a \<noteq> -1"
  shows "\<exists>c. tcp_step send bind e (app, s) = Some (Inr c) \<and> tc_advances accepted (app, s) c"
proof -
  have send: "\<exists>closed c. TcpClientApp_SendData send app' s = Some (Inr (closed, c)) \<and> tc_advances accepted (app, s) c"
    if "tc_wf app'" "tc_maxBytes app' = tc_maxBytes app" "tc_totBytes app' = tc_totBytes app" for app'
    using SendData_advances [OF that(1) assms(2), of s] that(2,3) by (auto simp: tc_advances_def)
  have wf: "tc_wf app" "tc_wf (app\<lparr>tc_socket := x\<rparr>)" "tc_wf (app\<lparr>tc_connected := x\<rparr>)" for x
    using assms(1) by (simp_all add: tc_life_def tc_wf_def)
  have idle: "tc_advances accepted (app, s) (app\<lparr>tc_socket := x\<rparr>, s)" "tc_advances accepted (app, s) (app, s)"
      "tc_advances accepted (app, s) (app\<lparr>tc_connected := False\<rparr>, s)" for x
    using assms(1) by (auto simp: tc_advances_def tc_life_def tc_wf_def)
  show ?thesis
  proof (cases e)
    case Started
    then show ?thesis
      using send [OF wf(2) [of True]] assms(3) idle(1) [of True]
      by (cases "tc_connected app") (auto simp: TcpClientApp_StartApplication_def Let_def)
  next
    case Connected
    then show ?thesis
      using send [OF wf(3) [of True]] by (auto simp: TcpClientApp_ConnectionSucceeded_def)
  next
    case SpaceFreed
    then show ?thesis
      using send [OF wf(1)] idle(2) by (auto simp: TcpClientApp_DataSend_def)
  next
    case Stopped
    then show ?thesis
      using idle(2,3) by (auto simp: TcpClientApp_StopApplication_def)
  qed
qed

lemma tcp_run_advances:
  assumes "socket_contract send accepted" and "\<forall>a. bind a \<noteq> -1" and "tc_life app"
  shows "\<exists>c. tcp_run send bind es (app, s) = Some (Inr c) \<and> tc_advances accepted (app, s) c"
  using assms(3)
proof (induction es arbitrary: app s)
  case Nil
  then show ?case by (simp add: tc_advances_def)
next
  case (Cons e es)
  obtain app' s' where c: "tcp_step send bind e (app, s) = Some (Inr (app', s'))" "tc_advances accepted (app, s) (app', s')"
    using tcp_step_advances [OF Cons.prems assms(1,2), of e s] by auto
  then have "tc_life app'"
    by (simp add: tc_advances_def)
  from Cons.IH [OF this, of s'] c show ?case
    by (auto simp: tc_advances_def)
qed

section \<open>Properties\<close>

text \<open>C30: A limited flow is sent to the byte. For every socket that meets its contract, a call of
  \<open>SendData\<close> on a well-formed flow with a limit returns; the limit is not exceeded; the counter has
  advanced by exactly what the socket accepted; the connection is closed if and only if the flow is complete
  and still connected; and if the flow is not complete, a packet is cached for the next call.\<close>

theorem send_data_exact:
  assumes "tc_wf app" and "socket_contract send accepted"
  shows "\<exists>closed app' s'. TcpClientApp_SendData send app s = Some (Inr (closed, app', s')) \<and> tc_wf app' \<and> tc_maxBytes app' = tc_maxBytes app \<and>
           tc_totBytes app' \<le> tc_maxBytes app \<and>
           unat (tc_totBytes app') + accepted s = unat (tc_totBytes app) + accepted s' \<and>
           (closed \<longleftrightarrow> tc_totBytes app' = tc_maxBytes app \<and> tc_connected app) \<and>
           tc_connected app' = (tc_connected app \<and> \<not> closed) \<and>
           (tc_totBytes app' \<noteq> tc_maxBytes app \<longrightarrow> tc_unsentPacket app' \<noteq> None)"
  by (rule SendData_ok [OF assms])

text \<open>A socket with a buffer: it accepts what fits and refuses when it is full.\<close>

definition buffer_send :: "nat \<Rightarrow> nat \<Rightarrow> u64 \<Rightarrow> int \<times> nat" where
  "buffer_send cap used n =
     (if cap \<le> used then (-1, used)
      else (int (min (unat n) (cap - used)), used + min (unat n) (cap - used)))"

lemma buffer_contract: "socket_contract (buffer_send cap) (\<lambda>used. used)"
  by (auto simp: socket_contract_def buffer_send_def word_less_nat_alt min_def simp del: of_nat_unat)

definition tcp_flow0 :: TcpClientApp where
  "tcp_flow0 = (TcpClientApp_Setup (1, 9) (2, 0) 8 5000 1 (TcpClientApp_new 0 0))\<lparr>tc_connected := True\<rparr>"

theorem send_data_exact_witness:
  "\<exists>closed app' s'. TcpClientApp_SendData (buffer_send 3000) tcp_flow0 0 = Some (Inr (closed, app', s')) \<and>
     unat (tc_totBytes app') = s'"
proof -
  have "tc_wf tcp_flow0"
    by (simp add: tc_wf_def tcp_flow0_def TcpClientApp_Setup_def TcpClientApp_new_def)
  from send_data_exact [OF this buffer_contract, of 3000 0] show ?thesis
    by (auto simp: tcp_flow0_def TcpClientApp_Setup_def TcpClientApp_new_def)
qed

text \<open>C40: A flow is sent exactly once over its whole life. Take a flow of the trace with a size that is not 0, on a
  socket that meets its contract and can be bound. Whatever callbacks ns-3 makes, in whatever order (start,
  connection, space in the buffer, stop), each of them returns; the bytes the socket has accepted are at all times
  the bytes the application has counted and never more than the size of the flow; and when the flow is complete its
  connection is closed.\<close>

theorem tcp_flow_life:
  assumes "socket_contract send accepted" and "\<forall>a. bind a \<noteq> -1" and "0 < bytes"
  shows "\<exists>app s'. tcp_run send bind es (TcpClientApp_Setup peer loc src bytes flowId (TcpClientApp_new m0 s0), s) =
      Some (Inr (app, s')) \<and> accepted s' = accepted s + unat (tc_totBytes app) \<and> unat (tc_totBytes app) \<le> unat bytes \<and>
      (accepted s' = accepted s + unat bytes \<longrightarrow> \<not> tc_connected app)"
proof -
  let ?app = "TcpClientApp_Setup peer loc src bytes flowId (TcpClientApp_new m0 s0)"
  have size: "unat (tc_maxBytes ?app) = unat bytes" "tc_totBytes ?app = 0"
    by (simp_all add: TcpClientApp_Setup_def TcpClientApp_new_def unsigned_ucast_eq take_bit_nat_eq_self
        order_less_trans [OF unsigned_less])
  have "tc_life ?app"
    using assms(3) size by (auto simp: tc_life_def tc_wf_def word_less_nat_alt TcpClientApp_Setup_def TcpClientApp_new_def)
  from tcp_run_advances [OF assms(1,2) this, of es s] size show ?thesis
    by (auto simp: tc_advances_def tc_life_def tc_wf_def word_le_nat_alt word_unat_eq_iff)
qed

theorem tcp_flow_life_witness:
  "\<exists>app s'. tcp_run (buffer_send 3000) (\<lambda>a. 0) [Started, Connected, SpaceFreed, Stopped]
       (TcpClientApp_Setup (1, 9) (2, 0) 8 5000 1 (TcpClientApp_new 0 0), 0) = Some (Inr (app, s')) \<and>
     s' = unat (tc_totBytes app) \<and> s' \<le> 5000"
  using tcp_flow_life [OF buffer_contract, of "\<lambda>a. 0" 5000 3000 "[Started, Connected, SpaceFreed, Stopped]" "(1, 9)" "(2, 0)" 8 1 0 0 0]
  by auto

text \<open>A flow of size 0 is not an empty flow but an unlimited one: on a socket that takes every packet,
  \<open>SendData\<close> does not return.\<close>

theorem zero_size_flow_unlimited:
  assumes "\<forall>s n. fst (send s n) = int (unat n)"
  shows "TcpClientApp_SendData send (TcpClientApp_Setup peer loc src 0 flowId (TcpClientApp_new m0 s0)) s = None"
  using SendData_loop_unlimited [of send "TcpClientApp_Setup peer loc src 0 flowId (TcpClientApp_new m0 s0)" s] assms
  by (cases "TcpClientApp_SendData_loop send (TcpClientApp_Setup peer loc src 0 flowId (TcpClientApp_new m0 s0)) s")
     (auto simp: TcpClientApp_SendData_def TcpClientApp_Setup_def TcpClientApp_new_def)

theorem zero_size_flow_unlimited_witness:
  "TcpClientApp_SendData (\<lambda>(s :: nat) n. (int (unat n), s)) (TcpClientApp_Setup (1, 9) (2, 0) 8 0 1 (TcpClientApp_new 0 0)) 0 = None"
  by (rule zero_size_flow_unlimited) simp

end
