(* ===== verification/Client_App.thy ===== *)
theory Client_App
  imports Tcp_Client Trace_Stats
begin

text \<open>
  \<^verbatim>\<open>client-app.cc\<close>: the application of a container that starts its flows at their times, either as one
  UDP packet or as a TCP application per flow, with the helpers that create both applications. A call of ns-3 is
  an effect; \<open>NanoSeconds (dt)\<close> reads the unsigned difference as a signed number of nanoseconds, and
  \<open>Simulator::Schedule\<close> refuses a negative delay. \<open>DelayJitterEstimation::PrepareTx\<close> puts the sending time
  on the packet; the \<open>TimestampTag\<close> that is added as well is never read and is left out of the packet.
\<close>

section \<open>Operations\<close>

record ClientApp =
  cl_socket :: bool
  cl_running :: bool
  cl_udpMode :: bool
  cl_flows :: "Flow list"
  cl_address :: u32
  cl_sourcePhysicalAddress :: u32
  cl_sourceTag :: u32
  cl_currentIdx :: nat
  cl_packetSize :: u16
  cl_basePort :: u16

datatype client_effect =
    BindUdp u32
  | ScheduleSend int
  | TraceTx Packet u32
  | UdpSendTo Packet sock_address
  | InstallTcp TcpClientApp
  | TraceRx Packet int int u32
  | TraceCong nat nat u32
  | CancelSend
  | CloseUdp

definition CLIENT_PORT :: u16 where
  "CLIENT_PORT = 9"

text \<open>\<open>PacketSize\<close> is an attribute with default 64; what the constructor leaves uninitialised is set by
  \<open>Setup\<close> before it is read.\<close>

definition ClientApp_new :: "u32 \<Rightarrow> ClientApp" where
  "ClientApp_new uninit = \<lparr>cl_socket = False, cl_running = False, cl_udpMode = False, cl_flows = [],
     cl_address = uninit, cl_sourcePhysicalAddress = uninit, cl_sourceTag = uninit, cl_currentIdx = 0,
     cl_packetSize = 64, cl_basePort = CLIENT_PORT\<rparr>"

definition ClientApp_Setup :: "Flow list \<Rightarrow> u32 \<Rightarrow> u32 \<Rightarrow> bool \<Rightarrow> ClientApp \<Rightarrow> ClientApp" where
  "ClientApp_Setup flows address physicalAddress udpMode app =
     app\<lparr>cl_flows := flows, cl_address := address, cl_sourcePhysicalAddress := physicalAddress,
         cl_sourceTag := physicalAddress, cl_udpMode := udpMode\<rparr>"

definition ClientAppHelper_InstallPriv :: "Flow list \<Rightarrow> u32 \<Rightarrow> u32 \<Rightarrow> bool \<Rightarrow> u32 \<Rightarrow> ClientApp" where
  "ClientAppHelper_InstallPriv flows address physicalAddress udpMode uninit =
     ClientApp_Setup flows address physicalAddress udpMode (ClientApp_new uninit)"

definition TcpClientAppHelper_InstallPriv ::
  "sock_address \<Rightarrow> sock_address \<Rightarrow> u32 \<Rightarrow> u32 \<Rightarrow> u32 \<Rightarrow> u32 \<Rightarrow> TcpClientApp" where
  "TcpClientAppHelper_InstallPriv remoteAddress localAddress sourceAddress maxBytes flowId uninit =
     TcpClientApp_Setup remoteAddress localAddress sourceAddress maxBytes flowId (TcpClientApp_new (ucast uninit) uninit)"

definition ClientApp_ScheduleNext :: "ClientApp \<Rightarrow> client_effect list res" where
  "ClientApp_ScheduleNext app =
     bindE (if cl_currentIdx app = 0 then bindE (vec_at (cl_flows app) 0) (\<lambda>f. Inr (flow_ts f))
            else bindE (vec_at (cl_flows app) (cl_currentIdx app)) (\<lambda>f.
                 bindE (vec_at (cl_flows app) (cl_currentIdx app - 1)) (\<lambda>g. Inr (flow_ts f - flow_ts g))))
       (\<lambda>dt. bindE (assertE AssertFail (0 \<le> sint dt)) (\<lambda>_. Inr [ScheduleSend (sint dt)]))"

definition ClientApp_StartApplication :: "ClientApp \<Rightarrow> (ClientApp \<times> client_effect list) res" where
  "ClientApp_StartApplication app =
     (let app = app\<lparr>cl_socket := True, cl_running := True\<rparr> in
      bindE (ClientApp_ScheduleNext app) (\<lambda>effs.
        Inr (app, (if cl_udpMode app then [BindUdp (cl_address app)] else []) @ effs)))"

text \<open>A pending send event is cancelled; cancelling one that has run does nothing.\<close>

definition ClientApp_StopApplication :: "ClientApp \<Rightarrow> ClientApp \<times> client_effect list" where
  "ClientApp_StopApplication app = (app\<lparr>cl_running := False\<rparr>, CancelSend # (if cl_socket app then [CloseUdp] else []))"

definition ClientApp_SendPacket :: "u32 \<Rightarrow> int \<Rightarrow> ClientApp \<Rightarrow> (ClientApp \<times> client_effect list) res" where
  "ClientApp_SendPacket uninit now app =
     bindE (vec_at (cl_flows app) (cl_currentIdx app)) (\<lambda>f.
     let dstAddr = IpUtils_GetContainerVirtualAddress (flow_dst f);
         effs = (if cl_udpMode app
           then let packet = (Packet_create (unat (cl_packetSize app)))\<lparr>pkt_txTime := Some (ns_of now),
                      pkt_flowId := Some (flow_flowId f), pkt_source := Some (cl_sourceTag app), pkt_hops := Some 0\<rparr> in
                [TraceTx packet (flow_flowId f), UdpSendTo packet (dstAddr, CLIENT_PORT)]
           else [InstallTcp (TcpClientAppHelper_InstallPriv (dstAddr, CLIENT_PORT) (cl_address app, 0)
                   (cl_sourcePhysicalAddress app) (flow_size f) (flow_flowId f) uninit)]);
         app = app\<lparr>cl_currentIdx := cl_currentIdx app + 1\<rparr> in
     if cl_currentIdx app < length (cl_flows app)
     then bindE (ClientApp_ScheduleNext app) (\<lambda>next. Inr (app, effs @ next))
     else Inr (app, effs))"

text \<open>The trace forwarders. \<open>lastDelay\<close> is what ns-3's estimator computes for the packet, \<open>flow0\<close> the content
  of a default-constructed flow tag.\<close>

definition ClientApp_TxEvent :: "Packet \<Rightarrow> u32 \<Rightarrow> client_effect list" where
  "ClientApp_TxEvent packet flowId = [TraceTx packet flowId]"

definition ClientApp_RxEvent :: "(Packet \<Rightarrow> int) \<Rightarrow> u32 \<Rightarrow> int \<Rightarrow> Packet \<Rightarrow> client_effect list" where
  "ClientApp_RxEvent lastDelay flow0 now packet = [TraceRx packet (now - lastDelay packet) now
     (case pkt_flowId packet of Some f \<Rightarrow> f | None \<Rightarrow> flow0)]"

definition ClientApp_RecordCongState :: "nat \<Rightarrow> nat \<Rightarrow> u32 \<Rightarrow> client_effect list" where
  "ClientApp_RecordCongState oldState newState flowId = [TraceCong oldState newState flowId]"

section \<open>A run of the client\<close>

text \<open>The simulator runs the scheduled event when its time has come. The log has the effects of every
  \<open>SendPacket\<close> with its time.\<close>

fun pending :: "client_effect list \<Rightarrow> int option" where
  "pending [] = None"
| "pending (ScheduleSend d # es) = Some d"
| "pending (_ # es) = pending es"

lemma SendPacket_progress:
  assumes "ClientApp_SendPacket uninit now app = Inr (app', effs)" and "pending effs = Some d"
  shows "cl_currentIdx app < length (cl_flows app)" and "cl_currentIdx app' = cl_currentIdx app + 1"
    and "cl_flows app' = cl_flows app"
  using assms by (auto simp: ClientApp_SendPacket_def monad_simps Let_def split: if_splits)

function client_run :: "u32 \<Rightarrow> int \<Rightarrow> ClientApp \<Rightarrow> (int \<times> client_effect list) list res" where
  "client_run uninit now app = (case ClientApp_SendPacket uninit now app of
       Inl e \<Rightarrow> Inl e
     | Inr (app', effs) \<Rightarrow> (case pending effs of
           None \<Rightarrow> Inr [(now, effs)]
         | Some d \<Rightarrow> bindE (client_run uninit (now + d) app') (\<lambda>log. Inr ((now, effs) # log))))"
  by pat_completeness auto
termination
proof (relation "measure (\<lambda>(u, now, app). length (cl_flows app) - cl_currentIdx app)")
  fix uninit now app r app' effs d
  assume "ClientApp_SendPacket uninit now app = Inr r" "(app', effs) = r" "pending effs = Some d"
  then show "((uninit, now + d, app'), uninit, now, app) \<in> measure (\<lambda>(u, now, app). length (cl_flows app) - cl_currentIdx app)"
    using SendPacket_progress [of uninit now app app' effs d] by auto
qed simp

declare client_run.simps [simp del]

definition client_life :: "u32 \<Rightarrow> int \<Rightarrow> ClientApp \<Rightarrow> (int \<times> client_effect list) list res" where
  "client_life uninit now app = bindE (ClientApp_StartApplication app) (\<lambda>(app, effs).
     case pending effs of None \<Rightarrow> Inr [] | Some d \<Rightarrow> client_run uninit (now + d) app)"

section \<open>Punctual flows\<close>

text \<open>What \<open>SendPacket\<close> does for one flow, apart from scheduling the next.\<close>

definition flow_effects :: "u32 \<Rightarrow> ClientApp \<Rightarrow> int \<Rightarrow> Flow \<Rightarrow> client_effect list" where
  "flow_effects uninit app now f =
     (if cl_udpMode app
      then let packet = (Packet_create (unat (cl_packetSize app)))\<lparr>pkt_txTime := Some (ns_of now),
             pkt_flowId := Some (flow_flowId f), pkt_source := Some (cl_sourceTag app), pkt_hops := Some 0\<rparr> in
           [TraceTx packet (flow_flowId f), UdpSendTo packet (flow_dst f, CLIENT_PORT)]
      else [InstallTcp (TcpClientAppHelper_InstallPriv (flow_dst f, CLIENT_PORT) (cl_address app, 0)
              (cl_sourcePhysicalAddress app) (flow_size f) (flow_flowId f) uninit)])"

definition not_schedule :: "client_effect \<Rightarrow> bool" where
  "not_schedule e \<longleftrightarrow> (\<forall>d. e \<noteq> ScheduleSend d)"

definition punctual :: "Flow list \<Rightarrow> bool" where
  "punctual flows \<longleftrightarrow> flows \<noteq> [] \<and> sorted (map flow_ts flows) \<and> (\<forall>f \<in> set flows. flow_ts f < 2 ^ 63)"

lemma flow_effects_send: "filter not_schedule (flow_effects uninit app now f) = flow_effects uninit app now f"
    "pending (flow_effects uninit app now f) = None" "pending (flow_effects uninit app now f @ [ScheduleSend d]) = Some d"
  by (simp_all add: flow_effects_def not_schedule_def Let_def)

lemma sint_small: "t < 2 ^ 63 \<Longrightarrow> sint (t :: u64) = int (unat t)"
  using sint_word_of_nat [of "unat t"] by (simp add: word_less_nat_alt)

lemma gap:
  assumes "a \<le> b" and "b < 2 ^ 63"
  shows "sint (b - a :: u64) = int (unat b) - int (unat a)"
proof -
  have "unat (b - a) = unat b - unat a"
    using assms(1) by (simp add: unat_sub_if' word_le_nat_alt)
  moreover have "unat b - unat a < 2 ^ 63"
    using assms(2) by (simp add: word_less_nat_alt)
  ultimately show ?thesis
    using sint_small [of "b - a"] assms(1) by (simp add: word_less_nat_alt word_le_nat_alt)
qed

lemma ScheduleNext_gap:
  assumes "punctual (cl_flows app)" and "cl_currentIdx app < length (cl_flows app)"
  shows "ClientApp_ScheduleNext app = Inr [ScheduleSend (int (unat (flow_ts (cl_flows app ! cl_currentIdx app))) -
    (if cl_currentIdx app = 0 then 0 else int (unat (flow_ts (cl_flows app ! (cl_currentIdx app - 1))))))]"
proof -
  let ?i = "cl_currentIdx app" and ?ts = "\<lambda>i. flow_ts (cl_flows app ! i)"
  have small: "?ts i < 2 ^ 63" if "i < length (cl_flows app)" for i
    using assms(1) that by (auto simp: punctual_def)
  show ?thesis
  proof (cases "?i = 0")
    case True
    then show ?thesis
      using sint_small [OF small [of 0]] assms(2) by (simp add: ClientApp_ScheduleNext_def)
  next
    case False
    then have "?ts (?i - 1) \<le> ?ts ?i"
      using assms sorted_nth_mono [of "map flow_ts (cl_flows app)" "?i - 1" ?i] by (simp add: punctual_def)
    from gap [OF this small] False assms(2) \<open>?ts (?i - 1) \<le> ?ts ?i\<close> show ?thesis
      by (simp add: ClientApp_ScheduleNext_def word_le_def)
  qed
qed

lemma client_run_punctual:
  assumes "punctual (cl_flows app)" and "cl_currentIdx app < length (cl_flows app)"
    and "now = start + int (unat (flow_ts (cl_flows app ! cl_currentIdx app)))"
  shows "returns (client_run uninit now app) (\<lambda>log. map (\<lambda>(t, effs). (t, filter not_schedule effs)) log =
    map (\<lambda>f. (start + int (unat (flow_ts f)), flow_effects uninit app (start + int (unat (flow_ts f))) f))
      (drop (cl_currentIdx app) (cl_flows app)))"
  using assms
proof (induction uninit now app rule: client_run.induct)
  case (1 uninit now app)
  let ?i = "cl_currentIdx app" and ?fs = "cl_flows app" and ?app = "app\<lparr>cl_currentIdx := Suc (cl_currentIdx app)\<rparr>"
  have here: "?fs ! ?i # drop (Suc ?i) ?fs = drop ?i ?fs"
    using "1.prems"(2) by (simp add: Cons_nth_drop_Suc)
  have same: "flow_effects uninit ?app = flow_effects uninit app"
    by (simp add: flow_effects_def fun_eq_iff)
  show ?case
  proof (cases "Suc ?i < length ?fs")
    case False
    then have send: "ClientApp_SendPacket uninit now app = Inr (?app, flow_effects uninit app now (?fs ! ?i))"
      using "1.prems"(2) by (simp add: ClientApp_SendPacket_def flow_effects_def IpUtils_GetContainerVirtualAddress_def Let_def)
    then show ?thesis
      using "1.prems"(3) False by (subst client_run.simps) (simp add: flow_effects_send here [symmetric])
  next
    case True
    define d where "d = int (unat (flow_ts (?fs ! Suc ?i))) - int (unat (flow_ts (?fs ! ?i)))"
    have "ClientApp_ScheduleNext ?app = Inr [ScheduleSend d]"
      using ScheduleNext_gap [of ?app] "1.prems"(1) True by (simp add: d_def)
    then have send: "ClientApp_SendPacket uninit now app = Inr (?app, flow_effects uninit app now (?fs ! ?i) @ [ScheduleSend d])"
      using "1.prems"(2) True
      by (simp add: ClientApp_SendPacket_def flow_effects_def IpUtils_GetContainerVirtualAddress_def Let_def)
    have "returns (client_run uninit (now + d) ?app) (\<lambda>log. map (\<lambda>(t, effs). (t, filter not_schedule effs)) log =
        map (\<lambda>f. (start + int (unat (flow_ts f)), flow_effects uninit app (start + int (unat (flow_ts f))) f)) (drop (Suc ?i) ?fs))"
      using "1.IH" [OF send refl flow_effects_send(3)] "1.prems" True by (simp add: d_def same)
    then show ?thesis
      using send "1.prems"(3) by (subst client_run.simps)
        (auto simp: returns_def flow_effects_send here [symmetric] not_schedule_def)
  qed
qed

lemma client_life_punctual:
  fixes address physicalAddress uninit :: u32 and udpMode :: bool
  assumes "punctual flows"
  defines "app \<equiv> ClientAppHelper_InstallPriv flows address physicalAddress udpMode uninit"
  shows "returns (client_life uninit start app) (\<lambda>log. map (\<lambda>(t, effs). (t, filter not_schedule effs)) log =
    map (\<lambda>f. (start + int (unat (flow_ts f)), flow_effects uninit app (start + int (unat (flow_ts f))) f)) flows)"
proof -
  let ?app = "app\<lparr>cl_socket := True, cl_running := True\<rparr>"
  have app: "cl_flows ?app = flows" "cl_currentIdx ?app = 0"
    by (simp_all add: app_def ClientAppHelper_InstallPriv_def ClientApp_Setup_def ClientApp_new_def)
  have "0 < length flows"
    using assms(1) by (simp add: punctual_def)
  then have "ClientApp_ScheduleNext ?app = Inr [ScheduleSend (int (unat (flow_ts (flows ! 0))))]"
    using ScheduleNext_gap [of ?app] assms(1) app by simp
  then have "client_life uninit start app = client_run uninit (start + int (unat (flow_ts (flows ! 0)))) ?app"
    by (simp add: client_life_def ClientApp_StartApplication_def Let_def)
  moreover have "flow_effects uninit ?app = flow_effects uninit app"
    by (simp add: flow_effects_def fun_eq_iff)
  ultimately show ?thesis
    using client_run_punctual [of ?app "start + int (unat (flow_ts (flows ! 0)))" start uninit] assms(1) app \<open>0 < length flows\<close>
    by simp
qed

lemma update_set: "x \<in> set (AList.update k v m) \<Longrightarrow> x = (k, v) \<or> x \<in> set m"
  by (induction m) (auto split: if_splits)

lemma ParseTrace_loop_nonempty:
  assumes "ParseTrace_loop ids lines st = Inr (flows, stop)" and "\<forall>(k, fs) \<in> set (fst st). fs \<noteq> []"
  shows "\<forall>(k, fs) \<in> set flows. fs \<noteq> []"
  using assms
proof (induction ids lines st rule: ParseTrace_loop.induct)
  case (2 ids line ls st)
  then obtain st' where st': "ParseTrace_line ids line st = Inr st'" "ParseTrace_loop ids ls st' = Inr (flows, stop)"
    by (auto simp: monad_simps)
  then have "\<forall>(k, fs) \<in> set (fst st'). fs \<noteq> []"
    using "2.prems"(2) by (cases st) (auto simp: ParseTrace_line_def Let_def monad_simps push_flow_def dest!: update_set)
  then show ?case
    using "2.IH" [OF st'(2)] by simp
qed simp

lemma TraceSimulation_new_punctual:
  assumes "TraceSimulation_new srt beyond uninit parsed trace params migParams = Inr ts" and "sorts_flows srt"
    and "(k, flows) \<in> set (ts_containerToFlows ts)" and "\<forall>f \<in> set flows. flow_ts f < 2 ^ 63"
  shows "punctual flows"
proof -
  obtain ids lines table stop where parsed: "ParseTrace_loop ids lines ([], 0) = Inr (table, stop)"
      and flows: "ts_containerToFlows ts = map (\<lambda>(k, fs). (k, srt fs)) table"
    using assms(1) by (auto simp: TraceSimulation_new_def TraceSimulation_ParseTrace_def
        TraceSimulation_CalculateDestinations_def monad_simps split: option.splits prod.splits)
  from flows assms(3) obtain fs where fs: "(k, fs) \<in> set table" "flows = srt fs"
    by auto
  then have "fs \<noteq> []"
    using ParseTrace_loop_nonempty [OF parsed] by auto
  then show ?thesis
    using assms(2,4) fs(2) by (metis mset_zero_iff punctual_def sorts_flows_def)
qed

section \<open>Properties\<close>

text \<open>C20: Every flow of the trace is started at its time. Take any container that has flows in a simulation the
  constructor has built, with a sort that sorts and times below \<open>2^63\<close> nanoseconds. The client that is installed
  for it runs to its end without failing, and starts each of its flows exactly once, in the order of their times,
  at exactly the time of the trace: with one packet to the destination container in UDP mode, and otherwise with
  one TCP application that has the size and the identifier of the flow.\<close>

theorem clients_on_time:
  assumes "TraceSimulation_new srt beyond uninit0 parsed trace params migParams = Inr ts" and "sorts_flows srt"
    and "(k, flows) \<in> set (ts_containerToFlows ts)" and "\<forall>f \<in> set flows. flow_ts f < 2 ^ 63"
  shows "returns (client_life uninit start (ClientAppHelper_InstallPriv flows address physicalAddress udpMode uninit))
    (\<lambda>log. map (\<lambda>(t, effs). (t, filter not_schedule effs)) log =
      map (\<lambda>f. (start + int (unat (flow_ts f)),
        flow_effects uninit (ClientAppHelper_InstallPriv flows address physicalAddress udpMode uninit)
          (start + int (unat (flow_ts f))) f)) flows)"
  by (rule client_life_punctual [OF TraceSimulation_new_punctual [OF assms]])

theorem clients_on_time_witness:
  "\<exists>ts flows. TraceSimulation_new (sort_key flow_ts) [77] 0 hosts2 (Some [row_line row0]) params2 mig0 = Inr ts \<and>
     (0, flows) \<in> set (ts_containerToFlows ts) \<and>
     returns (client_life 0 0 (ClientAppHelper_InstallPriv flows 0 8 False 0)) (\<lambda>log.
       map (\<lambda>(t, effs). (t, filter not_schedule effs)) log =
         [(5000, [InstallTcp (TcpClientAppHelper_InstallPriv (1, CLIENT_PORT) (0, 0) 8 1500 7 0)])])"
proof -
  obtain ts where ts: "TraceSimulation_new (sort_key flow_ts) [77] 0 hosts2 (Some [row_line row0]) params2 mig0 = Inr ts"
      "map_of (ts_containerToFlows ts) 0 = Some [\<lparr>flow_ts = 5000, flow_dst = 1, flow_flowId = 7, flow_size = 1500\<rparr>]"
    using simulation2 by blast
  note member = map_of_SomeD [OF ts(2)]
  have "sorts_flows (sort_key flow_ts)"
    by (simp add: sorts_flows_def)
  from clients_on_time [OF ts(1) this, of 0 "[\<lparr>flow_ts = 5000, flow_dst = 1, flow_flowId = 7, flow_size = 1500\<rparr>]" 0 0 0 8 False]
  have "returns (client_life 0 0 (ClientAppHelper_InstallPriv [\<lparr>flow_ts = 5000, flow_dst = 1, flow_flowId = 7, flow_size = 1500\<rparr>] 0 8 False 0))
    (\<lambda>log. map (\<lambda>(t, effs). (t, filter not_schedule effs)) log =
         [(5000, [InstallTcp (TcpClientAppHelper_InstallPriv (1, CLIENT_PORT) (0, 0) 8 1500 7 0)])])"
    by (simp add: member flow_effects_def ClientAppHelper_InstallPriv_def ClientApp_Setup_def ClientApp_new_def)
  with ts(1) member show ?thesis by blast
qed

end
