(* ===== verification/App_Helpers.thy ===== *)
theory App_Helpers
  imports Controller_Net Client_App Tcp_Client
begin

text \<open>
  The helpers that put applications on nodes: \<^verbatim>\<open>include/app-helper.h\<close>, of which the other helpers repeat \<open>Install\<close>,
  and \<open>Install\<close> of \<^verbatim>\<open>include/p4-switch-app-helper.h\<close>, \<^verbatim>\<open>include/switch-app-helper.h\<close>,
  \<^verbatim>\<open>include/client-app-helper.h\<close>, \<^verbatim>\<open>include/tcp-client-helper.h\<close> and \<^verbatim>\<open>include/ilp-controller-app-helper.h\<close>. The state is
  the list of applications of each node; \<open>Install\<close> of a single node is \<open>Install\<close> of a container with that node.
\<close>

section \<open>Installation\<close>

text \<open>\<open>create\<close> is what \<open>InstallPriv\<close> makes for a node, before \<open>AddApplication\<close>.\<close>

fun helper_install :: "('n \<Rightarrow> 'a res) \<Rightarrow> 'n list \<Rightarrow> ('n \<Rightarrow> 'a list) \<Rightarrow> ('a list \<times> ('n \<Rightarrow> 'a list)) res" where
  "helper_install create [] on = Inr ([], on)"
| "helper_install create (n # ns) on = bindE (create n) (\<lambda>app.
     bindE (helper_install create ns (on(n := on n @ [app]))) (\<lambda>(apps, on). Inr (app # apps, on)))"

text \<open>The generic helper: an object factory with the type of the application and the attributes set so far.\<close>

record ObjectFactory =
  of_typeId :: string
  of_attributes :: "(string \<times> setting) list"

definition AppHelper_new :: "string \<Rightarrow> ObjectFactory" where
  "AppHelper_new typeId = \<lparr>of_typeId = typeId, of_attributes = []\<rparr>"

definition AppHelper_SetAttribute :: "string \<Rightarrow> setting \<Rightarrow> ObjectFactory \<Rightarrow> ObjectFactory" where
  "AppHelper_SetAttribute name val factory = factory\<lparr>of_attributes := AList.update name val (of_attributes factory)\<rparr>"

definition AppHelper_Install ::
  "(ObjectFactory \<Rightarrow> 'a res) \<Rightarrow> ObjectFactory \<Rightarrow> 'n list \<Rightarrow> ('n \<Rightarrow> 'a list) \<Rightarrow> ('a list \<times> ('n \<Rightarrow> 'a list)) res" where
  "AppHelper_Install create factory = helper_install (\<lambda>_. create factory)"

definition P4SwitchAppHelper_Install ::
  "P4SwitchAttributes \<Rightarrow> ('n \<Rightarrow> u32) \<Rightarrow> ('n \<Rightarrow> u32) \<Rightarrow> u32 list \<Rightarrow> u32 \<Rightarrow> SwitchType \<Rightarrow> Mode \<Rightarrow> u32 \<Rightarrow> 'n list \<Rightarrow>
   ('n \<Rightarrow> P4Switch list) \<Rightarrow> (P4Switch list \<times> ('n \<Rightarrow> P4Switch list)) res" where
  "P4SwitchAppHelper_Install attrs nodeId rnd gwAddresses switchAddress switchType simMode podCount = helper_install
     (\<lambda>n. P4SwitchAppHelper_InstallPriv attrs (nodeId n) (rnd n) gwAddresses switchAddress switchType simMode podCount)"

definition SwitchAppHelper_Install ::
  "int \<Rightarrow> ('n \<Rightarrow> u32) \<Rightarrow> Mode \<Rightarrow> u32 list \<Rightarrow> Mode \<Rightarrow> 'n list \<Rightarrow> ('n \<Rightarrow> SwitchApp list) \<Rightarrow> (SwitchApp list \<times> ('n \<Rightarrow> SwitchApp list)) res" where
  "SwitchAppHelper_Install memorySize nodeId uninit gwAddresses simMode = helper_install
     (\<lambda>n. Inr (SwitchAppHelper_InstallPriv memorySize (nodeId n) uninit gwAddresses simMode))"

definition ClientAppHelper_Install ::
  "Flow list \<Rightarrow> u32 \<Rightarrow> u32 \<Rightarrow> bool \<Rightarrow> u32 \<Rightarrow> 'n list \<Rightarrow> ('n \<Rightarrow> ClientApp list) \<Rightarrow> (ClientApp list \<times> ('n \<Rightarrow> ClientApp list)) res" where
  "ClientAppHelper_Install flows address physicalAddress udpMode uninit = helper_install
     (\<lambda>_. Inr (ClientAppHelper_InstallPriv flows address physicalAddress udpMode uninit))"

definition TcpClientAppHelper_Install ::
  "sock_address \<Rightarrow> sock_address \<Rightarrow> u32 \<Rightarrow> u32 \<Rightarrow> u32 \<Rightarrow> u32 \<Rightarrow> 'n list \<Rightarrow> ('n \<Rightarrow> TcpClientApp list) \<Rightarrow>
   (TcpClientApp list \<times> ('n \<Rightarrow> TcpClientApp list)) res" where
  "TcpClientAppHelper_Install remoteAddress localAddress sourceAddress maxBytes flowId uninit = helper_install
     (\<lambda>_. Inr (TcpClientAppHelper_InstallPriv remoteAddress localAddress sourceAddress maxBytes flowId uninit))"

definition IlpControllerAppHelper_Install ::
  "IlpControllerAttributes \<Rightarrow> ContainerGroups \<Rightarrow> nat \<Rightarrow> nat \<Rightarrow> nat \<Rightarrow> nat \<Rightarrow> (u32 \<rightharpoonup> u32) \<Rightarrow> (string \<times> u32) list \<Rightarrow> (u32 \<times> u32) list \<Rightarrow> u32 list \<Rightarrow>
   'n list \<Rightarrow> ('n \<Rightarrow> IlpControllerApp list) \<Rightarrow> (IlpControllerApp list \<times> ('n \<Rightarrow> IlpControllerApp list)) res" where
  "IlpControllerAppHelper_Install attrs containerGroups leafCount spineCount coreCount podWidth virtualToPhysical containerToId gws gwAddresses =
     helper_install (\<lambda>_. Inr (IlpControllerAppHelper_InstallPriv attrs containerGroups leafCount spineCount coreCount podWidth
       virtualToPhysical containerToId gws gwAddresses))"

section \<open>What installation does\<close>

text \<open>One application per node of the container, in its order, after those the node has.\<close>

lemma helper_install_all:
  "\<forall>n \<in> set ns. create n = Inr (f n) \<Longrightarrow>
   helper_install create ns on = Inr (map f ns, \<lambda>n. on n @ map f (filter (\<lambda>m. m = n) ns))"
  by (induction ns arbitrary: on) (simp_all add: fun_eq_iff)

text \<open>In mode Controller the helper puts on the leaves, spines and cores exactly the switches the simulation starts with.\<close>

lemma installed_controlled:
  assumes "SimMode (sb_simParameters sb) = Controller"
  shows "SwitchAppHelper_Install memorySize (node_id sb) uninit (sb_gwAddresses sb) Controller (switch_nodes sb) (\<lambda>_. []) =
    Inr (start_controlled memorySize uninit sb (concat (map (host_apps ipv4 ts) ps) @ other_apps ipv4' sb),
      \<lambda>n. map (\<lambda>x. SwitchAppHelper_InstallPriv memorySize (node_id sb x) uninit (sb_gwAddresses sb) Controller) (filter (\<lambda>m. m = n) (switch_nodes sb)))"
  unfolding SwitchAppHelper_Install_def controlled_switches [OF assms] 
  by (subst helper_install_all [where f = "\<lambda>x. SwitchAppHelper_InstallPriv memorySize (node_id sb x) uninit (sb_gwAddresses sb) Controller"]) simp_all

text \<open>A programmable switch is installed on every node of the container, with the address the helper has, so that no
  container of more than one node may share a helper: the set-up makes one helper per switch.\<close>

lemma installed_programmable:
  assumes "0 < at_MemorySize attrs" and "0 \<le> at_BloomFilterSize attrs"
  shows "returns (P4SwitchAppHelper_Install attrs nodeId rnd gws a t m podCount ns on) (\<lambda>(sws, on').
    map p4s_switchAddress sws = replicate (length ns) a \<and> (\<forall>n. length (on' n) = length (on n) + count_list ns n))"
proof (induction ns arbitrary: on)
  case (Cons n ns)
  obtain sw where sw: "P4SwitchApp_Setup attrs (nodeId n) (rnd n) gws a t m podCount = Inr sw"
    using Setup_ok [OF assms, of "nodeId n" "rnd n" gws a t m podCount] unfolding returns_def by blast
  moreover have "p4s_switchAddress sw = a"
    using sw by (auto simp: P4SwitchApp_Setup_def monad_simps)
  ultimately show ?case
    using Cons.IH [of "on(n := on n @ [sw])"]
    by (auto simp: P4SwitchAppHelper_Install_def P4SwitchAppHelper_InstallPriv_def returns_bind_iff simp del: fun_upd_apply
        elim!: returns_mono) simp_all
qed (simp add: P4SwitchAppHelper_Install_def)

lemma attributes_set: "map_of (of_attributes (AppHelper_SetAttribute name val factory)) = (map_of (of_attributes factory))(name \<mapsto> val)"
  by (simp add: AppHelper_SetAttribute_def update_conv')

end
