(* ===== verification/Trace_Report.thy ===== *)
theory Trace_Report
  imports Trace_Stats
begin

text \<open>
  The report of a run: \<open>StopSimulation\<close> and \<open>CreatePtree\<close> of \<^verbatim>\<open>trace-sim.cc\<close>, which write the counters of
  \<open>Trace_Stats\<close> into a property tree. The tree is a list of named entries in the order of insertion, numbers are
  the decimal strings \<open>put\<close> stores. \<open>quot a b\<close> stands for the text of the floating-point quotient of \<open>a\<close> by \<open>b\<close>
  and \<open>us t\<close> for the text of a time in microseconds; the file and its JSON syntax belong to the library. The
  lemmas show that what is printed is what has happened in the run.
\<close>

section \<open>Property trees\<close>

text \<open>A path given to \<open>put\<close> has no dots here: it replaces the first entry of that name or adds one at the end.\<close>

datatype ptree = PData string | PTree "(string \<times> string) list"

definition TraceSimulation_CreatePtree :: "(u32 \<times> u64) list \<Rightarrow> (string \<times> string) list" where
  "TraceSimulation_CreatePtree m =
     fold (\<lambda>(k, v). AList.update (to_string (unat k)) (to_string (unat v))) m []"

text \<open>\<open>misdeliveryCount\<close> and \<open>lastMisdelivered\<close> are the two cells that all tunnel endpoints share.\<close>

definition TraceSimulation_StopSimulation ::
  "(u64 \<Rightarrow> u64 \<Rightarrow> string) \<Rightarrow> (nat \<Rightarrow> string) \<Rightarrow> u32 \<Rightarrow> nat \<Rightarrow> TraceSimulation \<Rightarrow> (string \<times> ptree) list" where
  "TraceSimulation_StopSimulation quot us misdeliveryCount lastMisdelivered ts =
     (let num = (\<lambda>v :: u64. PData (to_string (unat v)));
          flows = word_of_nat (length (ts_flowStats ts));
          json = [] in
      let json = AList.update ''total_tx_packets'' (num (ts_sentPackets ts)) json;
          json = AList.update ''total_rx_packets'' (num (ts_receivedPackets ts)) json;
          json = AList.update ''total_dropped_packets'' (num (ts_droppedPackets ts)) json;
          json = AList.update ''total_gw_packets'' (num (ts_gwPackets ts)) json;
          json = AList.update ''total_learning_packets'' (num (ts_generatedLearning ts)) json;
          json = AList.update ''total_invalidation_packets'' (num (ts_generatedInvalidation ts)) json;
          json = AList.update ''total_misdelivered_packets'' (PData (to_string (unat misdeliveryCount))) json;
          json = AList.update ''last_misdelivered_packet'' (PData (us lastMisdelivered)) json;
          json = json @ [(''switch_to_processed_packets'', PTree (TraceSimulation_CreatePtree (ts_switchToProcessedPackets ts)))];
          json = json @ [(''switch_to_processed_bytes'', PTree (TraceSimulation_CreatePtree (ts_switchToProcessedBytes ts)))];
          json = json @ [(''switch_to_hits'', PTree (TraceSimulation_CreatePtree (ts_switchToCacheHits ts)))];
          json = json @ [(''switch_to_first_hits'', PTree (TraceSimulation_CreatePtree (ts_switchToFirstCacheHits ts)))] in
      case TraceSimulation_totals ts of (totalFct, totalFirstPacketLatency) \<Rightarrow>
      let json = AList.update ''avg_fpl'' (PData (quot totalFirstPacketLatency flows)) json;
          json = AList.update ''avg_fct'' (PData (quot totalFct flows)) json;
          json = AList.update ''avg_packet_latency'' (PData (quot (ts_totalPacketLatency ts) (ts_receivedPackets ts))) json in
      AList.update ''avg_packet_hops'' (PData (quot (ts_totalPacketHops ts) (ts_receivedPackets ts))) json)"

section \<open>Entries of the report\<close>

definition report_value :: "(string \<times> ptree) list \<Rightarrow> string \<Rightarrow> string option" where
  "report_value json k = (case map_of json k of Some (PData s) \<Rightarrow> Some s | _ \<Rightarrow> None)"

definition report_entry :: "(string \<times> ptree) list \<Rightarrow> string \<Rightarrow> u32 \<Rightarrow> string option" where
  "report_entry json k switchId =
     (case map_of json k of Some (PTree m) \<Rightarrow> map_of m (to_string (unat switchId)) | _ \<Rightarrow> None)"

lemma CreatePtree_entry:
  assumes "distinct (map fst m)"
  shows "map_of (TraceSimulation_CreatePtree m) (to_string (unat s)) = map_option (to_string \<circ> unat) (map_of m s)"
proof -
  have "map_of (fold (\<lambda>(k, v). AList.update (to_string (unat k)) (to_string (unat v))) xs t) (to_string (unat s)) =
      (case map_of xs s of None \<Rightarrow> map_of t (to_string (unat s)) | Some v \<Rightarrow> Some (to_string (unat v)))"
    if "distinct (map fst xs)" for xs :: "(u32 \<times> u64) list" and t
    using that
  proof (induction xs arbitrary: t)
    case (Cons e xs)
    obtain k v where e: "e = (k, v)"
      by (cases e)
    show ?case
    proof (cases "k = s")
      case True
      with Cons.prems e have "map_of xs s = None"
        by (simp add: map_of_eq_None_iff)
      with Cons e True show ?thesis
        by (simp add: AList.update_conv')
    next
      case False
      then have "unat k \<noteq> unat s"
        by (simp add: word_unat_eq_iff)
      with Cons e False show ?thesis
        by (simp add: AList.update_conv' split: option.splits)
    qed
  qed simp
  from this [OF assms] show ?thesis
    by (simp add: TraceSimulation_CreatePtree_def split: option.splits)
qed

text \<open>The entries one after the other.\<close>

definition report_of :: "(u64 \<Rightarrow> u64 \<Rightarrow> string) \<Rightarrow> (nat \<Rightarrow> string) \<Rightarrow> u32 \<Rightarrow> nat \<Rightarrow> TraceSimulation \<Rightarrow> (string \<times> ptree) list" where
  "report_of quot us mc lm ts =
     map (\<lambda>(k, v). (k, PData v))
      [(''total_tx_packets'', to_string (unat (ts_sentPackets ts))),
       (''total_rx_packets'', to_string (unat (ts_receivedPackets ts))),
       (''total_dropped_packets'', to_string (unat (ts_droppedPackets ts))),
       (''total_gw_packets'', to_string (unat (ts_gwPackets ts))),
       (''total_learning_packets'', to_string (unat (ts_generatedLearning ts))),
       (''total_invalidation_packets'', to_string (unat (ts_generatedInvalidation ts))),
       (''total_misdelivered_packets'', to_string (unat mc)),
       (''last_misdelivered_packet'', us lm)] @
     map (\<lambda>(k, m). (k, PTree (TraceSimulation_CreatePtree m)))
      [(''switch_to_processed_packets'', ts_switchToProcessedPackets ts),
       (''switch_to_processed_bytes'', ts_switchToProcessedBytes ts),
       (''switch_to_hits'', ts_switchToCacheHits ts),
       (''switch_to_first_hits'', ts_switchToFirstCacheHits ts)] @
     map (\<lambda>(k, v). (k, PData v))
      [(''avg_fpl'', quot (snd (TraceSimulation_totals ts)) (word_of_nat (length (ts_flowStats ts)))),
       (''avg_fct'', quot (fst (TraceSimulation_totals ts)) (word_of_nat (length (ts_flowStats ts)))),
       (''avg_packet_latency'', quot (ts_totalPacketLatency ts) (ts_receivedPackets ts)),
       (''avg_packet_hops'', quot (ts_totalPacketHops ts) (ts_receivedPackets ts))]"

lemma StopSimulation_report: "TraceSimulation_StopSimulation quot us mc lm ts = report_of quot us mc lm ts"
  by (simp add: TraceSimulation_StopSimulation_def report_of_def Let_def split: prod.splits)

section \<open>Counters per switch\<close>

fun processed_at :: "u32 \<Rightarrow> stat_event \<Rightarrow> Packet option" where
  "processed_at s (ProcessedE p s') = (if s' = s then Some p else None)"
| "processed_at s _ = None"

fun hit_at :: "u32 \<Rightarrow> stat_event \<Rightarrow> Packet option" where
  "hit_at s (CacheHitE p s') = (if s' = s then Some p else None)"
| "hit_at s _ = None"

text \<open>The entry of a switch after its packets: absent without any, else their sum under \<open>w\<close>.\<close>

definition tally :: "(Packet \<Rightarrow> u64) \<Rightarrow> Packet list \<Rightarrow> u64 option" where
  "tally w ps = (if ps = [] then None else Some (sum_list (map w ps)))"

lemma count_up_map: "map_of (count_up k d m) = (map_of m)(k \<mapsto> (case map_of m k of None \<Rightarrow> 0 | Some v \<Rightarrow> v) + d)"
  by (simp add: count_up_def AList.update_conv')

lemma distinct_count_up: "distinct (map fst m) \<Longrightarrow> distinct (map fst (count_up k d m))"
  by (simp add: count_up_def AList.distinct_update)

lemma tally_run:
  assumes step: "\<And>e ts. map_of (c (stats_step e ts)) s =
      (case sel e of None \<Rightarrow> map_of (c ts) s | Some p \<Rightarrow> Some ((case map_of (c ts) s of None \<Rightarrow> 0 | Some v \<Rightarrow> v) + w p))"
    and "map_of (c ts) s = tally w ps"
  shows "map_of (c (fold stats_step evs ts)) s = tally w (ps @ List.map_filter sel evs)"
  using assms(2)
proof (induction evs arbitrary: ts ps)
  case (Cons e evs)
  show ?case
  proof (cases "sel e")
    case None
    with Cons.prems have "map_of (c (stats_step e ts)) s = tally w ps"
      by (simp add: step)
    from Cons.IH [OF this] None show ?thesis
      by (simp add: List.map_filter_simps)
  next
    case (Some p)
    with Cons.prems have "map_of (c (stats_step e ts)) s = tally w (ps @ [p])"
      by (simp add: step tally_def split: if_splits)
    from Cons.IH [OF this] Some show ?thesis
      by (simp add: List.map_filter_simps)
  qed
qed (simp add: List.map_filter_simps)

lemma processed_step:
  "map_of (ts_switchToProcessedPackets (stats_step e ts)) s = (case processed_at s e of None \<Rightarrow> map_of (ts_switchToProcessedPackets ts) s
     | Some p \<Rightarrow> Some ((case map_of (ts_switchToProcessedPackets ts) s of None \<Rightarrow> 0 | Some v \<Rightarrow> v) + 1))"
  "map_of (ts_switchToProcessedBytes (stats_step e ts)) s = (case processed_at s e of None \<Rightarrow> map_of (ts_switchToProcessedBytes ts) s
     | Some p \<Rightarrow> Some ((case map_of (ts_switchToProcessedBytes ts) s of None \<Rightarrow> 0 | Some v \<Rightarrow> v) + word_of_nat (Packet_GetSize p)))"
  by (cases e; auto simp: stats_defs count_up_map split: option.splits)+

lemma hit_step:
  "map_of (ts_switchToCacheHits (stats_step e ts)) s = (case hit_at s e of None \<Rightarrow> map_of (ts_switchToCacheHits ts) s
     | Some p \<Rightarrow> Some ((case map_of (ts_switchToCacheHits ts) s of None \<Rightarrow> 0 | Some v \<Rightarrow> v) + 1))"
  by (cases e; auto simp: stats_defs count_up_map split: option.splits)+

definition switch_keys :: "TraceSimulation \<Rightarrow> bool" where
  "switch_keys ts \<longleftrightarrow> distinct (map fst (ts_switchToProcessedPackets ts)) \<and> distinct (map fst (ts_switchToProcessedBytes ts)) \<and>
     distinct (map fst (ts_switchToCacheHits ts))"

lemma switch_keys_run: "switch_keys ts \<Longrightarrow> switch_keys (fold stats_step evs ts)"
proof (induction evs arbitrary: ts)
  case (Cons e evs)
  have "switch_keys (stats_step e ts)"
    using Cons.prems by (cases e) (auto simp: stats_defs switch_keys_def distinct_count_up split: option.splits)
  from Cons.IH [OF this] show ?case by simp
qed simp

lemma new_counters:
  assumes "TraceSimulation_new srt beyond uninit parsed trace params migParams = Inr ts"
  shows "ts_flowStats ts = []" "ts_sentPackets ts = 0" "ts_receivedPackets ts = 0" "ts_droppedPackets ts = 0"
    "ts_gwPackets ts = 0" "ts_generatedLearning ts = 0" "ts_generatedInvalidation ts = 0"
    "ts_switchToProcessedPackets ts = []" "ts_switchToProcessedBytes ts = []" "ts_switchToCacheHits ts = []"
  using assms by (auto simp: TraceSimulation_new_def TraceSimulation_CalculateDestinations_def monad_simps)

lemma report_lookup:
  "report_value (report_of quot us mc lm ts) ''total_tx_packets'' = Some (to_string (unat (ts_sentPackets ts)))"
  "report_value (report_of quot us mc lm ts) ''total_rx_packets'' = Some (to_string (unat (ts_receivedPackets ts)))"
  "report_value (report_of quot us mc lm ts) ''total_dropped_packets'' = Some (to_string (unat (ts_droppedPackets ts)))"
  "report_value (report_of quot us mc lm ts) ''total_gw_packets'' = Some (to_string (unat (ts_gwPackets ts)))"
  "report_value (report_of quot us mc lm ts) ''total_learning_packets'' = Some (to_string (unat (ts_generatedLearning ts)))"
  "report_value (report_of quot us mc lm ts) ''total_invalidation_packets'' = Some (to_string (unat (ts_generatedInvalidation ts)))"
  "report_value (report_of quot us mc lm ts) ''avg_fct'' =
     Some (quot (fst (TraceSimulation_totals ts)) (word_of_nat (length (ts_flowStats ts))))"
  "report_value (report_of quot us mc lm ts) ''avg_fpl'' =
     Some (quot (snd (TraceSimulation_totals ts)) (word_of_nat (length (ts_flowStats ts))))"
  by (simp_all add: report_value_def report_of_def)

lemma report_switch:
  assumes "switch_keys ts"
  shows "report_entry (report_of quot us mc lm ts) ''switch_to_processed_packets'' s =
      map_option (to_string \<circ> unat) (map_of (ts_switchToProcessedPackets ts) s)"
    "report_entry (report_of quot us mc lm ts) ''switch_to_processed_bytes'' s =
      map_option (to_string \<circ> unat) (map_of (ts_switchToProcessedBytes ts) s)"
    "report_entry (report_of quot us mc lm ts) ''switch_to_hits'' s =
      map_option (to_string \<circ> unat) (map_of (ts_switchToCacheHits ts) s)"
  using assms by (simp_all add: report_entry_def report_of_def CreatePtree_entry switch_keys_def)

section \<open>Properties\<close>

text \<open>C15: The report says what happened. After any run of the callbacks on a new simulation, the totals of the report
  are the decimal numbers of the packets sent, dropped, seen by gateways and generated and the sum of the packets
  received per flow, and each switch has exactly its processed packets, its processed bytes and its hits; a switch
  without any has no entry.\<close>

theorem report_exact:
  assumes "TraceSimulation_new srt beyond uninit parsed trace params migParams = Inr ts"
  shows "let ts' = fold stats_step evs ts; json = TraceSimulation_StopSimulation quot us mc lm ts' in
    report_value json ''total_tx_packets'' = Some (to_string (unat (num is_send evs))) \<and>
    report_value json ''total_rx_packets'' = Some (to_string (unat (counts (ts_flowStats ts')))) \<and>
    report_value json ''total_dropped_packets'' = Some (to_string (unat (num is_drop evs))) \<and>
    report_value json ''total_gw_packets'' = Some (to_string (unat (num (\<lambda>e. e = GatewayRxE) evs))) \<and>
    report_value json ''total_learning_packets'' = Some (to_string (unat (num (\<lambda>e. e = LearningE) evs))) \<and>
    report_value json ''total_invalidation_packets'' = Some (to_string (unat (num (\<lambda>e. e = InvalidationE) evs))) \<and>
    (\<forall>s. let processed = List.map_filter (processed_at s) evs; hits = List.map_filter (hit_at s) evs in
      report_entry json ''switch_to_processed_packets'' s = map_option (to_string \<circ> unat) (tally (\<lambda>p. 1) processed) \<and>
      report_entry json ''switch_to_processed_bytes'' s =
        map_option (to_string \<circ> unat) (tally (\<lambda>p. word_of_nat (Packet_GetSize p)) processed) \<and>
      report_entry json ''switch_to_hits'' s = map_option (to_string \<circ> unat) (tally (\<lambda>p. 1) hits))"
proof -
  note new = new_counters [OF assms]
  note counters = counters_exact [OF assms, of evs, unfolded Let_def]
  have "switch_keys (fold stats_step evs ts)"
    by (intro switch_keys_run) (simp add: switch_keys_def new)
  note switch = report_switch [OF this]
  have "map_of (ts_switchToProcessedPackets (fold stats_step evs ts)) s = tally (\<lambda>p. 1) ([] @ List.map_filter (processed_at s) evs)"
    "map_of (ts_switchToProcessedBytes (fold stats_step evs ts)) s =
       tally (\<lambda>p. word_of_nat (Packet_GetSize p)) ([] @ List.map_filter (processed_at s) evs)"
    "map_of (ts_switchToCacheHits (fold stats_step evs ts)) s = tally (\<lambda>p. 1) ([] @ List.map_filter (hit_at s) evs)" for s
    by (rule tally_run; simp add: processed_step hit_step new tally_def)+
  then show ?thesis
    unfolding StopSimulation_report Let_def switch report_lookup using counters by simp
qed

text \<open>A quotient written as a fraction stands for its text in the examples.\<close>

definition ratio_text :: "u64 \<Rightarrow> u64 \<Rightarrow> string" where
  "ratio_text a b = to_string (unat a) @ ''/'' @ to_string (unat b)"

definition switch_events :: "stat_event list" where
  "switch_events = [ClientTxE 10 7, ProcessedE (Packet_create 100) 3, CacheHitE (Packet_create 100) 3, LearningE,
     ProcessedE (Packet_create 50) 3, SinkRxE (Packet_create 0) 10 60 7]"

theorem report_exact_witness:
  "\<exists>ts. TraceSimulation_new (sort_key flow_ts) [77] 0 hosts2 (Some [row_line row0]) params2 mig0 = Inr ts \<and>
     (let json = TraceSimulation_StopSimulation ratio_text to_string 0 0 (fold stats_step switch_events ts) in
      report_value json ''total_tx_packets'' = Some ''1'' \<and> report_value json ''total_learning_packets'' = Some ''1'' \<and>
      report_entry json ''switch_to_processed_bytes'' 3 = Some ''150'' \<and> report_entry json ''switch_to_hits'' 3 = Some ''1'' \<and>
      report_entry json ''switch_to_hits'' 4 = None)"
proof -
  obtain ts where ts: "TraceSimulation_new (sort_key flow_ts) [77] 0 hosts2 (Some [row_line row0]) params2 mig0 = Inr ts"
    using simulation2 by blast
  have ev: "num is_send switch_events = 1" "num (\<lambda>e. e = LearningE) switch_events = 1"
      "List.map_filter (processed_at 3) switch_events = [Packet_create 100, Packet_create 50]"
      "List.map_filter (hit_at 3) switch_events = [Packet_create 100]" "List.map_filter (hit_at 4) switch_events = []"
    by (simp_all add: switch_events_def num_def List.map_filter_simps)
  have dec: "to_string (Suc 0) = ''1''" "to_string 150 = ''150''"
    by code_simp+
  have size: "Packet_GetSize (Packet_create 100) = 100" "Packet_GetSize (Packet_create 50) = 50"
    by (simp_all add: Packet_GetSize_def Packet_create_def)
  note exact = report_exact [OF ts, of switch_events ratio_text to_string 0 0, unfolded Let_def]
  have "report_value (TraceSimulation_StopSimulation ratio_text to_string 0 0 (fold stats_step switch_events ts)) ''total_tx_packets'' = Some ''1''"
    "report_value (TraceSimulation_StopSimulation ratio_text to_string 0 0 (fold stats_step switch_events ts)) ''total_learning_packets'' = Some ''1''"
    "report_entry (TraceSimulation_StopSimulation ratio_text to_string 0 0 (fold stats_step switch_events ts)) ''switch_to_processed_bytes'' 3 = Some ''150''"
    "report_entry (TraceSimulation_StopSimulation ratio_text to_string 0 0 (fold stats_step switch_events ts)) ''switch_to_hits'' 3 = Some ''1''"
    "report_entry (TraceSimulation_StopSimulation ratio_text to_string 0 0 (fold stats_step switch_events ts)) ''switch_to_hits'' 4 = None"
    using exact by (simp_all add: ev dec size tally_def)
  with ts show ?thesis
    unfolding Let_def by blast
qed

text \<open>The latest time of a run, and the sums of the times when they fit into 64 bits.\<close>

fun arrives_by :: "nat \<Rightarrow> stat_event \<Rightarrow> bool" where
  "arrives_by horizon (SinkRxE p tx rx f) \<longleftrightarrow> rx \<le> int horizon"
| "arrives_by horizon e \<longleftrightarrow> True"

definition flow_by :: "nat \<Rightarrow> FlowStats \<Rightarrow> bool" where
  "flow_by horizon fs \<longleftrightarrow> unat (ps_rxTime (fs_first fs)) \<le> horizon \<and> unat (ps_rxTime (fs_last fs)) \<le> horizon"

lemma unat_ns_of: "\<lbrakk>0 \<le> t; t < 2 ^ 63; t \<le> int horizon\<rbrakk> \<Longrightarrow> unat (ns_of t) \<le> horizon"
  by (simp add: ns_of_def unat_eq_nat_uint uint_word_of_int)

lemma flow_by_step:
  assumes "timely stop e" and "arrives_by horizon e" and "stop \<le> int horizon"
    and "\<forall>fs. s = Some fs \<longrightarrow> flow_by horizon fs" and "flow_step stop f e s = Some fs'"
  shows "flow_by horizon fs'"
proof (cases e)
  case (SinkRxE p tx rx g)
  then have "unat (ns_of rx) \<le> horizon"
    using assms(1,2) by (intro unat_ns_of) simp_all
  with SinkRxE assms(4,5) show ?thesis
    by (auto simp: flow_by_def FlowStats_rx_def min_def max_def word_le_nat_alt split: if_splits)
next
  case (ClientTxE now g)
  show ?thesis
  proof (cases "g = f \<and> f \<noteq> 0 \<and> s = None")
    case True
    then have "unat (ns_of now) \<le> horizon" "unat (ns_of stop) \<le> horizon"
      using assms(1,3) ClientTxE by (intro unat_ns_of; simp)+
    with True ClientTxE assms(5) show ?thesis
      by (auto simp: flow_by_def)
  next
    case False
    with ClientTxE assms(4,5) show ?thesis by auto
  qed
qed (use assms(4,5) in \<open>auto simp: flow_by_def split: if_splits\<close>)

lemma flow_by_run:
  "\<lbrakk>\<forall>e \<in> set evs. timely stop e \<and> arrives_by horizon e; stop \<le> int horizon; \<forall>fs. s = Some fs \<longrightarrow> flow_by horizon fs;
    fold (flow_step stop f) evs s = Some fs'\<rbrakk> \<Longrightarrow> flow_by horizon fs'"
proof (induction evs arbitrary: s)
  case (Cons e evs)
  have "\<forall>fs. flow_step stop f e s = Some fs \<longrightarrow> flow_by horizon fs"
    using Cons.prems(1) flow_by_step [of stop e horizon s f, OF _ _ Cons.prems(2,3)] by simp
  from Cons.IH [OF _ Cons.prems(2) this] Cons.prems(1,4) show ?case by simp
qed simp

lemma unat_sum:
  assumes "\<forall>x \<in> set xs. g x \<le> horizon" and "length xs * horizon < 2 ^ 64"
  shows "unat (word_of_nat (sum_list (map g xs)) :: u64) = sum_list (map g xs)"
proof -
  have "sum_list (map g xs) \<le> length xs * horizon"
    using assms(1) by (induction xs) auto
  with assms(2) show ?thesis
    by (simp add: unat_of_nat take_bit_nat_eq_self)
qed

lemma flows_small: "distinct (map fst m) \<Longrightarrow> length m \<le> 2 ^ 32" for m :: "(u32 \<times> FlowStats) list"
  using card_mono [of UNIV "fst ` set m"] by (auto simp: card_word dest: distinct_card)

text \<open>C36: The averages of the report are averages. Consider a run in which packets arrive after they are sent, the
  simulation stops and every packet has arrived by the time \<open>horizon\<close>, and the number of flows times \<open>horizon\<close>
  is below \<open>2 ^ 64\<close> nanoseconds. Then neither the sums nor the count of the flows wrap around: the average flow
  completion time and the average latency of a first packet are the quotients of two words whose values are the sum
  of the true, non-negative differences over all flows and the number of flows. (A flow of which nothing arrived
  counts with the completion time 0, and with the latency up to the stop of the simulation.)\<close>

theorem report_averages:
  assumes "\<forall>e \<in> set evs. timely (ts_stopTime ts) e \<and> arrives_by horizon e" and "ts_stopTime ts \<le> int horizon"
    and "ts_flowStats ts = []" and "length (ts_flowStats (fold stats_step evs ts)) * horizon < 2 ^ 64"
  shows "let ts' = fold stats_step evs ts; json = TraceSimulation_StopSimulation quot us mc lm ts'; flows = ts_flowStats ts' in
    \<exists>fct fpl n. report_value json ''avg_fct'' = Some (quot fct n) \<and> report_value json ''avg_fpl'' = Some (quot fpl n) \<and>
      unat fct = sum_list (map (\<lambda>(f, fs). unat (ps_rxTime (fs_last fs)) - unat (ps_txTime (fs_first fs))) flows) \<and>
      unat fpl = sum_list (map (\<lambda>(f, fs). unat (ps_rxTime (fs_first fs)) - unat (ps_txTime (fs_first fs))) flows) \<and>
      unat n = length flows \<and> list_all (\<lambda>(f, fs). flow_ordered fs) flows"
proof -
  let ?m = "ts_flowStats (fold stats_step evs ts)"
  have keys: "distinct (map fst ?m)"
    by (rule keys_run) (simp add: assms(3))
  then have "flow_by horizon fs" if "(f, fs) \<in> set ?m" for f fs
    using flow_by_run [OF assms(1,2), of None f fs] stats_run_flow [of evs ts f] that assms(3) by simp
  then have "\<forall>x \<in> set ?m. (\<lambda>(f, fs). unat (ps_rxTime (fs_last fs)) - unat (ps_txTime (fs_first fs))) x \<le> horizon"
    "\<forall>x \<in> set ?m. (\<lambda>(f, fs). unat (ps_rxTime (fs_first fs)) - unat (ps_txTime (fs_first fs))) x \<le> horizon"
    by (force simp: flow_by_def)+
  note sums = this [THEN unat_sum, OF assms(4)]
  have n: "unat (word_of_nat (length ?m) :: u64) = length ?m"
    using flows_small [OF keys] by (simp add: unat_of_nat take_bit_nat_eq_self)
  have "\<forall>e \<in> set evs. timely (ts_stopTime ts) e"
    using assms(1) by blast
  note exact = completion_times_exact [OF this assms(3), unfolded Let_def]
  show ?thesis
    unfolding Let_def StopSimulation_report report_lookup exact [THEN conjunct1] prod.sel
    using sums n exact [THEN conjunct2] by blast
qed

theorem report_averages_witness:
  "\<exists>ts. TraceSimulation_new (sort_key flow_ts) [77] 0 hosts2 (Some [row_line row0]) params2 mig0 = Inr ts \<and>
     (\<exists>fct n. report_value (TraceSimulation_StopSimulation ratio_text to_string 0 0 (fold stats_step events2 ts)) ''avg_fct'' =
        Some (ratio_text fct n) \<and> unat fct = 50 \<and> unat n = 1)"
proof -
  obtain ts where ts: "TraceSimulation_new (sort_key flow_ts) [77] 0 hosts2 (Some [row_line row0]) params2 mig0 = Inr ts"
      "ts_flowStats ts = []" "ts_stopTime ts = 60000005000"
    using simulation2 by blast
  have stats: "ts_flowStats (fold stats_step events2 ts) =
      [(7, \<lparr>fs_first = \<lparr>ps_txTime = 10, ps_rxTime = 50\<rparr>, fs_last = \<lparr>ps_txTime = 20, ps_rxTime = 60\<rparr>, fs_count = 2,
            fs_disorder = 0\<rparr>)]"
    by (simp add: events2_def stats_defs ts FlowStats_rx_def ns_of_def)
  have "\<forall>e \<in> set events2. timely (ts_stopTime ts) e \<and> arrives_by 60000005000 e"
    by (simp add: events2_def ts)
  from report_averages [OF this _ ts(2), of ratio_text to_string 0 0] ts show ?thesis
    unfolding Let_def stats by (intro exI [of _ ts]) auto
qed

end
