(* ===== verification/Trace_Sources.thy ===== *)
theory Trace_Sources
  imports Trace_Report Deployment
begin

text \<open>
  How the counters are fed: the trace sources that \<open>SetupApplications\<close> of \<^verbatim>\<open>trace-sim.cc\<close> connects to the
  callbacks of \<open>Trace_Stats\<close>. An application calls its trace sources; only a connected one reaches the
  simulation. The traces of the switches are those their handlers produce, in \<open>Bluebird\<close> and \<open>Switch_App\<close>;
  sinks and clients report what they receive and, over TCP, what they send and how congestion evolves. The lemmas
  show that in every mode nothing an installed application reports is lost.
\<close>

section \<open>Connections\<close>

datatype trace_source = RxWithDelay | Tx | CongState | Rx | GeneratedLearning | GeneratedInvalidation
  | ProcessedPackets | CacheHit

text \<open>The container \<open>m_switchApps\<close> is connected after the switches are installed; the first two sources only in the
  branch for SwitchV2P and LocalLearning.\<close>

definition connect_generated :: "Mode \<Rightarrow> trace_source list" where
  "connect_generated simMode =
     (if simMode = SwitchV2P \<or> simMode = LocalLearning then [GeneratedLearning, GeneratedInvalidation] else [])"

definition connect_switches :: "Mode \<Rightarrow> trace_source list" where
  "connect_switches simMode = connect_generated simMode @ [ProcessedPackets, CacheHit]"

text \<open>The sink of a migration target, which has no \<open>Source\<close>, is connected to \<open>SinkRx\<close> alone.\<close>

fun SetupApplications_connect :: "Mode \<Rightarrow> sim_app \<Rightarrow> trace_source list" where
  "SetupApplications_connect simMode (P4App x a t m) = connect_switches simMode"
| "SetupApplications_connect simMode (CtrlApp x m) = connect_switches simMode"
| "SetupApplications_connect simMode (GatewayAppOn x) = [Rx]"
| "SetupApplications_connect simMode (IlpApp x) = []"
| "SetupApplications_connect simMode (SinkApp x a udp (Some src) s e) = [RxWithDelay, Tx, CongState]"
| "SetupApplications_connect simMode (SinkApp x a udp None s e) = [RxWithDelay]"
| "SetupApplications_connect simMode (ClientAppOn x fl a p udp) = [Tx, CongState, RxWithDelay]"

text \<open>What is connected to a callback by its path in the configuration of ns-3.\<close>

definition SetupApplications_drops :: "(string \<times> stat_event) list" where
  "SetupApplications_drops =
     [(''/NodeList/*/$ns3::TrafficControlLayer/RootQueueDiscList/*/Drop'', DropQueueDiscE),
      (''/NodeList/*/DeviceList/*/TxQueue/Drop'', DropQueueE),
      (''/NodeList/*/DeviceList/*/$ns3::PointToPointNetDevice/MacTxDrop'', DropQueueE),
      (''/NodeList/*/DeviceList/*/$ns3::PointToPointNetDevice/PhyRxDrop'', DropQueueE),
      (''/NodeList/*/DeviceList/*/$ns3::PointToPointNetDevice/PhyTxDrop'', DropQueueE),
      (''/NodeList/*/$ns3::Ipv4L3Protocol/Drop'', DropIpE)]"

text \<open>Where packets are dropped: in the queue disc of a node, in the transmission queue of a device, by a device before and
  after transmission and on reception, and by the IP layer.\<close>

datatype drop_site = QueueDiscDrop | TxQueueDrop | MacTxDrop | PhyTxDrop | PhyRxDrop | IpDrop

text \<open>The trace source that ns-3 documents for each, by its path for all nodes and devices.\<close>

fun drop_source :: "drop_site \<Rightarrow> string" where
  "drop_source QueueDiscDrop = ''/NodeList/*/$ns3::TrafficControlLayer/RootQueueDiscList/*/Drop''"
| "drop_source TxQueueDrop = ''/NodeList/*/DeviceList/*/TxQueue/Drop''"
| "drop_source MacTxDrop = ''/NodeList/*/DeviceList/*/$ns3::PointToPointNetDevice/MacTxDrop''"
| "drop_source PhyTxDrop = ''/NodeList/*/DeviceList/*/$ns3::PointToPointNetDevice/PhyTxDrop''"
| "drop_source PhyRxDrop = ''/NodeList/*/DeviceList/*/$ns3::PointToPointNetDevice/PhyRxDrop''"
| "drop_source IpDrop = ''/NodeList/*/$ns3::Ipv4L3Protocol/Drop''"

text \<open>The callback that takes the arguments of each: an item of a queue disc, an IP header and more, or a packet.\<close>

fun drop_event :: "drop_site \<Rightarrow> stat_event" where
  "drop_event QueueDiscDrop = DropQueueDiscE"
| "drop_event IpDrop = DropIpE"
| "drop_event _ = DropQueueE"

section \<open>What applications report\<close>

datatype app_trace =
    SwTrace sw_effect
  | SwQueueDrop Packet
  | GwRx
  | EndRx Packet int int u32
  | EndTx int u32
  | EndCong bool u32

fun source_of :: "app_trace \<Rightarrow> trace_source option" where
  "source_of (SwTrace (LearningTrace p)) = Some GeneratedLearning"
| "source_of (SwTrace (InvalidationTrace p)) = Some GeneratedInvalidation"
| "source_of (SwTrace (ProcessedTrace p s)) = Some ProcessedPackets"
| "source_of (SwTrace (CacheHitTrace p s)) = Some CacheHit"
| "source_of (SwTrace _) = None"
| "source_of (SwQueueDrop p) = None"
| "source_of GwRx = Some Rx"
| "source_of (EndRx p tx rx f) = Some RxWithDelay"
| "source_of (EndTx now f) = Some Tx"
| "source_of (EndCong d f) = Some CongState"

text \<open>The callback of the simulation for each; the drops of Bluebird's own queue have none.\<close>

fun callback :: "app_trace \<Rightarrow> stat_event option" where
  "callback (SwTrace (LearningTrace p)) = Some LearningE"
| "callback (SwTrace (InvalidationTrace p)) = Some InvalidationE"
| "callback (SwTrace (ProcessedTrace p s)) = Some (ProcessedE p s)"
| "callback (SwTrace (CacheHitTrace p s)) = Some (CacheHitE p s)"
| "callback (SwTrace _) = None"
| "callback (SwQueueDrop p) = None"
| "callback GwRx = Some GatewayRxE"
| "callback (EndRx p tx rx f) = Some (SinkRxE p tx rx f)"
| "callback (EndTx now f) = Some (ClientTxE now f)"
| "callback (EndCong d f) = Some (CongStateE d f)"

datatype firing = AppFires sim_app app_trace | Drops drop_site

text \<open>What reaches the simulation.\<close>

fun deliver :: "Mode \<Rightarrow> firing \<Rightarrow> stat_event list" where
  "deliver simMode (AppFires app tr) = (case (source_of tr, callback tr) of
      (Some src, Some e) \<Rightarrow> if src \<in> set (SetupApplications_connect simMode app) then [e] else []
    | _ \<Rightarrow> [])"
| "deliver simMode (Drops d) = map snd (filter (\<lambda>(p, e). p = drop_source d) SetupApplications_drops)"

text \<open>What an application can report: the effects of its handler, for a switch of the mode it was installed with, and the
  packets its Bluebird queue refuses.\<close>

inductive fires :: "ns3_env \<Rightarrow> u32 \<Rightarrow> sim_app \<Rightarrow> app_trace \<Rightarrow> bool" for E flow0 where
  p4: "\<lbrakk>P4SwitchApp_ReceivePacket E rnd \<lparr>cx_pkt = p, cx_ip = ip, cx_sw = sw, cx_eff = []\<rparr> = Inr (fwd, cx);
     p4s_simMode sw = m; e \<in> set (cx_eff cx)\<rbrakk> \<Longrightarrow> fires E flow0 (P4App x a t m) (SwTrace e)"
| p4_drop: "\<lbrakk>P4SwitchApp_BluebirdLogic E v d cx = Inr (False, cx'); p4s_simMode (cx_sw cx) = Bluebird;
     \<not> bb_queued E (cx_sw cx) (AddHeader (HIp (cx_ip cx)) (cx_pkt cx))\<rbrakk> \<Longrightarrow>
     fires E flow0 (P4App x a t Bluebird) (SwQueueDrop (AddHeader (HIp (cx_ip cx)) (cx_pkt cx)))"
| ctrl: "\<lbrakk>SwitchApp_ReceivePacket flow0 p ip sw = Inr (fwd, p', ip', sw', es); e \<in> set es\<rbrakk> \<Longrightarrow>
     fires E flow0 (CtrlApp x m) (SwTrace e)"
| gateway: "fires E flow0 (GatewayAppOn x) GwRx"
| sink_rx: "fires E flow0 (SinkApp x a udp src s e) (EndRx p tx rx f)"
| sink_tx: "\<not> udp \<Longrightarrow> fires E flow0 (SinkApp x a udp src s e) (EndTx now f)"
| sink_cong: "\<not> udp \<Longrightarrow> fires E flow0 (SinkApp x a udp src s e) (EndCong d f)"
| client_tx: "fires E flow0 (ClientAppOn x fl a p udp) (EndTx now f)"
| client_rx: "fires E flow0 (ClientAppOn x fl a p udp) (EndRx pk tx rx f)"
| client_cong: "fires E flow0 (ClientAppOn x fl a p udp) (EndCong d f)"

inductive_cases fires_P4E [elim]: "fires E flow0 (P4App x a t m) tr"
inductive_cases fires_CtrlE [elim]: "fires E flow0 (CtrlApp x m) tr"

text \<open>A run of the applications \<open>apps\<close>, with drops at any time and at any site of the network.\<close>

fun run_ok :: "ns3_env \<Rightarrow> u32 \<Rightarrow> sim_app list \<Rightarrow> firing \<Rightarrow> bool" where
  "run_ok E flow0 apps (AppFires app tr) \<longleftrightarrow> app \<in> set apps \<and> fires E flow0 app tr"
| "run_ok E flow0 apps (Drops d) \<longleftrightarrow> True"

text \<open>What has to be counted, connected or not.\<close>

fun reported :: "firing \<Rightarrow> stat_event option" where
  "reported (AppFires app tr) = callback tr"
| "reported (Drops d) = Some (drop_event d)"

fun is_network_drop :: "firing \<Rightarrow> bool" where
  "is_network_drop (Drops d) \<longleftrightarrow> True"
| "is_network_drop (AppFires app tr) \<longleftrightarrow> False"

section \<open>Traces of the handlers\<close>

fun generates :: "sw_effect \<Rightarrow> bool" where
  "generates (LearningTrace p) \<longleftrightarrow> True"
| "generates (InvalidationTrace p) \<longleftrightarrow> True"
| "generates _ \<longleftrightarrow> False"

fun hits :: "sw_effect \<Rightarrow> bool" where
  "hits (CacheHitTrace p s) \<longleftrightarrow> True"
| "hits _ \<longleftrightarrow> False"

text \<open>Outside SwitchV2P mode a programmable switch generates no packets and reports no hits.\<close>

lemma HandleProtocolPacket_traces:
  assumes "P4SwitchApp_HandleProtocolPacket E cx = Inr (fwd, cx')" and "e \<in> set (cx_eff cx')"
  shows "e \<in> set (cx_eff cx) \<or> \<not> generates e \<and> \<not> hits e"
  using assms by (auto simp: P4SwitchApp_HandleProtocolPacket_def emit_def set_cache_def Let_def elim!: bindE_InrE
      split: option.splits if_splits prod.splits)

lemma LocalP4CacheLogic_traces:
  assumes "P4SwitchApp_LocalP4CacheLogic E v a cx = Inr (fwd, cx')"
  shows "cx_eff cx' = cx_eff cx"
  using assms by (auto simp: P4SwitchApp_LocalP4CacheLogic_def set_cache_def SetDestination_def elim!: bindE_InrE
      split: option.splits if_splits)

lemma BluebirdLogic_traces:
  assumes "P4SwitchApp_BluebirdLogic E v a cx = Inr (fwd, cx')" and "e \<in> set (cx_eff cx')"
  shows "e \<in> set (cx_eff cx) \<or> \<not> generates e \<and> \<not> hits e"
  using assms by (auto simp: P4SwitchApp_BluebirdLogic_def P4SwitchApp_BluebirdTxStart_def SetDestination_def Let_def
      elim!: bindE_InrE split: option.splits if_splits prod.splits)

lemma ReceivePacket_traces:
  assumes "P4SwitchApp_ReceivePacket E rnd \<lparr>cx_pkt = p, cx_ip = ip, cx_sw = sw, cx_eff = []\<rparr> = Inr (fwd, cx')"
    and "p4s_simMode sw = LocalLearning \<or> p4s_simMode sw = Bluebird" and "e \<in> set (cx_eff cx')"
  shows "\<not> generates e \<and> \<not> hits e"
proof -
  from assms(1) obtain u q where u: "RemoveUdp p = Inr (u, q)"
    by (auto simp: P4SwitchApp_ReceivePacket_def elim!: bindE_InrE)
  show ?thesis
  proof (cases "udp_dport u = SWITCH_PORT")
    case True
    with assms(1) u have "P4SwitchApp_HandleProtocolPacket E \<lparr>cx_pkt = q, cx_ip = ip, cx_sw = sw, cx_eff = []\<rparr> = Inr (fwd, cx')"
      by (simp add: P4SwitchApp_ReceivePacket_def)
    from HandleProtocolPacket_traces [OF this assms(3)] show ?thesis by simp
  next
    case False
    with assms(1,2) u obtain cx v a where cx: "cx_eff cx = [ProcessedTrace (bump_hops q) (p4s_nodeId sw)]"
        "P4SwitchApp_LocalP4CacheLogic E v a cx = Inr (fwd, cx') \<or> P4SwitchApp_BluebirdLogic E v a cx = Inr (fwd, cx')"
      by (auto simp: P4SwitchApp_ReceivePacket_def emit_def Let_def elim!: bindE_InrE split: if_splits) force+
    with LocalP4CacheLogic_traces [of E v a cx] BluebirdLogic_traces [of E v a cx _ _ e] assms(3) show ?thesis
      by auto
  qed
qed

lemma SwitchApp_traces:
  assumes "SwitchApp_ReceivePacket flow0 p ip sw = Inr (fwd, p', ip', sw', es)" and "e \<in> set es"
  shows "\<not> generates e"
  using assms by (auto simp: SwitchApp_ReceivePacket_def Let_def elim!: bindE_InrE split: option.splits if_splits)

section \<open>The installed applications\<close>

fun installed :: "Mode \<Rightarrow> sim_app \<Rightarrow> bool" where
  "installed simMode (P4App x a t m) \<longleftrightarrow> simMode = SwitchV2P \<or> simMode = LocalLearning \<or> m = LocalLearning \<or> m = Bluebird"
| "installed simMode (SinkApp x a udp None s e) \<longleftrightarrow> udp"
| "installed simMode _ \<longleftrightarrow> True"

definition sim_mode :: "TraceSimulation \<Rightarrow> Mode" where
  "sim_mode ts = SimMode (sb_simParameters (ts_base ts))"

lemma id_of_mode: "id_of c sb = (k, sb') \<Longrightarrow> sb_simParameters sb' = sb_simParameters sb"
  by (auto simp: id_of_def split: option.splits)

text \<open>Installing applications changes neither the mode nor the counted hits.\<close>

definition kept :: "TraceSimulation \<Rightarrow> Mode \<times> (u32 \<times> u64) list" where
  "kept ts = (sim_mode ts, ts_switchToCacheHits ts)"

text \<open>A predicate that holds for every application of a host.\<close>

definition for_hosts :: "(sim_app \<Rightarrow> bool) \<Rightarrow> bool" where
  "for_hosts P \<longleftrightarrow> (\<forall>x a udp src s e. P (SinkApp x a udp (Some src) s e)) \<and> (\<forall>x a s e. P (SinkApp x a True None s e)) \<and>
     (\<forall>x fl a p udp. P (ClientAppOn x fl a p udp))"

lemma container_apps:
  assumes "for_hosts P" and "SetupApplications_container ipv4 i j c (ts, apps) = (ts', apps')" and "list_all P apps"
  shows "kept ts' = kept ts \<and> list_all P apps'"
  using assms id_of_mode [of c "ts_base ts"]
  by (auto simp: SetupApplications_container_def kept_def sim_mode_def for_hosts_def Let_def split: if_splits prod.splits option.splits)

lemma containers_apps:
  assumes "for_hosts P" and "fold (SetupApplications_container ipv4 i j) cs (ts, apps) = (ts', apps')" and "list_all P apps"
  shows "kept ts' = kept ts \<and> list_all P apps'"
  using assms(2,3)
proof (induction cs arbitrary: ts apps)
  case (Cons c cs)
  obtain ts1 apps1 where "SetupApplications_container ipv4 i j c (ts, apps) = (ts1, apps1)"
    by (cases "SetupApplications_container ipv4 i j c (ts, apps)")
  with container_apps [OF assms(1) this Cons.prems(2)] Cons.prems(1) Cons.IH [of ts1 apps1] show ?case
    by simp
qed simp

lemma hosts_apps:
  assumes "for_hosts P" and "fold (SetupApplications_host ipv4) ps (ts, apps) = (ts', apps')" and "list_all P apps"
  shows "kept ts' = kept ts \<and> list_all P apps'"
  using assms(2,3)
proof (induction ps arbitrary: ts apps)
  case (Cons p ps)
  obtain i j ts1 apps1 where p: "p = (i, j)" and step: "SetupApplications_host ipv4 p (ts, apps) = (ts1, apps1)"
    by (cases p; cases "SetupApplications_host ipv4 p (ts, apps)") auto
  have "kept ts1 = kept ts \<and> list_all P apps1"
    by (rule containers_apps [OF assms(1) step [unfolded SetupApplications_host_def p prod.case Let_def]])
       (use Cons.prems(2) assms(1) in \<open>simp add: for_hosts_def\<close>)
  with Cons.prems(1) Cons.IH [of ts1 apps1] step show ?case
    by simp
qed simp

lemma SetupApplications_apps:
  assumes "TraceSimulation_SetupApplications ipv4 ts = Inr (ts', apps, mig)" and "a \<in> set apps" and "for_hosts P"
    and "\<And>sb. SimMode (sb_simParameters sb) = sim_mode ts \<Longrightarrow> \<forall>a \<in> set (SetupApplications_switches ipv4 sb). P a"
    and "\<And>x. P (GatewayAppOn x)" and "\<And>x. P (IlpApp x)"
  shows "P a"
proof -
  obtain ts1 hosts where hosts: "fold (SetupApplications_host ipv4) (nest [0..<length (sb_containerGroups (ts_base ts))]
      (\<lambda>leaf. [0..<length (sb_containerGroups (ts_base ts) ! leaf)])) (ts, []) = (ts1, hosts)"
    by fastforce
  from hosts_apps [OF assms(3) this] have ts1: "sim_mode ts1 = sim_mode ts" "list_all P hosts"
    by (simp_all add: kept_def)
  obtain controller where "apps = hosts @ SetupApplications_switches ipv4 (ts_base ts1) @
      map GatewayAppOn (map (\<lambda>(leaf, node). HostN (unat leaf) (unat node)) (sb_gws (ts_base ts1))) @ controller"
      "\<forall>c \<in> set controller. \<exists>x. c = IlpApp x"
    using assms(1) unfolding TraceSimulation_SetupApplications_def hosts Let_def
    by (fastforce elim!: bindE_InrE split: if_splits)
  with assms(2,4-6) ts1 show ?thesis
    by (auto simp: list_all_iff sim_mode_def)
qed

lemma SetupApplications_installed:
  assumes "TraceSimulation_SetupApplications ipv4 ts = Inr (ts', apps, mig)" and "a \<in> set apps"
  shows "installed (sim_mode ts) a"
  by (rule SetupApplications_apps [OF assms, where P = "installed (sim_mode ts)"])
     (auto simp: for_hosts_def SetupApplications_switches_def SetupApplications_v2p_def SetupApplications_gwCache_def
      SetupApplications_bluebird_def no_cache_spines_def Let_def split: if_splits)

text \<open>In mode LocalLearning all switches are programmable ones of that mode.\<close>

fun learns_locally :: "sim_app \<Rightarrow> bool" where
  "learns_locally (P4App x a t m) \<longleftrightarrow> m = LocalLearning"
| "learns_locally (CtrlApp x m) \<longleftrightarrow> False"
| "learns_locally _ \<longleftrightarrow> True"

lemma SetupApplications_local:
  assumes "TraceSimulation_SetupApplications ipv4 ts = Inr (ts', apps, mig)" and "a \<in> set apps" and "sim_mode ts = LocalLearning"
  shows "learns_locally a"
  by (rule SetupApplications_apps [OF assms(1,2), where P = learns_locally])
     (use assms(3) in \<open>auto simp: for_hosts_def SetupApplications_switches_def SetupApplications_v2p_def Let_def\<close>)

lemma local_no_hit:
  assumes "learns_locally app" and "fires E flow0 app tr" and "callback tr = Some e"
  shows "hit_at s e = None"
  using assms(2)
proof cases
  case (p4 rnd p ip sw fwd cx mode e' x a t)
  with assms(1) have "\<not> hits e'"
    using ReceivePacket_traces [OF p4(3) _ p4(5)] by auto
  with assms(3) show ?thesis
    by (cases e') (auto simp: p4)
qed (use assms(1,3) in auto)

lemma SetupApplications_kept:
  "TraceSimulation_SetupApplications ipv4 ts = Inr (ts', apps, mig) \<Longrightarrow> ts_switchToCacheHits ts' = ts_switchToCacheHits ts"
  using hosts_apps [where P = "\<lambda>a. True"]
  by (auto simp: TraceSimulation_SetupApplications_def Let_def for_hosts_def kept_def list_all_iff
      elim!: bindE_InrE split: prod.splits if_splits)

lemma deliver_fired:
  assumes "installed m app" and "fires E flow0 app tr"
  shows "deliver m (AppFires app tr) = (case callback tr of None \<Rightarrow> [] | Some e \<Rightarrow> [e])"
  using assms(2)
proof cases
  case (p4 rnd p ip sw fwd cx mode e x a t)
  have "\<not> generates e" if "m \<noteq> SwitchV2P" "m \<noteq> LocalLearning"
    using ReceivePacket_traces [OF p4(3) _ p4(5)] assms(1) that by (auto simp: p4)
  then show ?thesis
    by (cases e) (auto simp: p4 connect_switches_def connect_generated_def)
next
  case (ctrl p ip sw fwd p' ip' sw' es e x mode)
  from SwitchApp_traces [OF ctrl(3,4)] show ?thesis
    by (cases e) (auto simp: ctrl connect_switches_def)
next
  case (sink_tx udp x a src s e now f)
  with assms(1) show ?thesis by (cases src) auto
next
  case (sink_cong udp x a src s e d f)
  with assms(1) show ?thesis by (cases src) auto
next
  case (sink_rx x a udp src s e p tx rx f)
  then show ?thesis by (cases src) auto
qed simp_all

lemma drops_once: "deliver m (Drops d) = [drop_event d]"
  by (cases d) (simp_all add: SetupApplications_drops_def)

lemma callback_no_drop: "callback tr = Some e \<Longrightarrow> \<not> is_drop e"
  by (cases tr rule: callback.cases) auto

lemma dropped_run:
  "ts_droppedPackets (fold stats_step (List.map_filter reported run) ts) =
     ts_droppedPackets ts + word_of_nat (length (filter is_network_drop run))"
proof (induction run arbitrary: ts)
  case (Cons x run)
  have step: "ts_droppedPackets (stats_step e ts) = ts_droppedPackets ts + (if is_drop e then 1 else 0)" for e
    by (cases e) (auto simp: stats_defs split: option.splits if_splits)
  have drop: "is_drop (drop_event d)" for d
    by (cases d) simp_all
  show ?case
  proof (cases x)
    case (AppFires app tr)
    with Cons.IH step callback_no_drop [of tr] show ?thesis
      by (cases "callback tr") (simp_all add: List.map_filter_simps)
  next
    case (Drops d)
    with Cons.IH step drop show ?thesis
      by (simp add: List.map_filter_simps)
  qed
qed (simp add: List.map_filter_simps)

lemma no_hits_run:
  assumes "\<forall>e \<in> set evs. \<forall>s. hit_at s e = None"
  shows "ts_switchToCacheHits (fold stats_step evs ts) = ts_switchToCacheHits ts"
  using assms
proof (induction evs arbitrary: ts)
  case (Cons e evs)
  then have "ts_switchToCacheHits (stats_step e ts) = ts_switchToCacheHits ts"
    by (cases e) (auto simp: stats_defs split: option.splits if_splits)
  with Cons show ?case by simp
qed simp

section \<open>A small run\<close>

definition params_local :: SimulationParameters where
  "params_local = params1\<lparr>SimMode := LocalLearning\<rparr>"

lemma local_set_up:
  "\<exists>sb ts' apps mig a t. SimulationBase_new params_local groups1 mig0 0 = Inr sb \<and> sim_mode (sim_on sb) = LocalLearning \<and>
     TraceSimulation_SetupApplications parse_quad (sim_on sb) = Inr (ts', apps, mig) \<and>
     P4App (LeafN 0) a t LocalLearning \<in> set apps"
proof -
  obtain sb where sb: "SimulationBase_new params_local groups1 mig0 0 = Inr sb" "sb_leafCount sb = 4"
      "sb_containerGroups sb = groups1" "SimMode (sb_simParameters sb) = LocalLearning"
    by (simp add: SimulationBase_new_def SimulationBase_init_def params_local_def params1_def groups1_def Let_def
        SimulationBase_checks_def SimulationBase_AssignIds_def slots_def)
  note new = SimulationBase_new_ids [OF sb(1) names1(1)]
  have "ids_known (ts_base (sim_on sb))" "sb_gws (ts_base (sim_on sb)) \<noteq> []"
    using new names1 by (simp_all add: ids_known_def)
  from SetupApplications_closed [OF this(1) _ this(2), of parse_quad] sb(2,3)
  have "\<exists>ts' mig. TraceSimulation_SetupApplications parse_quad (sim_on sb) = Inr (ts',
      concat (map (host_apps parse_quad (sim_on sb)) (host_pairs sb)) @ other_apps parse_quad sb, mig)"
    by (simp add: groups1_def)
  moreover have "\<exists>a t. P4App (LeafN 0) a t LocalLearning \<in> set (other_apps parse_quad sb)"
    using sb(2,4) by (simp add: other_apps_def SetupApplications_switches_def SetupApplications_v2p_def Let_def image_iff)
  moreover have "sim_mode (sim_on sb) = LocalLearning"
    using sb(4) by (simp add: sim_mode_def)
  ultimately show ?thesis
    using sb(1) Un_iff set_append by metis
qed

definition cx_local :: Ctx where
  "cx_local = \<lparr>cx_pkt = data0, cx_ip = \<lparr>ip_src = 8, ip_dst = 900, ip_ttl = 63\<rparr>,
     cx_sw = (sw0 LEAF)\<lparr>p4s_simMode := LocalLearning\<rparr>, cx_eff = []\<rparr>"

lemma local_hit:
  "\<exists>cx. P4SwitchApp_ReceivePacket env0 0 cx_local = Inr (True, cx) \<and> ip_dst (cx_ip cx) = 9 \<and>
     (\<exists>p. cx_eff cx = [ProcessedTrace p 1])"
  using cache4_one_wf
  by (simp add: P4SwitchApp_ReceivePacket_def cx_local_def data0_def RemoveUdp_def RemoveIp_def sw0_def env0_def inner0_def
      P4SwitchApp_LocalP4CacheLogic_def P4Cache_Get_eq emit_def set_cache_def SetDestination_def SWITCH_PORT_def Let_def)

section \<open>Properties\<close>



text \<open>C17: Hits of local learning are not counted. In mode LocalLearning the switches answer from their caches, but no
  run makes the report count a single hit, for any switch.\<close>

theorem local_learning_reports_no_hits:
  assumes "TraceSimulation_SetupApplications ipv4 ts = Inr (ts', apps, mig)" and "sim_mode ts = LocalLearning"
    and "ts_switchToCacheHits ts = []" and "list_all (run_ok E flow0 apps) run"
  shows "report_entry (TraceSimulation_StopSimulation quot us mc lm
    (fold stats_step (concat (map (deliver (sim_mode ts)) run)) ts')) ''switch_to_hits'' s = None"
proof -
  let ?evs = "concat (map (deliver (sim_mode ts)) run)"
  have "hit_at s e = None" if "x \<in> set run" "e \<in> set (deliver (sim_mode ts) x)" for s x e
  proof (cases x)
    case (AppFires app tr)
    with that(1) assms(4) have app: "app \<in> set apps" "fires E flow0 app tr"
      by (auto simp: list_all_iff)
    from AppFires that(2) have "callback tr = Some e"
      by (auto split: option.splits if_splits)
    from local_no_hit [OF SetupApplications_local [OF assms(1) app(1) assms(2)] app(2) this] show ?thesis .
  next
    case (Drops d)
    with that(2) drops_once [of "sim_mode ts" d] have "e = drop_event d"
      by (simp del: deliver.simps)
    then show ?thesis
      by (cases d) simp_all
  qed
  then have "ts_switchToCacheHits (fold stats_step ?evs ts') = ts_switchToCacheHits ts'"
    by (intro no_hits_run) auto
  moreover have "ts_switchToCacheHits ts' = ts_switchToCacheHits ts"
    by (rule SetupApplications_kept [OF assms(1)])
  ultimately show ?thesis
    using assms(3) by (simp add: StopSimulation_report report_entry_def report_of_def TraceSimulation_CreatePtree_def)
qed

theorem local_learning_reports_no_hits_witness:
  "\<exists>sb ts' apps mig app cx p. TraceSimulation_SetupApplications parse_quad (sim_on sb) = Inr (ts', apps, mig) \<and>
     P4SwitchApp_ReceivePacket env0 0 cx_local = Inr (True, cx) \<and> ip_dst (cx_ip cx) = 9 \<and> SwTrace ` set (cx_eff cx) = {SwTrace p} \<and>
     report_entry (TraceSimulation_StopSimulation ratio_text to_string 0 0 (fold stats_step
       (concat (map (deliver (sim_mode (sim_on sb))) [AppFires app (SwTrace p)])) ts')) ''switch_to_hits'' 1 = None"
proof -
  obtain sb ts' apps mig a t where set_up: "TraceSimulation_SetupApplications parse_quad (sim_on sb) = Inr (ts', apps, mig)"
      "P4App (LeafN 0) a t LocalLearning \<in> set apps" "sim_mode (sim_on sb) = LocalLearning"
    using local_set_up by blast
  obtain cx p where cx: "P4SwitchApp_ReceivePacket env0 0 cx_local = Inr (True, cx)" "ip_dst (cx_ip cx) = 9"
      "cx_eff cx = [ProcessedTrace p 1]"
    using local_hit by blast
  have "fires env0 0 (P4App (LeafN 0) a t LocalLearning) (SwTrace (ProcessedTrace p 1))"
    by (rule fires.p4 [OF cx(1) [unfolded cx_local_def]]) (simp_all add: cx(3))
  with set_up(2) have "list_all (run_ok env0 0 apps) [AppFires (P4App (LeafN 0) a t LocalLearning) (SwTrace (ProcessedTrace p 1))]"
    by simp
  from local_learning_reports_no_hits [OF set_up(1,3) _ this, of ratio_text to_string 0 0 1]
  have "report_entry (TraceSimulation_StopSimulation ratio_text to_string 0 0 (fold stats_step (concat (map (deliver (sim_mode (sim_on sb)))
      [AppFires (P4App (LeafN 0) a t LocalLearning) (SwTrace (ProcessedTrace p 1))])) ts')) ''switch_to_hits'' 1 = None"
    by (simp add: sim_on_def)
  with set_up(1) cx show ?thesis by fastforce
qed

end
