(* ===== verification/Spec2Isabelle.thy ===== *)
theory Spec2Isabelle
  imports Sim_Main App_Helpers Trace_Sources
begin

text \<open>
  \<^bold>\<open>SwitchV2P\<close> is a simulator (C++, on ns-3) of data centres in which switches cache the translation of virtual
  container addresses to physical host addresses. This development models the program's own code under
  \<^verbatim>\<open>src/switchv2p\<close> and proves what makes it correct.

  \<^bold>\<open>The program.\<close> \<^verbatim>\<open>sim.cc\<close> reads the options and runs a simulation. \<open>TraceSimulation\<close> (\<^verbatim>\<open>trace-sim.cc\<close>) parses a
  placement of containers and a trace of flows, on top of \<open>SimulationBase\<close> (\<^verbatim>\<open>sim-base.cc\<close>), which builds the
  topology, addresses, routes and tunnels. On the hosts, clients (\<^verbatim>\<open>client-app.cc\<close>, \<^verbatim>\<open>tcp-client-app.cc\<close>) start the
  flows; the tunnel endpoint of a host (\<^verbatim>\<open>socket-helper.cc\<close>) sends packets of containers to a gateway
  (\<^verbatim>\<open>gateway-app.cc\<close>), which knows the address table. Switches intercept the packets: \<open>P4SwitchApp\<close>
  (\<^verbatim>\<open>p4-switch-app.cc\<close>) learns mappings, translates packets that are on the way to a gateway, passes evicted entries
  on to other switches and drops entries that turn out to be stale; \<open>SwitchApp\<close> (\<^verbatim>\<open>switch-app.cc\<close>) translates from a
  cache that the controller (\<^verbatim>\<open>ilp-controller-app.cc\<close>) fills with the solution of an optimisation problem. Callbacks
  of \<open>TraceSimulation\<close> count what happens, and a container may migrate during the run.

  \<^bold>\<open>Conventions.\<close> A C++ function is a function of its arguments and of the state it changes, which it returns. Its result
  is \<open>Inr\<close> of a value, or \<open>Inl\<close> of the reason why it has none: an exception, a failed assertion, or undefined
  behaviour (an index out of range, a division by zero). Calls that act on the simulator (sending, scheduling,
  tracing) are effects in a list. Integers have the width of the source where it matters and are numbers otherwise,
  with conversions written out. \<open>returns m P\<close> says that \<open>m\<close> has a value and that \<open>P\<close> holds of it: a property
  stated with it includes that the code does not fail.

  \<^bold>\<open>Theories\<close>, in the order in which they build on each other:

  \<^item> \<open>Cpp_Prelude\<close>: errors, the error monad, \<open>returns\<close>, vectors, ordered maps, bytes and decimal numbers.
  \<^item> \<open>Cache_Interface\<close>: the locales \<open>lossy_cache\<close> and \<open>evicting_cache\<close>, the contract of a cache as its users see it.
  \<^item> \<open>P4_Cache\<close> (\<^verbatim>\<open>include/p4-cache.h\<close>) and \<open>LRU_Cache\<close> (\<^verbatim>\<open>include/lru-cache.h\<close>): both caches interpret the
    locales. Coherence over any run, no silent loss, refinement of move-to-front with truncation, capacity over any
    sequence of calls (\<open>Remove\<close> of an absent key is the one call that is undefined).
  \<^item> \<open>Bloom_Filter\<close> (\<^verbatim>\<open>include/bloom-filter.h\<close>): exact below its size, outside its storage above.
  \<^item> \<open>Packet_Tags\<close> (\<^verbatim>\<open>eviction-tag.cc\<close>, \<^verbatim>\<open>invalidation-tag.cc\<close>, \<^verbatim>\<open>hit-tag.cc\<close>, \<^verbatim>\<open>timestamp-tag.cc\<close>) and \<open>Packets\<close>: the
    locale \<open>tag_codec\<close>, interpreted for all four tags; headers and tags of a packet.
  \<^item> \<open>Ip_Utils\<close> (\<^verbatim>\<open>ip-utils.cc\<close>): the addressing plan, without collisions. \<open>Sim_Parameters\<close>: parameters and plain data.
  \<^item> \<open>P4_Switch\<close>, \<open>Bluebird\<close> and \<open>P4_Switch_Coherence\<close> (\<^verbatim>\<open>p4-switch-app.cc\<close>): \<open>ReceivePacket\<close> with its branches for
    leaves, spines and cores, protocol packets, generated packets, the Bluebird control plane and its events. The
    handler never fails and never invents an address; invalidation, translation and promotion on each branch; the state
    after \<open>Setup\<close>; no packet is lost between Bluebird's queue and its events, in any order of events.
  \<^item> \<open>Switch_App\<close> (\<^verbatim>\<open>switch-app.cc\<close>): every packet is reported to the controller once; translation.
  \<^item> \<open>Gateway\<close> (\<^verbatim>\<open>gateway-app.cc\<close>) and \<open>Socket_Helper\<close> (\<^verbatim>\<open>socket-helper.cc\<close>): translation of a batch, choice of a
    gateway, misdelivered packets.
  \<^item> \<open>Network\<close>: hosts, switches and gateways together, as the step relation \<open>net_step\<close> over packets in flight. Any switch
    may handle any packet at any time, so every topology, route and timing is covered. The invariant \<open>net_inv\<close> gives
    that addresses are truthful, that packets reach the right host, and that no switch fails. A network that both learns
    sources and migrates is included: there a container may also be held at one of the two hosts of the migration
    although it was never there (\<open>misled\<close>), and at no other address.
  \<^item> \<open>Network_Delivery\<close>: the second invariant \<open>tag_inv\<close> says which packets may carry the tag of an earlier misdelivery;
    from it no endpoint fails on a packet in flight. It needs a network that does not both learn sources and migrate
    (\<open>strict_cfg\<close>).
  \<^item> \<open>Sim_Base\<close>, \<open>Routing\<close> and \<open>Tunnel\<close> (\<^verbatim>\<open>sim-base.cc\<close>): construction, topology, addresses, routes, tunnels. The locale
    \<open>forwarding_plane\<close> shows that every packet reaches its node; it is interpreted on the network that the code
    builds. \<open>prepared\<close> collects what the set-up leaves.
  \<^item> \<open>Trace_Input\<close>, \<open>Trace_Stats\<close>, \<open>Trace_Apps\<close> and \<open>Trace_Migration\<close> (\<^verbatim>\<open>trace-sim.cc\<close>): parsing of trace and
    placement, statistics, the applications on every node in every mode, migration.
  \<^item> \<open>Trace_Report\<close> and \<open>Trace_Sources\<close> (\<^verbatim>\<open>trace-sim.cc\<close>): the report of a run is exact and its averages do not
    wrap around within stated bounds; no application reports anything and no device, queue or network layer drops a
    packet without the counters, in any mode. Packets that a switch drops from its own Bluebird queue have no trace
    source and are not counted; in mode LocalLearning no hits are reported at all.
  \<^item> \<open>Routed_Delivery\<close>: the network and the routes together. A packet walks from node to node and through the switches it
    passes, while the network goes on; every walk ends at the host the packet is addressed to after at most twelve hops.
  \<^item> \<open>Packet_Tracking\<close>: one packet followed from hand to hand. \<open>tracked\<close> gives where exactly this packet is after a step of a
    host or a gateway; after at most six of them, whatever else happens in between, the packet itself has been received
    by the present host of its container, unchanged, across the migration.
  \<^item> \<open>App_Lifecycle\<close> (\<^verbatim>\<open>p4-switch-app.cc\<close>, \<^verbatim>\<open>switch-app.cc\<close>, \<^verbatim>\<open>gateway-app.cc\<close>): starting and stopping, the sockets of a
    switch and of a gateway, interceptors.
  \<^item> \<open>Tcp_Client\<close> (\<^verbatim>\<open>tcp-client-app.cc\<close>) and \<open>Client_App\<close> (\<^verbatim>\<open>client-app.cc\<close>): a flow is sent exactly once over its
    life, and every flow of the trace starts at its time.
  \<^item> \<open>Ilp_Controller\<close> (\<^verbatim>\<open>ilp-controller-app.cc\<close>): with a solver that keeps its contract, a query installs a
    placement of least cost, and the switches that the term computed for a flow charges form a path of the network that
    the set-up has built, to the leaf of the gateway of the flow.
  \<^item> \<open>Controller_Net\<close>: the mode Controller as the step relation \<open>ctl_step\<close> over packets, queries, the migration, time and the
    stop of the controller, from the state that the set-up leaves: nothing fails, switches redirect to addresses of
    the table, and no query is missed or comes after the stop.
  \<^item> \<open>App_Helpers\<close> (\<^verbatim>\<open>include/app-helper.h\<close> and the helpers like it): installation of applications on nodes.
  \<^item> \<open>Deployment\<close> and \<open>Sim_Main\<close> (\<^verbatim>\<open>sim.cc\<close>, \<open>Configure\<close>, \<open>InitializeNodes\<close>, \<open>InstallNetworkStack\<close>, helpers): from the
    options and the placement file to the initial state of the network (\<open>deployment_ready\<close>), so that its invariants, the delivery of its packets and their walks hold
    for the simulation \<open>main\<close> builds. Conditions of this kind stand in the texts of the theorems: the memory read behind the list of
    gateway leaves must hold a value no smaller than the number of leaves, the target of a migration must be a host without
    a gateway and, unless the topology is a fat tree, on a leaf of the first pod (\<open>follow_me_target\<close> shows why); delivery and
    walks also need that source learning and migration are not combined.
  \<^item> This theory: source learning together with a migration poisons a cache.

  \<^bold>\<open>Code that is not in the repository\<close> is a parameter: ns-3's CRC (\<open>env_crc\<close>), its address parsers (\<open>ipv4\<close>,
  \<open>masks\<close>; \<open>dotted_quad\<close> is their documented behaviour), the choice among matching routes (\<open>ns3_lookup\<close>), what a UDP socket
  adds to a packet (\<open>encap_ok\<close>), \<open>Send\<close> and \<open>Bind\<close> of a TCP socket (\<open>socket_contract\<close>), the delay estimator, transmission
  times and the room in a queue, \<open>Hash64\<close> and the printer of addresses; the solver Z3 (\<open>solver_contract\<close>); the order in
  which \<open>std::sort\<close> leaves flows of the same time (\<open>sorts_flows\<close>); the memory behind a vector that is read past its end
  (\<open>beyond\<close>) and uninitialised fields (\<open>uninit\<close>); random numbers (\<open>rnd\<close>). Hypotheses on them are shown to be
  satisfiable by concrete functions in the examples.

  \<^bold>\<open>Loops and bounds.\<close> The only loop of the program that may run forever is the one of \<open>TcpClientApp::SendData\<close>: it is a
  partial function into \<open>option\<close>, it is proved to return for a flow with a limit, and not to return for a flow of
  size 0. The run of a client is a function with a termination proof; all other loops are structural recursion. There
  is no fuel. The dimensions of the topology must fit an octet of an address (\<open>octets_ok\<close>), which the code does not
  check.

  \<^bold>\<open>Not modelled\<close>: running and destroying the simulator (\<open>StartSimulation\<close>, \<open>StopSimulation\<close> of \<open>SimulationBase\<close>), which
  only call ns-3; the JSON reader and writer, and the text of floating-point quotients and times in the report
  (\<open>quot\<close>, \<open>us\<close>); logging and printing; type registration beyond attributes and trace sources. \<open>m_packetToSocket\<close> is written and never
  read, \<open>m_lastGwPackets\<close> and \<open>m_gatewayThroughput\<close> are unused; the exact costs of the controller are commented out. The
  patch of ns-3, the hardware prototype in P4 and the Python scripts are other programs.
\<close>

section \<open>Source learning and misdelivery\<close>

text \<open>What a leaf that learns sources does with a translated packet that has crossed the network.\<close>

lemma leaf_learns_source:
  assumes "p4_wf (env_crc E) (p4s_cache sw)" and "p4s_switchType sw = LEAF" and "p4s_simMode sw = SwitchV2P"
    and "at_SourceLearning (p4s_attrs sw)" and "ucast (ip_ttl ip) < at_TTL (p4s_attrs sw) - 1"
    and "ip_src ip \<noteq> 0" and "ip_dst ip \<notin> p4s_gwAddresses sw"
    and "pkt_headers p = HUdp u # HIp inner # hs" and "udp_dport u = PORT_NUMBER" and "pkt_inval p = None"
  shows "\<exists>cx. P4SwitchApp_ReceivePacket E rnd \<lparr>cx_pkt = p, cx_ip = ip, cx_sw = sw, cx_eff = []\<rparr> = Inr (True, cx) \<and>
           p4_lookup (env_crc E) (p4s_cache (cx_sw cx)) (ip_src inner) = Some (ip_src ip)"
proof -
  obtain c where "P4Cache_Put (env_crc E) (ip_src inner) (ip_src ip) (p4s_cache sw) = Inr c"
      "p4_lookup (env_crc E) c (ip_src inner) = Some (ip_src ip)"
    using p4.put_spec [OF assms(1,6), of "ip_src inner"] by blast
  with assms(2-5,7-10) show ?thesis
    by (simp add: P4SwitchApp_ReceivePacket_def RemoveUdp_def RemoveIp_def SWITCH_PORT_def PORT_NUMBER_def
        P4SwitchApp_SwitchV2PLogic_def ReceivePacket_learn_translate_def ReceivePacket_leaf_def
        ReceivePacket_translate_def Let_def emit_def set_cache_def)
qed

text \<open>C25: Source learning and migration do not mix. Take a packet that a switch translated to the host a
  container has left. The host tags it and sends it to a gateway from its own address; the gateway translates
  it and removes the tag, but leaves the outer source; a leaf that learns sources then maps the sender's
  virtual address to the host of the receiver, where the sender has never been.\<close>

theorem source_learning_poisons:
  assumes "sh_wf sh" and "sh_physicalAddress sh \<noteq> 0" and "encap_ok encap"
    and "pkt_headers p = HIp h # hs" and "ip_ttl h < 64" and "pkt_inval p = None" and "pkt_hit p \<noteq> None"
    and "vtp (ip_dst h) = Some a" and "a \<notin> p4s_gwAddresses sw"
    and "p4_wf (env_crc E) (p4s_cache sw)" and "p4s_switchType sw = LEAF" and "p4s_simMode sw = SwitchV2P"
    and "at_SourceLearning (p4s_attrs sw)" and "ucast ttl < at_TTL (p4s_attrs sw) - 1"
  shows "\<exists>sh' q i g t r outer rest cx.
     SocketHelper_VirtualSend E flow0 now p sh = Inr (True, sh', [ScheduleSendToGateway 10000 q i]) \<and>
     SocketHelper_SendToGateway q i sh' = Inr [HostSendTo q g PORT_NUMBER] \<and>
     GatewayApp_ReceivePacket vtp [encap (sh_physicalAddress sh) q g PORT_NUMBER] = Inr [(t, r, h)] \<and>
     pkt_headers (fst (GatewayApp_SendPacket r h)) = HIp outer # rest \<and> ip_dst outer = a \<and>
     P4SwitchApp_ReceivePacket E rnd \<lparr>cx_pkt = (fst (GatewayApp_SendPacket r h))\<lparr>pkt_headers := rest\<rparr>,
       cx_ip = outer\<lparr>ip_ttl := ttl\<rparr>, cx_sw = sw, cx_eff = []\<rparr> = Inr (True, cx) \<and>
     p4_lookup (env_crc E) (p4s_cache (cx_sw cx)) (ip_src h) = Some (sh_physicalAddress sh)"
proof -
  obtain sh' i where send: "SocketHelper_VirtualSend E flow0 now p sh =
        Inr (True, sh', [ScheduleSendToGateway 10000 (misdelivered sh h p) i])"
      "unat i = gw_index E flow0 p h sh" "sh_gatewayAddresses sh' = sh_gatewayAddresses sh"
    using VirtualSend_misdelivered [OF assms(1,4-6), of E flow0 now] assms(7) by (auto simp: returns_def)
  define q where "q = misdelivered sh h p"
  define g where "g = sh_gatewayAddresses sh ! gw_index E flow0 p h sh"
  have gw: "SocketHelper_SendToGateway q i sh' = Inr [HostSendTo q g PORT_NUMBER]"
    using send(2,3) gw_index_bound [OF assms(1), of E flow0 p h]
    by (simp add: SocketHelper_SendToGateway_def g_def)
  obtain ip u where enc: "encap (sh_physicalAddress sh) q g PORT_NUMBER =
        q\<lparr>pkt_headers := HIp ip # HUdp u # pkt_headers q\<rparr>"
      "ip_src ip = sh_physicalAddress sh" "udp_dport u = PORT_NUMBER"
    using assms(3) unfolding encap_ok_def by metis
  have hq: "pkt_headers q = HIp h # hs"
    using assms(4) by (simp add: q_def misdelivered_def)
  define r where "r = q\<lparr>pkt_headers := HIp (ip\<lparr>ip_dst := a\<rparr>) # HUdp u # HIp h # hs\<rparr>"
  have tun: "tunnelled (encap (sh_physicalAddress sh) q g PORT_NUMBER) ip u h hs"
    using enc(1) hq by (simp add: tunnelled_def)
  have rec: "GatewayApp_ReceivePacket vtp [encap (sh_physicalAddress sh) q g PORT_NUMBER] = Inr [(40000, r, h)]"
    using GatewayApp_handle_tunnelled [OF tun, of vtp] assms(8) enc(1) by (simp add: r_def)
  let ?p = "(fst (GatewayApp_SendPacket r h))\<lparr>pkt_headers := HUdp u # HIp h # hs\<rparr>"
  obtain cx where "P4SwitchApp_ReceivePacket E rnd \<lparr>cx_pkt = ?p, cx_ip = ip\<lparr>ip_dst := a, ip_ttl := ttl\<rparr>,
        cx_sw = sw, cx_eff = []\<rparr> = Inr (True, cx)"
      "p4_lookup (env_crc E) (p4s_cache (cx_sw cx)) (ip_src h) = Some (sh_physicalAddress sh)"
    using leaf_learns_source [where p = ?p and ip = "ip\<lparr>ip_dst := a, ip_ttl := ttl\<rparr>", OF assms(10-13)]
      assms(2,9,14) enc(2,3) by (auto simp: GatewayApp_SendPacket_def Let_def)
  moreover have "pkt_headers (fst (GatewayApp_SendPacket r h)) = HIp (ip\<lparr>ip_dst := a\<rparr>) # HUdp u # HIp h # hs"
    by (simp add: GatewayApp_SendPacket_def r_def Let_def)
  ultimately show ?thesis
    using send(1) gw rec unfolding q_def [symmetric]
    by (intro exI conjI) (assumption | simp)+
qed

definition learning_leaf :: P4Switch where
  "learning_leaf = (sw0 LEAF)\<lparr>p4s_attrs := attrs0\<lparr>at_SourceLearning := True\<rparr>\<rparr>"

theorem source_learning_poisons_witness:
  "\<exists>p outer cx. P4SwitchApp_ReceivePacket env0 0 \<lparr>cx_pkt = p, cx_ip = outer, cx_sw = learning_leaf, cx_eff = []\<rparr> =
       Inr (True, cx) \<and> ip_dst outer = 77 \<and> p4_lookup byte_sum (p4s_cache (cx_sw cx)) 2 = Some 9"
proof -
  have "p4_wf (env_crc env0) (p4s_cache learning_leaf)"
    using cache4_one_wf(1) by (simp add: learning_leaf_def sw0_def env0_def)
  with source_learning_poisons [OF sh0_wf _ encap0_ok, of
      "(host_pkt0 63)\<lparr>pkt_hit := Some \<lparr>ht_address = 50, ht_switchId = 1\<rparr>\<rparr>"
      "\<lparr>ip_src = 2, ip_dst = 1, ip_ttl = 63\<rparr>" "[]" "[1 \<mapsto> 77, 2 \<mapsto> 8]" 77 learning_leaf env0 60 0 0 0]
  have "\<exists>p outer cx. P4SwitchApp_ReceivePacket env0 0 \<lparr>cx_pkt = p, cx_ip = outer\<lparr>ip_ttl := 60\<rparr>,
       cx_sw = learning_leaf, cx_eff = []\<rparr> = Inr (True, cx) \<and> ip_dst outer = 77 \<and>
     p4_lookup (env_crc env0) (p4s_cache (cx_sw cx)) 2 = Some 9"
    by (simp add: host_pkt0_def Packet_create_def sh0_def SocketHelper_new_def learning_leaf_def sw0_def
        attrs0_def P4SwitchApp_GetTypeId_def) blast
  then obtain p outer cx where "P4SwitchApp_ReceivePacket env0 0 \<lparr>cx_pkt = p, cx_ip = outer\<lparr>ip_ttl := 60\<rparr>,
       cx_sw = learning_leaf, cx_eff = []\<rparr> = Inr (True, cx)" "ip_dst (outer\<lparr>ip_ttl := 60\<rparr>) = 77"
     "p4_lookup byte_sum (p4s_cache (cx_sw cx)) 2 = Some 9"
    by (auto simp: env0_def)
  then show ?thesis by blast
qed

end
